(* ===== verification/Prelude.thy ===== *)
theory Prelude
  imports Complex_Main "HOL-Library.Word" "HOL-Library.Multiset"
    "HOL-Library.Char_ord" "HOL-Library.List_Lexorder"
begin

text \<open>
  Vocabulary the component theories share: the error type of a Go call that returns
  \<open>(value, error)\<close>, the collections of facts the component proofs rest on, and the generic
  lemmas on lists, sums over lists and order statistics that several components need.
\<close>

text \<open>A Go \<open>error\<close> is its message; a call that returns \<open>(T, error)\<close> returns \<open>'a go_result\<close>.\<close>

type_synonym go_error = string
type_synonym 'a go_result = "go_error + 'a"

text \<open>Unsigned and signed machine integers of the source.\<close>

type_synonym u64 = "64 word"
type_synonym u32 = "32 word"
type_synonym u8 = "8 word"

named_theorems f64_simps "rewriting of float64 operations"
named_theorems f64_mono "monotonicity of float64 operations"
named_theorems hist_simps "facts about the histogram buckets"

text \<open>Go's int64 arithmetic where a wrap is possible: the value read back as two's complement.\<close>

definition wrap64 :: "int \<Rightarrow> int" where
  "wrap64 n = (n + 2 ^ 63) mod 2 ^ 64 - 2 ^ 63"

lemma wrap64_id: "- (2 ^ 63) \<le> n \<Longrightarrow> n < 2 ^ 63 \<Longrightarrow> wrap64 n = n"
  by (simp add: wrap64_def)

lemma wrap64_range: "- (2 ^ 63) \<le> wrap64 n \<and> wrap64 n < 2 ^ 63"
  by (simp add: wrap64_def)

lemma unat_u64_less: "unat (w :: u64) < 2 ^ 64"
  by (rule order_less_le_trans [OF unsigned_less]) simp

text \<open>Go's integer division truncates towards zero.\<close>

definition quot :: "int \<Rightarrow> int \<Rightarrow> int" where
  "quot a b = sgn a * sgn b * (\<bar>a\<bar> div \<bar>b\<bar>)"

lemma quot_nonneg: "0 \<le> a \<Longrightarrow> 0 < b \<Longrightarrow> quot a b = a div b"
  by (cases "a = 0") (simp_all add: quot_def)

lemma div_window:
  assumes "0 < (d :: int)"
  shows "x div d = w \<longleftrightarrow> w * d \<le> x \<and> x < w * d + d"
proof
  assume "x div d = w"
  moreover have "x = x div d * d + x mod d" "0 \<le> x mod d" "x mod d < d" using assms by simp_all
  ultimately show "w * d \<le> x \<and> x < w * d + d" by auto
next
  assume "w * d \<le> x \<and> x < w * d + d"
  then show "x div d = w"
    by (intro int_div_pos_eq[where r = "x - d * w"]) (simp_all add: algebra_simps)
qed

section \<open>Order statistics\<close>

text \<open>How many elements of a list lie at or below a bound.\<close>

definition count_le :: "'a::linorder list \<Rightarrow> 'a \<Rightarrow> nat" where
  "count_le xs b = length (filter (\<lambda>x. x \<le> b) xs)"

lemma count_le_Nil [simp]: "count_le [] b = 0"
  by (simp add: count_le_def)

lemma count_le_Cons: "count_le (x # xs) b = (if x \<le> b then 1 else 0) + count_le xs b"
  by (simp add: count_le_def)

lemma count_le_append: "count_le (xs @ ys) b = count_le xs b + count_le ys b"
  by (simp add: count_le_def)

lemma count_le_length: "count_le xs b \<le> length xs"
  by (simp add: count_le_def)

lemma count_le_mono: "a \<le> b \<Longrightarrow> count_le xs a \<le> count_le xs b"
  by (induction xs) (auto simp: count_le_Cons)

lemma count_le_mset: "mset xs = mset ys \<Longrightarrow> count_le xs b = count_le ys b"
  by (metis count_le_def mset_filter size_mset)

lemma count_le_sort [simp]: "count_le (sort xs) b = count_le xs b"
  by (rule count_le_mset) simp

text \<open>The element of rank \<open>k\<close> (counted from one) of a list.\<close>

definition rank :: "'a::linorder list \<Rightarrow> nat \<Rightarrow> 'a" where
  "rank xs k = sort xs ! (k - 1)"

lemma sorted_nth_le_iff_count:
  assumes "sorted xs" and "k < length xs"
  shows "xs ! k \<le> b \<longleftrightarrow> k < count_le xs b"
  using assms
proof (induction xs arbitrary: k)
  case Nil
  then show ?case by simp
next
  case (Cons x xs)
  show ?case
  proof (cases "x \<le> b")
    case True
    then show ?thesis
      using Cons by (cases k) (auto simp: count_le_Cons)
  next
    case False
    then have "\<forall>y \<in> set xs. \<not> y \<le> b" using Cons.prems(1) by auto
    then have "count_le (x # xs) b = 0"
      using False by (simp add: count_le_def filter_False)
    moreover have "x \<le> (x # xs) ! k"
      using Cons.prems by (cases k) auto
    ultimately show ?thesis using False by auto
  qed
qed

lemma rank_le_iff:
  assumes "0 < k" and "k \<le> length xs"
  shows "rank xs k \<le> b \<longleftrightarrow> k \<le> count_le xs b"
proof -
  have "rank xs k \<le> b \<longleftrightarrow> k - 1 < count_le (sort xs) b"
    unfolding rank_def using assms by (intro sorted_nth_le_iff_count) auto
  then show ?thesis using assms by auto
qed

lemma count_le_below: "list_all2 (\<le>) xs ys \<Longrightarrow> count_le ys b \<le> count_le xs b"
  by (induction xs ys rule: list_all2_induct) (auto simp: count_le_Cons)

lemma sort_below:
  assumes "list_all2 (\<le>) xs ys"
  shows "list_all2 (\<le>) (sort xs) (sort (ys :: 'a::linorder list))"
proof (rule list_all2_all_nthI)
  have len: "length xs = length ys" using assms by (rule list_all2_lengthD)
  then show "length (sort xs) = length (sort ys)" by simp
  fix k assume k: "k < length (sort xs)"
  have "Suc k \<le> count_le ys (rank ys (Suc k))"
    using rank_le_iff[of "Suc k" ys "rank ys (Suc k)"] k len by simp
  then have "rank xs (Suc k) \<le> rank ys (Suc k)"
    using rank_le_iff[of "Suc k" xs "rank ys (Suc k)"] count_le_below[OF assms, of "rank ys (Suc k)"] k by simp
  then show "sort xs ! k \<le> sort ys ! k" by (simp add: rank_def)
qed

lemma rank_in_set: "0 < k \<Longrightarrow> k \<le> length xs \<Longrightarrow> rank xs k \<in> set xs"
  unfolding rank_def by (metis Suc_pred' Suc_le_lessD length_sort nth_mem set_sort)

lemma rank_mono:
  assumes "0 < j" and "j \<le> k" and "k \<le> length xs"
  shows "rank xs j \<le> rank xs k"
  using assms by (auto simp: rank_def intro!: sorted_nth_mono)

section \<open>Sums and lists\<close>

lemma sum_list_update_nat:
  "i < length xs \<Longrightarrow> sum_list (xs[i := v]) + xs ! i = sum_list xs + (v :: nat)"
proof (induction xs arbitrary: i)
  case Nil
  then show ?case by simp
next
  case (Cons x xs)
  then show ?case by (cases i) (simp_all add: algebra_simps)
qed

lemma sum_list_take_Suc:
  "i < length xs \<Longrightarrow> sum_list (take (Suc i) xs) = sum_list (take i xs) + (xs ! i :: nat)"
  by (simp add: take_Suc_conv_app_nth)

lemma length_filter_mono: "(\<And>x. P x \<Longrightarrow> Q x) \<Longrightarrow> length (filter P xs) \<le> length (filter Q xs)"
  by (induction xs) auto

lemma sum_list_take_le: "sum_list (take i xs) \<le> sum_list (xs :: nat list)"
  by (metis append_take_drop_id le_add1 sum_list_append)

lemma int_sum_list: "int (sum_list xs) = sum_list (map int xs)"
  by (induction xs) simp_all

lemma length_filter_update:
  "i < length xs \<Longrightarrow> length (filter P (xs[i := v])) + (if P (xs ! i) then 1 else 0)
     = length (filter P xs) + (if P v then 1 else 0)"
proof (induction xs arbitrary: i)
  case (Cons x xs)
  then show ?case by (cases i) auto
qed simp

lemma in_set_update: "x \<in> set xs \<Longrightarrow> x \<noteq> xs ! i \<Longrightarrow> x \<in> set (xs[i := v])"
  by (metis in_set_conv_nth length_list_update nth_list_update_neq)

lemma last_in_sorted_max: "sorted xs \<Longrightarrow> x \<in> set xs \<Longrightarrow> x \<le> last xs"
  by (induction xs) auto

lemma sort_mset_cong: "mset xs = mset ys \<Longrightarrow> sort xs = sort ys"
  by (rule properties_for_sort) simp_all

lemma sum_list_filter_split:
  "sum_list (map f (filter P xs)) + sum_list (map f (filter (\<lambda>x. \<not> P x) xs)) = (sum_list (map f xs) :: nat)"
  by (induction xs) auto

lemma length_filter_eq_sum:
  assumes "distinct ks" and "set xs \<subseteq> set ks"
  shows "sum_list (map (\<lambda>k. length (filter (\<lambda>x. x = k) xs)) ks) = length xs"
  using assms
proof (induction xs)
  case Nil
  then show ?case by (simp add: sum_list_0)
next
  case (Cons x xs)
  have "sum_list (map (\<lambda>k. length (filter (\<lambda>y. y = k) (x # xs))) ks)
      = sum_list (map (\<lambda>k. (if k = x then 1 else 0) + length (filter (\<lambda>y. y = k) xs)) ks)"
    by (rule arg_cong[where f = sum_list]) auto
  also have "\<dots> = sum_list (map (\<lambda>k. if k = x then 1 else 0) ks) + length xs"
    using Cons by (simp add: sum_list_addf)
  also have "sum_list (map (\<lambda>k. if k = x then 1 else 0) ks) = (1 :: nat)"
    using Cons.prems by (simp add: sum_list_distinct_conv_sum_set sum.delta)
  finally show ?case by simp
qed

section \<open>Go maps\<close>

text \<open>
  A Go map the code iterates over is an association list with distinct keys; \<open>map_upd k f m\<close> is
  \<open>m[k] = f(m[k])\<close> with \<open>f\<close> told whether the key was there. The order of the list stands for the
  iteration order, which Go leaves open: no result of the model may rest on it.
\<close>

fun map_upd :: "'k \<Rightarrow> ('v option \<Rightarrow> 'v) \<Rightarrow> ('k \<times> 'v) list \<Rightarrow> ('k \<times> 'v) list" where
  "map_upd k f [] = [(k, f None)]"
| "map_upd k f ((a, v) # m) = (if a = k then (a, f (Some v)) # m else (a, v) # map_upd k f m)"

lemma map_of_map_upd: "map_of (map_upd k f m) = (map_of m)(k \<mapsto> f (map_of m k))"
  by (induction k f m rule: map_upd.induct) auto

lemma keys_map_upd: "fst ` set (map_upd k f m) = insert k (fst ` set m)"
  by (induction k f m rule: map_upd.induct) auto

lemma distinct_map_upd: "distinct (map fst m) \<Longrightarrow> distinct (map fst (map_upd k f m))"
  by (induction k f m rule: map_upd.induct) (auto simp: keys_map_upd)

text \<open>\<open>m[k] += n\<close> and \<open>m[k] = append(m[k], xs...)\<close>.\<close>

definition plus_at :: "nat \<Rightarrow> nat option \<Rightarrow> nat" where
  "plus_at n v = (case v of None \<Rightarrow> 0 | Some m \<Rightarrow> m) + n"

definition append_at :: "'a list \<Rightarrow> 'a list option \<Rightarrow> 'a list" where
  "append_at xs v = (case v of None \<Rightarrow> [] | Some l \<Rightarrow> l) @ xs"

definition merge_counts :: "('k \<times> nat) list \<Rightarrow> ('k \<times> nat) list \<Rightarrow> ('k \<times> nat) list" where
  "merge_counts acc st = foldl (\<lambda>acc (s, n). map_upd s (plus_at n) acc) acc st"

lemma sum_map_upd:
  "sum_list (map (\<lambda>kv. h (snd kv)) (map_upd k f m)) + (case map_of m k of None \<Rightarrow> 0 | Some v \<Rightarrow> h v)
     = sum_list (map (\<lambda>kv. h (snd kv)) m) + (h (f (map_of m k)) :: nat)"
  by (induction k f m rule: map_upd.induct) (auto split: option.splits)

lemma sum_plus_at:
  "sum_list (map snd (map_upd k (plus_at n) m)) = sum_list (map snd m) + n"
  using sum_map_upd[of "\<lambda>v. v" k "plus_at n" m] by (auto simp: plus_at_def split: option.splits)

lemma sum_append_at:
  "sum_list (map (\<lambda>kv. length (snd kv)) (map_upd k (append_at xs) m))
     = sum_list (map (\<lambda>kv. length (snd kv)) m) + length xs"
  using sum_map_upd[of length k "append_at xs" m] by (auto simp: append_at_def split: option.splits)

lemma sum_merge_counts:
  "sum_list (map snd (merge_counts acc st)) = sum_list (map snd acc) + sum_list (map snd st)"
  unfolding merge_counts_def by (induction st arbitrary: acc) (auto simp: sum_plus_at)

text \<open>\<open>m[key] = append(m[key], value)\<close> for every element of a list.\<close>

definition group_by :: "('a \<Rightarrow> 'k) \<Rightarrow> ('a \<Rightarrow> 'v) \<Rightarrow> 'a list \<Rightarrow> ('k \<times> 'v list) list" where
  "group_by key val xs =
     foldl (\<lambda>m x. map_upd (key x) (\<lambda>v. (case v of None \<Rightarrow> [] | Some l \<Rightarrow> l) @ [val x]) m) [] xs"

lemma group_by_snoc:
  "group_by key val (xs @ [x]) =
     map_upd (key x) (\<lambda>v. (case v of None \<Rightarrow> [] | Some l \<Rightarrow> l) @ [val x]) (group_by key val xs)"
  by (simp add: group_by_def)

lemma map_of_group_by:
  "map_of (group_by key val xs) k =
     (if k \<in> key ` set xs then Some (map val (filter (\<lambda>x. key x = k) xs)) else None)"
proof (induction xs rule: rev_induct)
  case Nil
  then show ?case by (simp add: group_by_def)
next
  case (snoc x xs)
  then show ?case
    by (cases "key x \<in> key ` set xs")
      (auto simp: group_by_snoc map_of_map_upd filter_empty_conv image_iff, metis)
qed

lemma keys_group_by: "fst ` set (group_by key val xs) = key ` set xs"
  by (induction xs rule: rev_induct) (simp_all add: group_by_snoc keys_map_upd, simp add: group_by_def)

lemma distinct_group_by: "distinct (map fst (group_by key val xs))"
  by (induction xs rule: rev_induct) (simp_all add: group_by_snoc distinct_map_upd, simp add: group_by_def)

text \<open>The groups share out the list: their lengths add up to its length.\<close>

lemma group_by_lengths:
  assumes "mset ks = mset (map fst (group_by key val xs))"
  shows "sum_list (map (\<lambda>k. length (the (map_of (group_by key val xs) k))) ks) = length xs"
proof -
  have ks: "distinct ks" "set ks = key ` set xs"
    using assms distinct_group_by[of key val xs] keys_group_by[of key val xs]
    by (metis mset_eq_imp_distinct_iff, metis list.set_map mset_eq_setD)
  then have eq: "map (\<lambda>k. length (the (map_of (group_by key val xs) k))) ks
      = map (\<lambda>k. length (filter (\<lambda>x. x = k) (map key xs))) ks"
    by (auto simp: map_of_group_by filter_map comp_def)
  show ?thesis unfolding eq using ks length_filter_eq_sum[of ks "map key xs"] by simp
qed

end
