(* ===== verification/Float64.thy ===== *)
theory Float64
  imports Prelude "HOL-Library.Log_Nat"
begin

text \<open>
  Go's \<open>float64\<close>. A finite double is the rational number it denotes, and an operation is the
  exact operation on rationals followed by \<open>fl\<close>, the IEEE 754 rounding to nearest, ties to
  even, with a 53 bit significand and gradual underflow below \<open>2 powi (-1022)\<close>. Infinities and
  NaN are outside the type: no quantity of the program reaches \<open>2 powi 1024\<close>, and every division
  the source guards against zero keeps its guard in the model. The sign of a zero is not kept.
\<close>

type_synonym f64 = rat

section \<open>Rounding to nearest, ties to even\<close>

definition rhe :: "rat \<Rightarrow> int" where
  "rhe q = (let f = \<lfloor>q\<rfloor>; r = q - of_int f
            in if r < 1 / 2 then f else if 1 / 2 < r then f + 1 else if even f then f else f + 1)"

lemma rhe_floor: "\<lfloor>q\<rfloor> \<le> rhe q" "rhe q \<le> \<lfloor>q\<rfloor> + 1"
  by (simp_all add: rhe_def Let_def)

lemma rhe_of_int [simp]: "rhe (of_int i) = i"
  by (simp add: rhe_def)

lemma rhe_numeral [simp]: "rhe 0 = 0" "rhe 1 = 1" "rhe (numeral n) = numeral n"
  by (simp_all add: rhe_def)

lemma rhe_mono:
  assumes "x \<le> y"
  shows "rhe x \<le> rhe y"
proof (cases "\<lfloor>x\<rfloor> = \<lfloor>y\<rfloor>")
  case True
  then show ?thesis using assms by (auto simp: rhe_def Let_def)
next
  case False
  with assms have "\<lfloor>x\<rfloor> + 1 \<le> \<lfloor>y\<rfloor>" using floor_mono[OF assms] by simp
  then show ?thesis using rhe_floor(2)[of x] rhe_floor(1)[of y] by linarith
qed

lemma rhe_error: "\<bar>of_int (rhe q) - q\<bar> \<le> 1 / 2"
proof -
  have "of_int \<lfloor>q\<rfloor> \<le> q" "q < of_int \<lfloor>q\<rfloor> + 1" by linarith+
  then show ?thesis by (auto simp: rhe_def Let_def abs_le_iff)
qed

lemma rhe_le_int: "q \<le> of_int i \<Longrightarrow> rhe q \<le> i"
  using rhe_mono[of q "of_int i"] by simp

lemma rhe_ge_int: "of_int i \<le> q \<Longrightarrow> i \<le> rhe q"
  using rhe_mono[of "of_int i" q] by simp

section \<open>The binary exponent of a positive rational\<close>

definition qlog2 :: "rat \<Rightarrow> int" where
  "qlog2 q = (case quotient_of q of (n, d) \<Rightarrow>
     let k = bitlen n - bitlen d in if 2 powi k \<le> q then k else k - 1)"

lemma bitlen_bounds_rat:
  assumes "0 < (n :: int)"
  shows "2 powi (bitlen n - 1) \<le> (of_int n :: rat)" "(of_int n :: rat) < 2 powi bitlen n"
proof -
  have b: "2 ^ nat (bitlen n - 1) \<le> n" "n < 2 ^ nat (bitlen n)"
    using bitlen_bounds[OF assms] by auto
  have pos: "0 < bitlen n" using assms by (simp add: bitlen_alt_def)
  have "(2 :: rat) powi (bitlen n - 1) = of_int (2 ^ nat (bitlen n - 1))"
    using pos by (simp add: power_int_def)
  with b(1) show "2 powi (bitlen n - 1) \<le> (of_int n :: rat)"
    by (metis of_int_le_iff)
  have "(2 :: rat) powi bitlen n = of_int (2 ^ nat (bitlen n))"
    using pos by (simp add: power_int_def)
  with b(2) show "(of_int n :: rat) < 2 powi bitlen n"
    by (metis of_int_less_iff)
qed

lemma qlog2_bounds:
  assumes "0 < q"
  shows "2 powi qlog2 q \<le> q \<and> q < 2 powi (qlog2 q + 1)"
proof -
  obtain n d where nd: "quotient_of q = (n, d)" by fastforce
  have d: "0 < d" using nd quotient_of_denom_pos by blast
  have q: "q = of_int n / of_int d" using nd by (simp add: quotient_of_div)
  have n: "0 < n" using assms d q by (simp add: zero_less_divide_iff)
  let ?k = "bitlen n - bitlen d"
  note bn = bitlen_bounds_rat[OF n] and bd = bitlen_bounds_rat[OF d]
  have dpos: "(0 :: rat) < of_int d" using d by simp
  have "q < 2 powi bitlen n / of_int d"
    unfolding q using bn(2) dpos by (simp add: divide_strict_right_mono)
  also have "\<dots> \<le> 2 powi bitlen n / 2 powi (bitlen d - 1)"
    using bd(1) by (intro divide_left_mono) (auto intro!: mult_pos_pos dpos)
  also have "\<dots> = 2 powi (?k + 1)"
    by (simp add: power_int_diff[symmetric] algebra_simps)
  finally have up: "q < 2 powi (?k + 1)" .
  have "2 powi (?k - 1) = 2 powi (bitlen n - 1) / (2 powi bitlen d :: rat)"
    by (simp add: power_int_diff[symmetric] algebra_simps)
  also have "\<dots> \<le> 2 powi (bitlen n - 1) / of_int d"
    using bd(2) dpos by (intro divide_left_mono) (auto intro!: mult_pos_pos)
  also have "\<dots> \<le> q"
    unfolding q using bn(1) dpos by (simp add: divide_right_mono)
  finally have lo: "2 powi (?k - 1) \<le> q" .
  show ?thesis
    using up lo by (auto simp: qlog2_def nd Let_def)
qed

lemma powi2_less_iff: "(2 :: rat) powi a < 2 powi b \<longleftrightarrow> a < b"
  by (metis linorder_neqE_linordered_idom not_less_iff_gr_or_eq one_less_numeral_iff
      power_int_strict_increasing semiring_norm(76))

lemma powi2_le_iff: "(2 :: rat) powi a \<le> 2 powi b \<longleftrightarrow> a \<le> b"
  by (meson linorder_not_le powi2_less_iff)

lemma qlog2_unique:
  assumes "2 powi k \<le> q" and "q < 2 powi (k + 1)"
  shows "qlog2 q = k"
proof -
  have "0 < q" using assms(1) by (meson less_le_trans zero_less_power_int zero_less_numeral)
  note b = qlog2_bounds[OF this]
  have "(2 :: rat) powi k < 2 powi (qlog2 q + 1)" using assms b by (meson le_less_trans)
  moreover have "(2 :: rat) powi qlog2 q < 2 powi (k + 1)" using assms b by (meson le_less_trans)
  ultimately show ?thesis by (simp add: powi2_less_iff)
qed

lemma qlog2_mono: "0 < x \<Longrightarrow> x \<le> y \<Longrightarrow> qlog2 x \<le> qlog2 y"
proof -
  assume "0 < x" "x \<le> y"
  then have "2 powi qlog2 x < (2 powi (qlog2 y + 1) :: rat)"
    using qlog2_bounds[of x] qlog2_bounds[of y] by linarith
  then show ?thesis by (simp add: powi2_less_iff)
qed

section \<open>Rounding a rational to a double\<close>

text \<open>The exponent of the last significand bit: 53 bits, and never below \<open>-1074\<close>.\<close>

definition fexp :: "rat \<Rightarrow> int" where
  "fexp q = max (- 1074) (qlog2 q - 52)"

definition fl_pos :: "rat \<Rightarrow> f64" where
  "fl_pos q = of_int (rhe (q * 2 powi (- fexp q))) * 2 powi fexp q"

definition fl :: "rat \<Rightarrow> f64" where
  "fl q = (if q = 0 then 0 else if 0 < q then fl_pos q else - fl_pos (- q))"

lemma fexp_mono: "0 < x \<Longrightarrow> x \<le> y \<Longrightarrow> fexp x \<le> fexp y"
  using qlog2_mono[of x y] by (auto simp: fexp_def)

lemma scaled_le:
  assumes "0 < q"
  shows "q * 2 powi (- fexp q) \<le> of_int (2 ^ 53)"
proof -
  have "q \<le> 2 powi (fexp q + 53)"
    using qlog2_bounds[OF assms] powi2_le_iff[of "qlog2 q + 1" "fexp q + 53"]
    by (auto simp: fexp_def)
  then have "q * 2 powi (- fexp q) \<le> 2 powi (fexp q + 53) * 2 powi (- fexp q)"
    by (simp add: mult_right_mono)
  also have "\<dots> = 2 powi 53"
    by (simp add: power_int_add[symmetric])
  finally show ?thesis by simp
qed

lemma fl_pos_upper: "0 < q \<Longrightarrow> fl_pos q \<le> 2 powi (fexp q + 53)"
proof -
  assume q: "0 < q"
  have "rhe (q * 2 powi (- fexp q)) \<le> 2 ^ 53"
    by (rule rhe_le_int) (rule scaled_le[OF q])
  then have "of_int (rhe (q * 2 powi (- fexp q))) \<le> (of_int (2 ^ 53) :: rat)"
    by (simp only: of_int_le_iff)
  then have "fl_pos q \<le> of_int (2 ^ 53) * 2 powi fexp q"
    unfolding fl_pos_def by (intro mult_right_mono) auto
  then show ?thesis by (simp add: power_int_add)
qed

lemma fl_pos_lower:
  assumes q: "0 < q" and e: "fexp q = qlog2 q - 52"
  shows "2 powi qlog2 q \<le> fl_pos q"
proof -
  have "2 powi qlog2 q * 2 powi (- fexp q) \<le> q * 2 powi (- fexp q)"
    using qlog2_bounds[OF q] by (simp add: mult_right_mono)
  moreover have "2 powi qlog2 q * 2 powi (- fexp q) = (of_int (2 ^ 52) :: rat)"
    using e by (simp add: power_int_add[symmetric])
  ultimately have "2 ^ 52 \<le> rhe (q * 2 powi (- fexp q))"
    by (intro rhe_ge_int) simp
  then have "(of_int (2 ^ 52) :: rat) \<le> of_int (rhe (q * 2 powi (- fexp q)))"
    by (simp only: of_int_le_iff)
  then have "of_int (2 ^ 52) * 2 powi fexp q \<le> fl_pos q"
    unfolding fl_pos_def by (intro mult_right_mono) auto
  moreover have "of_int (2 ^ 52) * 2 powi fexp q = (2 powi qlog2 q :: rat)"
    using e by (simp add: power_int_diff)
  ultimately show ?thesis by simp
qed

lemma fl_pos_nonneg: "0 < q \<Longrightarrow> 0 \<le> fl_pos q"
proof -
  assume "0 < q"
  then have "0 \<le> rhe (q * 2 powi (- fexp q))"
    by (intro rhe_ge_int) simp
  then show ?thesis by (simp add: fl_pos_def)
qed

lemma fl_pos_mono:
  assumes "0 < x" and "x \<le> y"
  shows "fl_pos x \<le> fl_pos y"
proof (cases "fexp x = fexp y")
  case True
  have "rhe (x * 2 powi (- fexp y)) \<le> rhe (y * 2 powi (- fexp y))"
    using assms(2) by (intro rhe_mono mult_right_mono) auto
  then show ?thesis by (simp add: fl_pos_def True)
next
  case False
  with fexp_mono[OF assms] have less: "fexp x < fexp y" by simp
  then have e: "fexp y = qlog2 y - 52" by (auto simp: fexp_def)
  have "fl_pos x \<le> 2 powi (fexp x + 53)" using assms(1) by (rule fl_pos_upper)
  also have "\<dots> \<le> 2 powi qlog2 y" using less e by (simp add: powi2_le_iff)
  also have "\<dots> \<le> fl_pos y" using assms e by (intro fl_pos_lower) auto
  finally show ?thesis .
qed

lemma fl_zero [simp, f64_simps]: "fl 0 = 0"
  by (simp add: fl_def)

lemma fl_minus [f64_simps]: "fl (- q) = - fl q"
  by (simp add: fl_def)

lemma fl_nonneg [f64_mono]: "0 \<le> q \<Longrightarrow> 0 \<le> fl q"
  by (simp add: fl_def fl_pos_nonneg)

lemma fl_nonpos: "q \<le> 0 \<Longrightarrow> fl q \<le> 0"
  using fl_nonneg[of "- q"] by (simp add: fl_minus)

lemma fl_mono [f64_mono]:
  assumes "x \<le> y"
  shows "fl x \<le> fl y"
proof -
  consider "0 < x" | "x \<le> 0" "0 \<le> y" | "y < 0" by linarith
  then show ?thesis
  proof cases
    case 1
    then show ?thesis using assms by (simp add: fl_def fl_pos_mono)
  next
    case 2
    then show ?thesis using fl_nonneg[of y] fl_nonpos[of x] by linarith
  next
    case 3
    then have "fl_pos (- y) \<le> fl_pos (- x)" using assms by (intro fl_pos_mono) auto
    with 3 assms show ?thesis by (simp add: fl_def)
  qed
qed

section \<open>Which numbers are exact\<close>

lemma fl_pos_exact:
  assumes "0 < m" and "m \<le> 2 ^ 53" and "- 1074 \<le> e"
  shows "fl_pos (of_int m * 2 powi e) = of_int m * 2 powi e"
proof (cases "m = 2 ^ 53")
  case True
  let ?q = "of_int m * 2 powi e :: rat"
  have q: "?q = 2 powi (e + 53)" by (simp add: True power_int_add)
  then have l: "qlog2 ?q = e + 53" by (intro qlog2_unique) (simp_all add: power_int_add)
  then have fe: "fexp ?q = e + 1" using assms(3) by (simp add: fexp_def)
  have "?q * 2 powi (- fexp ?q) = 2 powi (e + 53) * 2 powi (- (e + 1))"
    unfolding fe by (simp only: q)
  then have "?q * 2 powi (- fexp ?q) = of_int (2 ^ 52)"
    by (simp add: power_int_add[symmetric])
  then have "fl_pos ?q = of_int (2 ^ 52) * 2 powi (e + 1)"
    unfolding fl_pos_def by (simp only: fe rhe_of_int)
  then show ?thesis unfolding q by (simp add: power_int_add)
next
  case False
  let ?q = "of_int m * 2 powi e :: rat"
  have mlt: "(of_int m :: rat) < 2 ^ 53"
    using False assms(2) by (metis of_int_less_iff of_int_numeral of_int_power order_less_le)
  have qpos: "0 < ?q" using assms(1) by simp
  have "?q < 2 ^ 53 * 2 powi e" using mlt by (simp add: mult_strict_right_mono)
  also have "\<dots> = (2 powi (e + 53) :: rat)" by (simp add: power_int_add)
  finally have "2 powi qlog2 ?q < (2 powi (e + 53) :: rat)" using qlog2_bounds[OF qpos] by linarith
  then have fe: "fexp ?q \<le> e" using assms(3) by (simp add: fexp_def powi2_less_iff)
  have "?q * 2 powi (- fexp ?q) = of_int m * 2 powi (e - fexp ?q)"
    by (simp add: power_int_diff power_int_minus field_simps)
  also have "\<dots> = of_int (m * 2 ^ nat (e - fexp ?q))"
    using fe by (simp add: power_int_def)
  finally have "rhe (?q * 2 powi (- fexp ?q)) = m * 2 ^ nat (e - fexp ?q)"
    by (simp only: rhe_of_int)
  then have "fl_pos ?q = of_int m * (2 powi (e - fexp ?q) * 2 powi fexp ?q)"
    unfolding fl_pos_def using fe by (simp add: power_int_def)
  then show ?thesis by (simp add: power_int_add[symmetric])
qed

lemma fl_exact:
  assumes "\<bar>m\<bar> \<le> 2 ^ 53" and "- 1074 \<le> e"
  shows "fl (of_int m * 2 powi e) = of_int m * 2 powi e"
proof -
  consider "0 < m" | "m = 0" | "m < 0" by linarith
  then show ?thesis
  proof cases
    case 1
    then show ?thesis using fl_pos_exact[of m e] assms by (simp add: fl_def)
  next
    case 2
    then show ?thesis by simp
  next
    case 3
    then have "of_int m * 2 powi e < (0 :: rat)" by (simp add: mult_less_0_iff)
    with 3 show ?thesis using fl_pos_exact[of "- m" e] assms by (auto simp: fl_def)
  qed
qed

lemma fl_of_int: "\<bar>i\<bar> \<le> 2 ^ 53 \<Longrightarrow> fl (of_int i) = of_int i"
  using fl_exact[of i 0] by simp

lemma fl_of_nat: "n \<le> 2 ^ 53 \<Longrightarrow> fl (of_nat n) = of_nat n"
  using fl_of_int[of "int n"] by (simp add: nat_le_iff)

lemma fl_idem [simp, f64_simps]: "fl (fl q) = fl q"
proof -
  have pos: "fl (fl_pos p) = fl_pos p" if p: "0 < p" for p
  proof -
    have "0 \<le> rhe (p * 2 powi (- fexp p))" "rhe (p * 2 powi (- fexp p)) \<le> 2 ^ 53"
      using p scaled_le[OF p] by (auto intro: rhe_ge_int rhe_le_int)
    then show ?thesis unfolding fl_pos_def by (intro fl_exact) (auto simp: fexp_def)
  qed
  show ?thesis
    using pos[of q] pos[of "- q"] by (cases "0 < q") (auto simp: fl_def[of q] fl_minus)
qed

section \<open>The rounding error\<close>

lemma fl_rel_error:
  assumes "2 powi (- 1022) \<le> q"
  shows "\<bar>fl q - q\<bar> \<le> q / 2 ^ 53"
proof -
  have q: "0 < q" using assms by (meson less_le_trans zero_less_power_int zero_less_numeral)
  have "2 powi (- 1022) < (2 powi (qlog2 q + 1) :: rat)" using assms qlog2_bounds[OF q] by linarith
  then have "- 1022 < qlog2 q + 1" by (simp only: powi2_less_iff)
  then have fe: "fexp q = qlog2 q - 52" by (simp add: fexp_def)
  have "fl q - q = (of_int (rhe (q * 2 powi (- fexp q))) - q * 2 powi (- fexp q)) * 2 powi fexp q"
    using q by (simp add: fl_def fl_pos_def left_diff_distrib power_int_minus)
  then have "\<bar>fl q - q\<bar> = \<bar>of_int (rhe (q * 2 powi (- fexp q))) - q * 2 powi (- fexp q)\<bar> * 2 powi fexp q"
    by (simp add: abs_mult)
  also have "\<dots> \<le> 1 / 2 * 2 powi fexp q"
    by (intro mult_right_mono rhe_error) simp
  also have "\<dots> = 2 powi qlog2 q / 2 ^ 53"
    by (simp add: fe power_int_diff)
  also have "\<dots> \<le> q / 2 ^ 53"
    using qlog2_bounds[OF q] by (simp add: divide_right_mono)
  finally show ?thesis .
qed

section \<open>The operations of the source\<close>

definition fadd :: "f64 \<Rightarrow> f64 \<Rightarrow> f64" where "fadd a b = fl (a + b)"
definition fsub :: "f64 \<Rightarrow> f64 \<Rightarrow> f64" where "fsub a b = fl (a - b)"
definition fmul :: "f64 \<Rightarrow> f64 \<Rightarrow> f64" where "fmul a b = fl (a * b)"
definition fdiv :: "f64 \<Rightarrow> f64 \<Rightarrow> f64" where "fdiv a b = fl (a / b)"

text \<open>\<open>float64(i)\<close> for an integer, and \<open>int(v)\<close>, which drops the fraction towards zero.\<close>

definition f64_of_int :: "int \<Rightarrow> f64" where "f64_of_int i = fl (of_int i)"

definition trunc :: "f64 \<Rightarrow> int" where
  "trunc v = (if 0 \<le> v then \<lfloor>v\<rfloor> else - \<lfloor>- v\<rfloor>)"

text \<open>\<open>math.Round\<close> (half away from zero), \<open>math.Ceil\<close> and \<open>math.Abs\<close>.\<close>

definition math_Round :: "f64 \<Rightarrow> f64" where
  "math_Round v = of_int (if 0 \<le> v then \<lfloor>v + 1 / 2\<rfloor> else - \<lfloor>1 / 2 - v\<rfloor>)"

definition math_Ceil :: "f64 \<Rightarrow> f64" where "math_Ceil v = of_int \<lceil>v\<rceil>"

text \<open>
  \<open>math.Sqrt\<close>, correctly rounded: the integer root of \<open>x\<close> scaled by \<open>4 ^ 60\<close> or more carries
  more bits than a significand, and an odd last bit stands for the remainder the root dropped.
\<close>

function isqrt :: "nat \<Rightarrow> nat" where
  "isqrt n = (if n = 0 then 0
     else let r = 2 * isqrt (n div 4) in if (r + 1) * (r + 1) \<le> n then r + 1 else r)"
  by pat_completeness auto
termination by (relation "measure id") auto

declare isqrt.simps [simp del]

definition math_Sqrt :: "f64 \<Rightarrow> f64" where
  "math_Sqrt x = (if x \<le> 0 then 0 else
     let k = max 0 (60 - qlog2 x div 2);
         y = x * 2 powi (2 * k);
         s = isqrt (nat \<lfloor>y\<rfloor>);
         sticky = (if of_nat (s * s) = y then 0 else 1)
     in fl (of_int (int (2 * s + sticky)) / 2 powi (k + 1)))"

lemma isqrt_bounds: "isqrt n * isqrt n \<le> n \<and> n < (isqrt n + 1) * (isqrt n + 1)"
proof (induction n rule: isqrt.induct)
  case (1 n)
  show ?case
  proof (cases "n = 0")
    case True
    then show ?thesis by (simp add: isqrt.simps)
  next
    case False
    let ?r = "isqrt (n div 4)"
    have "4 * (?r * ?r) \<le> 4 * (n div 4)" "4 * (n div 4) + 4 \<le> 4 * ((?r + 1) * (?r + 1))"
      using "1.IH"[OF False] by auto
    moreover have "4 * (n div 4) \<le> n" "n < 4 * (n div 4) + 4" by arith+
    ultimately have "4 * (?r * ?r) \<le> n" "n < 4 * ((?r + 1) * (?r + 1))" by linarith+
    then have "(2 * ?r) * (2 * ?r) \<le> n" "n < (2 * ?r + 2) * (2 * ?r + 2)"
      by (auto simp: algebra_simps)
    then show ?thesis using False by (subst (1 2 3 4) isqrt.simps) (auto simp: Let_def)
  qed
qed

lemma isqrt_unique: "r * r \<le> n \<Longrightarrow> n < (r + 1) * (r + 1) \<Longrightarrow> isqrt n = r"
  using isqrt_bounds[of n] by (metis Suc_eq_plus1 le_less_trans less_Suc_eq_le mult_le_mono not_le order_antisym)

text \<open>The helpers \<open>round3\<close> and \<open>round2\<close> that round half away from zero, and those that truncate.\<close>

definition round3 :: "f64 \<Rightarrow> f64" where "round3 v = fdiv (math_Round (fmul v 1000)) 1000"
definition round2 :: "f64 \<Rightarrow> f64" where "round2 v = fdiv (math_Round (fmul v 100)) 100"

definition round_int :: "int \<Rightarrow> f64 \<Rightarrow> f64" where
  "round_int m v = fdiv (f64_of_int (trunc (fadd (fmul v (of_int m)) (1 / 2)))) (of_int m)"

section \<open>Monotone rounding\<close>

text \<open>
  What the published numbers go through: a monotone map that keeps zero. Every rounding of the
  source is one, so each of them keeps the order of a list of percentiles, and rounding a rank
  of a list is the rank of the rounded list.
\<close>

locale rounding =
  fixes rnd :: "rat \<Rightarrow> rat"
  assumes rnd_mono: "x \<le> y \<Longrightarrow> rnd x \<le> rnd y"
    and rnd_zero: "rnd 0 = 0"
begin

lemma rnd_nonneg: "0 \<le> x \<Longrightarrow> 0 \<le> rnd x"
  using rnd_mono[of 0 x] by (simp add: rnd_zero)

lemma rnd_max: "rnd (max x y) = max (rnd x) (rnd y)"
  using rnd_mono[of x y] rnd_mono[of y x] by (auto simp: max_def)

lemma rnd_sorted: "sorted xs \<Longrightarrow> sorted (map rnd xs)"
  by (induction xs) (auto intro: rnd_mono)

lemma rnd_sort: "sort (map rnd xs) = map rnd (sort xs)"
proof (rule properties_for_sort)
  show "mset (map rnd (sort xs)) = mset (map rnd xs)" by simp
  show "sorted (map rnd (sort xs))" by (rule rnd_sorted) simp
qed

lemma rnd_rank: "0 < k \<Longrightarrow> k \<le> length xs \<Longrightarrow> rank (map rnd xs) k = rnd (rank xs k)"
  by (simp add: rank_def rnd_sort)

lemma rnd_rank_mono:
  "0 < j \<Longrightarrow> j \<le> k \<Longrightarrow> k \<le> length xs \<Longrightarrow> rnd (rank xs j) \<le> rnd (rank xs k)"
  by (intro rnd_mono rank_mono)

end

lemma floor_half [simp]: "\<lfloor>1 / 2 :: rat\<rfloor> = 0"
  by (simp add: floor_eq_iff)

lemma sign_split_mono:
  fixes x y :: rat and a b c d :: int
  assumes "x \<le> y" and "a \<le> c" and "d \<le> b" and "x < 0 \<Longrightarrow> 0 \<le> b" and "0 \<le> y \<Longrightarrow> 0 \<le> c"
  shows "(if 0 \<le> x then a else - b) \<le> (if 0 \<le> y then c else - d)"
  using assms by (cases "0 \<le> x"; cases "0 \<le> y") auto

lemma trunc_mono: "x \<le> y \<Longrightarrow> trunc x \<le> trunc y"
  unfolding trunc_def by (rule sign_split_mono) (auto intro: floor_mono simp: zero_le_floor)

lemma math_Round_mono: "x \<le> y \<Longrightarrow> math_Round x \<le> math_Round y"
  unfolding math_Round_def of_int_le_iff
  by (rule sign_split_mono) (auto intro: floor_mono simp: zero_le_floor)

lemma math_Ceil_mono: "x \<le> y \<Longrightarrow> math_Ceil x \<le> math_Ceil y"
  by (simp add: math_Ceil_def ceiling_mono)

lemma fadd_mono [f64_mono]: "a \<le> c \<Longrightarrow> b \<le> d \<Longrightarrow> fadd a b \<le> fadd c d"
  by (simp add: fadd_def fl_mono add_mono)

lemma fsub_mono [f64_mono]: "a \<le> c \<Longrightarrow> d \<le> b \<Longrightarrow> fsub a b \<le> fsub c d"
  by (simp add: fsub_def fl_mono diff_mono)

lemma fmul_mono [f64_mono]: "0 \<le> a \<Longrightarrow> a \<le> c \<Longrightarrow> 0 \<le> b \<Longrightarrow> b \<le> d \<Longrightarrow> fmul a b \<le> fmul c d"
  by (simp add: fmul_def fl_mono mult_mono)

lemma fdiv_mono [f64_mono]: "a \<le> c \<Longrightarrow> 0 < b \<Longrightarrow> fdiv a b \<le> fdiv c b"
  by (simp add: fdiv_def fl_mono divide_right_mono)

lemma f64_of_int_mono [f64_mono]: "i \<le> j \<Longrightarrow> f64_of_int i \<le> f64_of_int j"
  by (simp add: f64_of_int_def fl_mono)

lemma fadd_nonneg: "0 \<le> a \<Longrightarrow> 0 \<le> b \<Longrightarrow> 0 \<le> fadd a b"
  by (simp add: fadd_def fl_nonneg)

lemma fmul_nonneg: "0 \<le> a \<Longrightarrow> 0 \<le> b \<Longrightarrow> 0 \<le> fmul a b"
  by (simp add: fmul_def fl_nonneg)

lemma fdiv_nonneg: "0 \<le> a \<Longrightarrow> 0 \<le> b \<Longrightarrow> 0 \<le> fdiv a b"
  by (simp add: fdiv_def fl_nonneg)

lemma f64_of_int_nonneg: "0 \<le> i \<Longrightarrow> 0 \<le> f64_of_int i"
  by (simp add: f64_of_int_def fl_nonneg)

lemmas f64_nonneg = fl_nonneg fadd_nonneg fmul_nonneg fdiv_nonneg f64_of_int_nonneg

lemma f64_of_int_exact [f64_simps]: "\<bar>i\<bar> \<le> 2 ^ 53 \<Longrightarrow> f64_of_int i = of_int i"
  by (simp add: f64_of_int_def fl_of_int)

lemma fl_half [simp]: "fl (1 / 2) = 1 / 2"
  using fl_exact[of 1 "- 1"] by (simp add: power_int_minus)

interpretation fl_rounding: rounding fl
  by unfold_locales (simp_all add: fl_mono)

interpretation round3_rounding: rounding round3
proof
  fix x y :: rat
  assume "x \<le> y"
  then show "round3 x \<le> round3 y"
    by (auto simp: round3_def fmul_def intro!: fdiv_mono math_Round_mono fl_mono)
qed (simp add: round3_def fmul_def fdiv_def math_Round_def)

interpretation round2_rounding: rounding round2
proof
  fix x y :: rat
  assume "x \<le> y"
  then show "round2 x \<le> round2 y"
    by (auto simp: round2_def fmul_def intro!: fdiv_mono math_Round_mono fl_mono)
qed (simp add: round2_def fmul_def fdiv_def math_Round_def)

lemma round_int_mono: "0 < m \<Longrightarrow> x \<le> y \<Longrightarrow> round_int m x \<le> round_int m y"
  unfolding round_int_def
  by (intro fdiv_mono f64_of_int_mono trunc_mono fadd_mono) (auto simp: fmul_def intro: fl_mono)

lemma round_int_zero: "round_int m 0 = 0"
  by (simp add: round_int_def fmul_def fadd_def fdiv_def trunc_def f64_of_int_def)

section \<open>Microseconds published as milliseconds\<close>

text \<open>
  A whole number of microseconds divided by a thousand and rounded to three decimals is the
  double nearest to it: the rounding helper adds no second error.
\<close>

lemma near_int_Round:
  assumes "\<bar>b - of_int i\<bar> < 1 / 2" and "0 \<le> b"
  shows "math_Round b = of_int i"
proof -
  have "of_int i \<le> b + 1 / 2" "b + 1 / 2 < of_int i + 1"
    using assms(1) unfolding abs_less_iff by linarith+
  then have "\<lfloor>b + 1 / 2\<rfloor> = i" by (rule floor_unique)
  then show ?thesis using assms(2) by (simp add: math_Round_def)
qed

lemma scaled_back_close:
  fixes us :: rat
  assumes "1 \<le> us" and "us \<le> 2 ^ 50"
  shows "\<bar>fl (fl (us / 1000) * 1000) - us\<bar> < 1 / 2"
proof -
  have n: "(2 :: rat) powi (- 1022) \<le> 1 / 2 ^ 20"
    using powi2_le_iff[of "- 1022" "- 20"] by (simp add: power_int_minus field_simps)
  let ?a = "fl (us / 1000)"
  have a: "\<bar>?a - us / 1000\<bar> \<le> us / 1000 / 2 ^ 53"
    using assms n by (intro fl_rel_error) (auto simp: field_simps)
  then have "us / 1000 - us / 1000 / 2 ^ 53 \<le> ?a" by linarith
  moreover have "us / 2000 \<le> us / 1000 - us / 1000 / 2 ^ 53" using assms by simp
  ultimately have ge: "us / 2000 \<le> ?a" by linarith
  have b: "\<bar>fl (?a * 1000) - ?a * 1000\<bar> \<le> ?a * 1000 / 2 ^ 53"
    using ge assms n by (intro fl_rel_error) (auto simp: field_simps)
  have a': "\<bar>?a * 1000 - us\<bar> \<le> us / 2 ^ 53"
    using a unfolding abs_le_iff by linarith
  then have "?a * 1000 \<le> us + us / 2 ^ 53" by linarith
  then have "?a * 1000 / 2 ^ 53 \<le> (us + us / 2 ^ 53) / 2 ^ 53" by (rule divide_right_mono) simp
  with a' b have "\<bar>fl (?a * 1000) - us\<bar> \<le> us / 2 ^ 53 + (us + us / 2 ^ 53) / 2 ^ 53"
    by linarith
  also have "\<dots> < 1 / 2" using assms by (simp add: field_simps)
  finally show ?thesis .
qed

lemma round3_thousandths:
  assumes "0 \<le> us" and "us \<le> 2 ^ 50"
  shows "round3 (fdiv (f64_of_int us) 1000) = fl (of_int us / 1000)"
proof (cases "us = 0")
  case True
  then show ?thesis by (simp add: round3_def fdiv_def fmul_def f64_of_int_def math_Round_def)
next
  case False
  have us: "f64_of_int us = of_int us" using assms by (intro f64_of_int_exact) auto
  have "(of_int us :: rat) \<le> of_int (2 ^ 50)" using assms(2) by (simp only: of_int_le_iff)
  then have "\<bar>fl (fl (of_int us / 1000) * 1000) - of_int us\<bar> < 1 / 2"
    using False assms(1) by (intro scaled_back_close) auto
  then have "math_Round (fl (fl (of_int us / 1000) * 1000)) = of_int us"
    using assms(1) by (intro near_int_Round) (auto intro!: fl_nonneg)
  then show ?thesis by (simp add: round3_def fdiv_def fmul_def us)
qed

end
