(* ===== verification/GoStrings.thy ===== *)
theory GoStrings
  imports Float64
begin

text \<open>
  The operations of Go's \<open>strings\<close> and \<open>strconv\<close> packages the program uses, on byte strings (a
  HOL \<open>char\<close> is a byte). White space is the ASCII white space; \<open>ParseFloat\<close> reads decimal
  literals and rounds them once, the words for infinities and NaN are not numbers of the model.
\<close>

section \<open>Cutting strings\<close>

definition is_space :: "char \<Rightarrow> bool" where
  "is_space c \<longleftrightarrow> (of_char c :: nat) \<in> {9, 10, 11, 12, 13, 32}"

definition TrimSpace :: "string \<Rightarrow> string" where
  "TrimSpace s = rev (dropWhile is_space (rev (dropWhile is_space s)))"

definition HasPrefix :: "string \<Rightarrow> string \<Rightarrow> bool" where
  "HasPrefix s p \<longleftrightarrow> take (length p) s = p"

definition HasSuffix :: "string \<Rightarrow> string \<Rightarrow> bool" where
  "HasSuffix s p \<longleftrightarrow> HasPrefix (rev s) (rev p)"

definition TrimPrefix :: "string \<Rightarrow> string \<Rightarrow> string" where
  "TrimPrefix s p = (if HasPrefix s p then drop (length p) s else s)"

definition TrimSuffix :: "string \<Rightarrow> string \<Rightarrow> string" where
  "TrimSuffix s p = (if HasSuffix s p then take (length s - length p) s else s)"

definition CutPrefix :: "string \<Rightarrow> string \<Rightarrow> string option" where
  "CutPrefix s p = (if HasPrefix s p then Some (drop (length p) s) else None)"

fun strings_Index :: "string \<Rightarrow> string \<Rightarrow> nat option" where
  "strings_Index [] p = (if p = [] then Some 0 else None)"
| "strings_Index (c # s) p =
     (if HasPrefix (c # s) p then Some 0 else map_option Suc (strings_Index s p))"

definition strings_Contains :: "string \<Rightarrow> string \<Rightarrow> bool" where
  "strings_Contains s p \<longleftrightarrow> strings_Index s p \<noteq> None"

definition strings_Cut :: "string \<Rightarrow> string \<Rightarrow> (string \<times> string) option" where
  "strings_Cut s p = map_option (\<lambda>i. (take i s, drop (i + length p) s)) (strings_Index s p)"

text \<open>The last position of a byte, as \<open>LastIndexByte\<close> has it.\<close>

fun last_index :: "char \<Rightarrow> string \<Rightarrow> nat option" where
  "last_index d [] = None"
| "last_index d (c # s) =
     (case last_index d s of Some i \<Rightarrow> Some (Suc i) | None \<Rightarrow> if c = d then Some 0 else None)"

text \<open>\<open>Split\<close> on a single byte and its generalisation to a class of bytes.\<close>

fun split_by :: "(char \<Rightarrow> bool) \<Rightarrow> string \<Rightarrow> string list" where
  "split_by P [] = [[]]"
| "split_by P (c # s) =
     (if P c then [] # split_by P s
      else case split_by P s of [] \<Rightarrow> [[c]] | w # ws \<Rightarrow> (c # w) # ws)"

definition strings_Split :: "string \<Rightarrow> char \<Rightarrow> string list" where
  "strings_Split s d = split_by (\<lambda>c. c = d) s"

definition strings_Fields :: "string \<Rightarrow> string list" where
  "strings_Fields s = filter (\<lambda>w. w \<noteq> []) (split_by is_space s)"

fun strings_Join :: "string list \<Rightarrow> string \<Rightarrow> string" where
  "strings_Join [] sep = []"
| "strings_Join [s] sep = s"
| "strings_Join (s # ss) sep = s @ sep @ strings_Join ss sep"

definition newline :: string where "newline = [CHR 0x0A]"

abbreviation split_lines :: "string \<Rightarrow> string list" where
  "split_lines s \<equiv> strings_Split s (CHR 0x0A)"

text \<open>What \<open>\%q\<close> prints, for ASCII text.\<close>

definition hex_digit :: "nat \<Rightarrow> char" where
  "hex_digit d = (if d < 10 then char_of (48 + d) else char_of (87 + d))"

definition quote_char :: "char \<Rightarrow> string" where
  "quote_char c =
     (let n = of_char c :: nat in
      case map_of [(7, CHR ''a''), (8, CHR ''b''), (9, CHR ''t''), (10, CHR ''n''), (11, CHR ''v''),
          (12, CHR ''f''), (13, CHR ''r''), (34, CHR 0x22), (92, CHR 0x5C)] n of
        Some e \<Rightarrow> [CHR 0x5C, e]
      | None \<Rightarrow> if n < 32 \<or> n = 127 then [CHR 0x5C, CHR ''x'', hex_digit (n div 16), hex_digit (n mod 16)] else [c])"

definition Quote :: "string \<Rightarrow> string" where
  "Quote s = CHR 0x22 # concat (map quote_char s) @ [CHR 0x22]"

definition to_lower :: "char \<Rightarrow> char" where
  "to_lower c = (let n = of_char c :: nat in if 65 \<le> n \<and> n \<le> 90 then char_of (n + 32) else c)"

definition ToLower :: "string \<Rightarrow> string" where
  "ToLower s = map to_lower s"

lemma HasPrefix_iff: "HasPrefix s p \<longleftrightarrow> (\<exists>t. s = p @ t)"
  unfolding HasPrefix_def by (metis append_eq_conv_conj append_take_drop_id)

lemma HasPrefix_append [simp]: "HasPrefix (p @ s) p"
  by (simp add: HasPrefix_def)

lemma HasPrefix_self [simp]: "HasPrefix p p"
  by (simp add: HasPrefix_def)

lemma HasSuffix_iff: "HasSuffix s p \<longleftrightarrow> (\<exists>t. s = t @ p)"
  unfolding HasSuffix_def HasPrefix_iff by (metis rev_append rev_rev_ident)

lemma CutPrefix_Some: "CutPrefix s p = Some t \<longleftrightarrow> s = p @ t"
  by (auto simp: CutPrefix_def HasPrefix_iff)

lemma TrimSuffix_append [simp]: "TrimSuffix (s @ p) p = s"
  by (simp add: TrimSuffix_def HasSuffix_iff)

lemma TrimPrefix_append [simp]: "TrimPrefix (p @ s) p = s"
  by (simp add: TrimPrefix_def)

lemma dropWhile_id: "(\<And>c. c \<in> set s \<Longrightarrow> \<not> P c) \<Longrightarrow> dropWhile P s = s"
  by (cases s) auto

lemma TrimSpace_id:
  assumes "\<forall>c \<in> set s. \<not> is_space c"
  shows "TrimSpace s = s"
  using assms dropWhile_id[of s is_space] dropWhile_id[of "rev s" is_space]
  by (simp add: TrimSpace_def)

lemma split_by_ne [simp]: "split_by P s \<noteq> []"
  by (induction s) (auto split: list.splits)

lemma split_by_append:
  "\<forall>c \<in> set s. \<not> P c \<Longrightarrow> P d \<Longrightarrow> split_by P (s @ d # t) = s # split_by P t"
  by (induction s) auto

lemma split_by_single: "\<forall>c \<in> set s. \<not> P c \<Longrightarrow> split_by P s = [s]"
  by (induction s) auto

lemma split_by_sep: "P d \<Longrightarrow> split_by P (s @ d # t) = split_by P s @ split_by P t"
proof (induction s)
  case (Cons c s)
  then show ?case by (cases "split_by P s") auto
qed simp

lemma TrimSpace_Nil [simp]: "TrimSpace [] = []"
  by (simp add: TrimSpace_def)

lemma TrimSpace_edges:
  assumes "s \<noteq> []" and "\<not> is_space (hd s)" and "\<not> is_space (last s)"
  shows "TrimSpace s = s"
proof -
  have "dropWhile is_space s = s" using assms(1,2) by (cases s) auto
  moreover have "dropWhile is_space (rev s) = rev s" using assms(1,3)
    by (cases s rule: rev_cases) auto
  ultimately show ?thesis by (simp add: TrimSpace_def)
qed

text \<open>Splitting is inverse to joining, for parts without the separator.\<close>

lemma Split_Join:
  assumes "ws \<noteq> []" and "\<forall>w \<in> set ws. d \<notin> set w"
  shows "strings_Split (strings_Join ws [d]) d = ws"
  using assms
proof (induction ws "[d]" rule: strings_Join.induct)
  case 1
  then show ?case by simp
next
  case (2 s)
  then show ?case by (auto simp: strings_Split_def intro!: split_by_single)
next
  case (3 s t ss)
  then have "strings_Split (s @ [d] @ strings_Join (t # ss) [d]) d
      = s # strings_Split (strings_Join (t # ss) [d]) d"
    unfolding strings_Split_def by (simp, subst split_by_append) auto
  then show ?case using 3 by simp
qed

lemma split_by_parts: "\<forall>w \<in> set (split_by P s). \<forall>c \<in> set w. \<not> P c"
proof (induction s)
  case (Cons c s)
  then show ?case by (cases "split_by P s") auto
qed simp

lemma strings_Fields_words: "w \<in> set (strings_Fields s) \<Longrightarrow> w \<noteq> [] \<and> (\<forall>c \<in> set w. \<not> is_space c)"
  unfolding strings_Fields_def using split_by_parts by fastforce

lemma Fields_not_empty: "\<exists>c \<in> set s. \<not> is_space c \<Longrightarrow> strings_Fields s \<noteq> []"
proof -
  assume "\<exists>c \<in> set s. \<not> is_space c"
  then have "\<exists>w \<in> set (split_by is_space s). w \<noteq> []"
  proof (induction s)
    case (Cons c s)
    then show ?case by (cases "split_by is_space s") auto
  qed simp
  then show ?thesis by (simp add: strings_Fields_def filter_empty_conv)
qed

text \<open>Fields is inverse to joining words with one space.\<close>

lemma Fields_Join:
  assumes "\<forall>w \<in> set ws. w \<noteq> [] \<and> (\<forall>c \<in> set w. \<not> is_space c)"
  shows "strings_Fields (strings_Join ws '' '') = ws"
  using assms
proof (induction ws "'' ''" rule: strings_Join.induct)
  case 1
  then show ?case by (simp add: strings_Fields_def)
next
  case (2 s)
  then have "split_by is_space s = [s]" by (intro split_by_single) auto
  then show ?case using 2 by (simp add: strings_Fields_def)
next
  case (3 s t ss)
  have "is_space CHR '' ''" by (simp add: is_space_def)
  then have "split_by is_space (s @ CHR '' '' # strings_Join (t # ss) '' '')
      = s # split_by is_space (strings_Join (t # ss) '' '')"
    using 3 by (intro split_by_append) auto
  then show ?case using 3 by (simp add: strings_Fields_def)
qed

lemma strings_Index_append:
  assumes "p \<noteq> []" and "hd p \<notin> set s"
  shows "strings_Index (s @ p @ t) p = Some (length s)"
  using assms
proof (induction s)
  case Nil
  then show ?case by (cases p) (auto simp: HasPrefix_def)
next
  case (Cons c s)
  then have "\<not> HasPrefix (c # s @ p @ t) p" by (cases p) (auto simp: HasPrefix_def)
  then show ?case using Cons by simp
qed

lemma strings_Cut_append:
  "p \<noteq> [] \<Longrightarrow> hd p \<notin> set s \<Longrightarrow> strings_Cut (s @ p @ t) p = Some (s, t)"
  by (simp add: strings_Cut_def strings_Index_append)

lemma strings_Index_Some:
  "strings_Index s p = Some i \<Longrightarrow> i + length p \<le> length s \<and> take (length p) (drop i s) = p"
proof (induction s arbitrary: i)
  case Nil
  then show ?case by (auto split: if_splits)
next
  case (Cons c s)
  then show ?case
    by (auto simp: HasPrefix_def split: if_splits) (metis length_take min.cobounded1 length_Cons)+
qed

section \<open>Numbers as text\<close>

definition digit_char :: "nat \<Rightarrow> char" where "digit_char d = char_of (48 + d)"

definition is_digit :: "char \<Rightarrow> bool" where
  "is_digit c \<longleftrightarrow> 48 \<le> (of_char c :: nat) \<and> (of_char c :: nat) \<le> 57"

definition digit_val :: "char \<Rightarrow> nat" where "digit_val c = of_char c - 48"

fun nat_text :: "nat \<Rightarrow> string" where
  "nat_text n = (if n < 10 then [digit_char n] else nat_text (n div 10) @ [digit_char (n mod 10)])"

declare nat_text.simps [simp del]

definition itoa :: "int \<Rightarrow> string" where
  "itoa n = (if n < 0 then CHR ''-'' # nat_text (nat (- n)) else nat_text (nat n))"

definition digits_val :: "string \<Rightarrow> nat" where
  "digits_val s = foldl (\<lambda>n c. n * 10 + digit_val c) 0 s"

definition ParseUint :: "string \<Rightarrow> nat option" where
  "ParseUint s = (if s \<noteq> [] \<and> list_all is_digit s \<and> digits_val s < 2 ^ 64 then Some (digits_val s) else None)"

text \<open>\<open>strconv.ParseInt(s, 10, 64)\<close>, which on a 64 bit machine is also \<open>Atoi\<close>.\<close>

definition Atoi :: "string \<Rightarrow> int option" where
  "Atoi s =
     (let neg = (case s of c # _ \<Rightarrow> c = CHR ''-'' | [] \<Rightarrow> False);
          ds = (case s of c # t \<Rightarrow> if c = CHR ''-'' \<or> c = CHR ''+'' then t else s | [] \<Rightarrow> [])
      in if ds = [] \<or> \<not> list_all is_digit ds then None else
         let n = int (digits_val ds) in
         if neg then (if n \<le> 2 ^ 63 then Some (- n) else None)
         else (if n < 2 ^ 63 then Some n else None))"

lemma of_char_digit: "d < 10 \<Longrightarrow> of_char (digit_char d) = 48 + d"
  by (simp add: digit_char_def)

lemma is_digit_char [simp]: "d < 10 \<Longrightarrow> is_digit (digit_char d)"
  by (simp add: is_digit_def of_char_digit)

lemma digit_val_char [simp]: "d < 10 \<Longrightarrow> digit_val (digit_char d) = d"
  by (simp add: digit_val_def of_char_digit)

lemma digits_val_snoc: "digits_val (s @ [c]) = digits_val s * 10 + digit_val c"
  by (simp add: digits_val_def)

lemma nat_text_spec: "nat_text n \<noteq> [] \<and> list_all is_digit (nat_text n) \<and> digits_val (nat_text n) = n"
proof (induction n rule: nat_text.induct)
  case (1 n)
  then show ?case
    by (cases "n < 10")
      (subst nat_text.simps, simp add: digits_val_def, subst nat_text.simps, simp add: digits_val_snoc)+
qed

lemma digit_not_sign: "is_digit c \<Longrightarrow> c \<noteq> CHR ''-'' \<and> c \<noteq> CHR ''+''"
  by (auto simp: is_digit_def)

lemma digit_not_space: "is_digit c \<Longrightarrow> \<not> is_space c"
  by (auto simp: is_digit_def is_space_def)

lemma nat_text_Cons: "\<exists>c s. nat_text n = c # s \<and> c \<noteq> CHR ''-'' \<and> c \<noteq> CHR ''+''"
  using nat_text_spec[of n] by (cases "nat_text n") (auto dest: digit_not_sign)

text \<open>What Go prints with \<open>\%d\<close> it reads back.\<close>

lemma Atoi_itoa:
  assumes "- (2 ^ 63) \<le> n" and "n < 2 ^ 63"
  shows "Atoi (itoa n) = Some n"
proof (cases "n < 0")
  case True
  then show ?thesis using assms nat_text_spec[of "nat (- n)"]
    by (simp add: itoa_def Atoi_def Let_def)
next
  case False
  obtain c s where cs: "nat_text (nat n) = c # s" "c \<noteq> CHR ''-''" "c \<noteq> CHR ''+''"
    using nat_text_Cons by blast
  then show ?thesis using False assms nat_text_spec[of "nat n"]
    by (simp add: itoa_def Atoi_def Let_def)
qed

lemma itoa_not_space: "c \<in> set (itoa n) \<Longrightarrow> \<not> is_space c"
  using nat_text_spec[of "nat n"] nat_text_spec[of "nat (- n)"]
  by (auto simp: itoa_def list_all_iff dest: digit_not_space split: if_splits)
    (simp add: is_space_def)

lemma itoa_ne [simp]: "itoa n \<noteq> []"
  using nat_text_spec by (simp add: itoa_def)

lemma itoa_last: "is_digit (last (itoa n))"
  using nat_text_spec[of "nat n"] nat_text_spec[of "nat (- n)"]
  by (auto simp: itoa_def list_all_iff)

lemma itoa_neq: "w \<noteq> [] \<Longrightarrow> \<not> is_digit (last w) \<Longrightarrow> itoa n \<noteq> w"
  using itoa_last by blast

lemma TrimSuffix_itoa: "p \<noteq> [] \<Longrightarrow> \<not> is_digit (last p) \<Longrightarrow> TrimSuffix (itoa n) p = itoa n"
  using itoa_last[of n] by (auto simp: TrimSuffix_def HasSuffix_iff)

lemma itoa_inj: "- (2 ^ 63) \<le> m \<Longrightarrow> m < 2 ^ 63 \<Longrightarrow> - (2 ^ 63) \<le> n \<Longrightarrow> n < 2 ^ 63 \<Longrightarrow> itoa m = itoa n \<Longrightarrow> m = n"
  by (metis Atoi_itoa option.inject)

text \<open>\<open>ParseFloat\<close> on decimal literals: sign, digits, fraction, exponent.\<close>

definition ten_pow :: "int \<Rightarrow> rat" where
  "ten_pow e = (if 0 \<le> e then 10 ^ nat e else 1 / 10 ^ nat (- e))"

definition cut_sign :: "string \<Rightarrow> bool \<times> string" where
  "cut_sign s = (case s of c # t \<Rightarrow> if c = CHR ''-'' then (True, t) else if c = CHR ''+'' then (False, t) else (False, s)
     | [] \<Rightarrow> (False, []))"

definition ParseFloat :: "string \<Rightarrow> f64 option" where
  "ParseFloat s =
     (let (neg, s) = cut_sign s;
          whole = takeWhile is_digit s; s = dropWhile is_digit s;
          (frac, s) = (case s of c # t \<Rightarrow> if c = CHR ''.'' then (takeWhile is_digit t, dropWhile is_digit t) else ([], s)
                       | [] \<Rightarrow> ([], []));
          expo = (case s of [] \<Rightarrow> Some 0
                  | c # t \<Rightarrow> if c = CHR ''e'' \<or> c = CHR ''E'' then
                      (let (eneg, t) = cut_sign t in
                       if t \<noteq> [] \<and> list_all is_digit t
                       then Some (if eneg then - int (digits_val t) else int (digits_val t)) else None)
                    else None)
      in case expo of None \<Rightarrow> None
         | Some e \<Rightarrow>
            if whole @ frac = [] then None
            else let v = fl (of_nat (digits_val (whole @ frac)) * ten_pow (e - int (length frac)))
                 in Some (if neg then - v else v))"

text \<open>The number of a text where the error is dropped.\<close>

definition float_or_0 :: "string \<Rightarrow> f64" where
  "float_or_0 s = (case ParseFloat s of None \<Rightarrow> 0 | Some v \<Rightarrow> v)"

text \<open>\<open>\%.kf\<close>: the exact value rounded half to even at \<open>k\<close> decimals.\<close>

definition pad_left :: "char \<Rightarrow> nat \<Rightarrow> string \<Rightarrow> string" where
  "pad_left c n s = replicate (n - length s) c @ s"

definition fmt_fixed :: "nat \<Rightarrow> f64 \<Rightarrow> string" where
  "fmt_fixed k v =
     (let n = nat (rhe (\<bar>v\<bar> * 10 ^ k)); whole = n div 10 ^ k; frac = n mod 10 ^ k
      in (if v < 0 then ''-'' else []) @ nat_text whole
         @ (if k = 0 then [] else CHR ''.'' # pad_left (CHR ''0'') k (nat_text frac)))"

end
