(* ===== verification/Json.thy ===== *)
theory Json
  imports GoStrings
begin

text \<open>
  Go's \<open>encoding/json\<close> as the program uses it: the text of a value read by a tokeniser and a
  stack machine, and the rules by which \<open>Unmarshal\<close> fills a struct (a key matches a field
  whatever its case, the last match wins, an unknown key is ignored, \<open>null\<close> leaves a scalar
  alone, a value of the wrong kind is an error). A number keeps its literal, since an integer
  field refuses \<open>1.0\<close>. An escaped surrogate decodes to the replacement character, and bytes are
  not checked to be UTF-8.
\<close>

datatype json = JNull | JBool bool | JNum string | JStr string | JArr "json list"
  | JObj "(string \<times> json) list"

section \<open>Tokens\<close>

datatype token = TLBrace | TRBrace | TLBrack | TRBrack | TComma | TColon | TLit json

definition hex_val :: "char \<Rightarrow> nat option" where
  "hex_val c = (let n = of_char c in
     if 48 \<le> n \<and> n \<le> 57 then Some (n - 48)
     else if 97 \<le> n \<and> n \<le> 102 then Some (n - 87)
     else if 65 \<le> n \<and> n \<le> 70 then Some (n - 55) else None)"

definition utf8 :: "nat \<Rightarrow> string" where
  "utf8 n =
     (if n < 128 then [char_of n]
      else if n < 2048 then [char_of (192 + n div 64), char_of (128 + n mod 64)]
      else if 55296 \<le> n \<and> n < 57344 then [CHR 0xEF, CHR 0xBF, CHR 0xBD]
      else [char_of (224 + n div 4096), char_of (128 + n div 64 mod 64), char_of (128 + n mod 64)])"

definition hex4 :: "char \<Rightarrow> char \<Rightarrow> char \<Rightarrow> char \<Rightarrow> nat option" where
  "hex4 a b c d =
     (case (hex_val a, hex_val b, hex_val c, hex_val d) of
        (Some w, Some x, Some y, Some z) \<Rightarrow> Some (((w * 16 + x) * 16 + y) * 16 + z)
      | _ \<Rightarrow> None)"

definition escape_char :: "char \<Rightarrow> char option" where
  "escape_char c = map_of [(CHR 0x22, CHR 0x22), (CHR 0x5C, CHR 0x5C), (CHR ''/'', CHR ''/''),
     (CHR ''b'', CHR 0x08), (CHR ''f'', CHR 0x0C), (CHR ''n'', CHR 0x0A), (CHR ''r'', CHR 0x0D),
     (CHR ''t'', CHR 0x09)] c"

text \<open>The body of a string literal after its opening quote, and what follows the closing one.\<close>

fun scan_string :: "string \<Rightarrow> (string \<times> string) option" where
  "scan_string [] = None"
| "scan_string (c # s) =
     (if c = CHR 0x22 then Some ([], s)
      else if (of_char c :: nat) < 32 then None
      else if c \<noteq> CHR 0x5C then map_option (apfst (\<lambda>t. c # t)) (scan_string s)
      else case s of [] \<Rightarrow> None
        | e # r \<Rightarrow>
          if e \<noteq> CHR ''u'' then
            (case escape_char e of None \<Rightarrow> None
             | Some x \<Rightarrow> map_option (apfst (\<lambda>t. x # t)) (scan_string r))
          else (case r of
              a # b # d # f # q \<Rightarrow>
                (case hex4 a b d f of None \<Rightarrow> None
                 | Some n \<Rightarrow> map_option (apfst (\<lambda>t. utf8 n @ t)) (scan_string q))
            | _ \<Rightarrow> None))"

lemma scan_string_shorter: "scan_string s = Some (t, r) \<Longrightarrow> length r < length s"
proof (induction s arbitrary: t r rule: scan_string.induct)
  case (2 c s)
  show ?case
    using "2.prems" "2.IH"
    by (force split: if_splits list.splits option.splits)
qed simp

text \<open>A number literal: sign, whole part without leading zeros, fraction, exponent.\<close>

definition scan_digits :: "string \<Rightarrow> (string \<times> string) option" where
  "scan_digits s = (let ds = takeWhile is_digit s in if ds = [] then None else Some (ds, dropWhile is_digit s))"

definition scan_whole :: "string \<Rightarrow> (string \<times> string) option" where
  "scan_whole s = (case s of [] \<Rightarrow> None | c # t \<Rightarrow> if c = CHR ''0'' then Some ([c], t) else scan_digits s)"

definition scan_frac :: "string \<Rightarrow> (string \<times> string) option" where
  "scan_frac s = (case s of [] \<Rightarrow> Some ([], [])
     | c # t \<Rightarrow> if c = CHR ''.'' then map_option (apfst (\<lambda>d. c # d)) (scan_digits t) else Some ([], s))"

definition scan_exp :: "string \<Rightarrow> (string \<times> string) option" where
  "scan_exp s = (case s of [] \<Rightarrow> Some ([], [])
     | c # t \<Rightarrow> if c = CHR ''e'' \<or> c = CHR ''E'' then
          (case t of [] \<Rightarrow> None
           | d # u \<Rightarrow> if d = CHR ''+'' \<or> d = CHR ''-'' then map_option (apfst (\<lambda>x. c # d # x)) (scan_digits u)
                      else map_option (apfst (\<lambda>x. c # x)) (scan_digits t))
        else Some ([], s))"

definition scan_number :: "string \<Rightarrow> (string \<times> string) option" where
  "scan_number s =
     (let (sign, s) = (case s of c # t \<Rightarrow> if c = CHR ''-'' then ([c], t) else ([], s) | [] \<Rightarrow> ([], []))
      in case scan_whole s of None \<Rightarrow> None | Some (w, s) \<Rightarrow>
         case scan_frac s of None \<Rightarrow> None | Some (f, s) \<Rightarrow>
         case scan_exp s of None \<Rightarrow> None | Some (e, s) \<Rightarrow> Some (sign @ w @ f @ e, s))"

definition is_json_space :: "char \<Rightarrow> bool" where
  "is_json_space c \<longleftrightarrow> (of_char c :: nat) \<in> {9, 10, 13, 32}"

definition punctuation :: "char \<Rightarrow> token option" where
  "punctuation c = map_of [(CHR 0x7B, TLBrace), (CHR 0x7D, TRBrace), (CHR 0x5B, TLBrack),
     (CHR 0x5D, TRBrack), (CHR '','', TComma), (CHR '':'', TColon)] c"

text \<open>One token off the front of a text that starts with no white space.\<close>

definition next_token :: "string \<Rightarrow> (token \<times> string) option" where
  "next_token s =
     (case s of [] \<Rightarrow> None
      | c # t \<Rightarrow>
        (case punctuation c of Some p \<Rightarrow> Some (p, t)
         | None \<Rightarrow>
           if c = CHR 0x22 then map_option (apfst (\<lambda>x. TLit (JStr x))) (scan_string t)
           else if HasPrefix s ''true'' then Some (TLit (JBool True), drop 4 s)
           else if HasPrefix s ''false'' then Some (TLit (JBool False), drop 5 s)
           else if HasPrefix s ''null'' then Some (TLit JNull, drop 4 s)
           else map_option (apfst (\<lambda>x. TLit (JNum x))) (scan_number s)))"

lemma scan_digits_le: "scan_digits s = Some (d, r) \<Longrightarrow> length r < length s"
proof -
  assume "scan_digits s = Some (d, r)"
  then have "takeWhile is_digit s \<noteq> []" "r = dropWhile is_digit s"
    by (auto simp: scan_digits_def Let_def split: if_splits)
  moreover have "length s = length (takeWhile is_digit s) + length (dropWhile is_digit s)"
    by (metis length_append takeWhile_dropWhile_id)
  ultimately show ?thesis by simp
qed

lemma scan_whole_le: "scan_whole s = Some (d, r) \<Longrightarrow> length r < length s"
  by (auto simp: scan_whole_def dest: scan_digits_le split: list.splits if_splits)

lemma scan_frac_le: "scan_frac s = Some (d, r) \<Longrightarrow> length r \<le> length s"
  by (fastforce simp: scan_frac_def dest: scan_digits_le split: list.splits if_splits)

lemma scan_exp_le: "scan_exp s = Some (d, r) \<Longrightarrow> length r \<le> length s"
  by (fastforce simp: scan_exp_def dest: scan_digits_le split: list.splits if_splits)

lemma scan_number_shorter: "scan_number s = Some (t, r) \<Longrightarrow> length r < length s"
  by (fastforce simp: scan_number_def Let_def dest!: scan_whole_le scan_frac_le scan_exp_le
      split: option.splits prod.splits list.splits if_splits)

lemma next_token_shorter: "next_token s = Some (t, r) \<Longrightarrow> length r < length s"
  by (cases s)
    (auto simp: next_token_def dest: scan_string_shorter scan_number_shorter
      split: option.splits if_splits)

function tokens :: "string \<Rightarrow> token list option" where
  "tokens s =
     (let s = dropWhile is_json_space s in
      if s = [] then Some []
      else case next_token s of None \<Rightarrow> None
           | Some (t, r) \<Rightarrow> map_option (\<lambda>ts. t # ts) (tokens r))"
  by pat_completeness auto
termination
proof (relation "measure length", goal_cases)
  case (2 s x a t r)
  then have "length r < length (dropWhile is_json_space s)" by (auto dest: next_token_shorter)
  also have "\<dots> \<le> length s" by (rule length_dropWhile_le)
  finally show ?case by simp
qed simp

declare tokens.simps [simp del]

section \<open>Values\<close>

datatype frame = FArr "json list" | FObj "(string \<times> json) list" string

datatype mode = MValue bool | MAfter | MKey bool | MColon | MDone json

text \<open>A finished value goes into the innermost open container, or is the document.\<close>

definition emit :: "json \<Rightarrow> frame list \<Rightarrow> frame list \<times> mode" where
  "emit v st =
     (case st of [] \<Rightarrow> ([], MDone v)
      | FArr vs # st' \<Rightarrow> (FArr (vs @ [v]) # st', MAfter)
      | FObj es k # st' \<Rightarrow> (FObj (es @ [(k, v)]) k # st', MAfter))"

fun json_step :: "frame list \<times> mode \<Rightarrow> token \<Rightarrow> (frame list \<times> mode) option" where
  "json_step (st, MValue _) (TLit v) = Some (emit v st)"
| "json_step (st, MValue _) TLBrack = Some (FArr [] # st, MValue True)"
| "json_step (st, MValue _) TLBrace = Some (FObj [] [] # st, MKey True)"
| "json_step (FArr vs # st, MValue True) TRBrack = Some (emit (JArr vs) st)"
| "json_step (FArr vs # st, MAfter) TRBrack = Some (emit (JArr vs) st)"
| "json_step (FArr vs # st, MAfter) TComma = Some (FArr vs # st, MValue False)"
| "json_step (FObj es k # st, MKey _) (TLit (JStr x)) = Some (FObj es x # st, MColon)"
| "json_step (FObj es k # st, MKey True) TRBrace = Some (emit (JObj es) st)"
| "json_step (FObj es k # st, MColon) TColon = Some (FObj es k # st, MValue False)"
| "json_step (FObj es k # st, MAfter) TComma = Some (FObj es k # st, MKey False)"
| "json_step (FObj es k # st, MAfter) TRBrace = Some (emit (JObj es) st)"
| "json_step _ _ = None"

fun json_run :: "frame list \<times> mode \<Rightarrow> token list \<Rightarrow> json option" where
  "json_run (st, m) [] = (case m of MDone v \<Rightarrow> if st = [] then Some v else None | _ \<Rightarrow> None)"
| "json_run sm (t # ts) = (case json_step sm t of None \<Rightarrow> None | Some sm' \<Rightarrow> json_run sm' ts)"

definition json_parse :: "string \<Rightarrow> json option" where
  "json_parse s = (case tokens s of None \<Rightarrow> None | Some ts \<Rightarrow> json_run ([], MValue False) ts)"

section \<open>Filling structs\<close>

type_synonym 'a decoder = "json \<Rightarrow> 'a \<Rightarrow> 'a option"

definition dec_int :: "int decoder" where
  "dec_int j old = (case j of JNull \<Rightarrow> Some old | JNum s \<Rightarrow> Atoi s | _ \<Rightarrow> None)"

definition dec_uint :: "nat decoder" where
  "dec_uint j old = (case j of JNull \<Rightarrow> Some old | JNum s \<Rightarrow> ParseUint s | _ \<Rightarrow> None)"

definition dec_float :: "f64 decoder" where
  "dec_float j old = (case j of JNull \<Rightarrow> Some old | JNum s \<Rightarrow> ParseFloat s | _ \<Rightarrow> None)"

definition dec_string :: "string decoder" where
  "dec_string j old = (case j of JNull \<Rightarrow> Some old | JStr s \<Rightarrow> Some s | _ \<Rightarrow> None)"

definition dec_bool :: "bool decoder" where
  "dec_bool j old = (case j of JNull \<Rightarrow> Some old | JBool b \<Rightarrow> Some b | _ \<Rightarrow> None)"

fun traverse :: "('a \<Rightarrow> 'b option) \<Rightarrow> 'a list \<Rightarrow> 'b list option" where
  "traverse f [] = Some []"
| "traverse f (x # xs) =
     (case f x of None \<Rightarrow> None | Some y \<Rightarrow> map_option (\<lambda>ys. y # ys) (traverse f xs))"

definition dec_list :: "'a \<Rightarrow> 'a decoder \<Rightarrow> 'a list decoder" where
  "dec_list zero dec j old =
     (case j of JNull \<Rightarrow> Some [] | JArr js \<Rightarrow> traverse (\<lambda>e. dec e zero) js | _ \<Rightarrow> None)"

definition dec_pointer :: "'a \<Rightarrow> 'a decoder \<Rightarrow> 'a option decoder" where
  "dec_pointer zero dec j old =
     (case j of JNull \<Rightarrow> Some None
      | _ \<Rightarrow> map_option Some (dec j (case old of None \<Rightarrow> zero | Some x \<Rightarrow> x)))"

definition same_key :: "string \<Rightarrow> string \<Rightarrow> bool" where
  "same_key k n \<longleftrightarrow> ToLower k = ToLower n"

text \<open>A map keeps its keys as they are; a repeated key overwrites.\<close>

fun dec_entries :: "'a \<Rightarrow> 'a decoder \<Rightarrow> (string \<times> json) list \<Rightarrow> (string \<times> 'a) list \<Rightarrow> (string \<times> 'a) list option" where
  "dec_entries zero dec [] m = Some m"
| "dec_entries zero dec ((k, j) # es) m =
     (case dec j zero of None \<Rightarrow> None
      | Some v \<Rightarrow> dec_entries zero dec es (map_upd k (\<lambda>_. v) m))"

definition dec_map :: "'a \<Rightarrow> 'a decoder \<Rightarrow> (string \<times> 'a) list decoder" where
  "dec_map zero dec j old =
     (case j of JNull \<Rightarrow> Some [] | JObj es \<Rightarrow> dec_entries zero dec es old | _ \<Rightarrow> None)"

type_synonym 'r fields = "(string \<times> (json \<Rightarrow> 'r \<Rightarrow> 'r option)) list"

definition on_field :: "'a decoder \<Rightarrow> ('r \<Rightarrow> 'a) \<Rightarrow> ('a \<Rightarrow> 'r \<Rightarrow> 'r) \<Rightarrow> json \<Rightarrow> 'r \<Rightarrow> 'r option" where
  "on_field dec get put j r = map_option (\<lambda>v. put v r) (dec j (get r))"

definition find_field :: "'r fields \<Rightarrow> string \<Rightarrow> (json \<Rightarrow> 'r \<Rightarrow> 'r option) option" where
  "find_field fs k =
     (case map_of fs k of Some d \<Rightarrow> Some d
      | None \<Rightarrow> map_option snd (find (\<lambda>(n, _). same_key k n) fs))"

text \<open>\<open>strict\<close> is \<open>DisallowUnknownFields\<close>.\<close>

fun dec_members :: "bool \<Rightarrow> 'r fields \<Rightarrow> (string \<times> json) list \<Rightarrow> 'r \<Rightarrow> 'r option" where
  "dec_members strict fs [] r = Some r"
| "dec_members strict fs ((k, j) # es) r =
     (case find_field fs k of
        None \<Rightarrow> if strict then None else dec_members strict fs es r
      | Some d \<Rightarrow> (case d j r of None \<Rightarrow> None | Some r' \<Rightarrow> dec_members strict fs es r'))"

definition dec_struct :: "bool \<Rightarrow> 'r fields \<Rightarrow> 'r decoder" where
  "dec_struct strict fs j r =
     (case j of JNull \<Rightarrow> Some r | JObj es \<Rightarrow> dec_members strict fs es r | _ \<Rightarrow> None)"

definition json_Unmarshal :: "'a decoder \<Rightarrow> string \<Rightarrow> 'a \<Rightarrow> 'a option" where
  "json_Unmarshal dec raw zero = (case json_parse raw of None \<Rightarrow> None | Some j \<Rightarrow> dec j zero)"

lemma dec_struct_not_object:
  "(case j of JNull \<Rightarrow> False | JObj _ \<Rightarrow> False | _ \<Rightarrow> True) \<Longrightarrow> dec_struct strict fs j r = None"
  by (auto simp: dec_struct_def split: json.splits)

lemma traverse_Some: "traverse f xs = Some ys \<longleftrightarrow> map f xs = map Some ys"
  by (induction xs arbitrary: ys) (auto split: option.splits simp: Cons_eq_map_conv)

lemma dec_list_Some:
  "dec_list zero dec j old = Some ys \<longleftrightarrow>
     (j = JNull \<and> ys = []) \<or> (\<exists>js. j = JArr js \<and> map (\<lambda>e. dec e zero) js = map Some ys)"
  by (auto simp: dec_list_def traverse_Some split: json.splits)

end
