(* ===== verification/GoAny.thy ===== *)
theory GoAny
  imports Json
begin

text \<open>
  Go's \<open>any\<close> as result documents use it: what a \<open>map[string]any\<close> holds before it is written, and
  what \<open>json.Unmarshal\<close> makes of a document read back, where every number is a float64. A map is an
  association list with distinct keys; the order of the list carries no meaning.
\<close>

datatype any = ANil | ABool bool | AInt int | AFloat f64 | AStr string | AList "any list"
  | AMap "(string \<times> any) list"

text \<open>\<open>v, ok := m[key]\<close> with a type assertion, by the asserted type.\<close>

definition map_get :: "(string \<times> any) list \<Rightarrow> string \<Rightarrow> any" where
  "map_get m k = (case map_of m k of None \<Rightarrow> ANil | Some v \<Rightarrow> v)"

definition as_map :: "any \<Rightarrow> (string \<times> any) list option" where
  "as_map v = (case v of AMap m \<Rightarrow> Some m | _ \<Rightarrow> None)"

definition as_list :: "any \<Rightarrow> any list option" where
  "as_list v = (case v of AList l \<Rightarrow> Some l | _ \<Rightarrow> None)"

definition as_float :: "any \<Rightarrow> f64 option" where
  "as_float v = (case v of AFloat x \<Rightarrow> Some x | _ \<Rightarrow> None)"

definition as_string :: "any \<Rightarrow> string option" where
  "as_string v = (case v of AStr s \<Rightarrow> Some s | _ \<Rightarrow> None)"

definition as_bool :: "any \<Rightarrow> bool option" where
  "as_bool v = (case v of ABool b \<Rightarrow> Some b | _ \<Rightarrow> None)"

text \<open>Reading a document back into \<open>any\<close>: a repeated key keeps its last value.\<close>

fun any_of_json :: "json \<Rightarrow> any" where
  "any_of_json JNull = ANil"
| "any_of_json (JBool b) = ABool b"
| "any_of_json (JNum s) = (case ParseFloat s of None \<Rightarrow> ANil | Some v \<Rightarrow> AFloat v)"
| "any_of_json (JStr s) = AStr s"
| "any_of_json (JArr js) = AList (map any_of_json js)"
| "any_of_json (JObj es) = AMap (foldl (\<lambda>m (k, v). map_upd k (\<lambda>_. v) m) [] (map (\<lambda>(k, j). (k, any_of_json j)) es))"

text \<open>A block that is left out when it has nothing to say.\<close>

definition when_some :: "string \<Rightarrow> any option \<Rightarrow> (string \<times> any) list" where
  "when_some k v = (case v of None \<Rightarrow> [] | Some x \<Rightarrow> [(k, x)])"

definition unless_empty :: "string \<Rightarrow> (string \<times> any) list \<Rightarrow> (string \<times> any) list" where
  "unless_empty k m = (if m = [] then [] else [(k, AMap m)])"

lemma map_get_Nil [simp]: "map_get [] k = ANil"
  by (simp add: map_get_def)

lemma map_get_Cons [simp]: "map_get ((a, v) # m) k = (if a = k then v else map_get m k)"
  by (simp add: map_get_def)

lemma as_map_simps [simp]: "as_map (AMap m) = Some m" "as_map ANil = None"
  by (simp_all add: as_map_def)

end
