(* ===== verification/GoFmt.thy ===== *)
theory GoFmt
  imports GoAny
begin

text \<open>
  Go's \<open>\%g\<close> for a float64: the fewest significant digits that read back as the number, in plain
  form for exponents from -4 to 5 and in scientific form otherwise; and the cell helpers that the
  report and the cost command share (src/cmd/zoubench/report.go, src/cmd/zoubench/cost.go).
\<close>

section \<open>Shortest decimals\<close>

text \<open>The decimal exponent of a positive number: \<open>10 ^ e \<le> v < 10 ^ (e + 1)\<close>, searched by steps.\<close>

fun exp10_up :: "nat \<Rightarrow> int \<Rightarrow> rat \<Rightarrow> int" where
  "exp10_up 0 e v = e"
| "exp10_up (Suc n) e v = (if ten_pow (e + 1) \<le> v then exp10_up n (e + 1) v else e)"

fun exp10_down :: "nat \<Rightarrow> int \<Rightarrow> rat \<Rightarrow> int" where
  "exp10_down 0 e v = e"
| "exp10_down (Suc n) e v = (if ten_pow e \<le> v then e else exp10_down n (e - 1) v)"

definition exp10 :: "rat \<Rightarrow> int" where
  "exp10 v = (if 1 \<le> v then exp10_up 310 0 v else exp10_down 330 (- 1) v)"

text \<open>The digits of the nearest decimal with \<open>p\<close> significant digits, and the first \<open>p\<close> that is exact.\<close>

definition digits_at :: "rat \<Rightarrow> int \<Rightarrow> nat \<Rightarrow> int \<times> nat" where
  "digits_at v x p = (let e = x - int p + 1 in (e, nat (rhe (v / ten_pow e))))"

fun shortest_from :: "rat \<Rightarrow> int \<Rightarrow> nat \<Rightarrow> nat \<Rightarrow> int \<times> nat" where
  "shortest_from v x p 0 = digits_at v x p"
| "shortest_from v x p (Suc n) =
     (let (e, m) = digits_at v x p in
      if fl (of_nat m * ten_pow e) = v then (e, m) else shortest_from v x (p + 1) n)"

definition strip_zeros :: "string \<Rightarrow> string" where
  "strip_zeros s = rev (dropWhile (\<lambda>c. c = CHR ''0'') (rev s))"

definition fmt_g :: "f64 \<Rightarrow> string" where
  "fmt_g v =
     (if v = 0 then ''0'' else
      let (e, m) = shortest_from \<bar>v\<bar> (exp10 \<bar>v\<bar>) 1 16;
          text = nat_text m;
          point = e + int (length text);
          ds = strip_zeros text;
          x = point - 1;
          body =
            (if x < - 4 \<or> 6 \<le> x then
               (let ex = nat_text (nat \<bar>x\<bar>) in
                take 1 ds @ (if length ds \<le> 1 then [] else ''.'' @ drop 1 ds)
                  @ (if x < 0 then ''e-'' else ''e+'') @ pad_left (CHR ''0'') 2 ex)
             else if point \<le> 0 then ''0.'' @ replicate (nat (- point)) (CHR ''0'') @ ds
             else if int (length ds) \<le> point then ds @ replicate (nat point - length ds) (CHR ''0'')
             else take (nat point) ds @ ''.'' @ drop (nat point) ds)
      in (if v < 0 then ''-'' else []) @ body)"

text \<open>\<open>encoding/json\<close> writes a float in plain form between \<open>1e-6\<close> and \<open>1e21\<close>, its exponent unpadded outside.\<close>

definition plain_digits :: "string \<Rightarrow> int \<Rightarrow> string" where
  "plain_digits ds point =
     (if point \<le> 0 then ''0.'' @ replicate (nat (- point)) (CHR ''0'') @ ds
      else if int (length ds) \<le> point then ds @ replicate (nat point - length ds) (CHR ''0'')
      else take (nat point) ds @ ''.'' @ drop (nat point) ds)"

definition json_float :: "f64 \<Rightarrow> string" where
  "json_float v =
     (if v = 0 then ''0'' else
      let (e, m) = shortest_from \<bar>v\<bar> (exp10 \<bar>v\<bar>) 1 16;
          text = nat_text m;
          point = e + int (length text);
          ds = strip_zeros text
      in (if v < 0 then ''-'' else [])
        @ (if \<bar>v\<bar> < fl (1 / 10 ^ 6) \<or> 10 ^ 21 \<le> \<bar>v\<bar>
           then take 1 ds @ (if length ds \<le> 1 then [] else ''.'' @ drop 1 ds)
             @ (if point - 1 < 0 then ''e-'' else ''e+'') @ nat_text (nat \<bar>point - 1\<bar>)
           else plain_digits ds point))"

section \<open>Cells\<close>

definition str :: "any \<Rightarrow> string" where
  "str v = (case v of AStr s \<Rightarrow> s | _ \<Rightarrow> [])"

definition num :: "any \<Rightarrow> string" where
  "num v = (case v of AFloat f \<Rightarrow> if f = f64_of_int (trunc f) then itoa (trunc f) else fmt_g f | _ \<Rightarrow> [])"

definition nested :: "(string \<times> any) list \<Rightarrow> string \<Rightarrow> string \<Rightarrow> string" where
  "nested r outer inn = (case as_map (map_get r outer) of None \<Rightarrow> [] | Some m \<Rightarrow> num (map_get m inn))"

definition deep :: "(string \<times> any) list \<Rightarrow> string \<Rightarrow> string \<Rightarrow> string \<Rightarrow> string" where
  "deep r outer mid inn = (case as_map (map_get r outer) of None \<Rightarrow> [] | Some m \<Rightarrow> nested m mid inn)"

text \<open>\<open>Sscanf\<close> with \<open>\%g\<close> on the text of a number, then a whole number of units.\<close>

definition scaled_cell :: "f64 \<Rightarrow> string \<Rightarrow> string" where
  "scaled_cell unit s =
     (case ParseFloat s of None \<Rightarrow> []
      | Some f \<Rightarrow> if f = 0 then [] else itoa (trunc (fadd (fdiv f unit) (1 / 2))))"

definition kbToMB :: "string \<Rightarrow> string" where "kbToMB kb = scaled_cell 1024 kb"
definition bytesToMB :: "string \<Rightarrow> string" where "bytesToMB b = scaled_cell (1024 * 1024) b"

definition boolCell :: "any \<Rightarrow> string" where
  "boolCell v = (case v of ABool b \<Rightarrow> if b then ''yes'' else ''no'' | _ \<Rightarrow> [])"

definition alen :: "any \<Rightarrow> string" where
  "alen v = (case v of AList a \<Rightarrow> itoa (int (length a)) | _ \<Rightarrow> [])"

definition intOf :: "any \<Rightarrow> int" where
  "intOf v = (case v of AFloat n \<Rightarrow> trunc n | AInt n \<Rightarrow> n | _ \<Rightarrow> 0)"

definition mapOf :: "(string \<times> any) list \<Rightarrow> string \<Rightarrow> (string \<times> any) list option" where
  "mapOf m key = as_map (map_get m key)"

definition mapAt :: "(string \<times> any) list \<Rightarrow> string \<Rightarrow> (string \<times> any) list" where
  "mapAt m key = (case mapOf m key of None \<Rightarrow> [] | Some inn \<Rightarrow> inn)"

definition usd :: "any \<Rightarrow> string" where
  "usd v = (case v of AFloat f \<Rightarrow> if f = 0 then ''0'' else fmt_fixed 4 f | _ \<Rightarrow> [])"

fun gib_scale :: "string list \<Rightarrow> f64 \<Rightarrow> string \<times> f64" where
  "gib_scale [u] sz = (u, sz)"
| "gib_scale (u # u' # us) sz = (if 1024 \<le> sz then gib_scale (u' # us) (fdiv sz 1024) else (u, sz))"
| "gib_scale [] sz = ([], sz)"

definition gib :: "int \<Rightarrow> string" where
  "gib b =
     (if b \<le> 0 then ''0 B'' else
      let (u, sz) = gib_scale [''B'', ''KiB'', ''MiB'', ''GiB'', ''TiB''] (f64_of_int b)
      in if u = ''B'' then itoa b @ '' B'' else fmt_fixed 1 sz @ '' '' @ u)"

definition row :: "string list \<Rightarrow> string" where
  "row cells = ''|'' @ concat (map (\<lambda>c. '' '' @ c @ '' |'') cells) @ newline"

definition rule :: "nat \<Rightarrow> string" where
  "rule n = ''|'' @ concat (replicate n ''---|'') @ newline"

lemma intOf_simps [simp]: "intOf (AInt n) = n" "intOf ANil = 0" "intOf (AFloat f) = trunc f"
  by (simp_all add: intOf_def)

lemma mapOf_simps [simp]: "mapOf [] k = None"
  "mapOf ((a, v) # m) k = (if a = k then as_map v else mapOf m k)"
  by (simp_all add: mapOf_def)

section \<open>Values as JSON\<close>

text \<open>A map is marshalled with its keys in order.\<close>

fun any_json :: "any \<Rightarrow> json" where
  "any_json ANil = JNull"
| "any_json (ABool b) = JBool b"
| "any_json (AInt n) = JNum (itoa n)"
| "any_json (AFloat v) = JNum (json_float v)"
| "any_json (AStr s) = JStr s"
| "any_json (AList l) = JArr (map any_json l)"
| "any_json (AMap m) = JObj (sort_key fst (map (\<lambda>(k, v). (k, any_json v)) m))"

end
