(* ===== verification/JsonText.thy ===== *)
theory JsonText
  imports Json
begin

text \<open>
  Writing JSON the way \<open>encoding/json\<close> does: string escapes, HTML characters escaped, two spaces of
  indentation, empty containers on one line. The main lemma reads back what was written. Bytes from
  128 up are copied, so the lemma asks for ASCII text.
\<close>

section \<open>Printing\<close>

definition json_escape :: "char \<Rightarrow> string" where
  "json_escape c =
     (let n = of_char c :: nat in
      if c = CHR 0x22 then [CHR 0x5C, CHR 0x22]
      else if c = CHR 0x5C then [CHR 0x5C, CHR 0x5C]
      else if n = 8 then [CHR 0x5C, CHR ''b'']
      else if n = 12 then [CHR 0x5C, CHR ''f'']
      else if n = 10 then [CHR 0x5C, CHR ''n'']
      else if n = 13 then [CHR 0x5C, CHR ''r'']
      else if n = 9 then [CHR 0x5C, CHR ''t'']
      else if n < 32 \<or> c = CHR ''<'' \<or> c = CHR ''>'' \<or> c = CHR 0x26
        then [CHR 0x5C, CHR ''u'', CHR ''0'', CHR ''0'', hex_digit (n div 16), hex_digit (n mod 16)]
      else [c])"

definition json_quote :: "string \<Rightarrow> string" where
  "json_quote s = CHR 0x22 # concat (map json_escape s) @ [CHR 0x22]"

definition json_break :: "nat \<Rightarrow> string" where
  "json_break n = CHR 0x0A # replicate (2 * n) (CHR '' '')"

fun json_indent :: "nat \<Rightarrow> json \<Rightarrow> string" where
  "json_indent n JNull = ''null''"
| "json_indent n (JBool b) = (if b then ''true'' else ''false'')"
| "json_indent n (JNum s) = s"
| "json_indent n (JStr s) = json_quote s"
| "json_indent n (JArr js) =
     (if js = [] then ''[]''
      else ''['' @ strings_Join (map (\<lambda>j. json_break (n + 1) @ json_indent (n + 1) j) js) '','' @ json_break n @ '']'')"
| "json_indent n (JObj es) =
     (if es = [] then [CHR 0x7B, CHR 0x7D]
      else CHR 0x7B # strings_Join (map (\<lambda>(k, j). json_break (n + 1) @ json_quote k @ '': '' @ json_indent (n + 1) j) es) '',''
        @ json_break n @ [CHR 0x7D])"

definition MarshalIndent :: "json \<Rightarrow> string" where "MarshalIndent j = json_indent 0 j"

text \<open>\<open>Marshal\<close>: the same without white space.\<close>

fun json_Marshal :: "json \<Rightarrow> string" where
  "json_Marshal JNull = ''null''"
| "json_Marshal (JBool b) = (if b then ''true'' else ''false'')"
| "json_Marshal (JNum s) = s"
| "json_Marshal (JStr s) = json_quote s"
| "json_Marshal (JArr js) = ''['' @ strings_Join (map json_Marshal js) '','' @ '']''"
| "json_Marshal (JObj es) =
     CHR 0x7B # strings_Join (map (\<lambda>(k, j). json_quote k @ '':'' @ json_Marshal j) es) '','' @ [CHR 0x7D]"

section \<open>What reading it back needs\<close>

definition ascii :: "string \<Rightarrow> bool" where "ascii s \<longleftrightarrow> list_all (\<lambda>c. of_char c < (128 :: nat)) s"

fun json_ok :: "json \<Rightarrow> bool" where
  "json_ok (JNum s) \<longleftrightarrow> scan_number s = Some (s, [])"
| "json_ok (JStr s) \<longleftrightarrow> ascii s"
| "json_ok (JArr js) \<longleftrightarrow> list_all json_ok js"
| "json_ok (JObj es) \<longleftrightarrow> list_all (\<lambda>(k, j). ascii k \<and> json_ok j) es"
| "json_ok _ \<longleftrightarrow> True"

section \<open>Tokens of printed text\<close>

lemma tokens_space: "is_json_space c \<Longrightarrow> tokens (c # s) = tokens s"
  by (subst (1 2) tokens.simps) simp

lemma tokens_break [simp]: "tokens (json_break n @ s) = tokens s"
proof -
  have sp: "is_json_space (CHR 0x0A)" "is_json_space (CHR '' '')" by (simp_all add: is_json_space_def)
  have "tokens (replicate m (CHR '' '') @ s) = tokens s" for m
    by (induction m) (simp_all add: tokens_space sp)
  then show ?thesis by (simp add: json_break_def tokens_space sp)
qed

lemma tokens_punct:
  "punctuation c = Some p \<Longrightarrow> \<not> is_json_space c \<Longrightarrow> tokens (c # s) = map_option (\<lambda>ts. p # ts) (tokens s)"
  by (subst tokens.simps) (simp add: next_token_def)

lemma punct_simps:
  "punctuation (CHR 0x7B) = Some TLBrace" "punctuation (CHR 0x7D) = Some TRBrace"
  "punctuation (CHR ''['') = Some TLBrack" "punctuation (CHR '']'') = Some TRBrack"
  "punctuation (CHR '','') = Some TComma" "punctuation (CHR '':'') = Some TColon"
  by (simp_all add: punctuation_def)

lemmas tokens_marks [simp] =
  tokens_punct[OF punct_simps(1)] tokens_punct[OF punct_simps(2)] tokens_punct[OF punct_simps(3)]
  tokens_punct[OF punct_simps(4)] tokens_punct[OF punct_simps(5)] tokens_punct[OF punct_simps(6)]

lemma no_space [simp]:
  "\<not> is_json_space (CHR 0x7B)" "\<not> is_json_space (CHR 0x7D)" "\<not> is_json_space (CHR ''['')"
  "\<not> is_json_space (CHR '']'')" "\<not> is_json_space (CHR '','')" "\<not> is_json_space (CHR '':'')"
  "\<not> is_json_space (CHR 0x22)" "is_json_space (CHR '' '')"
  by (simp_all add: is_json_space_def)

lemma hex_val_char: "d < 16 \<Longrightarrow> hex_val (hex_digit d) = Some d"
  by (auto simp: hex_val_def hex_digit_def Let_def)

lemma scan_plain:
  "c \<noteq> CHR 0x22 \<Longrightarrow> c \<noteq> CHR 0x5C \<Longrightarrow> \<not> of_char c < (32 :: nat) \<Longrightarrow>
     scan_string (c # r) = map_option (apfst (\<lambda>t. c # t)) (scan_string r)"
  by simp

lemma scan_unicode:
  assumes "of_char c < (128 :: nat)" and "n = (of_char c :: nat)"
  shows "scan_string (CHR 0x5C # CHR ''u'' # CHR ''0'' # CHR ''0'' # hex_digit (n div 16) # hex_digit (n mod 16) # r)
      = map_option (apfst (\<lambda>t. c # t)) (scan_string r)"
proof -
  have "hex_val (CHR ''0'') = Some 0" by (simp add: hex_val_def)
  then have "hex4 (CHR ''0'') (CHR ''0'') (hex_digit (n div 16)) (hex_digit (n mod 16)) = Some n"
    using assms by (simp add: hex4_def hex_val_char)
  moreover have "utf8 n = [c]" "(@) [c] = (#) c" using assms by (auto simp: utf8_def)
  ultimately show ?thesis by simp
qed

lemma scan_short:
  "escape_char e = Some c \<Longrightarrow> e \<noteq> CHR ''u'' \<Longrightarrow>
     scan_string (CHR 0x5C # e # r) = map_option (apfst (\<lambda>t. c # t)) (scan_string r)"
  by simp

lemma escape_char_simps:
  "escape_char (CHR 0x22) = Some (CHR 0x22)" "escape_char (CHR 0x5C) = Some (CHR 0x5C)"
  "escape_char (CHR ''b'') = Some (CHR 0x08)" "escape_char (CHR ''f'') = Some (CHR 0x0C)"
  "escape_char (CHR ''n'') = Some (CHR 0x0A)" "escape_char (CHR ''r'') = Some (CHR 0x0D)"
  "escape_char (CHR ''t'') = Some (CHR 0x09)"
  by (simp_all add: escape_char_def)

lemma same_char: "of_char c = (n :: nat) \<Longrightarrow> of_char d = n \<Longrightarrow> c = d"
  by (metis of_char_eq_iff)

lemma scan_escape:
  assumes "of_char c < (128 :: nat)"
  shows "scan_string (json_escape c @ r) = map_option (apfst (\<lambda>t. c # t)) (scan_string r)"
proof -
  let ?n = "of_char c :: nat"
  have short: "scan_string ([CHR 0x5C, e] @ r) = map_option (apfst (\<lambda>t. c # t)) (scan_string r)"
    if "escape_char e = Some d" "e \<noteq> CHR ''u''" "c = d" for e d
    using scan_short[OF that(1,2)] that(3) by simp
  consider "c = CHR 0x22" | "c = CHR 0x5C" | "c = CHR 0x08" | "c = CHR 0x0C" | "c = CHR 0x0A" | "c = CHR 0x0D"
    | "c = CHR 0x09"
    | (other) "c \<noteq> CHR 0x22" "c \<noteq> CHR 0x5C" "?n \<noteq> 8" "?n \<noteq> 12" "?n \<noteq> 10" "?n \<noteq> 13" "?n \<noteq> 9"
    using same_char[of c 8 "CHR 0x08"] same_char[of c 12 "CHR 0x0C"] same_char[of c 10 "CHR 0x0A"]
      same_char[of c 13 "CHR 0x0D"] same_char[of c 9 "CHR 0x09"] by fastforce
  then show ?thesis
  proof cases
    case other
    show ?thesis
    proof (cases "?n < 32 \<or> c = CHR ''<'' \<or> c = CHR ''>'' \<or> c = CHR 0x26")
      case True
      then have "json_escape c @ r = CHR 0x5C # CHR ''u'' # CHR ''0'' # CHR ''0'' # hex_digit (?n div 16) # hex_digit (?n mod 16) # r"
        using other by (auto simp only: json_escape_def Let_def if_True if_False append.simps)
      then show ?thesis using scan_unicode[OF assms refl] by metis
    next
      case False
      then have "json_escape c @ r = c # r"
        using other by (simp only: json_escape_def Let_def if_False append.simps de_Morgan_disj simp_thms)
      then show ?thesis using False scan_plain[OF other(1,2)] by metis
    qed
  qed (use short[OF escape_char_simps(1)] short[OF escape_char_simps(2)] short[OF escape_char_simps(3)]
      short[OF escape_char_simps(4)] short[OF escape_char_simps(5)] short[OF escape_char_simps(6)]
      short[OF escape_char_simps(7)] in \<open>simp_all add: json_escape_def del: scan_string.simps\<close>)
qed

lemma scan_quoted:
  "ascii s \<Longrightarrow> scan_string (concat (map json_escape s) @ CHR 0x22 # r) = Some (s, r)"
  by (induction s) (simp_all add: ascii_def scan_escape)

lemma tokens_quote [simp]:
  "ascii s \<Longrightarrow> tokens (json_quote s @ r) = map_option (\<lambda>ts. TLit (JStr s) # ts) (tokens r)"
  by (subst tokens.simps)
    (simp add: json_quote_def next_token_def scan_quoted punctuation_def)

text \<open>What may follow a value: nothing, a comma or a line break.\<close>

definition ends :: "string \<Rightarrow> bool" where
  "ends r \<longleftrightarrow> r = [] \<or> hd r = CHR '','' \<or> hd r = CHR 0x0A"

lemma ends_simps [simp]: "ends []" "ends (CHR '','' # s)" "ends (json_break n @ s)"
  by (simp_all add: ends_def json_break_def)

lemma ends_digits: "ends r \<Longrightarrow> scan_digits r = None"
  by (cases r) (auto simp: ends_def scan_digits_def is_digit_def)

lemma scan_digits_ends:
  assumes "ends r"
  shows "scan_digits (s @ r) = map_option (apsnd (\<lambda>t. t @ r)) (scan_digits s)"
proof -
  have r: "takeWhile is_digit r = []" "dropWhile is_digit r = r"
    using assms by (cases r; auto simp: ends_def is_digit_def)+
  show ?thesis
  proof (cases "\<forall>c \<in> set s. is_digit c")
    case True
    then have "takeWhile is_digit s = s" "dropWhile is_digit s = []"
      by (simp_all add: takeWhile_eq_all_conv dropWhile_eq_Nil_conv)
    moreover have "takeWhile is_digit (s @ r) = s" "dropWhile is_digit (s @ r) = r"
      using True r by (simp_all only: takeWhile_append2 dropWhile_append2 append_Nil2)
    ultimately show ?thesis by (simp only: scan_digits_def Let_def) simp
  next
    case False
    then obtain x where "x \<in> set s" "\<not> is_digit x" by blast
    then have "takeWhile is_digit (s @ r) = takeWhile is_digit s"
      "dropWhile is_digit (s @ r) = dropWhile is_digit s @ r"
      by (simp_all add: takeWhile_append1 dropWhile_append1)
    then show ?thesis by (simp only: scan_digits_def Let_def) simp
  qed
qed

lemma scan_whole_ends:
  "ends r \<Longrightarrow> scan_whole (s @ r) = map_option (apsnd (\<lambda>t. t @ r)) (scan_whole s)"
proof (cases s)
  case Nil
  assume "ends r"
  then show ?thesis using Nil ends_digits[of r]
    by (cases r) (auto simp: scan_whole_def ends_def)
next
  case (Cons c t)
  assume "ends r"
  from scan_digits_ends[OF this, of s] show ?thesis using Cons by (simp add: scan_whole_def)
qed

lemma scan_frac_ends:
  "ends r \<Longrightarrow> scan_frac (s @ r) = map_option (apsnd (\<lambda>t. t @ r)) (scan_frac s)"
proof (cases s)
  case Nil
  assume "ends r"
  then show ?thesis using Nil by (cases r) (auto simp: scan_frac_def ends_def)
next
  case (Cons c t)
  assume "ends r"
  from scan_digits_ends[OF this, of t] show ?thesis using Cons
    by (auto simp: scan_frac_def option.map_comp intro!: arg_cong2[where f = map_option])
qed

lemma scan_exp_ends:
  "ends r \<Longrightarrow> scan_exp (s @ r) = map_option (apsnd (\<lambda>t. t @ r)) (scan_exp s)"
proof (cases s)
  case Nil
  assume "ends r"
  then show ?thesis using Nil by (cases r) (auto simp: scan_exp_def ends_def)
next
  case (Cons c t)
  assume r: "ends r"
  show ?thesis
  proof (cases t)
    case Nil
    then show ?thesis using Cons r ends_digits[OF r]
      by (cases r) (auto simp: scan_exp_def ends_def)
  next
    case (Cons d u)
    then show ?thesis using \<open>s = c # t\<close> scan_digits_ends[OF r, of t] scan_digits_ends[OF r, of u]
      by (auto simp: scan_exp_def option.map_comp intro!: arg_cong2[where f = map_option])
  qed
qed

definition number_body :: "string \<Rightarrow> (string \<times> string) option" where
  "number_body s =
     (case scan_whole s of None \<Rightarrow> None | Some (w, s) \<Rightarrow>
      case scan_frac s of None \<Rightarrow> None | Some (f, s) \<Rightarrow>
      case scan_exp s of None \<Rightarrow> None | Some (e, s) \<Rightarrow> Some (w @ f @ e, s))"

lemma number_body_ends:
  assumes "ends r"
  shows "number_body (s @ r) = map_option (apsnd (\<lambda>t. t @ r)) (number_body s)"
proof (cases "scan_whole s")
  case None
  then show ?thesis using scan_whole_ends[OF assms, of s] by (simp add: number_body_def)
next
  case (Some w)
  then show ?thesis
    using scan_whole_ends[OF assms, of s] scan_frac_ends[OF assms, of "snd w"]
      scan_exp_ends[OF assms, of "snd (the (scan_frac (snd w)))"]
    by (cases "scan_frac (snd w)"; cases "scan_exp (snd (the (scan_frac (snd w))))")
      (auto simp: number_body_def split: prod.splits)
qed

lemma scan_number_Cons:
  "scan_number (c # t) =
     (if c = CHR ''-'' then map_option (apfst (\<lambda>b. c # b)) (number_body t) else number_body (c # t))"
  by (auto simp: scan_number_def number_body_def Let_def split: option.splits)

lemma scan_number_ends:
  assumes "ends r" and "scan_number s = Some (s, [])"
  shows "scan_number (s @ r) = Some (s, r)"
proof (cases s)
  case Nil
  then show ?thesis using assms(2) by (simp add: scan_number_def scan_whole_def)
next
  case (Cons c t)
  then show ?thesis
    using assms(2) number_body_ends[OF assms(1), of t] number_body_ends[OF assms(1), of "c # t"]
    by (cases "c = CHR ''-''") (auto simp: scan_number_Cons)
qed

lemma number_start:
  assumes "scan_number s = Some (s, [])"
  obtains c t where "s = c # t" "c = CHR ''-'' \<or> is_digit c"
proof (cases s)
  case Nil
  then show thesis using assms by (simp add: scan_number_def scan_whole_def)
next
  case (Cons c t)
  then have "c = CHR ''-'' \<or> is_digit c"
    using assms
    by (auto simp: scan_number_def scan_whole_def scan_digits_def Let_def is_digit_def
        split: option.splits if_splits)
  then show thesis using that Cons by blast
qed

lemma digit_token:
  assumes "c = CHR ''-'' \<or> is_digit c"
  shows "\<not> is_json_space c \<and> punctuation c = None \<and> c \<noteq> CHR 0x22
    \<and> \<not> HasPrefix (c # t) ''true'' \<and> \<not> HasPrefix (c # t) ''false'' \<and> \<not> HasPrefix (c # t) ''null''"
proof -
  have ne: "c \<noteq> x" if "x \<noteq> CHR ''-''" "\<not> is_digit x" for x using assms that by metis
  have d: "\<not> is_digit (CHR 0x22)" "\<not> is_digit (CHR 0x7B)" "\<not> is_digit (CHR 0x7D)" "\<not> is_digit (CHR ''['')"
    "\<not> is_digit (CHR '']'')" "\<not> is_digit (CHR '','')" "\<not> is_digit (CHR '':'')" "\<not> is_digit (CHR ''t'')"
    "\<not> is_digit (CHR ''f'')" "\<not> is_digit (CHR ''n'')"
    by (simp_all add: is_digit_def)
  note n = ne[OF _ d(1)] ne[OF _ d(2)] ne[OF _ d(3)] ne[OF _ d(4)] ne[OF _ d(5)] ne[OF _ d(6)]
    ne[OF _ d(7)] ne[OF _ d(8)] ne[OF _ d(9)] ne[OF _ d(10)]
  have "\<not> is_json_space c" using assms by (auto simp: is_json_space_def is_digit_def)
  moreover have "punctuation c = None \<and> c \<noteq> CHR 0x22" using n by (simp add: punctuation_def)
  moreover have "\<not> HasPrefix (c # t) ''true''" using n by (simp add: HasPrefix_def)
  moreover have "\<not> HasPrefix (c # t) ''false''" using n by (simp add: HasPrefix_def)
  moreover have "\<not> HasPrefix (c # t) ''null''" using n by (simp add: HasPrefix_def)
  ultimately show ?thesis by blast
qed

lemma tokens_number:
  assumes "scan_number s = Some (s, [])" and "ends r"
  shows "tokens (s @ r) = map_option (\<lambda>ts. TLit (JNum s) # ts) (tokens r)"
proof -
  obtain c t where c: "s = c # t" "c = CHR ''-'' \<or> is_digit c" by (rule number_start[OF assms(1)])
  note d = digit_token[OF c(2), of "t @ r"]
  have "next_token (s @ r) = Some (TLit (JNum s), r)"
    using d c(1) scan_number_ends[OF assms(2,1)] by (simp add: next_token_def)
  then show ?thesis using d c(1) by (subst tokens.simps) simp
qed

section \<open>Reading back what was written\<close>

fun commas :: "token list list \<Rightarrow> token list" where
  "commas [] = []"
| "commas [ts] = ts"
| "commas (ts # tss) = ts @ TComma # commas tss"

fun json_tokens :: "json \<Rightarrow> token list" where
  "json_tokens (JArr js) = TLBrack # commas (map json_tokens js) @ [TRBrack]"
| "json_tokens (JObj es) = TLBrace # commas (map (\<lambda>(k, j). TLit (JStr k) # TColon # json_tokens j) es) @ [TRBrace]"
| "json_tokens j = [TLit j]"

lemma tokens_join:
  assumes "\<And>x r. x \<in> set xs \<Longrightarrow> ends r \<Longrightarrow> tokens (f x @ r) = map_option (\<lambda>ts. g x @ ts) (tokens r)"
    and "ends r"
  shows "tokens (strings_Join (map f xs) '','' @ r) = map_option (\<lambda>ts. commas (map g xs) @ ts) (tokens r)"
  using assms(1)
proof (induction xs)
  case Nil
  then show ?case by (simp add: option.map_ident)
next
  case (Cons x xs)
  show ?case
  proof (cases xs)
    case Nil
    then show ?thesis using Cons.prems[of x r] assms(2) by simp
  next
    case (Cons y ys)
    then show ?thesis
      using Cons.IH Cons.prems \<open>xs = y # ys\<close>
      by (simp add: option.map_comp comp_def)
  qed
qed

lemma tokens_word:
  "tokens (''null'' @ r) = map_option (\<lambda>ts. TLit JNull # ts) (tokens r)"
  "tokens (''true'' @ r) = map_option (\<lambda>ts. TLit (JBool True) # ts) (tokens r)"
  "tokens (''false'' @ r) = map_option (\<lambda>ts. TLit (JBool False) # ts) (tokens r)"
  by (subst tokens.simps, simp add: next_token_def punctuation_def is_json_space_def HasPrefix_def)+

lemma append_one: "(@) [x] = (#) x"
  by auto

lemma tokens_indent:
  "json_ok j \<Longrightarrow> ends r \<Longrightarrow> tokens (json_indent n j @ r) = map_option (\<lambda>ts. json_tokens j @ ts) (tokens r)"
proof (induction j arbitrary: n r)
  case (JArr js)
  have one: "tokens ((json_break (n + 1) @ json_indent (n + 1) j) @ s) = map_option (\<lambda>ts. json_tokens j @ ts) (tokens s)"
    if "j \<in> set js" "ends s" for j s
    using JArr that by (simp add: list_all_iff)
  show ?case
    using tokens_join[of js "\<lambda>j. json_break (n + 1) @ json_indent (n + 1) j" json_tokens "json_break n @ '']'' @ r", OF one]
    by (simp add: option.map_comp comp_def)
next
  case (JObj es)
  have one: "tokens ((case e of (k, j) \<Rightarrow> json_break (n + 1) @ json_quote k @ '': '' @ json_indent (n + 1) j) @ s)
      = map_option (\<lambda>ts. (case e of (k, j) \<Rightarrow> TLit (JStr k) # TColon # json_tokens j) @ ts) (tokens s)"
    if "e \<in> set es" "ends s" for e s
  proof -
    obtain k j where e: "e = (k, j)" by fastforce
    then have "ascii k" "json_ok j" using JObj.prems(1) that(1) by (auto simp: list_all_iff)
    moreover have "tokens (json_indent (n + 1) j @ s) = map_option (\<lambda>ts. json_tokens j @ ts) (tokens s)"
      using JObj.IH[of e j s "n + 1"] that e \<open>json_ok j\<close> by (simp add: snds.simps)
    ultimately show ?thesis using e by (simp add: tokens_space option.map_comp comp_def)
  qed
  show ?case
    using tokens_join[of es "\<lambda>(k, j). json_break (n + 1) @ json_quote k @ '': '' @ json_indent (n + 1) j"
        "\<lambda>(k, j). TLit (JStr k) # TColon # json_tokens j" "json_break n @ CHR 0x7D # r", OF one]
    by (simp add: option.map_comp comp_def)
qed (simp_all add: tokens_number tokens_word[simplified] append_one)

lemma run_commas_arr:
  assumes "\<And>j st b ts. j \<in> set js \<Longrightarrow> json_run (st, MValue b) (json_tokens j @ ts) = json_run (emit j st) ts"
    and "js \<noteq> []"
  shows "json_run (FArr vs # st, MValue b) (commas (map json_tokens js) @ TRBrack # ts)
    = json_run (emit (JArr (vs @ js)) st) ts"
  using assms
proof (induction js arbitrary: vs b)
  case (Cons j js)
  show ?case
  proof (cases js)
    case Nil
    then show ?thesis using Cons.prems(1)[of j] by (simp add: emit_def)
  next
    case (Cons y ys)
    have "json_run (FArr (vs @ [j]) # st, MValue False) (commas (map json_tokens js) @ TRBrack # ts)
        = json_run (emit (JArr ((vs @ [j]) @ js)) st) ts"
      by (rule Cons.IH) (use Cons.prems Cons in auto)
    then show ?thesis using Cons.prems(1)[of j] \<open>js = y # ys\<close> by (simp add: emit_def)
  qed
qed simp

lemma run_commas_obj:
  assumes "\<And>k j st b ts. (k, j) \<in> set es \<Longrightarrow> json_run (st, MValue b) (json_tokens j @ ts) = json_run (emit j st) ts"
    and "es \<noteq> []"
  shows "json_run (FObj vs k # st, MKey b)
      (commas (map (\<lambda>(k, j). TLit (JStr k) # TColon # json_tokens j) es) @ TRBrace # ts)
    = json_run (emit (JObj (vs @ es)) st) ts"
  using assms
proof (induction es arbitrary: vs k b)
  case (Cons e es)
  obtain k' j where e: "e = (k', j)" by fastforce
  show ?case
  proof (cases es)
    case Nil
    then show ?thesis using Cons.prems(1)[of k' j] e by (simp add: emit_def)
  next
    case (Cons y ys)
    have "json_run (FObj (vs @ [e]) k' # st, MKey False)
        (commas (map (\<lambda>(k, j). TLit (JStr k) # TColon # json_tokens j) es) @ TRBrace # ts)
        = json_run (emit (JObj ((vs @ [e]) @ es)) st) ts"
      using Cons.prems(1) Cons by (intro Cons.IH) (meson list.set_intros(2), simp)
    then show ?thesis using Cons.prems(1)[of k' j] e \<open>es = y # ys\<close> by (simp add: emit_def)
  qed
qed simp

lemma run_tokens: "json_run (st, MValue b) (json_tokens j @ ts) = json_run (emit j st) ts"
proof (induction j arbitrary: st b ts)
  case (JArr js)
  show ?case
  proof (cases "js = []")
    case False
    then show ?thesis using run_commas_arr[of js "[]" st True ts] JArr.IH by simp
  qed simp
next
  case (JObj es)
  show ?case
  proof (cases "es = []")
    case False
    have "json_run (FObj [] [] # st, MKey True)
        (commas (map (\<lambda>(k, j). TLit (JStr k) # TColon # json_tokens j) es) @ TRBrace # ts)
      = json_run (emit (JObj ([] @ es)) st) ts"
      by (rule run_commas_obj) (use False JObj.IH in \<open>auto simp: snds.simps\<close>)
    then show ?thesis by simp
  qed simp
qed simp_all

lemma json_parse_Marshal: "json_ok j \<Longrightarrow> json_parse (MarshalIndent j) = Some j"
proof -
  assume "json_ok j"
  moreover have "tokens [] = Some []" by (subst tokens.simps) simp
  ultimately have "tokens (MarshalIndent j) = Some (json_tokens j)"
    using tokens_indent[of j "[]" 0] by (simp add: MarshalIndent_def)
  then show ?thesis
    using run_tokens[of "[]" False j "[]"] by (simp add: json_parse_def emit_def)
qed

end
