(* ===== verification/Bytes.thy ===== *)
theory Bytes
  imports Prelude
begin

text \<open>
  Integers as bytes, in either order: \<open>encoding/binary\<close> for the counter file, the Postgres wire
  protocol and the web socket frames. The value is a natural number; each caller brings it to its
  own width.
\<close>

type_synonym bytes = "u8 list"

fun le_value :: "bytes \<Rightarrow> nat" where
  "le_value [] = 0"
| "le_value (b # bs) = unat b + 256 * le_value bs"

fun le_bytes :: "nat \<Rightarrow> nat \<Rightarrow> bytes" where
  "le_bytes 0 v = []"
| "le_bytes (Suc n) v = of_nat (v mod 256) # le_bytes n (v div 256)"

definition be_value :: "bytes \<Rightarrow> nat" where "be_value bs = le_value (rev bs)"
definition be_bytes :: "nat \<Rightarrow> nat \<Rightarrow> bytes" where "be_bytes n v = rev (le_bytes n v)"

definition u8_text :: "string \<Rightarrow> bytes" where
  "u8_text s = map (\<lambda>c. of_nat (of_char c)) s"

definition text_u8 :: "bytes \<Rightarrow> string" where
  "text_u8 bs = map (\<lambda>b. char_of (unat b)) bs"

lemma length_le_bytes [simp]: "length (le_bytes n v) = n"
  by (induction n arbitrary: v) auto

lemma length_be_bytes [simp]: "length (be_bytes n v) = n"
  by (simp add: be_bytes_def)

lemma le_value_bytes: "v < 256 ^ n \<Longrightarrow> le_value (le_bytes n v) = v"
proof (induction n arbitrary: v)
  case (Suc n)
  have "v div 256 < 256 ^ n" using Suc.prems by (simp add: less_mult_imp_div_less mult.commute)
  moreover have "unat (of_nat (v mod 256) :: u8) = v mod 256" by (simp add: unat_of_nat)
  ultimately show ?case using Suc.IH by simp
qed simp

lemma be_value_bytes: "v < 256 ^ n \<Longrightarrow> be_value (be_bytes n v) = v"
  by (simp add: be_value_def be_bytes_def le_value_bytes)

lemma le_value_less: "le_value bs < 256 ^ length bs"
proof (induction bs)
  case (Cons b bs)
  have "unat b < 256" using unsigned_less[of b] by simp
  then show ?case using Cons by simp
qed simp

lemma be_value_less: "be_value bs < 256 ^ length bs"
  using le_value_less[of "rev bs"] by (simp add: be_value_def)

lemma text_u8_text [simp]: "text_u8 (u8_text s) = s"
proof -
  have "char_of (unat (of_nat (of_char c) :: u8)) = c" for c :: char
  proof -
    have "(of_char c :: nat) < 256" by simp
    then have "unat (of_nat (of_char c) :: u8) = of_char c" by (simp add: unat_of_nat)
    then show ?thesis by simp
  qed
  then show ?thesis by (simp add: text_u8_def u8_text_def comp_def)
qed

lemma length_u8_text [simp]: "length (u8_text s) = length s"
  by (simp add: u8_text_def)

lemma text_u8_Nil [simp]: "text_u8 [] = []"
  by (simp add: text_u8_def)

lemma u8_text_append: "u8_text (s @ t) = u8_text s @ u8_text t"
  by (simp add: u8_text_def)

text \<open>A block of a concatenation of blocks of one length.\<close>

lemma nth_block:
  assumes "\<forall>x \<in> set xs. length (f x) = n" and "i < length xs"
  shows "take n (drop (i * n) (concat (map f xs) @ ys)) = f (xs ! i)"
  using assms
proof (induction xs arbitrary: i)
  case (Cons x xs)
  then show ?case by (cases i) simp_all
qed simp

end
