(* ===== verification/Streams.thy ===== *)
theory Streams
  imports Bytes GoStrings
begin

text \<open>
  What the two hand written protocol clients share: the outcome of a call that may return, fail or
  panic, reading a fixed number of bytes off a connection's input, and the contract between the
  writer and the reader of one message, under which a stream of messages is read back one by one.
  The end of the input list stands for the connection failing there.
\<close>

datatype ('e, 'a) outcome = Ok 'a | Fail 'e | Panic

definition io_EOF :: string where "io_EOF = ''EOF''"

definition read_full :: "nat \<Rightarrow> bytes \<Rightarrow> (bytes \<times> bytes) option" where
  "read_full n s = (if n \<le> length s then Some (take n s, drop n s) else None)"

lemma read_full_append [simp]: "length a = n \<Longrightarrow> read_full n (a @ b) = Some (a, b)"
  by (simp add: read_full_def)

lemma read_full_Some: "read_full n s = Some (a, r) \<Longrightarrow> s = a @ r \<and> length a = n"
  by (auto simp: read_full_def split: if_splits)

lemma read_full_length: "read_full n s = Some (a, r) \<Longrightarrow> length s = n + length r \<and> length a = n"
  by (auto simp: read_full_def split: if_splits)

text \<open>
  A message codec: what the writer emits for a well formed message, the reader takes off the front
  of the input, leaving the rest.
\<close>

locale message_codec =
  fixes enc :: "'m \<Rightarrow> bytes"
    and dec :: "bytes \<Rightarrow> ('e, 'm \<times> bytes) outcome"
    and wf :: "'m \<Rightarrow> bool"
  assumes dec_enc: "wf m \<Longrightarrow> dec (enc m @ rest) = Ok (m, rest)"
begin

text \<open>
  A client that keeps its own state and reads messages until one of them stops it: \<open>on\<close> is what it
  does with one message, \<open>stop\<close> what it returns with the input left.
\<close>

definition runs :: "('s \<Rightarrow> 'm \<Rightarrow> 's + 'r) \<Rightarrow> ('r \<Rightarrow> bytes \<Rightarrow> 'o) \<Rightarrow> (bytes \<Rightarrow> 's \<Rightarrow> 'o) \<Rightarrow> bool" where
  "runs on stop loop \<longleftrightarrow> (\<forall>s m rest. wf m \<longrightarrow>
     loop (enc m @ rest) s = (case on s m of Inl s' \<Rightarrow> loop rest s' | Inr r \<Rightarrow> stop r rest))"

fun over :: "('s \<Rightarrow> 'm \<Rightarrow> 's + 'r) \<Rightarrow> 's \<Rightarrow> 'm list \<Rightarrow> ('s + 'r \<times> 'm list)" where
  "over on s [] = Inl s"
| "over on s (m # ms) = (case on s m of Inl s' \<Rightarrow> over on s' ms | Inr r \<Rightarrow> Inr (r, ms))"

lemma loop_over:
  assumes "runs on stop loop" and "\<forall>m \<in> set ms. wf m"
  shows "loop (concat (map enc ms) @ rest) s =
    (case over on s ms of
       Inl s' \<Rightarrow> loop rest s'
     | Inr (r, ms') \<Rightarrow> stop r (concat (map enc ms') @ rest))"
  using assms
proof (induction ms arbitrary: s)
  case (Cons m ms)
  have step: "loop (enc m @ concat (map enc ms) @ rest) s =
      (case on s m of Inl s' \<Rightarrow> loop (concat (map enc ms) @ rest) s'
       | Inr r \<Rightarrow> stop r (concat (map enc ms) @ rest))"
  proof -
    have "wf m" using Cons.prems(2) by simp
    with Cons.prems(1) show ?thesis unfolding runs_def by blast
  qed
  show ?case
  proof (cases "on s m")
    case (Inl s')
    have "\<forall>m \<in> set ms. wf m" using Cons.prems(2) by simp
    note IH = Cons.IH[OF Cons.prems(1) this, of s']
    show ?thesis
      unfolding list.map concat.simps append_assoc step Inl over.simps sum.case IH ..
  next
    case (Inr r)
    show ?thesis
      unfolding list.map concat.simps append_assoc step Inr over.simps sum.case prod.case ..
  qed
qed simp

lemma over_append:
  "over on s (ms @ ns) = (case over on s ms of Inl s' \<Rightarrow> over on s' ns | Inr (r, ms') \<Rightarrow> Inr (r, ms' @ ns))"
  by (induction on s ms rule: over.induct) (auto split: sum.splits)

lemma enc_unambiguous:
  assumes "wf m" and "wf n" and "enc m @ a = enc n @ b"
  shows "m = n \<and> a = b"
proof -
  have "Ok (m, a) = dec (enc m @ a)" by (rule dec_enc[OF assms(1), symmetric])
  also have "\<dots> = dec (enc n @ b)" by (rule arg_cong[OF assms(3)])
  also have "\<dots> = Ok (n, b)" by (rule dec_enc[OF assms(2)])
  finally show ?thesis by blast
qed

end

end
