(* ===== verification/RestToken.thy ===== *)
theory RestToken
  imports GoFmt JsonText Streams
begin

text \<open>
  Signed web tokens (src/resthttp/token.go): the header and the claims as JSON, each in unpadded
  URL base64, and a keyed digest of both. The digest, HMAC with SHA-256 in the source, is an argument
  and any function of a key and a text. A token is read the way a server reads it: split, decoded, and
  its signature compared.
\<close>

section \<open>Unpadded URL base64\<close>

definition b64_alphabet :: string where
  "b64_alphabet = ''ABCDEFGHIJKLMNOPQRSTUVWXYZabcdefghijklmnopqrstuvwxyz0123456789-_''"

fun b64_groups :: "nat list \<Rightarrow> nat list" where
  "b64_groups [] = []"
| "b64_groups [a] = [a div 4, a mod 4 * 16]"
| "b64_groups [a, b] = [a div 4, a mod 4 * 16 + b div 16, b mod 16 * 4]"
| "b64_groups (a # b # c # xs) = [a div 4, a mod 4 * 16 + b div 16, b mod 16 * 4 + c div 64, c mod 64] @ b64_groups xs"

definition EncodeToString :: "string \<Rightarrow> string" where
  "EncodeToString s = map (\<lambda>n. b64_alphabet ! n) (b64_groups (map of_char s))"

text \<open>The decoder of the other side: the groups of four put back, the rest of two or three shortened.\<close>

fun b64_ungroup :: "nat list \<Rightarrow> nat list" where
  "b64_ungroup (p # q # r # s # xs) = [p * 4 + q div 16, q mod 16 * 16 + r div 4, r mod 4 * 64 + s] @ b64_ungroup xs"
| "b64_ungroup [p, q, r] = [p * 4 + q div 16, q mod 16 * 16 + r div 4]"
| "b64_ungroup [p, q] = [p * 4 + q div 16]"
| "b64_ungroup xs = []"

definition b64_index :: "char \<Rightarrow> nat" where
  "b64_index c = length (takeWhile (\<lambda>d. d \<noteq> c) b64_alphabet)"

definition DecodeString :: "string \<Rightarrow> string" where
  "DecodeString s = map char_of (b64_ungroup (map b64_index s))"

section \<open>Tokens\<close>

text \<open>A map is marshalled with its keys in order.\<close>

definition claims_text :: "(string \<times> any) list \<Rightarrow> string" where
  "claims_text claims = json_Marshal (any_json (AMap claims))"

definition Mint :: "(string \<Rightarrow> string \<Rightarrow> string) \<Rightarrow> string \<Rightarrow> (string \<times> any) list \<Rightarrow> string" where
  "Mint hmac secret claims =
     (let head1 = claims_text [(''alg'', AStr ''HS256''), (''typ'', AStr ''JWT'')];
          body = claims_text claims;
          signing = EncodeToString head1 @ ''.'' @ EncodeToString body;
          mac = hmac secret signing
      in signing @ ''.'' @ EncodeToString mac)"

definition KeyToken :: "(string \<Rightarrow> string \<Rightarrow> string) \<Rightarrow> int \<Rightarrow> string \<Rightarrow> string \<Rightarrow> string" where
  "KeyToken hmac now secret role =
     Mint hmac secret [(''iss'', AStr ''zou''), (''role'', AStr role), (''iat'', AInt now),
       (''exp'', AInt (now + 10 * 365 * 24 * 3600))]"

definition UserToken :: "(string \<Rightarrow> string \<Rightarrow> string) \<Rightarrow> int \<Rightarrow> string \<Rightarrow> string \<Rightarrow> string \<Rightarrow> string" where
  "UserToken hmac now secret sub email =
     Mint hmac secret [(''sub'', AStr sub), (''role'', AStr ''authenticated''), (''aud'', AStr ''authenticated''),
       (''email'', AStr email), (''iat'', AInt now), (''exp'', AInt (now + 3600))]"

text \<open>What a server makes of a token: the header and the claims, once the signature is the one of its secret.\<close>

definition token_read :: "(string \<Rightarrow> string \<Rightarrow> string) \<Rightarrow> string \<Rightarrow> string \<Rightarrow> (string \<times> string) option" where
  "token_read hmac secret tok =
     (case strings_Split tok (CHR ''.'') of
        [h, b, s] \<Rightarrow>
          if DecodeString s = hmac secret (h @ ''.'' @ b) then Some (DecodeString h, DecodeString b) else None
      | _ \<Rightarrow> None)"

section \<open>Reading back\<close>

lemma b64_groups_small: "\<forall>n \<in> set xs. n < 256 \<Longrightarrow> \<forall>g \<in> set (b64_groups xs). g < 64"
proof (induction xs rule: b64_groups.induct)
  case (4 a b c xs)
  have "a mod 4 * 16 + b div 16 < 64" "b mod 16 * 4 + c div 64 < 64" "a div 4 < 64" "c mod 64 < 64"
    using 4(2) mod_less_divisor[of 4 a] mod_less_divisor[of 16 b] by (simp_all add: less_mult_imp_div_less) linarith+
  then show ?case using 4 by auto
next
  case (3 a b)
  have "a mod 4 * 16 + b div 16 < 64" "b mod 16 * 4 < 64" "a div 4 < 64"
    using 3 mod_less_divisor[of 4 a] mod_less_divisor[of 16 b] by (simp_all add: less_mult_imp_div_less) linarith+
  then show ?case by simp
next
  case (2 a)
  have "a div 4 < 64" "a mod 4 * 16 < 64" using 2 mod_less_divisor[of 4 a] by (simp_all add: less_mult_imp_div_less)
  then show ?case by simp
qed simp

lemma b64_ungroup_groups: "\<forall>n \<in> set xs. n < 256 \<Longrightarrow> b64_ungroup (b64_groups xs) = xs"
proof (induction xs rule: b64_groups.induct)
  case (2 a)
  then show ?case by simp
next
  case (3 a b)
  have "(a mod 4 * 16 + b div 16) div 16 = a mod 4" "(a mod 4 * 16 + b div 16) mod 16 = b div 16"
    using 3 by (simp_all add: less_mult_imp_div_less)
  moreover have "b div 16 * 16 + b mod 16 * 4 div 4 = b" by simp
  ultimately show ?case by simp
next
  case (4 a b c xs)
  have "(a mod 4 * 16 + b div 16) div 16 = a mod 4" "(a mod 4 * 16 + b div 16) mod 16 = b div 16"
    "(b mod 16 * 4 + c div 64) div 4 = b mod 16" "(b mod 16 * 4 + c div 64) mod 4 = c div 64"
    using 4(2) by (simp_all add: less_mult_imp_div_less)
  then show ?case using 4 by simp
qed simp

lemma b64_alphabet_index: "n < 64 \<Longrightarrow> b64_index (b64_alphabet ! n) = n"
proof -
  have "list_all (\<lambda>n. b64_index (b64_alphabet ! n) = n) [0..<64]" by code_simp
  then show "n < 64 \<Longrightarrow> b64_index (b64_alphabet ! n) = n" by (simp add: list_all_iff)
qed

lemma Decode_Encode: "DecodeString (EncodeToString s) = s"
proof -
  let ?bs = "map of_char s :: nat list"
  have small: "\<forall>n \<in> set ?bs. n < 256" by auto
  have "map b64_index (EncodeToString s) = b64_groups ?bs"
    using b64_groups_small[OF small] b64_alphabet_index by (simp add: EncodeToString_def map_idI)
  then show ?thesis by (simp add: DecodeString_def b64_ungroup_groups[OF small] comp_def)
qed

lemma Encode_no_dot: "CHR ''.'' \<notin> set (EncodeToString s)"
proof -
  have small: "\<forall>n \<in> set (map of_char s :: nat list). n < 256" by auto
  have "list_all (\<lambda>n. b64_alphabet ! n \<noteq> CHR ''.'') [0..<64]" by code_simp
  then show ?thesis
    using b64_groups_small[OF small] by (fastforce simp: EncodeToString_def list_all_iff)
qed

definition token_header :: string where
  "token_header = claims_text [(''alg'', AStr ''HS256''), (''typ'', AStr ''JWT'')]"

lemma Mint_parts:
  "strings_Split (Mint hmac secret claims) (CHR ''.'')
    = [EncodeToString token_header, EncodeToString (claims_text claims),
       EncodeToString (hmac secret (EncodeToString token_header @ ''.'' @ EncodeToString (claims_text claims)))]"
proof -
  let ?h = "EncodeToString token_header" and ?b = "EncodeToString (claims_text claims)"
  let ?s = "EncodeToString (hmac secret (?h @ ''.'' @ ?b))"
  have "Mint hmac secret claims = strings_Join [?h, ?b, ?s] [CHR ''.'']"
    by (simp add: Mint_def token_header_def Let_def)
  then show ?thesis using Encode_no_dot by (simp only: Split_Join) (subst Split_Join, auto)
qed

text \<open>
  C30: a token that is minted is one its server accepts. Whatever the digest, the claims and the secret
  are, a server reads the header and the claims of a token back byte for byte under the secret it was
  minted with, and accepts it under another only where the digests of the signed text agree.
\<close>

theorem Mint_verifies:
  "token_read hmac secret (Mint hmac secret claims) = Some (token_header, claims_text claims)
   \<and> (token_read hmac other (Mint hmac secret claims) = (let signed =
          EncodeToString token_header @ ''.'' @ EncodeToString (claims_text claims) in
        if hmac other signed = hmac secret signed then Some (token_header, claims_text claims) else None))"
  by (simp add: token_read_def Mint_parts Decode_Encode Let_def)

lemma token_header_text: "token_header = ''{\"alg\":\"HS256\",\"typ\":\"JWT\"}''"
  by code_simp

end
