(* ===== verification/CmdReport.thy ===== *)
theory CmdReport
  imports GoFmt
begin

text \<open>
  \<open>zoubench report\<close> (src/cmd/zoubench/report.go): result files into markdown tables. A command is a
  function from its arguments and the files it reads to what it prints and the error it dies with.
\<close>

type_synonym doc = "(string \<times> any) list"
type_synonym printed = "string \<times> go_error option"

text \<open>\<open>json.Unmarshal\<close> into a \<open>map[string]any\<close>.\<close>

definition read_doc :: "string go_result \<Rightarrow> doc go_result" where
  "read_doc file =
     (case file of Inl e \<Rightarrow> Inl e
      | Inr raw \<Rightarrow>
        (case json_parse raw of
           Some (JObj es) \<Rightarrow> Inr (the (as_map (any_of_json (JObj es))))
         | Some JNull \<Rightarrow> Inr []
         | _ \<Rightarrow> Inl ''json''))"

fun read_docs :: "(string \<Rightarrow> string go_result) \<Rightarrow> string list \<Rightarrow> doc list go_result" where
  "read_docs read [] = Inr []"
| "read_docs read (p # ps) =
     (case read_doc (read p) of Inl e \<Rightarrow> Inl e
      | Inr d \<Rightarrow> (case read_docs read ps of Inl e \<Rightarrow> Inl e | Inr ds \<Rightarrow> Inr (d # ds)))"

section \<open>Cells\<close>

definition simLabel :: "doc \<Rightarrow> string" where
  "simLabel r = str (map_get r ''label'') @ (if map_get r ''simulated'' \<noteq> ANil then '' (sim)'' else [])"

definition dateCell :: "doc \<Rightarrow> string" where
  "dateCell r = (let d = str (map_get r ''date'') in if 10 \<le> length d then take 10 d else d)"

definition rtoCell :: "doc \<Rightarrow> string \<Rightarrow> string" where
  "rtoCell r mode =
     (case as_map (map_get r ''rto_ms'') of None \<Rightarrow> [] | Some m \<Rightarrow>
      case as_map (map_get m mode) of None \<Rightarrow> [] | Some mm \<Rightarrow>
      let p50 = num (map_get mm ''p50''); mx = num (map_get mm ''max'')
      in if p50 = [] \<and> mx = [] then [] else p50 @ ''/'' @ mx)"

definition seg_take :: "string \<Rightarrow> f64 option \<Rightarrow> doc \<Rightarrow> f64 option" where
  "seg_take key best m =
     (case as_float (map_get m key) of None \<Rightarrow> best
      | Some f \<Rightarrow> (case best of None \<Rightarrow> Some f | Some b \<Rightarrow> if b < f then Some f else best))"

definition seg_entries :: "string \<Rightarrow> any \<Rightarrow> doc list" where
  "seg_entries lst s =
     (case as_map s of None \<Rightarrow> []
      | Some seg \<Rightarrow>
          if lst = [] then [seg]
          else case as_list (map_get seg lst) of None \<Rightarrow> [] | Some es \<Rightarrow> List.map_filter as_map es)"

definition segMax :: "doc \<Rightarrow> string \<Rightarrow> string \<Rightarrow> string" where
  "segMax r lst key =
     (case as_list (map_get r ''segments'') of None \<Rightarrow> []
      | Some segs \<Rightarrow>
        (case foldl (\<lambda>best s. foldl (seg_take key) best (seg_entries lst s)) None segs of
           None \<Rightarrow> [] | Some best \<Rightarrow> num (AFloat best)))"

section \<open>Tables\<close>

type_synonym column = "string \<times> (doc \<Rightarrow> string)"

definition bench_cols :: "column list" where
  "bench_cols =
     [(''label'', simLabel),
      (''tps'', \<lambda>r. num (map_get r ''tps'')),
      (''avg ms'', \<lambda>r. num (map_get r ''latency_avg_ms'')),
      (''p50'', \<lambda>r. nested r ''latency_ms'' ''p50''),
      (''p95'', \<lambda>r. nested r ''latency_ms'' ''p95''),
      (''p99'', \<lambda>r. nested r ''latency_ms'' ''p99''),
      (''p999'', \<lambda>r. nested r ''latency_ms'' ''p999''),
      (''init s'', \<lambda>r. num (map_get r ''init_seconds'')),
      (''rss peak MB'', \<lambda>r. kbToMB (nested r ''server'' ''rss_peak_kb'')),
      (''cpu s'', \<lambda>r. nested r ''server'' ''cpu_s_total''),
      (''wal MB'', \<lambda>r. bytesToMB (deep r ''pg_delta'' ''wal'' ''wal_bytes'')),
      (''store +MB'', \<lambda>r. bytesToMB (nested r ''store'' ''bytes_delta'')),
      (''w-amp'', \<lambda>r. nested r ''store'' ''write_amplification''),
      (''$/M txns'', \<lambda>r. nested r ''cost'' ''usd_per_million_txns''),
      (''date'', dateCell)]"

definition soak_cols :: "column list" where
  "soak_cols =
     [(''label'', simLabel),
      (''hours'', \<lambda>r. num (map_get r ''hours'')),
      (''segs'', \<lambda>r. alen (map_get r ''segments'')),
      (''drills'', \<lambda>r. alen (map_get r ''drills'')),
      (''rto pusher p50/max'', \<lambda>r. rtoCell r ''pusher''),
      (''rto crash p50/max'', \<lambda>r. rtoCell r ''crash''),
      (''rto death p50/max'', \<lambda>r. rtoCell r ''death''),
      (''amp max'', \<lambda>r. segMax r ''amp_timeline'' ''amp_max''),
      (''amp ok'', \<lambda>r. boolCell (map_get r ''amp_bound_held'')),
      (''viol'', \<lambda>r. num (map_get r ''violations'')),
      (''tps mean'', \<lambda>r. num (map_get r ''tps_mean'')),
      (''rss slope kb/min'', \<lambda>r. segMax r [] ''rss_slope_kb_per_min''),
      (''date'', dateCell)]"

fun printTables :: "string \<Rightarrow> doc list \<Rightarrow> column list \<Rightarrow> string" where
  "printTables scenario [] cols = []"
| "printTables scenario (r # rs) cols =
     (let s = str (map_get r ''scenario'') in
      (if s \<noteq> scenario
       then newline @ ''## '' @ s @ newline @ newline @ row (map fst cols) @ rule (length cols) else [])
      @ row (map (\<lambda>c. snd c r) cols) @ printTables s rs cols)"

definition is_soak :: "doc \<Rightarrow> bool" where
  "is_soak r \<longleftrightarrow> (case as_map (map_get r ''config'') of None \<Rightarrow> False | Some c \<Rightarrow> str (map_get c ''kind'') = ''sustain'')"

text \<open>
  Rows with the same scenario and label may come out in either order: \<open>sort.Slice\<close> is not stable,
  the sort here keeps the order they were named in.
\<close>

definition report_order :: "doc list \<Rightarrow> doc list" where
  "report_order rows =
     sort_key (\<lambda>r. str (map_get r ''scenario'')) (sort_key (\<lambda>r. str (map_get r ''label'')) rows)"

definition cmdReport :: "(string \<Rightarrow> string go_result) \<Rightarrow> string list \<Rightarrow> printed" where
  "cmdReport read argv =
     (if argv = [] then ([], Some ''usage'')
      else case read_docs read argv of Inl e \<Rightarrow> ([], Some e)
      | Inr rows \<Rightarrow>
        let rows = report_order rows in
        (printTables [] (filter (\<lambda>r. \<not> is_soak r) rows) bench_cols
           @ printTables [] (filter is_soak rows) soak_cols, None))"

section \<open>The worst segment\<close>

definition seg_values :: "doc \<Rightarrow> string \<Rightarrow> string \<Rightarrow> f64 list" where
  "seg_values r lst key =
     (case as_list (map_get r ''segments'') of None \<Rightarrow> []
      | Some segs \<Rightarrow> List.map_filter (\<lambda>m. as_float (map_get m key)) (concat (map (seg_entries lst) segs)))"

definition opt_max :: "f64 option \<Rightarrow> f64 list \<Rightarrow> f64 option" where
  "opt_max best fs = (case best of None \<Rightarrow> if fs = [] then None else Some (Max (set fs)) | Some b \<Rightarrow> Some (Max (set (b # fs))))"

lemma foldl_seg_take:
  "foldl (seg_take key) best ms = opt_max best (List.map_filter (\<lambda>m. as_float (map_get m key)) ms)"
proof (induction ms arbitrary: best)
  case Nil
  then show ?case by (cases best) (simp_all add: opt_max_def map_filter_simps)
next
  case (Cons m ms)
  show ?case
  proof (cases "as_float (map_get m key)")
    case None
    then show ?thesis using Cons by (simp add: seg_take_def map_filter_simps)
  next
    case (Some f)
    have "opt_max (seg_take key best m) fs = opt_max best (f # fs)" for fs
      by (cases best; cases "fs = []") (auto simp: seg_take_def Some opt_max_def max_def)
    then show ?thesis using Cons Some by (simp add: map_filter_simps)
  qed
qed

lemma opt_max_append: "opt_max (opt_max best fs) gs = opt_max best (fs @ gs)"
  by (cases best; cases "fs = []"; cases "gs = []") (simp_all add: opt_max_def Max_Un max.assoc)

lemma foldl_segs:
  "foldl (\<lambda>best s. foldl (seg_take key) best (seg_entries lst s)) best segs
    = opt_max best (List.map_filter (\<lambda>m. as_float (map_get m key)) (concat (map (seg_entries lst) segs)))"
proof (induction segs arbitrary: best)
  case Nil
  then show ?case by (cases best) (simp_all add: opt_max_def map_filter_simps)
next
  case (Cons s segs)
  then show ?case by (simp add: foldl_seg_take opt_max_append map_filter_def)
qed

text \<open>
  The cell that reads a soak's worst segment prints the largest value of its key over every
  segment, or over every entry of a list in each segment, and is empty exactly when none has it.
\<close>

theorem segMax_is_max:
  "segMax r lst key =
     (if seg_values r lst key = [] then [] else num (AFloat (Max (set (seg_values r lst key)))))"
  by (cases "as_list (map_get r ''segments'')")
    (simp_all add: segMax_def seg_values_def foldl_segs opt_max_def)

end
