(* ===== verification/GoFiles.thy ===== *)
theory GoFiles
  imports GoStrings
begin

text \<open>Files as the program reads, writes and renames them, every system call with an outcome of its own.\<close>

text \<open>
  A file system is a map from paths to contents. \<open>io\<close> says how each system call of one
  write through a temporary file comes out: an error of the directory, of the write (with whatever it left
  under the temporary name) or of the rename, and whether \<open>Remove\<close> works.
\<close>

type_synonym files = "string \<rightharpoonup> string"

record io =
  mkdir_err :: "go_error option"
  write_err :: "(go_error \<times> string option) option"
  rename_err :: "go_error option"
  remove_ok :: bool

definition fs_remove :: "io \<Rightarrow> string \<Rightarrow> files \<Rightarrow> files" where
  "fs_remove io path fs = (if remove_ok io then fs(path := None) else fs)"

text \<open>
  \<open>filepath.Clean\<close>: the components one by one, \<open>.\<close> and empty ones left out, \<open>..\<close> taking the one
  before it away where there is one. The components kept are a stack, the last on top.
\<close>

definition clean_step :: "bool \<Rightarrow> string list \<Rightarrow> string \<Rightarrow> string list" where
  "clean_step rooted out c =
     (if c = [] \<or> c = ''.'' then out
      else if c = ''..'' then
        (case out of [] \<Rightarrow> if rooted then [] else [c]
         | d # rest \<Rightarrow> if d = ''..'' then c # out else rest)
      else c # out)"

definition path_Clean :: "string \<Rightarrow> string" where
  "path_Clean p =
     (let rooted = HasPrefix p ''/'';
          body = strings_Join (rev (foldl (clean_step rooted) [] (strings_Split p (CHR ''/'')))) ''/''
      in if rooted then CHR ''/'' # body else if body = [] then ''.'' else body)"

definition path_Join :: "string \<Rightarrow> string \<Rightarrow> string" where
  "path_Join dir name =
     (if dir = [] then (if name = [] then [] else path_Clean name) else path_Clean (dir @ ''/'' @ name))"

definition path_Base :: "string \<Rightarrow> string" where
  "path_Base p =
     (if p = [] then ''.''
      else let p = rev (dropWhile (\<lambda>c. c = CHR ''/'') (rev p)) in
        if p = [] then ''/''
        else (case last_index (CHR ''/'') p of None \<Rightarrow> p | Some i \<Rightarrow> drop (i + 1) p))"

text \<open>\<open>filepath.Dir\<close>: what is before the last separator, cleaned.\<close>

definition path_Dir :: "string \<Rightarrow> string" where
  "path_Dir p = path_Clean (case last_index (CHR ''/'') p of None \<Rightarrow> [] | Some i \<Rightarrow> take (i + 1) p)"

lemma Join_snoc: "\<exists>t. strings_Join (ws @ [w]) sep = t @ w"
proof (induction ws sep rule: strings_Join.induct)
  case (2 s sep)
  then show ?case by (auto intro: exI[of _ "s @ sep"])
next
  case (3 s s' ss sep)
  then obtain t where "strings_Join ((s' # ss) @ [w]) sep = t @ w" by blast
  then show ?case by (auto intro: exI[of _ "s @ sep @ t"])
qed auto

text \<open>A file name's extension survives the cleaning.\<close>

lemma last_split: "CHR ''/'' \<notin> set s \<Longrightarrow> \<exists>ws u. strings_Split (t @ s) (CHR ''/'') = ws @ [u @ s]"
proof (induction t)
  case Nil
  then have "split_by (\<lambda>c. c = CHR ''/'') s = [] @ [[] @ s]"
    using split_by_single[of s "\<lambda>c. c = CHR ''/''"] by fastforce
  then show ?case unfolding strings_Split_def by (metis append_Nil)
next
  case (Cons c t)
  then obtain ws u where w: "split_by (\<lambda>c. c = CHR ''/'') (t @ s) = ws @ [u @ s]" by (auto simp: strings_Split_def)
  show ?case
  proof (cases "c = CHR ''/''")
    case True
    then show ?thesis using w by (auto simp: strings_Split_def intro: exI[of _ "[] # ws"])
  next
    case False
    then show ?thesis
    proof (cases ws)
      case Nil
      then show ?thesis using w False by (auto simp: strings_Split_def intro!: exI[of _ "c # u"])
    next
      case (Cons x xs)
      then show ?thesis using w False by (auto simp: strings_Split_def intro!: exI[of _ "(c # x) # xs"])
    qed
  qed
qed

lemma HasSuffix_Clean:
  assumes "HasSuffix p s" and "CHR ''/'' \<notin> set s" and "2 < length s"
  shows "HasSuffix (path_Clean p) s"
proof -
  obtain t where "p = t @ s" using assms(1) by (auto simp: HasSuffix_iff)
  then obtain ws u where w: "strings_Split p (CHR ''/'') = ws @ [u @ s]" using last_split[OF assms(2)] by blast
  let ?out = "foldl (clean_step (HasPrefix p ''/'')) [] ws"
  have keep: "u @ s \<noteq> []" "u @ s \<noteq> ''.''" "u @ s \<noteq> ''..''"
    using assms(3) by (auto simp: append_eq_Cons_conv)
  have "foldl (clean_step (HasPrefix p ''/'')) [] (strings_Split p (CHR ''/'')) = (u @ s) # ?out"
    unfolding w using keep by (simp add: clean_step_def)
  moreover obtain v where "strings_Join (rev ?out @ [u @ s]) ''/'' = v @ u @ s" using Join_snoc by blast
  ultimately have "path_Clean p = (if HasPrefix p ''/'' then CHR ''/'' # v else v) @ u @ s"
    using keep(1) by (cases "HasPrefix p ''/''") (simp_all add: path_Clean_def Let_def)
  then show ?thesis unfolding HasSuffix_iff by (metis append_assoc)
qed

lemma HasSuffix_Join:
  assumes "HasSuffix name s" and "CHR ''/'' \<notin> set s" and "2 < length s"
  shows "HasSuffix (path_Join dir name) s"
proof -
  obtain t where t: "name = t @ s" using assms(1) by (auto simp: HasSuffix_iff)
  then have "HasSuffix (dir @ ''/'' @ name) s" unfolding HasSuffix_iff by (metis append_assoc)
  moreover have "name \<noteq> []" using t assms(3) by auto
  ultimately show ?thesis using assms by (auto simp: path_Join_def intro!: HasSuffix_Clean)
qed

text \<open>What \<open>os.ReadFile\<close> comes to; a missing file is told apart from one that cannot be read.\<close>

datatype file_read = NotExist | ReadErr go_error | Contents string

end
