(* ===== verification/Buckets.thy ===== *)
theory Buckets
  imports Prelude
begin

text \<open>
  Reading a rank off bucketed counts, the step that three packages share: the socket histogram
  (src/sockets/hist.go), the store counter file (src/zoustats/zoustats.go) and the scraped
  metrics (src/fleet/metrics.go) all walk cumulative counts until they reach the wanted rank.
  The locale states what the layout of the buckets has to keep for that walk to find the bucket
  of the order statistic; each package interprets it on its own buckets.
\<close>

text \<open>The counts of a list of values, by bucket.\<close>

definition bucket_counts :: "('v \<Rightarrow> nat) \<Rightarrow> nat \<Rightarrow> 'v list \<Rightarrow> nat list" where
  "bucket_counts idx n xs = map (\<lambda>i. length (filter (\<lambda>x. idx x = i) xs)) [0..<n]"

text \<open>The first position whose running total reaches \<open>want\<close>.\<close>

fun scan_counts :: "nat \<Rightarrow> nat \<Rightarrow> nat list \<Rightarrow> nat option" where
  "scan_counts seen want [] = None"
| "scan_counts seen want (n # ns) =
     (if want \<le> seen + n then Some 0 else map_option Suc (scan_counts (seen + n) want ns))"

lemma length_bucket_counts [simp]: "length (bucket_counts idx n xs) = n"
  by (simp add: bucket_counts_def)

lemma bucket_counts_nth: "i < n \<Longrightarrow> bucket_counts idx n xs ! i = length (filter (\<lambda>x. idx x = i) xs)"
  by (simp add: bucket_counts_def)

lemma bucket_counts_Nil: "bucket_counts idx n [] = replicate n 0"
  by (simp add: bucket_counts_def map_replicate_const)

lemma bucket_counts_snoc:
  "bucket_counts idx n (xs @ [x]) =
     (let c = bucket_counts idx n xs in if idx x < n then c[idx x := c ! idx x + 1] else c)"
  by (intro nth_equalityI) (auto simp: bucket_counts_nth Let_def nth_list_update)

lemma bucket_counts_append:
  "bucket_counts idx n (xs @ ys) = map2 (+) (bucket_counts idx n xs) (bucket_counts idx n ys)"
  by (intro nth_equalityI) (simp_all add: bucket_counts_nth)

lemma sum_take_bucket_counts:
  "i \<le> n \<Longrightarrow> sum_list (take i (bucket_counts idx n xs)) = length (filter (\<lambda>x. idx x < i) xs)"
proof (induction i)
  case 0
  then show ?case by simp
next
  case (Suc i)
  have "filter (\<lambda>x. idx x < Suc i) xs = filter (\<lambda>x. idx x < i \<or> idx x = i) xs"
    by (simp add: less_Suc_eq)
  moreover have "length (filter (\<lambda>x. idx x < i \<or> idx x = i) xs)
      = length (filter (\<lambda>x. idx x < i) xs) + length (filter (\<lambda>x. idx x = i) xs)"
    by (induction xs) auto
  ultimately show ?case
    using Suc by (simp add: sum_list_take_Suc bucket_counts_nth)
qed

lemma sum_bucket_counts_le: "sum_list (bucket_counts idx n xs) \<le> length xs"
  using sum_take_bucket_counts[of n n idx xs] by simp

lemma scan_counts_Some:
  assumes "scan_counts seen want cs = Some i"
  shows "i < length cs \<and> want \<le> seen + sum_list (take (Suc i) cs)
    \<and> (0 < i \<longrightarrow> seen + sum_list (take i cs) < want)"
  using assms
proof (induction seen want cs arbitrary: i rule: scan_counts.induct)
  case (1 seen want)
  then show ?case by simp
next
  case (2 seen want n ns)
  show ?case
  proof (cases "want \<le> seen + n")
    case True
    then show ?thesis using "2.prems" by simp
  next
    case False
    then obtain j where j: "scan_counts (seen + n) want ns = Some j" "i = Suc j"
      using "2.prems" by auto
    show ?thesis using "2.IH"[OF False j(1)] j(2) False by (cases j) auto
  qed
qed

lemma scan_counts_None:
  "scan_counts seen want cs = None \<Longrightarrow> cs \<noteq> [] \<Longrightarrow> seen + sum_list cs < want"
proof (induction seen want cs rule: scan_counts.induct)
  case (1 seen want)
  then show ?case by simp
next
  case (2 seen want n ns)
  then show ?case by (cases ns) (auto split: if_splits)
qed

locale bucketed =
  fixes idx :: "'v::linorder \<Rightarrow> nat"
  assumes idx_mono: "v \<le> w \<Longrightarrow> idx v \<le> idx w"
begin

lemma rank_idx_le:
  assumes "0 < k" and "k \<le> length xs" and "k \<le> length (filter (\<lambda>x. idx x < i) xs)"
  shows "idx (rank xs k) < i"
proof (rule ccontr)
  let ?r = "rank xs k"
  assume "\<not> idx ?r < i"
  then have "x < ?r" if "idx x < i" for x
    using that idx_mono[of ?r x] by (meson leD leI le_less_trans)
  then have sub: "length (filter (\<lambda>x. idx x < i) xs) \<le> length (filter (\<lambda>x. x < ?r) xs)"
    by (rule length_filter_mono)
  have "length (filter (\<lambda>x. x < ?r) xs) = length (filter (\<lambda>x. x < ?r) (sort xs))"
    by (metis mset_filter mset_sort size_mset)
  also have "\<dots> \<le> k - 1"
  proof -
    have "sort xs = take (k - 1) (sort xs) @ drop (k - 1) (sort xs)" by simp
    moreover have "filter (\<lambda>x. x < ?r) (drop (k - 1) (sort xs)) = []"
    proof -
      have "?r \<le> x" if "x \<in> set (drop (k - 1) (sort xs))" for x
        using that assms(1,2) unfolding rank_def
        by (auto simp: in_set_conv_nth intro!: sorted_nth_mono)
      then have "\<forall>x \<in> set (drop (k - 1) (sort xs)). \<not> x < ?r" by (meson leD)
      then show ?thesis by (rule filter_False)
    qed
    ultimately have "filter (\<lambda>x. x < ?r) (sort xs) = filter (\<lambda>x. x < ?r) (take (k - 1) (sort xs))"
      by (metis append_Nil2 filter_append)
    then show ?thesis by (metis length_filter_le length_take min.bounded_iff)
  qed
  finally show False using sub assms(1,3) by linarith
qed

lemma rank_idx_ge:
  assumes "0 < k" and "k \<le> length xs" and "length (filter (\<lambda>x. idx x < i) xs) < k"
  shows "i \<le> idx (rank xs k)"
proof (rule ccontr)
  let ?r = "rank xs k"
  assume r: "\<not> i \<le> idx ?r"
  then have "idx x < i" if "x \<le> ?r" for x
    using that idx_mono[OF that] by linarith
  then have "length (filter (\<lambda>x. x \<le> ?r) xs) \<le> length (filter (\<lambda>x. idx x < i) xs)"
    by (rule length_filter_mono)
  moreover have "k \<le> count_le xs ?r" using rank_le_iff[OF assms(1,2)] by blast
  ultimately show False using assms(3) by (simp add: count_le_def)
qed

lemma scan_rank_Some:
  assumes "0 < k" and "k \<le> length xs" and "scan_counts 0 k (bucket_counts idx n xs) = Some i"
  shows "i < n \<and> idx (rank xs k) = i"
proof -
  note s = scan_counts_Some[OF assms(3)]
  then have i: "i < n" by simp
  have "k \<le> length (filter (\<lambda>x. idx x < Suc i) xs)"
    using s i sum_take_bucket_counts[of "Suc i" n idx xs] by simp
  then have "idx (rank xs k) < Suc i" by (rule rank_idx_le[OF assms(1,2)])
  moreover have "i \<le> idx (rank xs k)"
  proof (cases "i = 0")
    case False
    then have "length (filter (\<lambda>x. idx x < i) xs) < k"
      using s i sum_take_bucket_counts[of i n idx xs] by simp
    then show ?thesis by (rule rank_idx_ge[OF assms(1,2)])
  qed simp
  ultimately show ?thesis using i by simp
qed

lemma scan_rank_None:
  assumes "0 < k" and "k \<le> length xs" and "0 < n" and "scan_counts 0 k (bucket_counts idx n xs) = None"
  shows "n \<le> idx (rank xs k)"
proof -
  have "bucket_counts idx n xs \<noteq> []" using assms(3) by (metis length_bucket_counts length_0_conv less_irrefl)
  then have "sum_list (bucket_counts idx n xs) < k" using scan_counts_None[OF assms(4)] by simp
  then show ?thesis
    using sum_take_bucket_counts[of n n idx xs] by (intro rank_idx_ge[OF assms(1,2)]) simp
qed

end

end
