(* ===== verification/Hist.thy ===== *)
theory Hist
  imports Float64 Buckets
begin

text \<open>
  The socket driver's latency histogram (src/sockets/hist.go), with the machine integers of the
  source: 64 bit counts and bounds that wrap. \<open>hist_repr\<close> is the abstraction: a histogram stands
  for the list of microsecond durations added to it.
\<close>

section \<open>State and buckets\<close>

record Hist =
  buckets :: "u64 list"
  hcount :: u64
  hsum :: f64
  hmax :: u64
  hmin :: u64
  over :: u64

definition decades :: nat where "decades = 9"
definition perDecade :: nat where "perDecade = 900"

definition NewHist :: Hist where
  "NewHist = \<lparr>buckets = replicate (decades * perDecade) 0, hcount = 0, hsum = 0, hmax = 0,
     hmin = 0xFFFFFFFFFFFFFFFF, over = 0\<rparr>"

text \<open>The loop of \<open>index\<close>: the decade of a value and its scale, or nothing past the last decade.\<close>

function hist_decade :: "nat \<Rightarrow> u64 \<Rightarrow> u64 \<Rightarrow> (nat \<times> u64) option" where
  "hist_decade decade scale v =
     (if scale * 10 \<le> v
      then (if decades \<le> decade + 1 then None else hist_decade (decade + 1) (scale * 10) v)
      else Some (decade, scale))"
  by pat_completeness auto
termination by (relation "measure (\<lambda>(d, s, v). decades - d)") auto

declare hist_decade.simps [simp del]

definition hist_index :: "u64 \<Rightarrow> int" where
  "hist_index v =
     (if v < 1 then 0 else
      case hist_decade 0 1 v of
        None \<Rightarrow> - 1
      | Some (decade, scale) \<Rightarrow>
          let wthn = unat ((v - scale) * 100 div scale);
              wthn = (if perDecade \<le> wthn then perDecade - 1 else wthn)
          in int (decade * perDecade + wthn))"

definition hist_upper :: "nat \<Rightarrow> u64" where
  "hist_upper i =
     (let decade = i div perDecade; wthn = i mod perDecade;
          scale = ((\<lambda>s. s * 10) ^^ decade) 1
      in (scale * 100 + (of_nat wthn + 1) * scale) div 100)"

section \<open>Operations\<close>

definition hist_Add :: "Hist \<Rightarrow> int \<Rightarrow> Hist" where
  "hist_Add h us =
     (let us = (if us < 0 then 0 else us);
          v = word_of_int us;
          h = h\<lparr>hcount := hcount h + 1, hsum := fadd (hsum h) (fl (of_nat (unat v)))\<rparr>;
          h = (if hmax h < v then h\<lparr>hmax := v\<rparr> else h);
          h = (if v < hmin h then h\<lparr>hmin := v\<rparr> else h);
          i = hist_index v
      in if i < 0 then h\<lparr>over := over h + 1\<rparr>
         else h\<lparr>buckets := (buckets h)[nat i := buckets h ! nat i + 1]\<rparr>)"

definition hist_Merge :: "Hist \<Rightarrow> Hist option \<Rightarrow> Hist" where
  "hist_Merge h other =
     (case other of None \<Rightarrow> h | Some p \<Rightarrow>
      if hcount p = 0 then h else
      let h = h\<lparr>buckets := map2 (+) (buckets h) (buckets p)\<rparr>;
          h = h\<lparr>hcount := hcount h + hcount p, hsum := fadd (hsum h) (hsum p), over := over h + over p\<rparr>;
          h = (if hmax h < hmax p then h\<lparr>hmax := hmax p\<rparr> else h)
      in if hmin p < hmin h then h\<lparr>hmin := hmin p\<rparr> else h)"

definition hist_ms :: "u64 \<Rightarrow> f64" where
  "hist_ms us = round3 (fdiv (fl (of_nat (unat us))) 1000)"

text \<open>The walk of \<open>Quantile\<close>: the first bucket whose running total reaches \<open>want\<close>.\<close>

fun hist_walk :: "u64 \<Rightarrow> u64 \<Rightarrow> u64 list \<Rightarrow> nat option" where
  "hist_walk seen want [] = None"
| "hist_walk seen want (n # ns) =
     (if want \<le> seen + n then Some 0 else map_option Suc (hist_walk (seen + n) want ns))"

definition hist_want :: "u64 \<Rightarrow> f64 \<Rightarrow> u64" where
  "hist_want c q =
     (let want = word_of_int (trunc (math_Ceil (fmul (fl (of_nat (unat c))) q)))
      in if want = 0 then 1 else want)"

definition hist_Quantile :: "Hist \<Rightarrow> f64 \<Rightarrow> f64 option" where
  "hist_Quantile h q =
     (if hcount h = 0 then None else
      Some (case hist_walk 0 (hist_want (hcount h) q) (buckets h) of
              Some i \<Rightarrow> hist_ms (hist_upper i)
            | None \<Rightarrow> hist_ms (hmax h)))"

definition hist_Percentiles :: "Hist \<Rightarrow> (string \<rightharpoonup> f64)" where
  "hist_Percentiles h =
     (if hcount h = 0 then Map.empty else
      (map_of (map (\<lambda>(name, q). (name, the (hist_Quantile h q)))
        [(''p50'', fl (50 / 100)), (''p90'', fl (90 / 100)), (''p95'', fl (95 / 100)),
         (''p99'', fl (99 / 100)), (''p999'', fl (999 / 1000))]))
      (''min'' \<mapsto> hist_ms (hmin h), ''max'' \<mapsto> hist_ms (hmax h),
       ''mean'' \<mapsto> round3 (fdiv (fdiv (hsum h) (fl (of_nat (unat (hcount h))))) 1000)))"

section \<open>The bucket of a value\<close>

lemma hist_decade_spec:
  assumes "unat scale = 10 ^ d" and "d < 9" and "10 ^ d \<le> unat v"
  shows "case hist_decade d scale v of
      None \<Rightarrow> 10 ^ 9 \<le> unat v
    | Some (e, s) \<Rightarrow> e < 9 \<and> unat s = 10 ^ e \<and> 10 ^ e \<le> unat v \<and> unat v < 10 ^ (e + 1)"
  using assms
proof (induction d scale v rule: hist_decade.induct)
  case (1 d scale v)
  have "10 ^ d \<le> (10 :: nat) ^ 8" using "1.prems"(2) by (intro power_increasing) auto
  then have s: "unat (scale * 10) = 10 ^ (d + 1)"
    using "1.prems"(1) by (subst unat_mult_lem[THEN iffD1]) (auto simp: unat_of_nat)
  show ?case
  proof (cases "scale * 10 \<le> v")
    case False
    then show ?thesis using "1.prems" s
      by (subst hist_decade.simps) (simp add: word_le_nat_alt)
  next
    case True
    then have le: "10 ^ (d + 1) \<le> unat v" using s by (simp add: word_le_nat_alt)
    show ?thesis
    proof (cases "decades \<le> d + 1")
      case True': True
      then have "d = 8" using "1.prems"(2) by (simp add: decades_def)
      then show ?thesis using True True' le by (subst hist_decade.simps) simp
    next
      case False
      then have "d + 1 < 9" by (simp add: decades_def)
      then show ?thesis using "1.IH"[OF True False s _ le] True False
        by (subst hist_decade.simps) simp
    qed
  qed
qed

text \<open>The bucket number on natural numbers, with everything past the last decade in one more.\<close>

definition hist_idx :: "u64 \<Rightarrow> nat" where
  "hist_idx v = (if hist_index v < 0 then decades * perDecade else nat (hist_index v))"

lemma hist_within:
  fixes s v :: u64
  assumes "unat s = 10 ^ d" and "d < 9" and "10 ^ d \<le> unat v" and "unat v < 10 ^ (d + 1)"
  shows "unat ((v - s) * 100 div s) = (unat v - 10 ^ d) * 100 div 10 ^ d"
    and "(unat v - 10 ^ d) * 100 div 10 ^ d < 900"
proof -
  have "10 ^ d \<le> (10 :: nat) ^ 8" using assms(2) by (intro power_increasing) auto
  moreover have sub: "unat (v - s) = unat v - 10 ^ d"
    using assms(1,3) by (simp add: unat_sub word_le_nat_alt)
  ultimately have "unat (v - s) * unat (100 :: u64) < 2 ^ LENGTH(64)" using assms(4) by simp
  then have "unat ((v - s) * 100) = (unat v - 10 ^ d) * 100"
    using sub unat_mult_lem[of "v - s" 100] by simp
  then show "unat ((v - s) * 100 div s) = (unat v - 10 ^ d) * 100 div 10 ^ d"
    by (simp add: unat_div assms(1))
  have "(unat v - 10 ^ d) * 100 < 900 * 10 ^ d" using assms(4) by simp
  then show "(unat v - 10 ^ d) * 100 div 10 ^ d < 900"
    by (simp add: less_mult_imp_div_less)
qed

lemma hist_index_zero: "hist_index 0 = 0"
  by (simp add: hist_index_def)

lemma hist_index_spec:
  assumes "0 < unat v"
  shows "(10 ^ 9 \<le> unat v \<and> hist_index v = - 1) \<or>
    (\<exists>d < 9. 10 ^ d \<le> unat v \<and> unat v < 10 ^ (d + 1)
      \<and> (unat v - 10 ^ d) * 100 div 10 ^ d < 900
      \<and> hist_index v = int (d * 900 + (unat v - 10 ^ d) * 100 div 10 ^ d))"
proof -
  have v1: "\<not> v < 1" using assms by (simp add: word_less_nat_alt)
  have spec: "case hist_decade 0 1 v of None \<Rightarrow> 10 ^ 9 \<le> unat v
    | Some (e, s) \<Rightarrow> e < 9 \<and> unat s = 10 ^ e \<and> 10 ^ e \<le> unat v \<and> unat v < 10 ^ (e + 1)"
    using assms by (intro hist_decade_spec) auto
  show ?thesis
  proof (cases "hist_decade 0 1 v")
    case None
    then show ?thesis using spec v1 by (simp add: hist_index_def)
  next
    case (Some es)
    obtain e s where es: "es = (e, s)" by fastforce
    have b: "unat s = 10 ^ e" "e < 9" "10 ^ e \<le> unat v" "unat v < 10 ^ (e + 1)"
      using spec Some es by auto
    note w = hist_within[OF b]
    have "hist_index v = int (e * 900 + (unat v - 10 ^ e) * 100 div 10 ^ e)"
      using Some es v1 w by (simp add: hist_index_def Let_def perDecade_def)
    then show ?thesis using b w(2) by blast
  qed
qed

lemma hist_index_lt:
  assumes "0 \<le> hist_index v"
  shows "nat (hist_index v) < 8100"
proof (cases "0 < unat v")
  case True
  then obtain d where d: "d < 9" "(unat v - 10 ^ d) * 100 div 10 ^ d < 900"
    "hist_index v = int (d * 900 + (unat v - 10 ^ d) * 100 div 10 ^ d)"
    using hist_index_spec[OF True] assms by auto
  have "d * 900 \<le> 8 * 900" using d(1) by (intro mult_right_mono) auto
  then have "d * 900 + (unat v - 10 ^ d) * 100 div 10 ^ d < 8100" using d(2) by linarith
  then show ?thesis unfolding d(3) by simp
next
  case False
  then have "v = 0" by (simp add: unat_eq_0)
  then show ?thesis by (simp add: hist_index_zero)
qed

lemma hist_idx_cases:
  obtains "unat v = 0" "hist_idx v = 0"
  | "10 ^ 9 \<le> unat v" "hist_idx v = 8100"
  | d where "d < 9" "10 ^ d \<le> unat v" "unat v < 10 ^ (d + 1)"
      "(unat v - 10 ^ d) * 100 div 10 ^ d < 900"
      "hist_idx v = d * 900 + (unat v - 10 ^ d) * 100 div 10 ^ d"
proof (cases "unat v = 0")
  case True
  then have "v = 0" by (simp add: unat_eq_0)
  with that(1) show ?thesis by (simp add: hist_idx_def hist_index_zero)
next
  case False
  then show ?thesis
    using hist_index_spec[of v] that(2,3)
    by (auto simp: hist_idx_def decades_def perDecade_def simp del: power_Suc)
qed

lemma decade_le: "10 ^ d \<le> (n :: nat) \<Longrightarrow> n < 10 ^ (e + 1) \<Longrightarrow> d \<le> e"
  by (metis Suc_eq_plus1 le_less_trans less_Suc_eq_le nat_power_less_imp_less zero_less_numeral)

lemma hist_idx_le: "hist_idx v \<le> 8100"
  by (cases v rule: hist_idx_cases) auto

lemma hist_idx_mono:
  assumes "v \<le> w"
  shows "hist_idx v \<le> hist_idx w"
proof -
  have le: "unat v \<le> unat w" using assms by (simp add: word_le_nat_alt)
  show ?thesis
  proof (cases w rule: hist_idx_cases)
    case 1
    then have "v = w" using le by (simp add: unat_eq_0)
    then show ?thesis by simp
  next
    case 2
    then show ?thesis using hist_idx_le by simp
  next
    case w: (3 e)
    show ?thesis
    proof (cases v rule: hist_idx_cases)
      case 1
      then show ?thesis by simp
    next
      case 2
      have "unat w < 10 ^ 9"
        using w(1,3) power_increasing[of "e + 1" 9 "10 :: nat"] by simp
      then show ?thesis using 2 le by simp
    next
      case v: (3 d)
      have de: "d \<le> e" using decade_le[of d "unat w" e] v(2) w(3) le by simp
      show ?thesis
      proof (cases "d = e")
        case True
        then show ?thesis using v(5) w(5) le by (simp add: div_le_mono)
      next
        case False
        then have "(d + 1) * 900 \<le> e * 900" using de by (intro mult_right_mono) auto
        then show ?thesis using v(4,5) w(5) by simp
      qed
    qed
  qed
qed

interpretation hist: bucketed hist_idx
  by unfold_locales (rule hist_idx_mono)

section \<open>The bound of a bucket\<close>

lemma unat_scale: "d < 9 \<Longrightarrow> unat (((\<lambda>s :: u64. s * 10) ^^ d) 1) = 10 ^ d"
proof (induction d)
  case 0
  then show ?case by simp
next
  case (Suc d)
  let ?s = "((\<lambda>s :: u64. s * 10) ^^ d) 1"
  have "10 ^ d \<le> (10 :: nat) ^ 8" using Suc.prems by (intro power_increasing) auto
  then have "unat ?s * unat (10 :: u64) < 2 ^ LENGTH(64)" using Suc by simp
  then have "unat (?s * 10) = unat ?s * 10" using unat_mult_lem[of ?s 10] by simp
  then show ?case using Suc by simp
qed

lemma unat_hist_upper:
  assumes "d < 9" and "w < 900"
  shows "unat (hist_upper (d * 900 + w)) = (10 ^ d * 100 + (w + 1) * 10 ^ d) div 100"
proof -
  let ?s = "((\<lambda>s :: u64. s * 10) ^^ d) 1"
  have pow: "10 ^ d \<le> (10 :: nat) ^ 8" using assms(1) by (intro power_increasing) auto
  have s: "unat ?s = 10 ^ d" using assms(1) by (rule unat_scale)
  have w: "unat (of_nat w + 1 :: u64) = w + 1"
    using assms(2) by (simp add: unat_word_ariths unat_of_nat)
  have "unat (?s * 100) = 10 ^ d * 100" using pow s unat_mult_lem[of ?s 100] by simp
  moreover have m: "(w + 1) * 10 ^ d \<le> 900 * 10 ^ 8"
    using assms(2) pow by (intro mult_mono) auto
  then have "unat ((of_nat w + 1) * ?s) = (w + 1) * 10 ^ d"
    using s w unat_mult_lem[of "of_nat w + 1" ?s] by simp
  ultimately have "unat (?s * 100 + (of_nat w + 1) * ?s) = 10 ^ d * 100 + (w + 1) * 10 ^ d"
    using pow m unat_add_lem[of "?s * 100" "(of_nat w + 1) * ?s"] by simp
  then show ?thesis
    using assms(2) by (simp add: hist_upper_def perDecade_def Let_def unat_div)
qed

text \<open>A bucket's bound is never under a value in the bucket, and never over by more than 1\%.\<close>

lemma hist_upper_bounds:
  assumes "unat v < 10 ^ 9"
  shows "hist_idx v < 8100" and "unat v \<le> unat (hist_upper (hist_idx v))"
    and "100 * unat (hist_upper (hist_idx v)) \<le> 101 * max 1 (unat v)"
proof -
  have "hist_idx v < 8100 \<and> unat v \<le> unat (hist_upper (hist_idx v))
      \<and> 100 * unat (hist_upper (hist_idx v)) \<le> 101 * max 1 (unat v)"
  proof (cases v rule: hist_idx_cases)
    case 1
    have "unat (hist_upper 0) = 1" using unat_hist_upper[of 0 0] by simp
    then show ?thesis using 1 by simp
  next
    case 2
    then show ?thesis using assms by simp
  next
    case (3 d)
    define s where "s = (10 :: nat) ^ d"
    define x where "x = unat v - s"
    define w where "w = x * 100 div s"
    have s: "0 < s" and v: "unat v = s + x" using 3(2) by (auto simp: s_def x_def)
    have "w * s + x * 100 mod s = x * 100" by (simp add: w_def)
    moreover have "x * 100 mod s < s" using s by simp
    moreover have "(w + 1) * s = w * s + s" by simp
    ultimately have wx: "w * s \<le> x * 100" "x * 100 < (w + 1) * s" by linarith+
    have i: "hist_idx v = d * 900 + w" and w9: "w < 900"
      using 3(4,5) by (auto simp: w_def x_def s_def)
    have u: "unat (hist_upper (hist_idx v)) = (s * 100 + (w + 1) * s) div 100"
      using unat_hist_upper[OF 3(1) w9] by (simp add: i s_def)
    have "unat v \<le> (s * 100 + (w + 1) * s) div 100"
      using wx(2) unfolding v by (simp add: less_eq_div_iff_mult_less_eq algebra_simps)
    moreover have "100 * ((s * 100 + (w + 1) * s) div 100) \<le> s * 100 + (w + 1) * s" by simp
    then have "100 * ((s * 100 + (w + 1) * s) div 100) \<le> 101 * unat v"
      using wx(1) unfolding v by (simp add: algebra_simps)
    moreover have "d * 900 \<le> 8 * 900" using 3(1) by (intro mult_right_mono) auto
    then have "d * 900 + w < 8100" using w9 by linarith
    ultimately show ?thesis using i u v s by simp
  qed
  then show "hist_idx v < 8100" "unat v \<le> unat (hist_upper (hist_idx v))"
    "100 * unat (hist_upper (hist_idx v)) \<le> 101 * max 1 (unat v)" by auto
qed

section \<open>What a histogram stands for\<close>

definition hist_repr :: "Hist \<Rightarrow> u64 list \<Rightarrow> bool" where
  "hist_repr h xs \<longleftrightarrow>
     map unat (buckets h) = bucket_counts hist_idx 8100 xs
     \<and> unat (hcount h) = length xs
     \<and> unat (over h) = length (filter (\<lambda>x. hist_idx x = 8100) xs)
     \<and> hmax h = foldl max 0 xs
     \<and> hmin h = foldl min 0xFFFFFFFFFFFFFFFF xs"

definition hist_clamp :: "int \<Rightarrow> u64" where
  "hist_clamp us = word_of_int (if us < 0 then 0 else us)"

lemma hist_repr_New: "hist_repr NewHist []"
  by (simp add: hist_repr_def NewHist_def bucket_counts_Nil decades_def perDecade_def)

lemma hist_repr_lengths:
  assumes "hist_repr h xs"
  shows "length (buckets h) = 8100" and "length xs < 2 ^ 64"
proof -
  show "length (buckets h) = 8100"
    using assms by (metis hist_repr_def length_bucket_counts length_map)
  show "length xs < 2 ^ 64"
    using assms unat_u64_less[of "hcount h"] by (simp add: hist_repr_def)
qed

lemma hist_repr_nth:
  assumes "hist_repr h xs" and "i < 8100"
  shows "unat (buckets h ! i) = length (filter (\<lambda>x. hist_idx x = i) xs)"
proof -
  have "unat (buckets h ! i) = map unat (buckets h) ! i"
    using assms hist_repr_lengths[OF assms(1)] by simp
  then show ?thesis using assms by (simp add: hist_repr_def bucket_counts_nth)
qed

lemma unat_Suc_64: "unat (w :: u64) + 1 < 2 ^ 64 \<Longrightarrow> unat (w + 1) = unat w + 1"
  using unat_add_lem[of w 1] by simp

text \<open>
  C8: as long as the 64 bit count does not overflow, adding a duration to a histogram that stands
  for a list gives a histogram that stands for the list with the duration, clamped at zero, at its
  end: the count, the overflow count, the extremes and every one of the 8100 buckets are right.
\<close>

theorem hist_Add_refines:
  assumes "hist_repr h xs" and "length xs + 1 < 2 ^ 64"
  shows "hist_repr (hist_Add h us) (xs @ [hist_clamp us])"
proof -
  let ?v = "hist_clamp us"
  have v: "word_of_int (if us < 0 then 0 else us) = ?v" by (simp add: hist_clamp_def)
  have len: "length (buckets h) = 8100" using assms(1) by (rule hist_repr_lengths)
  have small: "unat (buckets h ! i) + 1 < 2 ^ 64" if "i < 8100" for i
    using hist_repr_nth[OF assms(1) that] length_filter_le[of "\<lambda>x. hist_idx x = i" xs] assms(2)
    by linarith
  have cnt: "unat (hcount h + 1) = length xs + 1"
    using assms by (subst unat_Suc_64) (simp_all add: hist_repr_def)
  have ov: "unat (over h + 1) = unat (over h) + 1"
  proof (rule unat_Suc_64)
    have "unat (over h) \<le> length xs" using assms(1) by (simp add: hist_repr_def)
    then show "unat (over h) + 1 < 2 ^ 64" using assms(2) by linarith
  qed
  have bump: "map unat ((buckets h)[i := buckets h ! i + 1]) = (map unat (buckets h))[i := map unat (buckets h) ! i + 1]"
    if "i < 8100" for i
    using that small[OF that] len by (simp add: map_update unat_Suc_64)
  have mx: "(if hmax h < ?v then ?v else hmax h) = max (hmax h) ?v"
    and mn: "(if ?v < hmin h then ?v else hmin h) = min (hmin h) ?v"
    by (auto simp: max_def min_def)
  show ?thesis
  proof (cases "hist_index ?v < 0")
    case True
    then have i: "hist_idx ?v = 8100" by (simp add: hist_idx_def decades_def perDecade_def)
    show ?thesis
      using assms(1) True i cnt ov mx mn
      by (auto simp: hist_repr_def hist_Add_def v Let_def bucket_counts_snoc)
  next
    case False
    then have i: "hist_idx ?v = nat (hist_index ?v)" by (simp add: hist_idx_def)
    have i8: "nat (hist_index ?v) < 8100" by (rule hist_index_lt) (use False in simp)
    show ?thesis
      using assms(1) False i i8 cnt mx mn bump[OF i8]
      by (auto simp: hist_repr_def hist_Add_def v Let_def bucket_counts_snoc)
  qed
qed

theorem hist_Add_refines_witness:
  "hist_repr (hist_Add NewHist (- 5)) [0] \<and> hist_repr (hist_Add NewHist 1500) [1500]"
  using hist_Add_refines[OF hist_repr_New, of "- 5"] hist_Add_refines[OF hist_repr_New, of 1500]
  by (simp add: hist_clamp_def)

section \<open>Merging the workers' histograms\<close>

lemma u64_le_max: "(a :: u64) \<le> 0xFFFFFFFFFFFFFFFF"
  using unat_u64_less[of a] by (simp add: word_le_nat_alt)

lemma foldl_max_word: "foldl max a xs = max a (foldl max (0 :: u64) xs)"
proof (induction xs arbitrary: a)
  case Nil
  then show ?case by (simp add: max_absorb1)
next
  case (Cons x xs)
  have "foldl max 0 (x # xs) = max x (foldl max 0 xs)"
    using Cons[of "max 0 x"] by (simp add: max_absorb2)
  then show ?case using Cons[of "max a x"] by (simp add: max.assoc)
qed

lemma foldl_min_word: "foldl min a xs = min a (foldl min (0xFFFFFFFFFFFFFFFF :: u64) xs)"
proof (induction xs arbitrary: a)
  case Nil
  then show ?case by (simp add: min_absorb1 u64_le_max)
next
  case (Cons x xs)
  have "foldl min 0xFFFFFFFFFFFFFFFF (x # xs) = min x (foldl min 0xFFFFFFFFFFFFFFFF xs)"
    using Cons[of "min 0xFFFFFFFFFFFFFFFF x"] by (simp add: min_absorb2 u64_le_max)
  then show ?case using Cons[of "min a x"] by (simp add: min.assoc)
qed

lemma map2_unat_add:
  assumes "list_all2 (\<lambda>a b. unat a + unat b < 2 ^ 64) as (bs :: u64 list)"
  shows "map unat (map2 (+) as bs) = map2 (+) (map unat as) (map unat bs)"
  using assms by (induction rule: list_all2_induct) (simp_all add: unat_add_lem[THEN iffD1])

text \<open>
  C9: merging is exact and loses nothing: a histogram for one list merged with one for another
  stands for the two lists together, whichever bucket, extreme or overflow count is read, so a
  run's histogram over 64 collectors is the histogram of every delivery of the run.
\<close>

theorem hist_Merge_refines:
  assumes h: "hist_repr h xs" and p: "hist_repr p ys" and len: "length xs + length ys < 2 ^ 64"
  shows "hist_repr (hist_Merge h (Some p)) (xs @ ys)"
proof (cases "hcount p = 0")
  case True
  then have "ys = []" using p by (simp add: hist_repr_def)
  then show ?thesis using h True by (simp add: hist_Merge_def)
next
  case False
  have "unat (buckets h ! i) + unat (buckets p ! i) < 2 ^ 64" if "i < 8100" for i
    using hist_repr_nth[OF h that] hist_repr_nth[OF p that] len
      length_filter_le[of "\<lambda>x. hist_idx x = i" xs] length_filter_le[of "\<lambda>x. hist_idx x = i" ys]
    by linarith
  then have bs: "map unat (map2 (+) (buckets h) (buckets p)) = bucket_counts hist_idx 8100 (xs @ ys)"
    using h p hist_repr_lengths(1)[OF h] hist_repr_lengths(1)[OF p]
    by (subst map2_unat_add) (auto simp: list_all2_conv_all_nth bucket_counts_append hist_repr_def)
  have cnt: "unat (hcount h + hcount p) = length xs + length ys"
    using h p len unat_add_lem[of "hcount h" "hcount p"] by (simp add: hist_repr_def)
  have "unat (over h) + unat (over p) < 2 ^ 64"
    using h p len length_filter_le[of "\<lambda>x. hist_idx x = 8100" xs]
      length_filter_le[of "\<lambda>x. hist_idx x = 8100" ys]
    unfolding hist_repr_def by linarith
  then have ov: "unat (over h + over p) = unat (over h) + unat (over p)"
    using unat_add_lem[of "over h" "over p"] by simp
  have "foldl max 0 (xs @ ys) = max (hmax h) (hmax p)"
    using h p by (simp add: hist_repr_def foldl_max_word[of "foldl max 0 xs"])
  moreover have "foldl min 0xFFFFFFFFFFFFFFFF (xs @ ys) = min (hmin h) (hmin p)"
    using h p by (simp add: hist_repr_def foldl_min_word[of "foldl min _ xs"])
  ultimately show ?thesis
    using h p False bs cnt ov
    by (auto simp: hist_repr_def hist_Merge_def Let_def max_def min_def)
qed

theorem hist_Merge_refines_witness:
  "hist_repr (hist_Merge (hist_Add NewHist 7) (Some (hist_Add NewHist 9))) [7, 9]"
proof -
  have 7: "hist_repr (hist_Add NewHist 7) [7]" and 9: "hist_repr (hist_Add NewHist 9) [9]"
    using hist_Add_refines[OF hist_repr_New, of 7] hist_Add_refines[OF hist_repr_New, of 9]
    by (simp_all add: hist_clamp_def)
  show ?thesis using hist_Merge_refines[OF 7 9] by simp
qed

section \<open>Quantiles\<close>

lemma hist_walk_scan:
  assumes "unat seen + sum_list (map unat ns) < 2 ^ 64"
  shows "hist_walk seen want ns = scan_counts (unat seen) (unat want) (map unat ns)"
  using assms
proof (induction seen want ns rule: hist_walk.induct)
  case (1 seen want)
  then show ?case by simp
next
  case (2 seen want n ns)
  then have "unat (seen + n) = unat seen + unat n"
    using unat_add_lem[of seen n] by simp
  then show ?case using 2 by (simp add: word_le_nat_alt)
qed

lemma want_word:
  assumes "unat c = n" and "n \<le> 2 ^ 53" and "0 \<le> q" and "q \<le> 1"
  shows "unat (word_of_int (trunc (math_Ceil (fmul (fl (of_nat (unat c))) q))) :: u64)
      = nat \<lceil>fl (of_nat n * q)\<rceil>"
    and "nat \<lceil>fl (of_nat n * q)\<rceil> \<le> n"
proof -
  have n: "fl (of_nat n) = of_nat n" using assms(2) by (rule fl_of_nat)
  have "of_nat n * q \<le> of_nat n * 1" using assms by (intro mult_left_mono) auto
  then have "fl (of_nat n * q) \<le> fl (of_nat n)" by (intro fl_mono) simp
  then have up: "\<lceil>fl (of_nat n * q)\<rceil> \<le> int n" by (simp add: n ceiling_le_iff)
  then show "nat \<lceil>fl (of_nat n * q)\<rceil> \<le> n" by linarith
  have lo: "0 \<le> fl (of_nat n * q)" using assms by (intro fl_nonneg) simp
  have t: "trunc (math_Ceil (fmul (fl (of_nat (unat c))) q)) = \<lceil>fl (of_nat n * q)\<rceil>"
    using lo by (simp add: assms(1) n fmul_def math_Ceil_def trunc_def)
  have c0: "0 \<le> \<lceil>fl (of_nat n * q)\<rceil>" using lo by (simp add: zero_le_ceiling)
  have "int n < 2 ^ 64" using assms(2) by simp
  then have "\<lceil>fl (of_nat n * q)\<rceil> mod 2 ^ 64 = \<lceil>fl (of_nat n * q)\<rceil>"
    using c0 up by (intro mod_pos_pos_trivial) linarith+
  then have "unat (word_of_int \<lceil>fl (of_nat n * q)\<rceil> :: u64) = nat \<lceil>fl (of_nat n * q)\<rceil>"
    by (simp add: unat_eq_nat_uint uint_word_of_int)
  then show "unat (word_of_int (trunc (math_Ceil (fmul (fl (of_nat (unat c))) q))) :: u64)
      = nat \<lceil>fl (of_nat n * q)\<rceil>" unfolding t .
qed

lemma hist_want_spec:
  assumes "0 < n" and "unat c = n" and "n \<le> 2 ^ 53" and "0 \<le> q" and "q \<le> 1"
  shows "unat (hist_want c q) = max 1 (nat \<lceil>fl (of_nat n * q)\<rceil>) \<and> unat (hist_want c q) \<le> n"
proof -
  define W where "W = (word_of_int (trunc (math_Ceil (fmul (fl (of_nat (unat c))) q))) :: u64)"
  have u: "unat W = nat \<lceil>fl (of_nat n * q)\<rceil>" "unat W \<le> n"
    using want_word[OF assms(2-5)] unfolding W_def by simp_all
  have w: "hist_want c q = (if W = 0 then 1 else W)" by (simp only: hist_want_def W_def Let_def)
  show ?thesis
  proof (cases "W = 0")
    case True
    then have "nat \<lceil>fl (of_nat n * q)\<rceil> = 0" using u(1) by (metis unat_0)
    then show ?thesis using w True assms(1) by (simp only: if_True) simp
  next
    case False
    then have "1 \<le> unat W" by (metis unat_eq_0 One_nat_def Suc_leI neq0_conv)
    then show ?thesis using w False u by simp
  qed
qed

lemma in_foldl_max: "x \<in> set ys \<Longrightarrow> x \<le> foldl max (0 :: u64) ys"
proof (induction ys)
  case (Cons y ys)
  have "foldl max 0 (y # ys) = max y (foldl max 0 ys)"
    using foldl_max_word[of "max 0 y" ys] by (simp add: max_absorb2)
  then show ?case using Cons by (auto simp: le_max_iff_disj)
qed simp

lemma rank_le_max: "0 < k \<Longrightarrow> k \<le> length xs \<Longrightarrow> rank xs k \<le> foldl max (0 :: u64) xs"
  by (rule in_foldl_max) (rule rank_in_set)

text \<open>
  C13: a quantile of a non-empty histogram is the published form of a bound \<open>b\<close> on the order
  statistic of rank \<open>k = max 1 \<lceil>n q\<rceil>\<close>: never below it, and above it by at most one percent
  (one microsecond for a zero), as long as that statistic is under a thousand seconds; past them
  \<open>b\<close> is the largest duration seen.
\<close>

theorem hist_Quantile_bounds_rank:
  assumes "hist_repr h xs" and "xs \<noteq> []" and "length xs \<le> 2 ^ 53" and "0 \<le> q" and "q \<le> 1"
    and "k = max 1 (nat \<lceil>fl (of_nat (length xs) * q)\<rceil>)"
  shows "k \<le> length xs \<and> (\<exists>b. hist_Quantile h q = Some (hist_ms b) \<and> rank xs k \<le> b
    \<and> (unat (rank xs k) < 10 ^ 9 \<longrightarrow> 100 * unat b \<le> 101 * max 1 (unat (rank xs k)))
    \<and> (10 ^ 9 \<le> unat (rank xs k) \<longrightarrow> b = foldl max 0 xs))"
proof -
  have n: "unat (hcount h) = length xs" using assms(1) by (simp add: hist_repr_def)
  have want: "unat (hist_want (hcount h) q) = k" "k \<le> length xs"
    using hist_want_spec[OF _ n assms(3-5)] assms(2,6) by auto
  have k: "0 < k" using assms(6) by simp
  have bs: "map unat (buckets h) = bucket_counts hist_idx 8100 xs"
    using assms(1) by (simp add: hist_repr_def)
  have ne: "hcount h \<noteq> 0" using n assms(2) by (metis length_0_conv unat_0)
  have "sum_list (map unat (buckets h)) < 2 ^ 64"
    using sum_bucket_counts_le[of hist_idx 8100 xs] hist_repr_lengths(2)[OF assms(1)] bs by simp
  then have walk: "hist_walk 0 (hist_want (hcount h) q) (buckets h)
      = scan_counts 0 k (bucket_counts hist_idx 8100 xs)"
    by (simp add: hist_walk_scan want bs)
  show ?thesis
  proof (cases "scan_counts 0 k (bucket_counts hist_idx 8100 xs)")
    case (Some i)
    then have i: "i < 8100" "hist_idx (rank xs k) = i"
      using hist.scan_rank_Some[OF k want(2) Some] by auto
    then have small: "unat (rank xs k) < 10 ^ 9"
    proof (cases "rank xs k" rule: hist_idx_cases)
      case (3 d)
      have "(10 :: nat) ^ (d + 1) \<le> 10 ^ 9" using 3(1) by (intro power_increasing) auto
      then show ?thesis using 3(3) by linarith
    qed (use i in auto)
    have "hist_Quantile h q = Some (hist_ms (hist_upper i))"
      using ne Some by (simp add: hist_Quantile_def walk)
    then show ?thesis
      using hist_upper_bounds[OF small] small i(2) want(2) by (auto simp: word_le_nat_alt)
  next
    case None
    then have "8100 \<le> hist_idx (rank xs k)"
      using hist.scan_rank_None[OF k want(2) _ None] by simp
    then have big: "10 ^ 9 \<le> unat (rank xs k)"
      using hist_upper_bounds(1)[of "rank xs k"] by (meson leD leI)
    have "hist_Quantile h q = Some (hist_ms (hmax h))"
      using ne None by (simp add: hist_Quantile_def walk)
    moreover have "hmax h = foldl max 0 xs" using assms(1) by (simp add: hist_repr_def)
    ultimately show ?thesis using big want(2) rank_le_max[OF k want(2)] by auto
  qed
qed

theorem hist_Quantile_bounds_rank_witness:
  "1 \<le> length [7 :: u64] \<and> (\<exists>b. hist_Quantile (hist_Add NewHist 7) (1 / 2) = Some (hist_ms b) \<and> 7 \<le> b
    \<and> 100 * unat b \<le> 707)"
proof -
  have h: "hist_repr (hist_Add NewHist 7) [7]"
    using hist_Add_refines[OF hist_repr_New, of 7] by (simp add: hist_clamp_def)
  have f: "fl (1 / 2) \<le> fl 1" by (rule fl_mono) simp
  have "fl 1 = 1" using fl_of_nat[of 1] by simp
  then have "nat \<lceil>fl (1 / 2)\<rceil> \<le> 1" using f by (simp add: nat_le_iff ceiling_le_iff)
  then have k: "(1 :: nat) = max 1 (nat \<lceil>fl (of_nat (length [7 :: u64]) * (1 / 2))\<rceil>)" by simp
  show ?thesis
    using hist_Quantile_bounds_rank[OF h _ _ _ _ k] by (auto simp: rank_def)
qed

text \<open>
  The milliseconds the histogram publishes are the double nearest to the microseconds over a
  thousand, for every duration up to 35 years: \<open>round3\<close> adds no second rounding error.
\<close>

lemma hist_ms_exact:
  assumes "unat us \<le> 2 ^ 50"
  shows "hist_ms us = fl (of_nat (unat us) / 1000)"
proof -
  define n where "n = unat us"
  have "int n \<le> 2 ^ 50" using assms unfolding n_def by (metis of_nat_le_iff of_nat_numeral of_nat_power)
  then show ?thesis
    unfolding hist_ms_def n_def[symmetric] using round3_thousandths[of "int n"]
    by (simp add: f64_of_int_def)
qed

end
