(* ===== verification/Zoustats.thy ===== *)
theory Zoustats
  imports Hist GoAny Bytes
begin

text \<open>
  Package \<open>zoustats\<close> (src/zoustats/zoustats.go): the store's counter file. The layout of its slots,
  reading it from bytes, the difference of two snapshots, the report a result carries and the
  totals a price card bills.
\<close>

section \<open>Layout\<close>

definition opNames :: "string list" where
  "opNames = [''get'', ''get_range'', ''put_if_match'', ''put'', ''delete'', ''list'']"
definition classNames :: "string list" where
  "classNames = [''manifest'', ''wal'', ''chk'', ''shards'', ''page'', ''file'', ''other'']"
definition tierNames :: "string list" where "tierNames = [''cache'', ''local'', ''store'', ''service'']"
definition phaseNames :: "string list" where "phaseNames = [''park'', ''read'', ''ingest'', ''queue'']"
definition stepNames :: "string list" where
  "stepNames = [''push'', ''stage'', ''window'', ''dispatch'', ''put'', ''ack'', ''durable'']"
definition causeNames :: "string list" where "causeNames = [''touched'', ''untouched'', ''unclear'']"
definition retryNames :: "string list" where
  "retryNames = [''throttle'', ''server'', ''transport'', ''exhausted'']"
definition packNames :: "string list" where "packNames = [''layer'', ''wal'', ''file'']"

definition kinds :: nat where "kinds = 6"
definition classes :: nat where "classes = 7"
definition tiers :: nat where "tiers = 4"
definition phases :: nat where "phases = 4"
definition zsteps :: nat where "zsteps = 7"
definition causes :: nat where "causes = 3"
definition zretries :: nat where "zretries = 4"
definition packs :: nat where "packs = 3"
definition zbuckets :: nat where "zbuckets = 32"
definition header :: nat where "header = 2"
definition bucketBase :: nat where "bucketBase = header + kinds * classes * 2"
definition errorBase :: nat where "errorBase = bucketBase + kinds * zbuckets"
definition conflictSlot :: nat where "conflictSlot = errorBase + kinds"
definition tierBase :: nat where "tierBase = conflictSlot + 1"
definition phaseBase :: nat where "phaseBase = tierBase + tiers * (2 + zbuckets)"
definition stepBase :: nat where "stepBase = phaseBase + phases * (1 + zbuckets)"
definition causeBase :: nat where "causeBase = stepBase + zsteps * (1 + zbuckets)"
definition gapBase :: nat where "gapBase = causeBase + causes"
definition retryBase :: nat where "retryBase = gapBase + 1 + zbuckets"
definition packBase :: nat where "packBase = retryBase + zretries"
definition slots :: nat where "slots = packBase + packs * 2"
definition zformat :: u64 where "zformat = 8"

lemmas layout = kinds_def classes_def tiers_def phases_def zsteps_def causes_def zretries_def
  packs_def zbuckets_def header_def bucketBase_def errorBase_def conflictSlot_def tierBase_def
  phaseBase_def stepBase_def causeBase_def gapBase_def retryBase_def packBase_def slots_def

definition le_u64 :: "bytes \<Rightarrow> u64" where "le_u64 bs = of_nat (le_value bs)"

definition zmagic :: u64 where "zmagic = le_u64 (u8_text ''ZOUSTATS'')"

type_synonym counters = "u64 list"

definition countSlot :: "nat \<Rightarrow> nat \<Rightarrow> nat" where
  "countSlot kind cls = header + (kind * classes + cls) * 2"
definition tierSlot :: "nat \<Rightarrow> nat" where "tierSlot tier = tierBase + tier * (2 + zbuckets)"
definition phaseSlot :: "nat \<Rightarrow> nat" where "phaseSlot phase = phaseBase + phase * (1 + zbuckets)"
definition stepSlot :: "nat \<Rightarrow> nat" where "stepSlot s = stepBase + s * (1 + zbuckets)"
definition packSlot :: "nat \<Rightarrow> nat" where "packSlot pack = packBase + pack * 2"

section \<open>Reading a file\<close>

definition zoustats_decode :: "bytes \<Rightarrow> counters" where
  "zoustats_decode raw = map (\<lambda>i. le_u64 (take 8 (drop (i * 8) raw))) [0..<slots]"

definition zoustats_Read :: "string \<Rightarrow> bytes go_result \<Rightarrow> counters go_result" where
  "zoustats_Read path file =
     (case file of Inl e \<Rightarrow> Inl e
      | Inr raw \<Rightarrow>
        if length raw < slots * 8 then Inl (path @ '': not a zou counter file'')
        else let c = zoustats_decode raw in
          if c ! 0 \<noteq> zmagic \<or> c ! 1 \<noteq> zformat
          then Inl (path @ '': not a format '' @ itoa (uint zformat) @ '' zou counter file'')
          else Inr c)"

definition zoustats_file :: "counters \<Rightarrow> bytes" where
  "zoustats_file c = concat (map (\<lambda>w. le_bytes 8 (unat w)) c)"

lemma zoustats_Read_file:
  assumes "length c = slots"
  shows "zoustats_Read path (Inr (zoustats_file c @ rest)) =
    (if c ! 0 = zmagic \<and> c ! 1 = zformat then Inr c
     else Inl (path @ '': not a format 8 zou counter file''))"
proof -
  have "le_u64 (take 8 (drop (i * 8) (zoustats_file c @ rest))) = c ! i" if "i < slots" for i
  proof -
    have "take 8 (drop (i * 8) (zoustats_file c @ rest)) = le_bytes 8 (unat (c ! i))"
      unfolding zoustats_file_def using that assms by (intro nth_block) auto
    moreover have "unat (c ! i) < 256 ^ 8" using unat_u64_less[of "c ! i"] by simp
    ultimately show ?thesis by (simp add: le_u64_def le_value_bytes)
  qed
  then have "zoustats_decode (zoustats_file c @ rest) = c"
    using assms by (intro nth_equalityI) (auto simp: zoustats_decode_def)
  moreover have "length (zoustats_file c) = slots * 8"
    using assms by (simp add: zoustats_file_def length_concat comp_def sum_list_triv)
  moreover have "itoa (uint zformat) = ''8''" by code_simp
  ultimately show ?thesis by (simp add: zoustats_Read_def Let_def mult.commute)
qed

text \<open>
  C26: a counter file is read back as the counters it was written from, whatever follows them, when
  it is of the known format; a file of another magic or format, or one cut short, is refused.
\<close>

theorem zoustats_Read_roundtrip:
  assumes "length c = slots"
  shows "zoustats_Read path (Inr (zoustats_file c @ rest)) =
      (if c ! 0 = zmagic \<and> c ! 1 = zformat then Inr c
       else Inl (path @ '': not a format 8 zou counter file''))
    \<and> (length raw < 8 * slots \<longrightarrow> zoustats_Read path (Inr raw) = Inl (path @ '': not a zou counter file''))"
  using zoustats_Read_file[OF assms] by (simp add: zoustats_Read_def)

theorem zoustats_Read_roundtrip_witness:
  "zoustats_Read ''f'' (Inr (zoustats_file (zmagic # zformat # replicate (slots - 2) 7) @ []))
     = Inr (zmagic # zformat # replicate (slots - 2) 7)"
  using zoustats_Read_roundtrip[of "zmagic # zformat # replicate (slots - 2) 7" "''f''" "[]"]
  by (simp add: layout)

section \<open>Differences\<close>

fun diff_from :: "nat \<Rightarrow> counters \<Rightarrow> counters \<Rightarrow> counters go_result" where
  "diff_from i (b # before) (a # after) =
     (if a < b
      then Inl (''counter '' @ itoa (int i) @ '' shrank from '' @ itoa (uint b) @ '' to '' @ itoa (uint a)
        @ '', store restarted mid run'')
      else case diff_from (i + 1) before after of Inl e \<Rightarrow> Inl e | Inr d \<Rightarrow> Inr ((a - b) # d))"
| "diff_from i _ _ = Inr []"

definition zoustats_Diff :: "counters \<Rightarrow> counters \<Rightarrow> counters go_result" where
  "zoustats_Diff before after =
     (case diff_from header (drop header before) (drop header after) of
        Inl e \<Rightarrow> Inl e | Inr d \<Rightarrow> Inr (take header after @ d))"

lemma diff_from_iff:
  assumes "length before = length after"
  shows "diff_from i before after = Inr d \<longleftrightarrow> list_all2 (\<le>) before after \<and> d = map2 (-) after before"
  using assms
proof (induction before after arbitrary: i d rule: list_induct2)
  case Nil
  then show ?case by auto
next
  case (Cons b before a after)
  note IH = Cons.IH[of "i + 1"]
  show ?case
  proof (cases "diff_from (i + 1) before after")
    case (Inl e)
    then show ?thesis using IH[of "map2 (-) after before"] by auto
  next
    case (Inr r)
    then show ?thesis using IH[of r] by (auto simp: not_less)
  qed
qed

lemma zoustats_Diff_iff:
  assumes "length before = slots" and "length after = slots"
  shows "zoustats_Diff before after = Inr d \<longleftrightarrow>
    (\<forall>i. header \<le> i \<and> i < slots \<longrightarrow> before ! i \<le> after ! i)
    \<and> d = take header after @ map2 (-) (drop header after) (drop header before)"
proof -
  have len: "length (drop header before) = length (drop header after)" using assms by simp
  have "list_all2 (\<le>) (drop header before) (drop header after)
      \<longleftrightarrow> (\<forall>i. header \<le> i \<and> i < slots \<longrightarrow> before ! i \<le> after ! i)"
  proof
    assume l: "list_all2 (\<le>) (drop header before) (drop header after)"
    show "\<forall>i. header \<le> i \<and> i < slots \<longrightarrow> before ! i \<le> after ! i"
    proof (intro allI impI)
      fix i assume i: "header \<le> i \<and> i < slots"
      then have "i - header < slots - header" by linarith
      then show "before ! i \<le> after ! i"
        using list_all2_nthD[OF l, of "i - header"] assms i by simp
    qed
  qed (auto simp: list_all2_conv_all_nth assms)
  then show ?thesis
    using diff_from_iff[OF len, of header]
    by (cases "diff_from header (drop header before) (drop header after)")
      (force simp: zoustats_Diff_def)+
qed

text \<open>
  C25: a difference of two snapshots is produced exactly when no counter shrank; adding it back to
  the first snapshot gives the second in every counter, so it is exact and never wraps.
\<close>

theorem zoustats_Diff_exact:
  assumes "length before = slots" and "length after = slots"
  shows "((\<exists>d. zoustats_Diff before after = Inr d) \<longleftrightarrow>
      (\<forall>i. header \<le> i \<and> i < slots \<longrightarrow> before ! i \<le> after ! i))
    \<and> (\<forall>d. zoustats_Diff before after = Inr d \<longrightarrow> length d = slots
      \<and> (\<forall>i. header \<le> i \<and> i < slots \<longrightarrow> unat (before ! i) + unat (d ! i) = unat (after ! i)))"
proof (intro conjI allI impI)
  show "(\<exists>d. zoustats_Diff before after = Inr d) \<longleftrightarrow>
      (\<forall>i. header \<le> i \<and> i < slots \<longrightarrow> before ! i \<le> after ! i)"
    using zoustats_Diff_iff[OF assms] by auto
next
  fix d assume d: "zoustats_Diff before after = Inr d"
  then show "length d = slots" using assms zoustats_Diff_iff[OF assms, of d] by (simp add: layout)
  fix i assume i: "header \<le> i \<and> i < slots"
  have le: "before ! i \<le> after ! i" using d i zoustats_Diff_iff[OF assms, of d] by auto
  have "d ! i = after ! i - before ! i"
  proof -
    have "i - header < slots - header" using i by linarith
    then show ?thesis using d i assms zoustats_Diff_iff[OF assms, of d] by (simp add: nth_append)
  qed
  then show "unat (before ! i) + unat (d ! i) = unat (after ! i)"
    using le by (simp add: unat_sub word_le_nat_alt)
qed

theorem zoustats_Diff_exact_witness:
  "\<exists>d. zoustats_Diff (replicate slots 3) (replicate slots 5) = Inr d \<and> unat (d ! 2) = 2"
  using zoustats_Diff_exact[of "replicate slots 3" "replicate slots 5"]
  by (fastforce simp: layout)

section \<open>Percentiles of a section\<close>

definition zoustats_percentile :: "u64 list \<Rightarrow> u64 \<Rightarrow> f64 \<Rightarrow> u64" where
  "zoustats_percentile hist n q =
     (if n = 0 then 0 else
      case hist_walk 0 (word_of_int (trunc (math_Ceil (fmul (fl (of_nat (unat n))) q)))) hist of
        Some b \<Rightarrow> push_bit (b + 1) 1
      | None \<Rightarrow> push_bit zbuckets 1)"

lemma unat_push_bit_1: "n < 64 \<Longrightarrow> unat (push_bit n 1 :: u64) = 2 ^ n"
  by (simp add: unsigned_push_bit_eq take_bit_nat_eq_self del: push_bit_of_1)

text \<open>
  The producer's buckets: \<open>idx\<close> places a value in one of 32 buckets, in order, bucket \<open>b\<close> below the
  last holding values under \<open>2 ^ (b + 1)\<close>, and at least \<open>2 ^ b\<close> past the first.
\<close>

definition pow2_layout :: "(nat \<Rightarrow> nat) \<Rightarrow> bool" where
  "pow2_layout idx \<longleftrightarrow> bucketed idx \<and>
     (\<forall>v. idx v < 32 \<and> (idx v < 31 \<longrightarrow> v < 2 ^ (idx v + 1)) \<and> (0 < idx v \<longrightarrow> 2 ^ idx v \<le> v))"

text \<open>
  For a histogram of power of two buckets, the percentile published is the upper bound of the
  bucket that holds the order statistic of rank \<open>\<lceil>n q\<rceil>\<close>: above the statistic and at most twice
  it, whenever the statistic is not in the last bucket.
\<close>

theorem zoustats_percentile_bounds:
  assumes "pow2_layout idx" and "map unat hist = bucket_counts idx 32 xs" and "unat n = length xs"
    and "xs \<noteq> []" and "length xs \<le> 2 ^ 53" and "1 / 2 \<le> q" and "q \<le> 1"
    and "k = nat \<lceil>fl (of_nat (length xs) * q)\<rceil>"
  shows "0 < k \<and> k \<le> length xs
    \<and> unat (zoustats_percentile hist n q) = 2 ^ (idx (rank xs k) + 1)
    \<and> (idx (rank xs k) < 31 \<longrightarrow> rank xs k < unat (zoustats_percentile hist n q)
         \<and> unat (zoustats_percentile hist n q) \<le> 2 * max 1 (rank xs k))"
proof -
  have b: "bucketed idx" using assms(1) by (simp add: pow2_layout_def)
  have q0: "0 \<le> q" using assms(6) by linarith
  note w = want_word[OF assms(3,5) q0 assms(7)]
  have "1 * (1 / 2) \<le> of_nat (length xs) * q"
    using assms(4,6) by (intro mult_mono) (auto simp: Suc_le_eq)
  then have "fl (1 / 2) \<le> fl (of_nat (length xs) * q)" by (intro fl_mono) simp
  then have k: "0 < k" using assms(8) by simp
  have kn: "k \<le> length xs" using w(2) assms(8) by simp
  have n0: "n \<noteq> 0" using assms(3,4) by (metis length_0_conv unat_0)
  have "sum_list (map unat hist) \<le> length xs"
    unfolding assms(2) by (rule sum_bucket_counts_le)
  then have walk: "hist_walk 0 (word_of_int (trunc (math_Ceil (fmul (fl (of_nat (unat n))) q)))) hist
      = scan_counts 0 k (bucket_counts idx 32 xs)"
    using assms(5) w(1) by (subst hist_walk_scan) (simp_all add: assms(2,8))
  obtain i where i: "scan_counts 0 k (bucket_counts idx 32 xs) = Some i"
  proof (cases "scan_counts 0 k (bucket_counts idx 32 xs)")
    case None
    then have "32 \<le> idx (rank xs k)" using bucketed.scan_rank_None[OF b k kn _ None] by simp
    then show ?thesis using assms(1) by (metis leD pow2_layout_def)
  qed (use that in blast)
  have r: "i < 32" "idx (rank xs k) = i" using bucketed.scan_rank_Some[OF b k kn i] by auto
  have "zoustats_percentile hist n q = push_bit (i + 1) 1"
    unfolding zoustats_percentile_def walk i using n0 by (simp only: if_False option.case)
  also have "unat \<dots> = 2 ^ (i + 1)" using r(1) by (intro unat_push_bit_1) simp
  finally have u: "unat (zoustats_percentile hist n q) = 2 ^ (i + 1)" .
  have "i < 31 \<longrightarrow> rank xs k < 2 ^ (i + 1) \<and> 2 ^ (i + 1) \<le> 2 * max 1 (rank xs k)"
  proof -
    have "idx (rank xs k) < 31 \<longrightarrow> rank xs k < 2 ^ (idx (rank xs k) + 1)"
      "0 < idx (rank xs k) \<longrightarrow> 2 ^ idx (rank xs k) \<le> rank xs k"
      using assms(1) unfolding pow2_layout_def by blast+
    then show ?thesis unfolding r(2) by (cases "i = 0") auto
  qed
  then show ?thesis using k kn u r(2) by simp
qed

text \<open>One such layout: the bucket of a value is the place of its highest bit.\<close>

fun high_bit :: "nat \<Rightarrow> nat" where
  "high_bit v = (if v < 2 then 0 else min 31 (high_bit (v div 2) + 1))"

declare high_bit.simps [simp del]

lemma high_bit_bounds:
  "high_bit v < 32 \<and> (high_bit v < 31 \<longrightarrow> v < 2 ^ (high_bit v + 1)) \<and> (0 < v \<longrightarrow> 2 ^ high_bit v \<le> v)"
proof (induction v rule: high_bit.induct)
  case (1 v)
  show ?case
  proof (cases "v < 2")
    case True
    then have "high_bit v = 0" by (subst high_bit.simps) simp
    then show ?thesis using True by simp
  next
    case False
    let ?h = "high_bit (v div 2)"
    have h: "high_bit v = min 31 (?h + 1)" using False by (subst high_bit.simps) simp
    have IH: "?h < 32" "?h < 31 \<longrightarrow> v div 2 < 2 ^ (?h + 1)" "2 ^ ?h \<le> v div 2"
      using "1.IH" False by auto
    have "(2 :: nat) ^ min 31 (?h + 1) \<le> 2 ^ (?h + 1)" by (intro power_increasing) auto
    also have "\<dots> \<le> v" using IH(3) by simp
    finally have lo: "2 ^ high_bit v \<le> v" by (simp only: h)
    show ?thesis
    proof (cases "?h + 1 < 31")
      case True
      then have "v div 2 < 2 ^ (?h + 1)" using IH(2) by simp
      then have "v < 2 ^ (?h + 2)" by simp
      then show ?thesis using h lo True by simp
    next
      case False
      then show ?thesis using h lo by simp
    qed
  qed
qed

lemma high_bit_mono: "v \<le> w \<Longrightarrow> high_bit v \<le> high_bit w"
proof (induction v arbitrary: w rule: high_bit.induct)
  case (1 v)
  show ?case
  proof (cases "v < 2")
    case True
    then show ?thesis by (simp add: high_bit.simps[of v])
  next
    case False
    then have "high_bit (v div 2) \<le> high_bit (w div 2)"
      using "1.IH" "1.prems" by (simp add: div_le_mono)
    then show ?thesis using False "1.prems" by (simp add: high_bit.simps[of v] high_bit.simps[of w])
  qed
qed

lemma pow2_layout_high_bit: "pow2_layout high_bit"
proof -
  have "0 < v" if "0 < high_bit v" for v
    using that by (cases "v = 0") (simp_all add: high_bit.simps[of 0])
  then show ?thesis
    using high_bit_bounds high_bit_mono by (auto simp: pow2_layout_def intro: bucketed.intro)
qed

theorem zoustats_percentile_bounds_witness:
  "unat (zoustats_percentile (map of_nat (bucket_counts high_bit 32 [1, 3])) 2 1) = 4"
proof -
  have f: "fl 2 = 2" using fl_of_nat[of 2] by simp
  have "bucket_counts high_bit 32 [Suc 0, 3] ! i < 18446744073709551616" if "i < 32" for i
    using that length_filter_le[of "\<lambda>x. high_bit x = i" "[1, 3]"] by (simp add: bucket_counts_nth)
  then have h: "map unat (map of_nat (bucket_counts high_bit 32 [1, 3]) :: u64 list)
      = bucket_counts high_bit 32 [1, 3]"
    by (intro nth_equalityI) (auto simp: unat_of_nat intro!: mod_less)
  have k: "(2 :: nat) = nat \<lceil>fl (of_nat (length [1, 3 :: nat]) * 1)\<rceil>" by (simp add: f)
  have r: "rank [1, 3 :: nat] 2 = 3" by (simp add: rank_def)
  have b: "high_bit 3 = 1"
    by (subst high_bit.simps, simp, subst high_bit.simps, simp)
  have "unat (zoustats_percentile (map of_nat (bucket_counts high_bit 32 [1, 3])) 2 1)
      = 2 ^ (high_bit (rank [1, 3] 2) + 1)"
    using zoustats_percentile_bounds[OF pow2_layout_high_bit h _ _ _ _ _ k, of 2] by simp
  then show ?thesis unfolding r b by simp
qed

section \<open>Report\<close>

definition zslice :: "counters \<Rightarrow> nat \<Rightarrow> nat \<Rightarrow> u64 list" where
  "zslice c first n = take n (drop first c)"

definition auint :: "u64 \<Rightarrow> any" where "auint w = AInt (uint w)"

definition zpcts :: "string \<Rightarrow> u64 list \<Rightarrow> u64 \<Rightarrow> (string \<times> any) list" where
  "zpcts unit hist n =
     [(''p50'' @ unit, auint (zoustats_percentile hist n (fl (50 / 100)))),
      (''p95'' @ unit, auint (zoustats_percentile hist n (fl (95 / 100)))),
      (''p99'' @ unit, auint (zoustats_percentile hist n (fl (99 / 100))))]"

definition indexed :: "'a list \<Rightarrow> (nat \<times> 'a) list" where
  "indexed xs = zip [0..<length xs] xs"

definition Report_op :: "counters \<Rightarrow> nat \<times> string \<Rightarrow> (string \<times> any) list" where
  "Report_op c = (\<lambda>(kind, name).
     let used = filter (\<lambda>(cls, cname). c ! countSlot kind cls \<noteq> 0) (indexed classNames);
         cnt = foldl (\<lambda>n (cls, cname). n + c ! countSlot kind cls) 0 used;
         bts = foldl (\<lambda>b (cls, cname). b + c ! (countSlot kind cls + 1)) 0 used;
         byClass = map (\<lambda>(cls, cname). (cname, AMap [(''count'', auint (c ! countSlot kind cls)),
           (''bytes'', auint (c ! (countSlot kind cls + 1)))])) used;
         hist = zslice c (bucketBase + kind * zbuckets) zbuckets
     in if cnt = 0 then []
        else [(name, AMap ([(''count'', auint cnt), (''bytes'', auint bts),
          (''errors'', auint (c ! (errorBase + kind)))] @ zpcts ''_us'' hist cnt
          @ [(''by_class'', AMap byClass)]))])"

definition Report_read :: "counters \<Rightarrow> nat \<times> string \<Rightarrow> (string \<times> any) list" where
  "Report_read c = (\<lambda>(tier, name).
     let calls = c ! tierSlot tier; hist = zslice c (tierSlot tier + 2) zbuckets
     in if calls = 0 then []
        else [(name, AMap ([(''calls'', auint calls), (''pages'', auint (c ! (tierSlot tier + 1)))]
          @ zpcts ''_us'' hist calls))])"

definition Report_phase :: "counters \<Rightarrow> nat \<times> string \<Rightarrow> (string \<times> any) list" where
  "Report_phase c = (\<lambda>(phase, name).
     let calls = c ! phaseSlot phase; hist = zslice c (phaseSlot phase + 1) zbuckets
     in if calls = 0 then [] else [(name, AMap ((''calls'', auint calls) # zpcts ''_us'' hist calls))])"

definition Report_step :: "counters \<Rightarrow> nat \<times> string \<Rightarrow> (string \<times> any) list" where
  "Report_step c = (\<lambda>(s, name).
     let samples = c ! stepSlot s; hist = zslice c (stepSlot s + 1) zbuckets
     in if samples = 0 then [] else [(name, AMap ((''samples'', auint samples) # zpcts ''_us'' hist samples))])"

definition Report_cause :: "counters \<Rightarrow> nat \<times> string \<Rightarrow> (string \<times> any) list" where
  "Report_cause c = (\<lambda>(cause, name).
     let n = c ! (causeBase + cause) in if 0 < n then [(name, auint n)] else [])"

definition Report_gap :: "counters \<Rightarrow> (string \<times> any) list" where
  "Report_gap c =
     (let samples = c ! gapBase; hist = zslice c (gapBase + 1) zbuckets
      in if 0 < samples then [(''park_gap'', AMap ((''samples'', auint samples) # zpcts ''_bytes'' hist samples))]
         else [])"

definition Report_retry :: "counters \<Rightarrow> nat \<times> string \<Rightarrow> (string \<times> any) list" where
  "Report_retry c = (\<lambda>(kind, name).
     let n = c ! (retryBase + kind) in if 0 < n then [(name, auint n)] else [])"

definition Report_pack :: "counters \<Rightarrow> nat \<times> string \<Rightarrow> (string \<times> any) list" where
  "Report_pack c = (\<lambda>(pack, name).
     let raw = c ! packSlot pack; stored = c ! (packSlot pack + 1)
     in if raw = 0 then []
        else [(name, AMap ([(''raw_bytes'', auint raw), (''stored_bytes'', auint stored)]
          @ (if 0 < stored
             then [(''ratio'', AFloat (round_int 1000 (fdiv (fl (of_nat (unat raw))) (fl (of_nat (unat stored))))))]
             else [])))])"

definition zoustats_Report :: "counters \<Rightarrow> (string \<times> any) list" where
  "zoustats_Report c =
     [(''ops'', AMap (concat (map (Report_op c) (indexed opNames)))),
      (''cas_conflicts'', auint (c ! conflictSlot))]
     @ unless_empty ''reads'' (concat (map (Report_read c) (indexed tierNames)))
     @ unless_empty ''pagesvc'' (concat (map (Report_phase c) (indexed phaseNames)))
     @ unless_empty ''commit'' (concat (map (Report_step c) (indexed stepNames)))
     @ unless_empty ''park_cause'' (concat (map (Report_cause c) (indexed causeNames)))
     @ Report_gap c
     @ unless_empty ''retries'' (concat (map (Report_retry c) (indexed retryNames)))
     @ unless_empty ''packed'' (concat (map (Report_pack c) (indexed packNames)))"

section \<open>Totals\<close>

record Totals =
  Puts :: u64
  Gets :: u64
  Lists :: u64
  Deletes :: u64
  GetBytes :: u64
  PutBytes :: u64
  Conflicts :: u64
  AnyTraffic :: bool

definition kindCount :: "counters \<Rightarrow> nat \<Rightarrow> u64 \<times> u64" where
  "kindCount c kind =
     foldl (\<lambda>(n, b) cls. (n + c ! countSlot kind cls, b + c ! (countSlot kind cls + 1))) (0, 0) [0..<classes]"

text \<open>An \<open>int64\<close> is its two's complement word; only the test for traffic reads its sign.\<close>

definition zoustats_Sum :: "counters \<Rightarrow> Totals" where
  "zoustats_Sum c =
     (let (gn, gb) = kindCount c 0; (rn, rb) = kindCount c 1; (pn, pb) = kindCount c 2;
          (un, ub) = kindCount c 3; (dn, _) = kindCount c 4; (ln, _) = kindCount c 5
      in \<lparr>Puts = pn + un, Gets = gn + rn, Lists = ln, Deletes = dn, GetBytes = gb + rb,
          PutBytes = pb + ub, Conflicts = c ! conflictSlot,
          AnyTraffic = 0 < sint (gn + rn + (pn + un) + dn + ln)\<rparr>)"

lemma nth_Diff:
  assumes "zoustats_Diff before after = Inr d" and "length before = slots" and "length after = slots"
    and "header \<le> i" and "i < slots"
  shows "d ! i = after ! i - before ! i"
proof -
  have "i - header < slots - header" using assms(4,5) by linarith
  then show ?thesis using assms zoustats_Diff_iff[OF assms(2,3), of d] by (simp add: nth_append)
qed

lemma kindCount_sum:
  "kindCount c kind = (sum_list (map (\<lambda>cls. c ! countSlot kind cls) [0..<classes]),
     sum_list (map (\<lambda>cls. c ! (countSlot kind cls + 1)) [0..<classes]))"
  by (simp add: kindCount_def classes_def upt_rec add.assoc)

lemma countSlot_range:
  "kind < kinds \<Longrightarrow> cls < classes \<Longrightarrow> header \<le> countSlot kind cls \<and> countSlot kind cls + 1 < bucketBase"
  by (simp add: countSlot_def layout)

lemma kindCount_Diff:
  assumes "zoustats_Diff before after = Inr d" and "length before = slots" and "length after = slots"
    and "kind < kinds"
  shows "kindCount after kind = (fst (kindCount before kind) + fst (kindCount d kind),
    snd (kindCount before kind) + snd (kindCount d kind))"
proof -
  have slot: "after ! countSlot kind cls = before ! countSlot kind cls + d ! countSlot kind cls"
    "after ! (countSlot kind cls + 1) = before ! (countSlot kind cls + 1) + d ! (countSlot kind cls + 1)"
    if "cls < classes" for cls
  proof -
    have "header \<le> countSlot kind cls" "countSlot kind cls + 1 < slots"
      using countSlot_range[OF assms(4) that] by (simp_all add: layout)
    then show "after ! countSlot kind cls = before ! countSlot kind cls + d ! countSlot kind cls"
      "after ! (countSlot kind cls + 1) = before ! (countSlot kind cls + 1) + d ! (countSlot kind cls + 1)"
      using nth_Diff[OF assms(1-3)] by simp_all
  qed
  have "map (\<lambda>cls. after ! countSlot kind cls) [0..<classes]
      = map (\<lambda>cls. before ! countSlot kind cls + d ! countSlot kind cls) [0..<classes]"
    "map (\<lambda>cls. after ! (countSlot kind cls + 1)) [0..<classes]
      = map (\<lambda>cls. before ! (countSlot kind cls + 1) + d ! (countSlot kind cls + 1)) [0..<classes]"
    by (rule map_cong[OF refl], rule slot, simp)+
  then show ?thesis unfolding kindCount_sum by (simp only: sum_list_addf prod.inject fst_conv snd_conv)
qed

text \<open>
  What a price card bills for a window is the totals at its end less the totals at its start,
  in every operation class and in bytes: measuring a run segment by segment bills each request once.
\<close>

theorem zoustats_Sum_Diff:
  assumes "zoustats_Diff before after = Inr d" and "length before = slots" and "length after = slots"
  shows "\<forall>field \<in> {Puts, Gets, Lists, Deletes, GetBytes, PutBytes, Conflicts}.
    field (zoustats_Sum after) = field (zoustats_Sum before) + field (zoustats_Sum d)"
proof -
  have k: "kindCount after kind = (fst (kindCount before kind) + fst (kindCount d kind),
      snd (kindCount before kind) + snd (kindCount d kind))" if "kind < 6" for kind
    using kindCount_Diff[OF assms] that by (simp add: kinds_def)
  have "after ! conflictSlot = before ! conflictSlot + d ! conflictSlot"
    using nth_Diff[OF assms, of conflictSlot] by (simp add: layout)
  then show ?thesis
    using k[of 0] k[of 1] k[of 2] k[of 3] k[of 4] k[of 5]
    by (simp add: zoustats_Sum_def Let_def split_beta)
qed

theorem zoustats_Sum_Diff_witness:
  "\<exists>d. zoustats_Diff (replicate slots 3) (replicate slots 5) = Inr d
    \<and> Gets (zoustats_Sum (replicate slots 5)) = Gets (zoustats_Sum (replicate slots 3)) + Gets (zoustats_Sum d)"
proof -
  have "\<exists>d. zoustats_Diff (replicate slots 3) (replicate slots 5) = Inr d"
    by (subst zoustats_Diff_iff) simp_all
  then obtain d where d: "zoustats_Diff (replicate slots 3) (replicate slots 5) = Inr d" by blast
  show ?thesis using zoustats_Sum_Diff[OF d] d by simp
qed

end
