(* ===== verification/Command.thy ===== *)
theory Command
  imports CmdReport GoFiles Zoustats
begin

text \<open>
  What the commands of cmd/zoubench share: how their arguments are split, how a fatal error ends
  them, what marks a run as simulated and how a result file is named; and how a document built block
  by block is looked up.
\<close>

section \<open>Arguments\<close>

definition without :: "string list \<Rightarrow> string list \<Rightarrow> string list" where
  "without argv drops = filter (\<lambda>a. a \<notin> set drops) argv"

text \<open>Every command but \<open>run\<close> takes the scenario from among its words this way.\<close>

definition scenario_words :: "string list \<Rightarrow> string list" where
  "scenario_words argv = filter (\<lambda>a. \<not> HasPrefix a ''-'' \<and> HasSuffix a ''.json'') argv"

text \<open>A run on a simulated store is stamped by its flag, or else by the environment of the store.\<close>

definition sim_spec :: "string \<Rightarrow> string \<Rightarrow> string \<Rightarrow> string" where
  "sim_spec flag sim delay =
     (if flag \<noteq> [] then flag else if sim \<noteq> [] then sim else if delay \<noteq> [] then ''delay:'' @ delay else [])"

section \<open>Fatal errors\<close>

text \<open>\<open>die\<close> ends the command: what follows does not run.\<close>

definition and_then :: "'a go_result \<Rightarrow> ('a \<Rightarrow> 'b go_result) \<Rightarrow> 'b go_result" where
  "and_then r f = (case r of Inl e \<Rightarrow> Inl e | Inr x \<Rightarrow> f x)"

definition dies :: "go_error option \<Rightarrow> unit go_result" where
  "dies e = (case e of None \<Rightarrow> Inr () | Some err \<Rightarrow> Inl err)"

text \<open>
  A command that may also never return: \<open>None\<close> when it does not, \<open>Some (Inl e)\<close> when it dies of \<open>e\<close>.
\<close>

definition run_then :: "('e + 'a) option \<Rightarrow> ('a \<Rightarrow> ('e + 'b) option) \<Rightarrow> ('e + 'b) option" where
  "run_then r f = (case r of None \<Rightarrow> None | Some (Inl e) \<Rightarrow> Some (Inl e) | Some (Inr x) \<Rightarrow> f x)"

lemma run_then_simps [simp]:
  "run_then None f = None" "run_then (Some (Inl e)) f = Some (Inl e)" "run_then (Some (Inr x)) f = f x"
  by (simp_all add: run_then_def)

lemma run_then_Inr: "run_then r f = Some (Inr y) \<longleftrightarrow> (\<exists>x. r = Some (Inr x) \<and> f x = Some (Inr y))"
  by (auto simp: run_then_def split: option.splits sum.splits)

lemma run_then_Inl: "run_then r f = Some (Inl e) \<longleftrightarrow> r = Some (Inl e) \<or> (\<exists>x. r = Some (Inr x) \<and> f x = Some (Inl e))"
  by (auto simp: run_then_def split: option.splits sum.splits)

lemma run_then_returns: "r \<noteq> None \<Longrightarrow> (\<And>x. r = Some (Inr x) \<Longrightarrow> f x \<noteq> None) \<Longrightarrow> run_then r f \<noteq> None"
  by (auto simp: run_then_def split: option.splits sum.splits)

section \<open>The result file\<close>

definition run_stamp :: "string \<Rightarrow> string" where
  "run_stamp date = take 15 (filter (\<lambda>c. c \<noteq> CHR '':'' \<and> c \<noteq> CHR ''-'') date)"

definition result_name :: "string \<Rightarrow> string \<Rightarrow> string \<Rightarrow> string" where
  "result_name name label date = name @ ''-'' @ label @ ''-'' @ run_stamp date @ ''.json''"

text \<open>The counters of the store at a mark, none when no file was named, and what they came to between two.\<close>

definition stats_mark :: "string \<Rightarrow> bytes go_result \<Rightarrow> counters option go_result" where
  "stats_mark path raw = (if path = [] then Inr None else map_sum id Some (zoustats_Read path raw))"

definition ops_delta :: "counters option \<Rightarrow> counters option \<Rightarrow> counters option go_result" where
  "ops_delta before after =
     (case (before, after) of (Some b, Some a) \<Rightarrow> map_sum id Some (zoustats_Diff b a) | _ \<Rightarrow> Inr None)"

definition ops_block :: "counters option \<Rightarrow> doc" where
  "ops_block window = (case window of None \<Rightarrow> [] | Some d \<Rightarrow> [(''store_ops'', AMap (zoustats_Report d))])"

text \<open>The keys of a table of percentiles, as they are printed.\<close>

definition pct_any :: "(string \<rightharpoonup> f64) \<Rightarrow> any" where
  "pct_any m = AMap (List.map_filter (\<lambda>k. map_option (\<lambda>v. (k, AFloat v)) (m k))
     [''max'', ''mean'', ''p50'', ''p90'', ''p95'', ''p99'', ''p999'', ''stddev''])"

section \<open>Looking things up in a document\<close>

lemma map_get_append: "map_get (xs @ ys) k = (if k \<in> fst ` set xs then map_get xs k else map_get ys k)"
proof (cases "map_of xs k")
  case None
  then have "k \<notin> fst ` set xs" by (simp add: map_of_eq_None_iff)
  then show ?thesis using None by (simp add: map_get_def map_add_def)
next
  case (Some v)
  then have "k \<in> fst ` set xs" by (metis map_of_eq_None_iff option.distinct(1))
  then show ?thesis using Some by (simp add: map_get_def map_add_def)
qed

lemma map_get_none: "k \<notin> fst ` set xs \<Longrightarrow> map_get xs k = ANil"
  by (induction xs) auto

lemma map_get_skip: "k \<notin> fst ` set xs \<Longrightarrow> map_get (xs @ ys) k = map_get ys k"
  by (simp add: map_get_append)

end
