(* ===== verification/GoTime.thy ===== *)
theory GoTime
  imports Float64
begin

text \<open>
  Go's \<open>time.Duration\<close>: a whole number of nanoseconds, and the conversions the drivers print.
\<close>

definition Millisecond :: int where "Millisecond = 1000000"
definition Second :: int where "Second = 1000000000"
definition Minute :: int where "Minute = 60 * Second"
definition Hour :: int where "Hour = 60 * Minute"

definition Microseconds :: "int \<Rightarrow> int" where "Microseconds d = quot d 1000"

definition unit_float :: "int \<Rightarrow> int \<Rightarrow> f64" where
  "unit_float unit d =
     (let whole = quot d unit; nsec = d - whole * unit
      in fadd (f64_of_int whole) (fdiv (f64_of_int nsec) (f64_of_int unit)))"

definition Seconds :: "int \<Rightarrow> f64" where "Seconds d = unit_float Second d"
definition Minutes :: "int \<Rightarrow> f64" where "Minutes d = unit_float Minute d"
definition Hours :: "int \<Rightarrow> f64" where "Hours d = unit_float Hour d"

text \<open>Milliseconds to three decimals, as every driver's \<open>ms\<close> helper computes them.\<close>

definition ms :: "int \<Rightarrow> f64" where
  "ms d = fdiv (f64_of_int (Microseconds d)) 1000"

lemma Microseconds_mono: "0 \<le> a \<Longrightarrow> a \<le> b \<Longrightarrow> Microseconds a \<le> Microseconds b"
  by (simp add: Microseconds_def quot_nonneg zdiv_mono1)

lemma Microseconds_nonneg: "0 \<le> d \<Longrightarrow> 0 \<le> Microseconds d"
  by (simp add: Microseconds_def quot_nonneg)

lemma ms_nonneg: "0 \<le> d \<Longrightarrow> 0 \<le> ms d"
  by (auto simp: ms_def fdiv_def intro!: fl_nonneg divide_nonneg_nonneg f64_of_int_nonneg Microseconds_nonneg)

lemma ms_mono: "0 \<le> a \<Longrightarrow> a \<le> b \<Longrightarrow> ms a \<le> ms b"
  unfolding ms_def by (intro fdiv_mono f64_of_int_mono Microseconds_mono) auto

end
