(* ===== verification/Latency.thy ===== *)
theory Latency
  imports Float64
begin

text \<open>
  Package \<open>latency\<close> (src/latency/latency.go): the distribution of a list of timed operations and
  the windows of a run. The model keeps the float64 arithmetic of the source, rounding included;
  \<open>latency_pick\<close> is the closure \<open>pick\<close>, the published map is a partial function from its keys.
\<close>

record sample =
  MS :: f64
  Epoch :: int

section \<open>Percentiles\<close>

definition latency_index :: "nat \<Rightarrow> f64 \<Rightarrow> nat" where
  "latency_index n p =
     (let idx = trunc (fmul (f64_of_int (int n)) p)
      in if int n \<le> idx then n - 1 else nat idx)"

definition latency_pick :: "f64 list \<Rightarrow> f64 \<Rightarrow> f64" where
  "latency_pick values p = values ! latency_index (length values) p"

definition float_sum :: "f64 list \<Rightarrow> f64" where
  "float_sum vs = foldl fadd 0 vs"

definition latency_Percentiles :: "sample list \<Rightarrow> (string \<rightharpoonup> f64)" where
  "latency_Percentiles samples =
     (if samples = [] then Map.empty else
      let values = sort (map MS samples);
          n = f64_of_int (int (length values));
          mean = fdiv (float_sum values) n;
          varsum = float_sum (map (\<lambda>v. fmul (fsub v mean) (fsub v mean)) values)
      in [''p50'' \<mapsto> round3 (latency_pick values (fl (50 / 100))),
          ''p90'' \<mapsto> round3 (latency_pick values (fl (90 / 100))),
          ''p95'' \<mapsto> round3 (latency_pick values (fl (95 / 100))),
          ''p99'' \<mapsto> round3 (latency_pick values (fl (99 / 100))),
          ''p999'' \<mapsto> round3 (latency_pick values (fl (999 / 1000))),
          ''max'' \<mapsto> round3 (values ! (length values - 1)),
          ''mean'' \<mapsto> round3 mean,
          ''stddev'' \<mapsto> round3 (math_Sqrt (fdiv varsum n))])"

lemma latency_index_less: "0 < n \<Longrightarrow> latency_index n p < n"
  by (auto simp: latency_index_def Let_def)

lemma latency_index_mono: "0 \<le> p \<Longrightarrow> p \<le> q \<Longrightarrow> latency_index n p \<le> latency_index n q"
proof -
  assume "0 \<le> p" "p \<le> q"
  then have "trunc (fmul (f64_of_int (int n)) p) \<le> trunc (fmul (f64_of_int (int n)) q)"
    by (intro trunc_mono fmul_mono) (auto intro: f64_of_int_nonneg)
  then show ?thesis by (auto simp: latency_index_def Let_def)
qed

lemma latency_pick_rank:
  "xs \<noteq> [] \<Longrightarrow> latency_pick (sort xs) p = rank xs (latency_index (length xs) p + 1)"
  by (simp add: latency_pick_def rank_def)

lemma latency_pick_mono:
  assumes "xs \<noteq> []" and "0 \<le> p" and "p \<le> q"
  shows "latency_pick (sort xs) p \<le> latency_pick (sort xs) q"
  using assms latency_index_less[of "length xs" q] latency_index_mono[of p q "length xs"]
  by (simp add: latency_pick_rank rank_mono)

lemma latency_pick_le_max:
  "xs \<noteq> [] \<Longrightarrow> latency_pick (sort xs) p \<le> sort xs ! (length xs - 1)"
  using latency_index_less[of "length xs" p] by (auto simp: latency_pick_def intro: sorted_nth_mono)

text \<open>
  C12: the published percentiles of any non-empty set of samples are in order, from p50 up to the
  maximum; rounding to three decimals never inverts two of them.
\<close>

theorem latency_percentiles_ordered:
  assumes "samples \<noteq> []"
  shows "\<exists>a b c d e m.
    map (latency_Percentiles samples) [''p50'', ''p90'', ''p95'', ''p99'', ''p999'', ''max'']
      = map Some [a, b, c, d, e, m]
    \<and> sorted [a, b, c, d, e, m]"
proof -
  have ne: "map MS samples \<noteq> []" using assms by simp
  have p: "0 \<le> fl (50 / 100)" "fl (50 / 100) \<le> fl (90 / 100)" "fl (90 / 100) \<le> fl (95 / 100)"
    "fl (95 / 100) \<le> fl (99 / 100)" "fl (99 / 100) \<le> fl (999 / 1000)"
    by (intro fl_mono fl_nonneg; simp)+
  have q: "0 \<le> fl (90 / 100)" "0 \<le> fl (95 / 100)" "0 \<le> fl (99 / 100)" by (auto intro!: fl_nonneg)
  note steps = latency_pick_mono[OF ne p(1,2)] latency_pick_mono[OF ne q(1) p(3)]
    latency_pick_mono[OF ne q(2) p(4)] latency_pick_mono[OF ne q(3) p(5)] latency_pick_le_max[OF ne]
  show ?thesis
    using assms steps[THEN round3_rounding.rnd_mono]
    by (auto simp: latency_Percentiles_def Let_def intro: order_trans)
qed

theorem latency_percentiles_ordered_witness:
  "\<exists>a b c d e m.
    map (latency_Percentiles [\<lparr>MS = 3, Epoch = 1\<rparr>, \<lparr>MS = 1, Epoch = 2\<rparr>])
      [''p50'', ''p90'', ''p95'', ''p99'', ''p999'', ''max''] = map Some [a, b, c, d, e, m]
    \<and> sorted [a, b, c, d, e, m]"
  by (rule latency_percentiles_ordered) simp

text \<open>
  The distribution is a function of the samples as a multiset: handing the same timings over
  in another order, as concurrent clients do, changes no published number.
\<close>

lemma latency_percentiles_permutation:
  assumes "mset (map MS xs) = mset (map MS ys)"
  shows "latency_Percentiles xs = latency_Percentiles ys"
proof -
  have "sort (map MS xs) = sort (map MS ys)" using assms by (rule sort_mset_cong)
  moreover have "xs = [] \<longleftrightarrow> ys = []" using assms by auto
  ultimately show ?thesis by (simp add: latency_Percentiles_def)
qed

section \<open>Windows\<close>

record bucket =
  Second :: int
  Count :: nat
  Rate :: f64
  P50 :: f64
  P99 :: f64

text \<open>The earliest second, the samples by window, and one published window.\<close>

definition latency_start :: "sample list \<Rightarrow> int" where
  "latency_start samples = foldl (\<lambda>m s. if Epoch s < m then Epoch s else m) (2 ^ 63 - 1) samples"

definition latency_byWindow :: "sample list \<Rightarrow> int \<Rightarrow> (int \<times> f64 list) list" where
  "latency_byWindow samples width =
     group_by (\<lambda>s. quot (Epoch s - latency_start samples) width) MS samples"

definition latency_bucket :: "int \<Rightarrow> int \<Rightarrow> f64 list \<Rightarrow> bucket" where
  "latency_bucket width w vs =
     (let vals = sort vs; n = length vals
      in \<lparr>Second = w * width, Count = n,
          Rate = round3 (fdiv (f64_of_int (int n)) (f64_of_int width)),
          P50 = round3 (vals ! (n div 2)),
          P99 = round3 (vals ! min (n * 99 div 100) (n - 1))\<rparr>)"

definition latency_Buckets :: "sample list \<Rightarrow> int \<Rightarrow> bucket list" where
  "latency_Buckets samples width =
     (if samples = [] \<or> width \<le> 0 then [] else
      let byWindow = latency_byWindow samples width;
          windows = sort (map fst byWindow)
      in map (\<lambda>w. latency_bucket width w (the (map_of byWindow w))) windows)"

lemma foldl_min_le:
  "foldl (\<lambda>m s. if f s < m then f s else m) (a :: int) xs \<le> a
   \<and> (\<forall>s \<in> set xs. foldl (\<lambda>m s. if f s < m then f s else m) a xs \<le> f s)"
proof (induction xs arbitrary: a)
  case Nil
  then show ?case by simp
next
  case (Cons x xs)
  have "foldl (\<lambda>m s. if f s < m then f s else m) (if f x < a then f x else a) xs
      \<le> (if f x < a then f x else a)"
    using Cons.IH by blast
  then show ?case using Cons.IH[of "if f x < a then f x else a"] by (auto split: if_splits)
qed

lemma latency_start_le: "s \<in> set samples \<Longrightarrow> latency_start samples \<le> Epoch s"
  unfolding latency_start_def using foldl_min_le[of Epoch "2 ^ 63 - 1" samples] by blast

lemma latency_bucket_simps [simp]:
  "Second (latency_bucket width w vs) = w * width"
  "Count (latency_bucket width w vs) = length vs"
  by (simp_all add: latency_bucket_def Let_def)

lemma latency_bucket_median:
  assumes "vs \<noteq> []"
  shows "P50 (latency_bucket width w vs) \<le> P99 (latency_bucket width w vs)"
proof -
  have "sort vs ! (length vs div 2) \<le> sort vs ! min (length vs * 99 div 100) (length vs - 1)"
    using assms by (intro sorted_nth_mono) (auto simp: neq_Nil_conv)
  then show ?thesis
    by (simp add: latency_bucket_def Let_def round3_rounding.rnd_mono)
qed

lemma latency_window_iff:
  assumes "0 < width" and "s \<in> set samples"
  shows "quot (Epoch s - latency_start samples) width = w \<longleftrightarrow>
    w * width \<le> Epoch s - latency_start samples
    \<and> Epoch s - latency_start samples < w * width + width"
  using assms latency_start_le[OF assms(2)] by (simp add: quot_nonneg div_window)

lemma latency_byWindow_vals:
  assumes "0 < width" and "w \<in> fst ` set (latency_byWindow samples width)"
  shows "the (map_of (latency_byWindow samples width) w) =
    map MS (filter (\<lambda>s. w * width \<le> Epoch s - latency_start samples
      \<and> Epoch s - latency_start samples < w * width + width) samples)"
  using assms unfolding latency_byWindow_def keys_group_by
  by (auto simp: map_of_group_by latency_window_iff cong: filter_cong)

text \<open>
  C36: the windows of a run account for every sample once: each counts exactly the samples whose
  second falls in it, the counts add up to the number of samples, the windows are in ascending
  order without repetition, none is empty, and in each the median is at most the 99th percentile.
\<close>

theorem latency_buckets_partition:
  assumes "0 < width"
  shows "sum_list (map Count (latency_Buckets samples width)) = length samples
    \<and> sorted_wrt (<) (map Second (latency_Buckets samples width))
    \<and> (\<forall>b \<in> set (latency_Buckets samples width).
         0 < Count b \<and> P50 b \<le> P99 b
         \<and> Count b = length (filter (\<lambda>s. Second b \<le> Epoch s - latency_start samples
             \<and> Epoch s - latency_start samples < Second b + width) samples))"
proof (cases "samples = []")
  case True
  then show ?thesis by (simp add: latency_Buckets_def)
next
  case False
  let ?m = "latency_byWindow samples width"
  let ?ws = "sort (map fst ?m)"
  have B: "latency_Buckets samples width = map (\<lambda>w. latency_bucket width w (the (map_of ?m w))) ?ws"
    using False assms by (simp add: latency_Buckets_def Let_def)
  have sum: "sum_list (map (\<lambda>w. length (the (map_of ?m w))) ?ws) = length samples"
    unfolding latency_byWindow_def by (rule group_by_lengths) simp
  have "sorted_wrt (<) ?ws"
    unfolding latency_byWindow_def using distinct_group_by by (simp add: strict_sorted_iff)
  then have asc: "sorted_wrt (\<lambda>v w. v * width < w * width) ?ws"
    by (rule sorted_wrt_mono_rel[rotated]) (use assms in auto)
  have ne: "the (map_of ?m w) \<noteq> []" if "w \<in> fst ` set ?m" for w
    using that unfolding latency_byWindow_def keys_group_by
    by (auto simp: map_of_group_by filter_empty_conv)
  have each: "0 < Count b \<and> P50 b \<le> P99 b
      \<and> Count b = length (filter (\<lambda>s. Second b \<le> Epoch s - latency_start samples
          \<and> Epoch s - latency_start samples < Second b + width) samples)"
    if "w \<in> fst ` set ?m" and "b = latency_bucket width w (the (map_of ?m w))" for w b
    using ne[OF that(1)] latency_byWindow_vals[OF assms that(1)]
    by (simp add: that(2) latency_bucket_median)
  show ?thesis
  proof (intro conjI)
    show "sum_list (map Count (latency_Buckets samples width)) = length samples"
      unfolding B using sum by (simp add: comp_def)
    show "sorted_wrt (<) (map Second (latency_Buckets samples width))"
      unfolding B using asc by (simp add: comp_def sorted_wrt_map)
  next
    have set: "set (latency_Buckets samples width)
        = (\<lambda>w. latency_bucket width w (the (map_of ?m w))) ` fst ` set ?m"
      by (simp add: B)
    show "\<forall>b \<in> set (latency_Buckets samples width). 0 < Count b \<and> P50 b \<le> P99 b
       \<and> Count b = length (filter (\<lambda>s. Second b \<le> Epoch s - latency_start samples
           \<and> Epoch s - latency_start samples < Second b + width) samples)"
      unfolding set using each by blast
  qed
qed

theorem latency_buckets_partition_witness:
  "sum_list (map Count (latency_Buckets [\<lparr>MS = 3, Epoch = 100\<rparr>, \<lparr>MS = 1, Epoch = 131\<rparr>] 30)) = 2"
  using latency_buckets_partition[of 30 "[\<lparr>MS = 3, Epoch = 100\<rparr>, \<lparr>MS = 1, Epoch = 131\<rparr>]"] by simp

end
