(* ===== verification/SocketsTally.thy ===== *)
theory SocketsTally
  imports Hist GoTime Latency Streams
begin

text \<open>
  The tally sheets of a socket run (src/sockets/sockets.go): what one delivery leaves in its
  collector, how the 64 collectors are folded into the published numbers, and the spread over the
  shards. A locale states what makes a figure of the sheets safe to add up, and every published
  count is an instance of it.
\<close>

section \<open>A collector\<close>

record second =
  sT :: int
  sN :: nat
  sMeanMS :: f64
  sWorstMS :: f64

record collector =
  cHist :: Hist
  cSeconds :: "(int \<times> second) list"
  cShards :: "(nat \<times> nat) list"
  cStray :: nat

definition collectors :: nat where "collectors = 64"

definition new_collector :: collector where
  "new_collector = \<lparr>cHist = NewHist, cSeconds = [], cShards = [], cStray = 0\<rparr>"

definition second_at :: "int \<Rightarrow> second option \<Rightarrow> second" where
  "second_at t v = (case v of Some s \<Rightarrow> s | None \<Rightarrow> \<lparr>sT = t, sN = 0, sMeanMS = 0, sWorstMS = 0\<rparr>)"

text \<open>\<open>sMeanMS\<close> is a sum until the end.\<close>

definition second_hear :: "int \<Rightarrow> f64 \<Rightarrow> second option \<Rightarrow> second" where
  "second_hear t took v =
     (let s = second_at t v in
      s\<lparr>sN := sN s + 1, sMeanMS := fadd (sMeanMS s) took,
        sWorstMS := (if sWorstMS s < took then took else sWorstMS s)\<rparr>)"

text \<open>
  A delivery: the window, the socket's shard, the stamp of the row and the clock when the frame was
  read, all in microseconds. The differences of 64 bit integers wrap.
\<close>

record delivery =
  dFrom :: int
  dTo :: int
  dShard :: nat
  dStamp :: int
  dNow :: int

definition outside :: "delivery \<Rightarrow> bool" where
  "outside d \<longleftrightarrow> dFrom d = 0 \<or> dStamp d < dFrom d \<or> dTo d < dStamp d"

definition delivery_us :: "delivery \<Rightarrow> int" where "delivery_us d = wrap64 (dNow d - dStamp d)"

definition collector_hear :: "delivery \<Rightarrow> collector \<Rightarrow> collector" where
  "collector_hear d c =
     (if outside d then c\<lparr>cStray := cStray c + 1\<rparr>
      else let us = delivery_us d;
               second = quot (wrap64 (dStamp d - dFrom d)) 1000000
           in c\<lparr>cHist := hist_Add (cHist c) us,
                cShards := map_upd (dShard d) (plus_at 1) (cShards c),
                cSeconds := map_upd second (second_hear second (fdiv (f64_of_int us) 1000)) (cSeconds c)\<rparr>)"

section \<open>The fold of the collectors\<close>

definition second_join :: "int \<Rightarrow> second \<Rightarrow> second option \<Rightarrow> second" where
  "second_join t s v =
     (let into = second_at t v in
      into\<lparr>sN := sN into + sN s, sMeanMS := fadd (sMeanMS into) (sMeanMS s),
        sWorstMS := (if sWorstMS into < sWorstMS s then sWorstMS s else sWorstMS into)\<rparr>)"

definition tally_seconds :: "(int \<times> second) list \<Rightarrow> (int \<times> second) list \<Rightarrow> (int \<times> second) list" where
  "tally_seconds acc m = foldl (\<lambda>acc (t, s). map_upd t (second_join t s) acc) acc m"

definition tally_col :: "collector \<Rightarrow> collector \<Rightarrow> collector" where
  "tally_col a c =
     \<lparr>cHist = hist_Merge (cHist a) (Some (cHist c)), cSeconds = tally_seconds (cSeconds a) (cSeconds c),
      cShards = merge_counts (cShards a) (cShards c), cStray = cStray a + cStray c\<rparr>"

definition tally_all :: "collector list \<Rightarrow> collector" where
  "tally_all cols = foldl tally_col new_collector cols"

text \<open>The insertion sort of the seconds, its sorted part kept last element first.\<close>

fun sink_time :: "int \<Rightarrow> int list \<Rightarrow> int list" where
  "sink_time t [] = [t]"
| "sink_time t (p # rest) = (if t < p then p # sink_time t rest else t # p # rest)"

definition sort_times :: "int list \<Rightarrow> int list" where
  "sort_times ts = rev (foldl (\<lambda>acc t. sink_time t acc) [] ts)"

definition second_out :: "second \<Rightarrow> second" where
  "second_out s = (if 0 < sN s then s\<lparr>sMeanMS := round3 (fdiv (sMeanMS s) (f64_of_int (int (sN s))))\<rparr> else s)"

definition timeline_from :: "second list \<Rightarrow> second list" where
  "timeline_from out = (case out of [] \<Rightarrow> [] | b # _ \<Rightarrow> map (\<lambda>s. s\<lparr>sT := sT s - sT b\<rparr>) out)"

definition timeline :: "(int \<times> second) list \<Rightarrow> second list" where
  "timeline seconds =
     timeline_from (map (\<lambda>t. second_out (the (map_of seconds t))) (sort_times (map fst seconds)))"

definition run_tally :: "collector list \<Rightarrow> Hist \<times> second list \<times> (nat \<times> nat) list \<times> nat" where
  "run_tally cols =
     (let a = tally_all cols in (cHist a, timeline (cSeconds a), cShards a, cStray a))"

section \<open>The spread over the shards\<close>

record shard_spread =
  spShards :: nat
  spSockets :: nat
  spMinSeen :: int
  spMaxSeen :: int
  spMeanSeen :: f64
  spEmpty :: nat

definition seen_on :: "(nat \<times> nat) list \<Rightarrow> nat \<Rightarrow> nat" where
  "seen_on seen i = (case map_of seen i of None \<Rightarrow> 0 | Some n \<Rightarrow> n)"

definition spread_step :: "int \<Rightarrow> shard_spread \<Rightarrow> shard_spread" where
  "spread_step n out =
     out\<lparr>spEmpty := (if n = 0 then spEmpty out + 1 else spEmpty out),
         spMinSeen := (if spMinSeen out < 0 \<or> n < spMinSeen out then n else spMinSeen out),
         spMaxSeen := (if spMaxSeen out < n then n else spMaxSeen out)\<rparr>"

definition spread :: "(nat \<times> nat) list \<Rightarrow> nat \<Rightarrow> nat \<Rightarrow> shard_spread" where
  "spread seen shards perShard =
     (let out = foldl (\<lambda>out i. spread_step (int (seen_on seen i)) out)
            \<lparr>spShards = shards, spSockets = perShard, spMinSeen = - 1, spMaxSeen = 0, spMeanSeen = 0, spEmpty = 0\<rparr>
            [0..<shards];
          whole = sum_list (map (seen_on seen) [0..<shards]);
          out = (if 0 < shards
                 then out\<lparr>spMeanSeen := round3 (fdiv (f64_of_int (int whole)) (f64_of_int (int shards)))\<rparr> else out)
      in if spMinSeen out < 0 then out\<lparr>spMinSeen := 0\<rparr> else out)"

definition rampSecs :: "sample list \<Rightarrow> f64" where
  "rampSecs connect =
     (case connect of [] \<Rightarrow> 0
      | s # _ \<Rightarrow>
        let (first, latest) = foldl (\<lambda>(f, l) s. (if Epoch s < f then Epoch s else f, if l < Epoch s then Epoch s else l))
              (Epoch s, Epoch s) connect
        in f64_of_int (latest - first))"

section \<open>What adds up\<close>

text \<open>
  A sheet of figures that independent collectors keep and one fold joins: a figure is safe to
  publish when the empty sheet has none of it, one event adds its own share, and joining two
  sheets adds their figures.
\<close>

locale tally_sheet =
  fixes empty :: 's
    and hear :: "'e \<Rightarrow> 's \<Rightarrow> 's"
    and join :: "'s \<Rightarrow> 's \<Rightarrow> 's"
    and amount :: "'s \<Rightarrow> 'm::comm_monoid_add"
    and weight :: "'e \<Rightarrow> 'm"
  assumes amount_empty: "amount empty = 0"
    and amount_hear: "amount (hear e s) = amount s + weight e"
    and amount_join: "amount (join a b) = amount a + amount b"
begin

lemma amount_joined: "amount (foldl join a cols) = amount a + sum_list (map amount cols)"
  by (induction cols arbitrary: a) (simp_all add: amount_join add.assoc)

lemma amount_fold: "amount (foldl join empty cols) = sum_list (map amount cols)"
  by (simp add: amount_joined amount_empty)

lemma amount_update:
  "i < length cols \<Longrightarrow> sum_list (map amount (cols[i := hear e (cols ! i)])) = sum_list (map amount cols) + weight e"
proof (induction cols arbitrary: i)
  case (Cons c cols)
  then show ?case by (cases i) (simp_all add: amount_hear ac_simps)
qed simp

lemma amount_replicate: "sum_list (map amount (replicate n empty)) = 0"
  by (induction n) (simp_all add: amount_empty)

text \<open>Every event lands in one of the sheets, whichever it is: the fold of the sheets has them all.\<close>

lemma amount_events:
  assumes "\<forall>(i, e) \<in> set es. i < n"
  shows "amount (foldl join empty (foldl (\<lambda>cols (i, e). cols[i := hear e (cols ! i)]) (replicate n empty) es))
    = sum_list (map (\<lambda>(i, e). weight e) es)"
proof -
  have "sum_list (map amount (foldl (\<lambda>cols (i, e). cols[i := hear e (cols ! i)]) cols es))
      = sum_list (map amount cols) + sum_list (map (\<lambda>(i, e). weight e) es)"
    if "\<forall>(i, e) \<in> set es. i < length cols" for cols
    using that by (induction es arbitrary: cols) (auto simp: amount_update add.assoc)
  from this[of "replicate n empty"] assms show ?thesis
    unfolding amount_fold amount_replicate length_replicate by simp
qed

end

section \<open>The figures of the collectors\<close>

definition inside :: "delivery \<Rightarrow> nat" where "inside d = (if outside d then 0 else 1)"

definition shards_seen :: "collector \<Rightarrow> nat" where "shards_seen c = sum_list (map snd (cShards c))"
definition seconds_seen :: "collector \<Rightarrow> nat" where
  "seconds_seen c = sum_list (map (\<lambda>kv. sN (snd kv)) (cSeconds c))"

lemma hcount_Add [simp]: "hcount (hist_Add h us) = hcount h + 1"
  by (simp add: hist_Add_def Let_def)

lemma hcount_Merge [simp]: "hcount (hist_Merge h (Some p)) = hcount h + hcount p"
  by (simp add: hist_Merge_def Let_def)

lemma sN_hear [simp]: "sN (second_hear t took v) = sN (second_at t v) + 1"
  by (simp add: second_hear_def Let_def)

lemma sN_join [simp]: "sN (second_join t s v) = sN (second_at t v) + sN s"
  by (simp add: second_join_def Let_def)

lemma sum_second_upd:
  assumes "\<And>v. sN (f v) = sN (second_at t v) + n"
  shows "sum_list (map (\<lambda>kv. sN (snd kv)) (map_upd t f m)) = sum_list (map (\<lambda>kv. sN (snd kv)) m) + n"
  using sum_map_upd[of sN t f m] assms by (auto simp: second_at_def split: option.splits)

lemma sum_tally_seconds:
  "sum_list (map (\<lambda>kv. sN (snd kv)) (tally_seconds acc m))
     = sum_list (map (\<lambda>kv. sN (snd kv)) acc) + sum_list (map (\<lambda>kv. sN (snd kv)) m)"
  unfolding tally_seconds_def
proof (induction m arbitrary: acc)
  case (Cons kv m)
  obtain t s where kv: "kv = (t, s)" by fastforce
  have "sum_list (map (\<lambda>kv. sN (snd kv)) (map_upd t (second_join t s) acc))
      = sum_list (map (\<lambda>kv. sN (snd kv)) acc) + sN s"
    by (rule sum_second_upd) simp
  then show ?case using Cons by (simp add: kv)
qed simp

lemma seen_on_upd: "seen_on (map_upd s (plus_at n) m) k = seen_on m k + (if s = k then n else 0)"
  by (auto simp: seen_on_def map_of_map_upd plus_at_def split: option.splits)

lemma seen_on_counts:
  "distinct (map fst st) \<Longrightarrow> seen_on (merge_counts acc st) k = seen_on acc k + seen_on st k"
  unfolding merge_counts_def
proof (induction st arbitrary: acc)
  case Nil
  then show ?case by (simp add: seen_on_def)
next
  case (Cons kv st)
  obtain s n where kv: "kv = (s, n)" by fastforce
  have "seen_on (kv # st) k = (if s = k then n else 0) + seen_on st k"
    using Cons.prems by (auto simp: kv seen_on_def split: option.splits) (metis imageI fst_conv map_of_SomeD)
  then show ?case using Cons by (simp add: kv seen_on_upd)
qed

interpretation deliveries: tally_sheet new_collector collector_hear tally_col
    "\<lambda>c. hcount (cHist c)" "\<lambda>d. of_nat (inside d)"
  by unfold_locales
    (simp_all add: new_collector_def NewHist_def collector_hear_def tally_col_def inside_def Let_def)

interpretation strays: tally_sheet new_collector collector_hear tally_col cStray "\<lambda>d. 1 - inside d"
  by unfold_locales (simp_all add: new_collector_def collector_hear_def tally_col_def inside_def Let_def)

interpretation shard_counts: tally_sheet new_collector collector_hear tally_col shards_seen inside
  by unfold_locales
    (simp_all add: shards_seen_def new_collector_def collector_hear_def tally_col_def inside_def Let_def
      sum_merge_counts sum_plus_at)

interpretation timelines: tally_sheet new_collector collector_hear tally_col seconds_seen inside
  by unfold_locales
    (simp_all add: seconds_seen_def new_collector_def collector_hear_def tally_col_def inside_def Let_def
      sum_tally_seconds sum_second_upd)

section \<open>The timeline\<close>

lemma sink_time_sorted: "sorted_wrt (\<ge>) acc \<Longrightarrow> sorted_wrt (\<ge>) (sink_time t acc) \<and> mset (sink_time t acc) = add_mset t (mset acc)"
proof (induction acc)
  case (Cons p rest)
  then have "set (sink_time t rest) = insert t (set rest)" by (metis set_mset_add_mset_insert set_mset_mset sorted_wrt.simps(2))
  then show ?case using Cons by auto
qed simp

lemma sort_times_sort: "sort_times ts = sort ts"
proof -
  have "sorted_wrt (\<ge>) acc \<Longrightarrow> sorted_wrt (\<ge>) (foldl (\<lambda>acc t. sink_time t acc) acc ts)
      \<and> mset (foldl (\<lambda>acc t. sink_time t acc) acc ts) = mset acc + mset ts" for acc
    by (induction ts arbitrary: acc) (auto simp: sink_time_sorted)
  from this[of "[]"] show ?thesis
    unfolding sort_times_def by (intro properties_for_sort[symmetric]) (auto simp: sorted_wrt_rev)
qed

end
