(* ===== verification/Frames.thy ===== *)
theory Frames
  imports Streams
begin

text \<open>
  The web socket client (src/sockets/ws.go): masked RFC 6455 frames out, frames in, fragmented
  messages reassembled, pings answered, and the upgrade handshake. A connection is its unread
  input, what has been written, its mask and whether the peer is gone, in which case writes fail.
\<close>

unbundle bit_operations_syntax

section \<open>Frames\<close>

record ws =
  ws_in :: bytes
  ws_out :: bytes
  ws_mask :: bytes
  ws_gone :: bool

record frame =
  final :: bool
  opcode :: u8
  payload :: bytes

definition masked :: "bytes \<Rightarrow> bytes \<Rightarrow> bytes" where
  "masked key body = map (\<lambda>i. (body ! i) XOR (key ! (i mod 4))) [0..<length body]"

definition ws_head :: "u8 \<Rightarrow> nat \<Rightarrow> bytes" where
  "ws_head op n =
     (0x80 OR op) #
     (if n < 126 then [0x80 OR of_nat n]
      else if n < 2 ^ 16 then [0x80 OR 126, of_nat (n div 256), of_nat n]
      else (0x80 OR 127) # be_bytes 8 n)"

definition ws_bytes :: "bytes \<Rightarrow> u8 \<Rightarrow> bytes \<Rightarrow> bytes" where
  "ws_bytes key op body = ws_head op (length body) @ key @ masked key body"

definition ws_write :: "u8 \<Rightarrow> bytes \<Rightarrow> ws \<Rightarrow> go_error option \<times> ws" where
  "ws_write op body c =
     (if ws_gone c then (Some ''write: broken pipe'', c)
      else (None, c\<lparr>ws_out := ws_out c @ ws_bytes (ws_mask c) op body\<rparr>))"

definition ws_WriteText :: "bytes \<Rightarrow> ws \<Rightarrow> go_error option \<times> ws" where
  "ws_WriteText body c = ws_write 0x1 body c"

text \<open>\<open>make\<close> panics for a length past what the runtime can address.\<close>

definition max_alloc :: nat where "max_alloc = 2 ^ 48"

definition ws_length :: "u8 \<Rightarrow> bytes \<Rightarrow> (go_error, nat \<times> bytes) outcome" where
  "ws_length h s =
     (let n = unat (h AND 0x7F) in
      if n = 126 then (case read_full 2 s of None \<Rightarrow> Fail io_EOF | Some (w, s) \<Rightarrow> Ok (be_value w, s))
      else if n = 127 then (case read_full 8 s of None \<Rightarrow> Fail io_EOF | Some (w, s) \<Rightarrow> Ok (be_value w, s))
      else Ok (n, s))"

definition ws_frame :: "bytes \<Rightarrow> (go_error, frame \<times> bytes) outcome" where
  "ws_frame s =
     (case read_full 2 s of None \<Rightarrow> Fail io_EOF | Some (head, s) \<Rightarrow>
      let fin = (head ! 0) AND 0x80 \<noteq> 0; op = (head ! 0) AND 0x0F; msk = (head ! 1) AND 0x80 \<noteq> 0 in
      case ws_length (head ! 1) s of Fail e \<Rightarrow> Fail e | Panic \<Rightarrow> Panic | Ok (n, s) \<Rightarrow>
      case (if msk then read_full 4 s else Some ([0, 0, 0, 0], s)) of None \<Rightarrow> Fail io_EOF
      | Some (key, s) \<Rightarrow>
        if max_alloc < n then Panic
        else case read_full n s of None \<Rightarrow> Fail io_EOF
          | Some (body, s) \<Rightarrow>
              Ok (\<lparr>final = fin, opcode = op, payload = (if msk then masked key body else body)\<rparr>, s))"

lemma ws_length_shorter: "ws_length h s = Ok (n, r) \<Longrightarrow> length r \<le> length s"
  by (auto simp: ws_length_def Let_def dest!: read_full_length split: option.splits if_splits)

lemma ws_frame_shorter: "ws_frame s = Ok (f, r) \<Longrightarrow> length r < length s"
  by (auto simp: ws_frame_def Let_def dest!: read_full_length ws_length_shorter
      split: option.splits outcome.splits if_splits)

section \<open>Messages\<close>

text \<open>The loop of \<open>Read\<close>: what has been gathered, and the connection.\<close>

function ws_read_loop :: "bytes \<Rightarrow> ws \<Rightarrow> (go_error, bytes) outcome \<times> ws" where
  "ws_read_loop whole c =
     (case ws_frame (ws_in c) of Fail e \<Rightarrow> (Fail e, c) | Panic \<Rightarrow> (Panic, c)
      | Ok (f, rest) \<Rightarrow>
        let c = c\<lparr>ws_in := rest\<rparr> in
        if opcode f = 0x9 then
          (case ws_write 0xA (payload f) c of
             (Some e, c) \<Rightarrow> (Fail e, c)
           | (None, c) \<Rightarrow> ws_read_loop whole (c\<lparr>ws_in := rest\<rparr>))
        else if opcode f = 0xA then ws_read_loop whole c
        else if opcode f = 0x8 then (Fail io_EOF, snd (ws_write 0x8 [] c))
        else if opcode f \<le> 0x2 then
          (if final f then (Ok (whole @ payload f), c) else ws_read_loop (whole @ payload f) c)
        else (Fail (''opcode '' @ itoa (uint (opcode f))), c))"
  by pat_completeness auto
termination
  by (relation "measure (\<lambda>(whole, c). length (ws_in c))") (auto dest: ws_frame_shorter)

declare ws_read_loop.simps [simp del]

text \<open>A message read leaves less to read.\<close>

lemma ws_read_loop_shorter:
  "ws_read_loop whole c = (Ok m, c') \<Longrightarrow> length (ws_in c') < length (ws_in c)"
proof (induction "length (ws_in c)" arbitrary: whole c rule: less_induct)
  case less
  show ?case
  proof (cases "ws_frame (ws_in c)")
    case (Ok fr)
    obtain f rest where fr: "fr = (f, rest)" by fastforce
    have shorter: "length rest < length (ws_in c)" using ws_frame_shorter Ok fr by blast
    have on: "length (ws_in c') < length (ws_in c)" if "ws_read_loop w d = (Ok m, c')" "ws_in d = rest" for w d
      using less.hyps[of d w] that shorter by simp
    show ?thesis
      using less.prems shorter unfolding ws_read_loop.simps[of whole c] Ok fr
      by (auto simp: ws_write_def Let_def intro: on split: if_splits)
  qed (use less.prems in \<open>simp_all add: ws_read_loop.simps[of whole c]\<close>)
qed

definition ws_Read :: "ws \<Rightarrow> (go_error, bytes) outcome \<times> ws" where
  "ws_Read c = ws_read_loop [] c"

definition ws_Close :: "ws \<Rightarrow> ws" where
  "ws_Close c = (snd (ws_write 0x8 [0x03, 0xE8] c))\<lparr>ws_gone := True\<rparr>"

section \<open>A frame written is the frame read\<close>

text \<open>
  A frame on the wire by RFC 6455, with a key when it comes from a client and without one when it
  comes from a server.
\<close>

definition frame_head :: "bool \<Rightarrow> bool \<Rightarrow> u8 \<Rightarrow> nat \<Rightarrow> bytes" where
  "frame_head fin msk op n =
     (let f = (if fin then 0x80 else 0); m = (if msk then 0x80 else 0) in
      (f OR op) # (if n < 126 then [m OR of_nat n]
        else if n < 2 ^ 16 then [m OR 126, of_nat (n div 256), of_nat n]
        else (m OR 127) # be_bytes 8 n))"

definition frame_bytes :: "bytes option \<Rightarrow> frame \<Rightarrow> bytes" where
  "frame_bytes key f =
     frame_head (final f) (key \<noteq> None) (opcode f) (length (payload f))
       @ (case key of None \<Rightarrow> payload f | Some k \<Rightarrow> k @ masked k (payload f))"

definition frame_wf :: "frame \<Rightarrow> bool" where
  "frame_wf f \<longleftrightarrow> opcode f AND 0x0F = opcode f \<and> length (payload f) \<le> max_alloc"

lemma masked_masked: "length key = 4 \<Longrightarrow> masked key (masked key body) = body"
  by (intro nth_equalityI) (auto simp: masked_def xor.assoc)

lemma length_masked [simp]: "length (masked key body) = length body"
  by (simp add: masked_def)

lemma be_value_two: "n < 2 ^ 16 \<Longrightarrow> be_value [of_nat (n div 256), of_nat n] = n"
  by (simp add: be_value_def unat_of_nat)

lemma u8_top: "(0x80 OR w) AND 0x80 = (0x80 :: u8)"
  by (simp add: bit_eq_iff bit_simps)

lemma u8_drop_top: "(0x80 OR w) AND 0x7F = w AND (0x7F :: u8)" "(0x80 OR w) AND 0x0F = w AND (0x0F :: u8)"
  by (simp_all add: bit.conj_disj_distrib2)

lemma u8_low: "n < 128 \<Longrightarrow> unat (of_nat n AND (0x7F :: u8)) = n"
proof -
  assume n: "n < 128"
  have "(0x7F :: u8) = mask 7" by (simp add: mask_eq_exp_minus_1)
  then have "of_nat n AND (0x7F :: u8) = take_bit 7 (of_nat n)" by (simp add: take_bit_eq_mask)
  then show ?thesis using n by (simp add: unsigned_take_bit_eq unat_of_nat take_bit_nat_eq_self)
qed

lemma u8_small_top: "n < 128 \<Longrightarrow> of_nat n AND (0x80 :: u8) = 0"
proof -
  assume n: "n < 128"
  have "take_bit 7 (of_nat n :: u8) = of_nat n"
    using n by (simp add: word_unat_eq_iff unsigned_take_bit_eq unat_of_nat take_bit_nat_eq_self)
  then have "of_nat n = of_nat n AND (0x7F :: u8)"
    by (simp add: take_bit_eq_mask mask_eq_exp_minus_1)
  then have "of_nat n AND (0x80 :: u8) = of_nat n AND (0x7F AND 0x80 :: u8)"
    by (metis and.assoc)
  then show ?thesis by simp
qed

lemma length_byte_128: "128 \<le> max_alloc" by (simp add: max_alloc_def)

lemma ws_length_head:
  assumes "n \<le> max_alloc"
  shows "\<exists>h t. frame_head fin msk op n = ((if fin then 0x80 else 0) OR op) # h # t
    \<and> (h AND 0x80 \<noteq> 0 \<longleftrightarrow> msk) \<and> ws_length h (t @ s) = Ok (n, s)"
proof -
  let ?m = "if msk then 0x80 else 0 :: u8"
  have top: "(?m OR w) AND 0x80 \<noteq> 0 \<longleftrightarrow> msk" if "w AND 0x80 = 0" for w :: u8
    using that by (auto simp: u8_top)
  have low: "unat ((?m OR of_nat k) AND (0x7F :: u8)) = k" if "k < 128" for k
    using that by (simp add: u8_drop_top u8_low)
  consider "n < 126" | "126 \<le> n" "n < 2 ^ 16" | "126 \<le> n" "2 ^ 16 \<le> n" by linarith
  then show ?thesis
  proof cases
    case 1
    then show ?thesis
      using low[of n] top[OF u8_small_top, of n]
      by (simp add: frame_head_def ws_length_def Let_def)
  next
    case 2
    have "ws_length (?m OR 126) ([of_nat (n div 256), of_nat n] @ s) = Ok (n, s)"
      using low[of 126] 2 read_full_append[of "[of_nat (n div 256), of_nat n]" 2 s]
      by (simp add: ws_length_def be_value_two)
    then show ?thesis
      using 2 top[of 126] by (simp add: frame_head_def Let_def)
  next
    case 3
    have "n < 256 ^ 8" using assms by (simp add: max_alloc_def)
    then have "ws_length (?m OR 127) (be_bytes 8 n @ s) = Ok (n, s)"
      using low[of 127] by (simp add: ws_length_def be_value_bytes)
    then show ?thesis
      using 3 top[of 127] by (simp add: frame_head_def Let_def)
  qed
qed

lemma ws_frame_bytes:
  assumes "frame_wf f" and "key \<noteq> None \<longrightarrow> length (the key) = 4"
  shows "ws_frame (frame_bytes key f @ rest) = Ok (f, rest)"
proof -
  let ?body = "case key of None \<Rightarrow> payload f | Some k \<Rightarrow> k @ masked k (payload f)"
  obtain h t where ht: "frame_head (final f) (key \<noteq> None) (opcode f) (length (payload f))
      = ((if final f then 0x80 else 0) OR opcode f) # h # t"
    "h AND 0x80 \<noteq> 0 \<longleftrightarrow> key \<noteq> None"
    "ws_length h (t @ ?body @ rest) = Ok (length (payload f), ?body @ rest)"
    using ws_length_head[of "length (payload f)" "final f" "key \<noteq> None" "opcode f" "?body @ rest"]
      assms(1) by (auto simp: frame_wf_def)
  have op: "opcode f AND 0x0F = opcode f" using assms(1) by (simp add: frame_wf_def)
  have "opcode f AND 0x80 = (opcode f AND 0x0F) AND 0x80" by (simp only: op)
  then have top: "opcode f AND 0x80 = 0" by (simp add: and.assoc)
  have fin: "((if final f then 0x80 else 0) OR opcode f) AND 0x80 \<noteq> (0 :: u8) \<longleftrightarrow> final f"
    "((if final f then 0x80 else 0) OR opcode f) AND 0x0F = opcode f"
    using top op by (auto simp: u8_top u8_drop_top)
  have len: "\<not> max_alloc < length (payload f)" using assms(1) by (simp add: frame_wf_def)
  have start: "read_full 2 (frame_bytes key f @ rest)
      = Some ([(if final f then 0x80 else 0) OR opcode f, h], t @ ?body @ rest)"
    using ht(1) by (simp add: frame_bytes_def read_full_def)
  show ?thesis
  proof (cases key)
    case None
    then show ?thesis
      unfolding ws_frame_def start using ht(2,3) fin len by (cases f) (simp add: Let_def)
  next
    case (Some k)
    then have "masked k (masked k (payload f)) = payload f" "length k = 4"
      using assms(2) masked_masked by auto
    then show ?thesis
      unfolding ws_frame_def start using ht(2,3) fin len Some by (cases f) (simp add: Let_def)
  qed
qed

lemma ws_bytes_frame: "ws_bytes key op body = frame_bytes (Some key) \<lparr>final = True, opcode = op, payload = body\<rparr>"
  by (simp add: ws_bytes_def frame_bytes_def ws_head_def frame_head_def)

text \<open>
  C19: a frame the client writes, whatever its mask, opcode and length, is the frame a peer reads:
  masking, the three forms of the length and the header bits all come back, and the bytes that
  follow are left alone.
\<close>

theorem ws_write_roundtrip:
  assumes "length (ws_mask c) = 4" and "\<not> ws_gone c" and "op AND 0x0F = op"
    and "length body \<le> max_alloc"
  shows "\<exists>wire. ws_write op body c = (None, c\<lparr>ws_out := ws_out c @ wire\<rparr>)
    \<and> (\<forall>rest. ws_frame (wire @ rest) = Ok (\<lparr>final = True, opcode = op, payload = body\<rparr>, rest))"
proof -
  have "ws_frame (ws_bytes (ws_mask c) op body @ rest)
      = Ok (\<lparr>final = True, opcode = op, payload = body\<rparr>, rest)" for rest
    unfolding ws_bytes_frame using assms by (intro ws_frame_bytes) (auto simp: frame_wf_def)
  then show ?thesis using assms(2) by (auto simp: ws_write_def)
qed

theorem ws_write_roundtrip_witness:
  "\<exists>wire. ws_write 1 [104, 105] \<lparr>ws_in = [], ws_out = [], ws_mask = [1, 2, 3, 4], ws_gone = False\<rparr>
      = (None, \<lparr>ws_in = [], ws_out = wire, ws_mask = [1, 2, 3, 4], ws_gone = False\<rparr>)
    \<and> ws_frame (wire @ [9]) = Ok (\<lparr>final = True, opcode = 1, payload = [104, 105]\<rparr>, [9])"
  using ws_write_roundtrip[of "\<lparr>ws_in = [], ws_out = [], ws_mask = [1, 2, 3, 4], ws_gone = False\<rparr>" 1 "[104, 105]"]
  by (auto simp: max_alloc_def)

section \<open>Reading messages off a server's frames\<close>

interpretation server: message_codec "frame_bytes None" ws_frame frame_wf
  by unfold_locales (simp add: ws_frame_bytes)

text \<open>What one frame does to the loop of \<open>Read\<close>.\<close>

definition read_on :: "bytes \<times> ws \<Rightarrow> frame \<Rightarrow> (bytes \<times> ws) + ((go_error, bytes) outcome \<times> ws)" where
  "read_on = (\<lambda>(whole, c) f.
     if opcode f = 0x9 then
       (case ws_write 0xA (payload f) c of (Some e, c) \<Rightarrow> Inr (Fail e, c) | (None, c) \<Rightarrow> Inl (whole, c))
     else if opcode f = 0xA then Inl (whole, c)
     else if opcode f = 0x8 then Inr (Fail io_EOF, snd (ws_write 0x8 [] c))
     else if opcode f \<le> 0x2 then
       (if final f then Inr (Ok (whole @ payload f), c) else Inl (whole @ payload f, c))
     else Inr (Fail (''opcode '' @ itoa (uint (opcode f))), c))"

lemma ws_write_in: "ws_write op body (c\<lparr>ws_in := s\<rparr>) = (fst (ws_write op body c), (snd (ws_write op body c))\<lparr>ws_in := s\<rparr>)"
  by (simp add: ws_write_def)

lemma read_runs:
  "server.runs read_on (\<lambda>(r, c) rest. (r, c\<lparr>ws_in := rest\<rparr>)) (\<lambda>s (whole, c). ws_read_loop whole (c\<lparr>ws_in := s\<rparr>))"
  unfolding server.runs_def
proof (intro allI impI)
  fix wc :: "bytes \<times> ws" and f rest assume "frame_wf f"
  obtain whole c where wc: "wc = (whole, c)" by fastforce
  have fr: "ws_frame (frame_bytes None f @ rest) = Ok (f, rest)"
    by (rule server.dec_enc[OF \<open>frame_wf f\<close>])
  show "(\<lambda>s (whole, c). ws_read_loop whole (c\<lparr>ws_in := s\<rparr>)) (frame_bytes None f @ rest) wc =
      (case read_on wc f of Inl s' \<Rightarrow> (\<lambda>s (whole, c). ws_read_loop whole (c\<lparr>ws_in := s\<rparr>)) rest s'
       | Inr r \<Rightarrow> (\<lambda>(r, c) rest. (r, c\<lparr>ws_in := rest\<rparr>)) r rest)"
    unfolding wc prod.case
    by (subst ws_read_loop.simps) (auto simp: fr read_on_def ws_write_in Let_def split: option.splits prod.splits)
qed

definition is_data :: "frame \<Rightarrow> bool" where "is_data f \<longleftrightarrow> opcode f \<le> 0x2"

definition is_ping :: "frame \<Rightarrow> bool" where "is_ping f \<longleftrightarrow> opcode f = 0x9"

definition inner :: "frame \<Rightarrow> bool" where
  "inner f \<longleftrightarrow> is_ping f \<or> opcode f = 0xA \<or> is_data f \<and> \<not> final f"

lemma over_inner:
  assumes "\<forall>f \<in> set fs. inner f" and "\<not> ws_gone c"
  shows "server.over read_on (whole, c) fs = Inl (whole @ concat (map payload (filter is_data fs)),
    c\<lparr>ws_out := ws_out c @ concat (map (\<lambda>f. ws_bytes (ws_mask c) 0xA (payload f)) (filter is_ping fs))\<rparr>)"
  using assms
proof (induction fs arbitrary: whole c)
  case (Cons f fs)
  have "inner f" using Cons.prems by simp
  then consider "is_ping f" "\<not> is_data f" | "opcode f = 0xA" "\<not> is_data f" "\<not> is_ping f"
    | "is_data f" "\<not> final f" "\<not> is_ping f" "opcode f \<noteq> 0xA"
    by (auto simp: inner_def is_ping_def is_data_def)
  then show ?case
  proof cases
    case 1
    then show ?thesis using Cons
      by (simp add: read_on_def is_ping_def ws_write_def)
  next
    case 2
    then show ?thesis using Cons by (simp add: read_on_def is_ping_def)
  next
    case 3
    then have "opcode f \<noteq> 0x8" by (auto simp: is_data_def)
    then show ?thesis using 3 Cons by (simp add: read_on_def is_ping_def is_data_def)
  qed
qed simp

text \<open>
  C20: a message is read whole however the server fragments it: the payloads of its data frames in
  order, with every ping met on the way answered by one pong of the same payload, pongs ignored,
  and the input left at the byte after the message.
\<close>

theorem ws_Read_reassembles:
  assumes "\<forall>f \<in> set fs. inner f \<and> frame_wf f" and "is_data l" and "final l" and "frame_wf l"
    and "\<not> ws_gone c" and "ws_in c = concat (map (frame_bytes None) (fs @ [l])) @ rest"
  shows "ws_Read c = (Ok (concat (map payload (filter is_data (fs @ [l])))),
    c\<lparr>ws_in := rest, ws_out := ws_out c @
        concat (map (\<lambda>f. ws_bytes (ws_mask c) 0xA (payload f)) (filter is_ping fs))\<rparr>)"
proof -
  let ?c' = "c\<lparr>ws_out := ws_out c @ concat (map (\<lambda>f. ws_bytes (ws_mask c) 0xA (payload f)) (filter is_ping fs))\<rparr>"
  let ?d = "concat (map payload (filter is_data fs))"
  have "opcode l \<noteq> 0x9" "opcode l \<noteq> 0xA" "opcode l \<noteq> 0x8" using assms(2) by (auto simp: is_data_def)
  then have "read_on (?d, ?c') l = Inr (Ok (?d @ payload l), ?c')"
    using assms(2,3) by (simp add: read_on_def is_data_def)
  moreover have "server.over read_on ([], c) fs = Inl (?d, ?c')"
    using assms(1,5) by (subst over_inner) auto
  ultimately have "server.over read_on ([], c) (fs @ [l]) = Inr ((Ok (?d @ payload l), ?c'), [])"
    by (simp add: server.over_append)
  moreover have "c\<lparr>ws_in := concat (map (frame_bytes None) (fs @ [l])) @ rest\<rparr> = c"
    using assms(6) by (metis ws.surjective ws.update_convs(1))
  moreover have "\<forall>f \<in> set (fs @ [l]). frame_wf f" using assms(1,4) by auto
  ultimately show ?thesis
    using server.loop_over[OF read_runs, of "fs @ [l]" rest "([], c)"] assms(2)
    by (simp add: ws_Read_def)
qed

theorem ws_Read_reassembles_witness:
  "fst (ws_Read \<lparr>ws_in = concat (map (frame_bytes None)
       ([\<lparr>final = False, opcode = 1, payload = [7]\<rparr>, \<lparr>final = True, opcode = 9, payload = [5]\<rparr>]
        @ [\<lparr>final = True, opcode = 0, payload = [8]\<rparr>])) @ [3],
     ws_out = [], ws_mask = [1, 2, 3, 4], ws_gone = False\<rparr>) = Ok [7, 8]"
  using ws_Read_reassembles[of "[\<lparr>final = False, opcode = 1, payload = [7]\<rparr>, \<lparr>final = True, opcode = 9, payload = [5]\<rparr>]"
      "\<lparr>final = True, opcode = 0, payload = [8]\<rparr>"
      "\<lparr>ws_in = concat (map (frame_bytes None)
       ([\<lparr>final = False, opcode = 1, payload = [7]\<rparr>, \<lparr>final = True, opcode = 9, payload = [5]\<rparr>]
        @ [\<lparr>final = True, opcode = 0, payload = [8]\<rparr>])) @ [3],
     ws_out = [], ws_mask = [1, 2, 3, 4], ws_gone = False\<rparr>" "[3]"]
  by (simp add: inner_def is_data_def is_ping_def frame_wf_def max_alloc_def)

section \<open>The upgrade\<close>

definition crlf :: string where "crlf = [CHR 0x0D, CHR 0x0A]"

definition ws_request :: "string \<Rightarrow> string \<Rightarrow> string \<Rightarrow> string" where
  "ws_request path host nonce =
     ''GET '' @ path @ '' HTTP/1.1'' @ crlf @ ''Host: '' @ host @ crlf @ ''Upgrade: websocket'' @ crlf
       @ ''Connection: Upgrade'' @ crlf @ ''Sec-WebSocket-Key: '' @ nonce @ crlf
       @ ''Sec-WebSocket-Version: 13'' @ crlf @ crlf"

text \<open>\<open>ReadString\<close>: a line with its line feed, or nothing when the input ends first.\<close>

definition read_line :: "bytes \<Rightarrow> (string \<times> bytes) option" where
  "read_line s =
     (let l = takeWhile (\<lambda>b. b \<noteq> 10) s in
      if length l = length s then None else Some (text_u8 (l @ [10]), drop (length l + 1) s))"

lemma read_line_shorter: "read_line s = Some (l, r) \<Longrightarrow> length r < length s"
  by (auto simp: read_line_def Let_def split: if_splits)
    (metis diff_less length_greater_0_conv list.size(3) not_less_eq takeWhile.simps(1) zero_less_Suc)

function skip_headers :: "bytes \<Rightarrow> bytes option" where
  "skip_headers s =
     (case read_line s of None \<Rightarrow> None
      | Some (l, r) \<Rightarrow> if TrimSpace l = [] then Some r else skip_headers r)"
  by pat_completeness auto
termination by (relation "measure length") (auto dest: read_line_shorter)

declare skip_headers.simps [simp del]

definition trimBody :: "string \<Rightarrow> string" where
  "trimBody body =
     (let body = TrimSpace body;
          body = (case strings_Index body (crlf @ crlf) of
                    Some i \<Rightarrow> TrimSpace (drop (i + 4) body) | None \<Rightarrow> body)
      in if body = [] then [] else '', '' @ body)"

text \<open>The handshake over what the server answers, from the request being out.\<close>

definition ws_handshake :: "bytes \<Rightarrow> bytes \<Rightarrow> (go_error, ws) outcome" where
  "ws_handshake key answer =
     (case read_line answer of None \<Rightarrow> Fail io_EOF
      | Some (status, s) \<Rightarrow>
        if \<not> strings_Contains status '' 101 ''
        then Fail (''upgrade refused: '' @ TrimSpace status @ trimBody (text_u8 (take 512 s)))
        else (case skip_headers s of None \<Rightarrow> Fail io_EOF
              | Some r \<Rightarrow> Ok \<lparr>ws_in = r, ws_out = [], ws_mask = key, ws_gone = False\<rparr>))"

end
