(* ===== verification/FleetMetrics.thy ===== *)
theory FleetMetrics
  imports GoStrings
begin

text \<open>
  Package \<open>fleet\<close>, the node's own numbers (src/fleet/metrics.go): reading a scrape, what changed
  between two of them, and a percentile off the cumulative buckets of a histogram. A series whose
  value is an infinity or not a number is outside the number model and is left out of a scrape.
\<close>

section \<open>Scrapes\<close>

type_synonym metrics = "(string \<times> f64) list"

text \<open>What an http get comes to: an error, or the status code, the status line and the body.\<close>

record http_answer =
  StatusCode :: int
  Status :: string
  Body :: string

text \<open>
  The lines a \<open>bufio.Scanner\<close> hands out, a carriage return before the newline dropped; a line that
  fills the buffer ends the scan with an error.
\<close>

definition scanner_limit :: nat where "scanner_limit = 1024 * 1024"

fun scan_until :: "string list \<Rightarrow> string list \<times> bool" where
  "scan_until [] = ([], False)"
| "scan_until (l # ls) =
     (if scanner_limit \<le> length l then ([], True)
      else apfst (\<lambda>r. TrimSuffix l [CHR 0x0D] # r) (scan_until ls))"

definition scanner_lines :: "string \<Rightarrow> string list \<times> bool" where
  "scanner_lines body =
     (let ls = split_lines body in scan_until (if last ls = [] then butlast ls else ls))"

definition metric_line :: "metrics \<Rightarrow> string \<Rightarrow> metrics" where
  "metric_line out text =
     (let line = TrimSpace text in
      if line = [] \<or> HasPrefix line ''#'' then out
      else case last_index (CHR '' '') line of
          None \<Rightarrow> out
        | Some i \<Rightarrow>
          (case ParseFloat (TrimSpace (drop (i + 1) line)) of
             None \<Rightarrow> out
           | Some v \<Rightarrow> map_upd (TrimSpace (take i line)) (\<lambda>_. v) out))"

definition fleet_Scrape :: "string \<Rightarrow> http_answer go_result \<Rightarrow> (metrics \<times> go_error option) go_result" where
  "fleet_Scrape url answer =
     (case answer of Inl e \<Rightarrow> Inl e
      | Inr res \<Rightarrow>
        if StatusCode res \<noteq> 200 then Inl (url @ '': '' @ Status res)
        else let (ls, full) = scanner_lines (Body res)
             in Inr (foldl metric_line [] ls, if full then Some ''bufio.Scanner: token too long'' else None))"

definition metrics_Get :: "metrics \<Rightarrow> string \<Rightarrow> f64" where
  "metrics_Get mt key = (case map_of mt key of None \<Rightarrow> 0 | Some v \<Rightarrow> v)"

definition metrics_Delta :: "metrics \<Rightarrow> metrics \<Rightarrow> metrics" where
  "metrics_Delta before after = map (\<lambda>(k, v). (k, fsub v (metrics_Get before k))) after"

definition AttachSecs :: "metrics \<Rightarrow> f64 \<times> bool" where
  "AttachSecs d =
     (let count = metrics_Get d ''zou_tenant_attach_seconds_count'' in
      if count \<le> 0 then (0, False)
      else (fdiv (metrics_Get d ''zou_tenant_attach_seconds_sum'') count, True))"

section \<open>Histograms\<close>

record metric_bucket =
  LE :: f64
  Count :: f64

definition bucket_bound :: "string \<Rightarrow> string \<Rightarrow> f64 option" where
  "bucket_bound name k =
     (let pre = name @ ''_bucket{le='' @ [CHR 0x22] in
      if \<not> HasPrefix k pre then None
      else let rest = TrimPrefix k pre in
        case strings_Index rest [CHR 0x22] of None \<Rightarrow> None | Some e \<Rightarrow> ParseFloat (take e rest))"

text \<open>The inner loop of the sort: an element moves left past every larger one.\<close>

fun sink :: "metric_bucket \<Rightarrow> metric_bucket list \<Rightarrow> metric_bucket list" where
  "sink b [] = [b]"
| "sink b (p # rest) = (if LE b < LE p then p # sink b rest else b # p # rest)"

text \<open>The sorted part is kept reversed, its last element first, the way the loop walks it.\<close>

definition sort_buckets :: "metric_bucket list \<Rightarrow> metric_bucket list" where
  "sort_buckets out = rev (foldl (\<lambda>acc b. sink b acc) [] out)"

definition collect_buckets :: "metrics \<Rightarrow> string \<Rightarrow> metric_bucket list" where
  "collect_buckets mt name =
     List.map_filter (\<lambda>(k, v). map_option (\<lambda>le. \<lparr>LE = le, Count = v\<rparr>) (bucket_bound name k)) mt"

definition fleet_Buckets :: "metrics \<Rightarrow> string \<Rightarrow> metric_bucket list" where
  "fleet_Buckets mt name = sort_buckets (collect_buckets mt name)"

fun first_covering :: "f64 \<Rightarrow> metric_bucket list \<Rightarrow> f64 option" where
  "first_covering want [] = None"
| "first_covering want (b # bs) = (if want \<le> Count b then Some (LE b) else first_covering want bs)"

definition fleet_Quantile :: "metric_bucket list \<Rightarrow> f64 \<Rightarrow> f64 \<times> bool" where
  "fleet_Quantile buckets q =
     (if buckets = [] then (0, False)
      else let total = Count (last buckets) in
        if total \<le> 0 then (0, False)
        else case first_covering (fmul total q) buckets of
               Some le \<Rightarrow> (le, True)
             | None \<Rightarrow> (LE (last buckets), True))"

section \<open>The sort\<close>

lemma sink_sorted:
  "sorted_wrt (\<lambda>a b. LE b \<le> LE a) acc \<Longrightarrow> sorted_wrt (\<lambda>a b. LE b \<le> LE a) (sink b acc)
     \<and> set (sink b acc) = insert b (set acc)"
  by (induction acc) auto

lemma sink_filter:
  "sorted_wrt (\<lambda>a b. LE b \<le> LE a) acc \<Longrightarrow>
     filter (\<lambda>p. LE p = k) (sink b acc) =
       (if LE b = k then b # filter (\<lambda>p. LE p = k) acc else filter (\<lambda>p. LE p = k) acc)"
  by (induction acc) (auto simp: filter_empty_conv)

lemma mset_sink: "mset (sink b acc) = add_mset b (mset acc)"
  by (induction acc) auto

lemma sort_buckets_fold:
  "let r = foldl (\<lambda>acc b. sink b acc) acc out in
     sorted_wrt (\<lambda>a b. LE b \<le> LE a) acc \<longrightarrow>
       sorted_wrt (\<lambda>a b. LE b \<le> LE a) r \<and> mset r = mset out + mset acc
       \<and> filter (\<lambda>p. LE p = k) r = rev (filter (\<lambda>p. LE p = k) out) @ filter (\<lambda>p. LE p = k) acc"
  by (induction out arbitrary: acc)
    (simp, simp add: Let_def sink_sorted sink_filter mset_sink)

text \<open>
  The buckets of a histogram come out in ascending order of their bound whatever order the map
  was walked in, none lost or made up: the loop is the stable sort of the series that carry a bound.
\<close>

lemma Buckets_sorted:
  "fleet_Buckets mt name = sort_key LE (collect_buckets mt name)"
proof -
  let ?r = "foldl (\<lambda>acc b. sink b acc) [] (collect_buckets mt name)"
  note inv = sort_buckets_fold[of "[]" "collect_buckets mt name", unfolded Let_def]
  show ?thesis unfolding fleet_Buckets_def sort_buckets_def
  proof (rule properties_for_sort_key[symmetric, of "rev ?r" "collect_buckets mt name" LE])
    show "mset (rev ?r) = mset (collect_buckets mt name)" using inv by simp
    show "filter (\<lambda>x. LE k = LE x) (rev ?r) = filter (\<lambda>x. LE k = LE x) (collect_buckets mt name)"
      if "k \<in> set (rev ?r)" for k
      using inv[of "LE k"] by (simp add: rev_filter[symmetric] eq_commute[of "LE k"])
    show "sorted (map LE (rev ?r))"
      using inv by (simp add: sorted_map sorted_wrt_rev)
  qed
qed

section \<open>The quantile\<close>

lemma first_covering_spec:
  "first_covering want bs = Some le \<Longrightarrow>
     \<exists>pre b post. bs = pre @ b # post \<and> LE b = le \<and> want \<le> Count b \<and> (\<forall>p \<in> set pre. Count p < want)"
proof (induction bs)
  case (Cons b bs)
  show ?case
  proof (cases "want \<le> Count b")
    case True
    then show ?thesis using Cons.prems by (intro exI[of _ "[]"]) auto
  next
    case False
    then obtain pre c post where "bs = pre @ c # post" "LE c = le" "want \<le> Count c"
      "\<forall>p \<in> set pre. Count p < want" using Cons by auto
    then show ?thesis using False by (intro exI[of _ "b # pre"]) auto
  qed
qed simp

lemma first_covering_None: "first_covering want bs = None \<longleftrightarrow> (\<forall>b \<in> set bs. Count b < want)"
  by (induction bs) (auto simp: not_le)

text \<open>The cumulative histogram of a list of observations over given bounds.\<close>

definition cumulative :: "f64 list \<Rightarrow> f64 list \<Rightarrow> metric_bucket list" where
  "cumulative xs bounds = map (\<lambda>b. \<lparr>LE = b, Count = of_nat (count_le xs b)\<rparr>) bounds"

text \<open>
  Over the cumulative buckets of any observations that the last bound covers, the quantile is
  the least bound at or above the order statistic of rank \<open>\<lceil>n q\<rceil>\<close>: the observation is not above it,
  and every smaller bound of the histogram is below the observation.
\<close>

theorem Quantile_ceiling:
  assumes "sorted bounds" and "bounds \<noteq> []" and "xs \<noteq> []" and "\<forall>x \<in> set xs. x \<le> last bounds"
    and "length xs \<le> 2 ^ 53" and "q \<le> 1"
    and "k = nat \<lceil>fmul (of_nat (length xs)) q\<rceil>" and "0 < fmul (of_nat (length xs)) q"
  shows "\<exists>le. fleet_Quantile (cumulative xs bounds) q = (le, True) \<and> le \<in> set bounds
    \<and> 0 < k \<and> k \<le> length xs \<and> rank xs k \<le> le \<and> (\<forall>b \<in> set bounds. b < le \<longrightarrow> b < rank xs k)"
proof -
  let ?w = "fmul (of_nat (length xs)) q" and ?h = "cumulative xs bounds"
  have all: "count_le xs (last bounds) = length xs"
    using assms(4) by (simp add: count_le_def)
  have lst: "Count (last ?h) = of_nat (length xs)"
    using assms(2) all by (simp add: cumulative_def last_map)
  have "of_nat (length xs) * q \<le> of_nat (length xs) * 1" using assms(6) by (intro mult_left_mono) auto
  then have "?w \<le> fl (of_nat (length xs))" unfolding fmul_def by (intro fl_mono) simp
  then have wn: "?w \<le> of_nat (length xs)" using fl_of_nat[OF assms(5)] by simp
  have k: "0 < k" "k \<le> length xs" using assms(7,8) wn by (auto simp: nat_le_iff ceiling_le_iff)
  have iff: "?w \<le> of_nat c \<longleftrightarrow> k \<le> c" for c
    using assms(7) by (simp add: nat_le_iff ceiling_le_iff)
  have "\<exists>b \<in> set ?h. ?w \<le> Count b"
    using lst wn last_in_set[of ?h] assms(2) by (intro bexI[of _ "last ?h"]) (simp_all add: cumulative_def)
  then obtain le where le: "first_covering ?w ?h = Some le"
    using first_covering_None[of ?w ?h] by (cases "first_covering ?w ?h") force+
  from first_covering_spec[OF le] obtain pre b post where
    h: "?h = pre @ b # post" "LE b = le" "?w \<le> Count b" "\<forall>p \<in> set pre. Count p < ?w" by blast
  have mem: "p \<in> set ?h \<Longrightarrow> LE p \<in> set bounds \<and> Count p = of_nat (count_le xs (LE p))" for p
    by (auto simp: cumulative_def)
  have b: "le \<in> set bounds" "rank xs k \<le> le"
    using mem[of b] h k by (auto simp: rank_le_iff iff)
  have "b' < rank xs k" if "b' \<in> set bounds" "b' < le" for b'
  proof -
    have "map LE ?h = bounds" by (simp add: cumulative_def comp_def)
    then have "bounds = map LE pre @ le # map LE post" using h by simp
    then have "b' \<in> LE ` set pre" using that assms(1) by (auto simp: sorted_append)
    then obtain p where "p \<in> set pre" "LE p = b'" by auto
    then have "\<not> k \<le> count_le xs b'" using h(1,4) mem[of p] iff[of "count_le xs b'"] by auto
    then show ?thesis using rank_le_iff[OF k, of b'] by simp
  qed
  moreover have "fleet_Quantile ?h q = (le, True)"
    using lst le assms(2,3) by (simp add: fleet_Quantile_def cumulative_def)
  ultimately show ?thesis using b k by blast
qed

theorem Quantile_ceiling_witness:
  "\<exists>le. fleet_Quantile (cumulative [1, 3, 2, 8] [2, 4, 10]) (1 / 2) = (le, True) \<and> rank [1, 3, 2, 8] 2 \<le> (le :: rat)"
proof -
  have p: "fmul (of_nat (length [1, 3, 2, 8 :: rat])) (1 / 2) = 2" by code_simp
  have "\<exists>le. fleet_Quantile (cumulative [1, 3, 2, 8] [2, 4, 10]) (1 / 2) = (le, True) \<and> le \<in> set [2, 4, 10]
    \<and> 0 < (2 :: nat) \<and> 2 \<le> length [1, 3, 2, 8 :: rat] \<and> rank [1, 3, 2, 8] 2 \<le> le
    \<and> (\<forall>b \<in> set [2, 4, 10]. b < le \<longrightarrow> b < rank [1, 3, 2, 8] 2)"
    by (rule Quantile_ceiling) (simp_all add: p[simplified])
  then show ?thesis by blast
qed

end
