(* ===== verification/SocketsRun.thy ===== *)
theory SocketsRun
  imports SocketsTally Frames JsonText GoFmt FleetMetrics
begin

text \<open>
  A socket run (src/sockets/sockets.go and src/sockets/writer.go): the frames of the channel
  protocol, the join of a socket, the writer's statements, and the run as a machine whose events are
  what sockets, writers and the clock do, in any interleaving. The theorem is the exact accounting
  the package promises.
\<close>

section \<open>Options\<close>

record sock_options =
  soToken :: string
  soSockets :: int
  soShards :: int
  soConnectRate :: int
  soDialers :: int
  soReadBuf :: int
  soSchema :: string
  soTable :: string
  soWriteDSN :: string
  soWriters :: int
  soRows :: int
  soBatch :: int
  soWarmup :: int
  soDuration :: int
  soDrain :: int
  soHeartbeat :: int
  soOpsURL :: string

definition run_defaults :: "sock_options \<Rightarrow> sock_options go_result" where
  "run_defaults opt =
     (if soSockets opt \<le> 0 then Inl ''a socket run needs sockets''
      else let opt = (if soShards opt \<le> 0 then opt\<lparr>soShards := 1\<rparr> else opt) in
        if soSockets opt < soShards opt
        then Inl (itoa (soShards opt) @ '' shards and only '' @ itoa (soSockets opt)
               @ '' sockets, so some shard would have nobody on it'')
        else Inr (opt\<lparr>soDialers := (if soDialers opt \<le> 0 then 64 else soDialers opt),
               soReadBuf := (if soReadBuf opt \<le> 0 then 2048 else soReadBuf opt),
               soSchema := (if soSchema opt = [] then ''public'' else soSchema opt),
               soBatch := (if soBatch opt \<le> 0 then 25 else soBatch opt),
               soWriters := (if soWriters opt \<le> 0 then 4 else soWriters opt),
               soHeartbeat := (if soHeartbeat opt \<le> 0 then 30 * GoTime.Second else soHeartbeat opt),
               soDrain := (if soDrain opt \<le> 0 then 5 * GoTime.Second else soDrain opt)\<rparr>))"

definition shard_of :: "sock_options \<Rightarrow> nat \<Rightarrow> nat" where
  "shard_of opt i = i mod nat (soShards opt)"

section \<open>Failures\<close>

record failures =
  fSeen :: "(string \<times> nat) list"
  fN :: nat

definition no_failures :: failures where "no_failures = \<lparr>fSeen = [], fN = 0\<rparr>"

text \<open>Nothing stands for the panic of a slice that starts past the end of the string.\<close>

definition trimError :: "string \<Rightarrow> string option" where
  "trimError s =
     (case strings_Index s ''->'' of None \<Rightarrow> Some s
      | Some i \<Rightarrow>
        if i = 0 then Some s
        else case strings_Index (drop i s) '':'' of None \<Rightarrow> Some s
          | Some j \<Rightarrow>
            if j = 0 then Some s
            else if length s < i + j + 2 then None
            else Some (take (case last_index (CHR '' '') (take i s) of None \<Rightarrow> 0 | Some k \<Rightarrow> k + 1) s
                       @ drop (i + j + 2) s))"

definition failures_note :: "go_error \<Rightarrow> failures \<Rightarrow> failures option" where
  "failures_note err f =
     map_option (\<lambda>reason. f\<lparr>fN := fN f + 1, fSeen := map_upd reason (plus_at 1) (fSeen f)\<rparr>) (trimError err)"

definition failures_list :: "failures \<Rightarrow> string list" where
  "failures_list f = map (\<lambda>(reason, n). itoa (int n) @ '' x '' @ reason) (fSeen f)"

section \<open>Frames of the channel protocol\<close>

definition eventOf :: "string \<Rightarrow> string \<times> (string \<times> any) list" where
  "eventOf msg =
     (case json_parse msg of
        Some (JArr frame) \<Rightarrow>
          if length frame < 5 then ([], [])
          else (case dec_string (frame ! 3) [] of None \<Rightarrow> ([], [])
                | Some event \<Rightarrow>
                  (event, case as_map (any_of_json (frame ! 4)) of Some body \<Rightarrow> body | None \<Rightarrow> []))
      | _ \<Rightarrow> ([], []))"

definition sentUS :: "(string \<times> any) list \<Rightarrow> int option" where
  "sentUS body =
     (case as_map (map_get body ''data'') of None \<Rightarrow> None
      | Some data \<Rightarrow>
        (case as_map (map_get data ''record'') of None \<Rightarrow> None
         | Some rec \<Rightarrow>
           (case map_get rec ''sent_us'' of
              AStr v \<Rightarrow> Atoi v
            | AFloat v \<Rightarrow> Some (trunc v)
            | _ \<Rightarrow> None)))"

text \<open>The stamp of a change, of a message that is one.\<close>

definition change_stamp :: "string \<Rightarrow> int option" where
  "change_stamp msg =
     (let (event, body) = eventOf msg in if event \<noteq> ''postgres_changes'' then None else sentUS body)"

definition compact_text :: "(string \<times> any) list \<Rightarrow> string" where
  "compact_text body = take 200 (json_Marshal (any_json (AMap body)))"

definition topic_of :: "nat \<Rightarrow> string" where "topic_of shard = ''realtime:shard-'' @ itoa (int shard)"

definition join_config :: "sock_options \<Rightarrow> nat \<Rightarrow> json" where
  "join_config opt shard =
     JObj ((if soToken opt \<noteq> [] then [(''access_token'', JStr (soToken opt))] else [])
       @ [(''config'', JObj [(''postgres_changes'', JArr [JObj
            [(''event'', JStr ''INSERT''), (''filter'', JStr (''shard=eq.'' @ itoa (int shard))),
             (''schema'', JStr (soSchema opt)), (''table'', JStr (soTable opt))]])])])"

definition join_frame :: "sock_options \<Rightarrow> nat \<Rightarrow> string" where
  "join_frame opt shard =
     ''['' @ Quote ''1'' @ '','' @ Quote ''1'' @ '','' @ Quote (topic_of shard) @ '','' @ Quote ''phx_join'' @ '',''
       @ json_Marshal (join_config opt shard) @ '']''"

text \<open>What a frame means to a socket waiting for the reply to its join; nothing is to wait on.\<close>

definition join_answer :: "string \<Rightarrow> (go_error, unit) outcome option" where
  "join_answer msg =
     (let (event, body) = eventOf msg in
      if event = ''phx_reply''
      then Some (if as_string (map_get body ''status'') = Some ''ok'' then Ok ()
                 else Fail (''join refused: '' @ compact_text body))
      else if event = ''phx_error'' then Some (Fail (''join failed: '' @ compact_text body))
      else None)"

function join_wait :: "ws \<Rightarrow> (go_error, unit) outcome \<times> ws" where
  "join_wait c =
     (case ws_Read c of
        (Ok msg, c') \<Rightarrow> (case join_answer (text_u8 msg) of None \<Rightarrow> join_wait c' | Some r \<Rightarrow> (r, c'))
      | (Fail e, c') \<Rightarrow> (Fail e, c')
      | (Panic, c') \<Rightarrow> (Panic, c'))"
  by pat_completeness auto
termination
  by (relation "measure (\<lambda>c. length (ws_in c))") (auto simp: ws_Read_def dest: ws_read_loop_shorter[OF sym])

declare join_wait.simps [simp del]

definition sock_join :: "sock_options \<Rightarrow> nat \<Rightarrow> ws \<Rightarrow> (go_error, unit) outcome \<times> ws" where
  "sock_join opt shard c =
     (case ws_WriteText (u8_text (join_frame opt shard)) c of
        (Some e, c) \<Rightarrow> (Fail e, c)
      | (None, c) \<Rightarrow> join_wait c)"

definition beat_frame :: "nat \<Rightarrow> string" where
  "beat_frame n = ''[null,'' @ Quote (itoa (int n)) @ '','' @ Quote ''phoenix'' @ '','' @ Quote ''heartbeat'' @ '',''
     @ [CHR 0x7B, CHR 0x7D] @ '']''"

definition beat_stagger :: "sock_options \<Rightarrow> nat \<Rightarrow> int" where
  "beat_stagger opt i = quot (wrap64 (int (i mod 1000) * soHeartbeat opt)) 1000"

text \<open>The beats of so many ticks, the first failed write the last one.\<close>

fun sock_beat :: "nat \<Rightarrow> nat \<Rightarrow> ws \<Rightarrow> ws" where
  "sock_beat 0 n c = c"
| "sock_beat (Suc ticks) n c =
     (case ws_WriteText (u8_text (beat_frame (n + 1))) c of
        (Some e, c) \<Rightarrow> c
      | (None, c) \<Rightarrow> sock_beat ticks (n + 1) c)"

section \<open>The writer\<close>

record sock_writer =
  wConns :: nat
  wShards :: "nat list"
  wRows :: nat
  wSample :: "sample list"
  wShard :: "(nat \<times> nat) list"
  wDeadline :: int
  wBatch :: "nat list"
  wNext :: "nat list"
  wLive :: "bool list"

text \<open>
  \<open>open\<close>, from what each dial comes to, in order: the error of the first that fails, or as many
  connections as writers.
\<close>

definition writer_open :: "sock_options \<Rightarrow> (nat \<Rightarrow> go_error option) \<Rightarrow> nat list \<Rightarrow> sock_writer go_result" where
  "writer_open opt dials shards =
     (if soWriteDSN opt = []
      then Inl (''a run that commits '' @ itoa (soRows opt) @ '' rows a second needs a write dsn'')
      else case find (\<lambda>i. dials i \<noteq> None) [0..<nat (soWriters opt)] of
          Some i \<Rightarrow> Inl (''writer connection: '' @ the (dials i))
        | None \<Rightarrow> Inr \<lparr>wConns = nat (soWriters opt), wShards = shards, wRows = 0, wSample = [], wShard = [],
            wDeadline = 0, wBatch = [], wNext = [], wLive = []\<rparr>)"

definition no_writer :: "nat list \<Rightarrow> sock_writer" where
  "no_writer shards = \<lparr>wConns = 0, wShards = shards, wRows = 0, wSample = [], wShard = [],
     wDeadline = 0, wBatch = [], wNext = [], wLive = []\<rparr>"

definition writer_share :: "sock_options \<Rightarrow> nat \<Rightarrow> nat \<Rightarrow> nat" where
  "writer_share opt conns index =
     (let rows = nat (soRows opt) in
      rows div conns + (if index < rows mod conns then 1 else 0))"

definition writer_batch :: "sock_options \<Rightarrow> nat \<Rightarrow> nat" where
  "writer_batch opt share = (if share < nat (soBatch opt) then share else nat (soBatch opt))"

definition writer_every :: "nat \<Rightarrow> nat \<Rightarrow> int" where
  "writer_every batch share =
     trunc (fdiv (fmul (f64_of_int GoTime.Second) (f64_of_int (int batch))) (f64_of_int (int share)))"

text \<open>
  The start of \<open>push\<close>: every writer's plan. A writer with no share is done at once; a ticker with no
  period panics.
\<close>

definition push_start :: "sock_options \<Rightarrow> int \<Rightarrow> int \<Rightarrow> sock_writer \<Rightarrow> sock_writer option" where
  "push_start opt now spn w =
     (if soRows opt \<le> 0 \<or> wConns w = 0 then Some (w\<lparr>wLive := replicate (wConns w) False\<rparr>)
      else let shares = map (writer_share opt (wConns w)) [0..<wConns w];
               batches = map (writer_batch opt) shares
           in if \<exists>i < wConns w. 0 < shares ! i \<and> writer_every (batches ! i) (shares ! i) \<le> 0 then None
              else Some (w\<lparr>wDeadline := now + spn, wBatch := batches,
                     wNext := map (\<lambda>i. i * batches ! i) [0..<wConns w],
                     wLive := map (\<lambda>s. 0 < s) shares\<rparr>))"

definition batch_shards :: "nat list \<Rightarrow> nat \<Rightarrow> nat \<Rightarrow> nat list" where
  "batch_shards shards next batch = map (\<lambda>j. shards ! ((next + j) mod length shards)) [0..<batch]"

definition insert_sql :: "sock_options \<Rightarrow> int \<Rightarrow> nat list \<Rightarrow> string" where
  "insert_sql opt us shards =
     ''insert into '' @ soSchema opt @ ''.'' @ soTable opt @ '' (shard, sent_us) values ''
       @ strings_Join (map (\<lambda>s. ''('' @ itoa (int s) @ '','' @ itoa us @ '')'') shards) '',''"

definition msSince :: "int \<Rightarrow> int \<Rightarrow> f64" where
  "msSince from til = round3 (fdiv (f64_of_int (Microseconds (til - from))) 1000)"

text \<open>What a statement the server took leaves behind, rows stamped outside the window owed to nobody.\<close>

definition writer_count :: "int \<Rightarrow> int \<Rightarrow> int \<Rightarrow> int \<Rightarrow> int \<Rightarrow> nat list \<Rightarrow> sock_writer \<Rightarrow> sock_writer" where
  "writer_count from til us sent done_at shards w =
     (if from \<noteq> 0 \<and> from \<le> us \<and> us \<le> til
      then w\<lparr>wRows := wRows w + length shards,
             wShard := foldl (\<lambda>m s. map_upd s (plus_at 1) m) (wShard w) shards,
             wSample := wSample w @ [\<lparr>MS = msSince sent done_at, Epoch = sent div GoTime.Second\<rparr>]\<rparr>
      else w)"

section \<open>The run as a machine\<close>

text \<open>
  Instants are nanoseconds since the epoch. \<open>Opened\<close> is a ramp worker done with an id: when it began,
  what the dial came to, when the dial and the join were done. \<open>Heard\<close> is a message one socket read,
  \<open>Ended\<close> the error that ended its reading. \<open>Ticked\<close> is a tick of a writer: when it was looked at, the
  stamp of its rows, when the statement went out and came back, and what the query came to.
\<close>

datatype sock_event =
    Opened nat int "go_error + ws" int int
  | Heard nat string int
  | Ended nat go_error
  | Ticked nat int int int int "go_error option"

record sock_run =
  rFrom :: int
  rTo :: int
  rCols :: "collector list"
  rHeld :: int
  rLost :: int
  rStop :: bool
  rFailures :: failures
  rConnect :: "sample list"
  rJoins :: "sample list"
  rWriter :: sock_writer

definition run_start :: sock_run where
  "run_start = \<lparr>rFrom = 0, rTo = 0, rCols = replicate collectors new_collector, rHeld = 0, rLost = 0,
     rStop = False, rFailures = no_failures, rConnect = [], rJoins = [], rWriter = no_writer []\<rparr>"

definition run_window :: "int \<Rightarrow> int \<Rightarrow> sock_run \<Rightarrow> sock_run" where
  "run_window from til r = r\<lparr>rFrom := from, rTo := til\<rparr>"

definition run_close :: "sock_run \<Rightarrow> sock_run" where "run_close r = r\<lparr>rStop := True\<rparr>"

definition run_note :: "go_error \<Rightarrow> sock_run \<Rightarrow> sock_run option" where
  "run_note err r = map_option (\<lambda>f. r\<lparr>rFailures := f\<rparr>) (failures_note err (rFailures r))"

definition run_opened :: "sock_options \<Rightarrow> nat \<Rightarrow> int \<Rightarrow> go_error + ws \<Rightarrow> int \<Rightarrow> int \<Rightarrow> sock_run \<Rightarrow> sock_run option" where
  "run_opened opt i opened conn dialed joined r =
     (case conn of
        Inl e \<Rightarrow> run_note e r
      | Inr c \<Rightarrow>
        (case fst (sock_join opt (shard_of opt i) c) of
           Panic \<Rightarrow> None
         | Fail e \<Rightarrow> run_note e r
         | Ok _ \<Rightarrow> Some (r\<lparr>rConnect := rConnect r @ [\<lparr>MS = msSince opened dialed, Epoch = opened div GoTime.Second\<rparr>],
             rJoins := rJoins r @ [\<lparr>MS = msSince dialed joined, Epoch = dialed div GoTime.Second\<rparr>],
             rHeld := rHeld r + 1\<rparr>)))"

definition heard_delivery :: "sock_options \<Rightarrow> sock_run \<Rightarrow> nat \<Rightarrow> int \<Rightarrow> int \<Rightarrow> delivery" where
  "heard_delivery opt r i stamp now =
     \<lparr>dFrom = rFrom r, dTo = rTo r, dShard = shard_of opt i, dStamp = stamp, dNow = now div 1000\<rparr>"

definition run_heard :: "sock_options \<Rightarrow> nat \<Rightarrow> string \<Rightarrow> int \<Rightarrow> sock_run \<Rightarrow> sock_run" where
  "run_heard opt i msg now r =
     (case change_stamp msg of None \<Rightarrow> r
      | Some stamp \<Rightarrow>
        let k = i mod collectors in
        r\<lparr>rCols := (rCols r)[k := collector_hear (heard_delivery opt r i stamp now) (rCols r ! k)]\<rparr>)"

definition run_ended :: "go_error \<Rightarrow> sock_run \<Rightarrow> sock_run option" where
  "run_ended e r =
     (if rStop r then Some r
      else run_note (''socket dropped mid run: '' @ e) (r\<lparr>rLost := rLost r + 1, rHeld := rHeld r - 1\<rparr>))"

definition writer_gone :: "nat \<Rightarrow> sock_writer \<Rightarrow> sock_writer" where
  "writer_gone i w = w\<lparr>wLive := (wLive w)[i := False]\<rparr>"

definition run_ticked :: "sock_options \<Rightarrow> nat \<Rightarrow> int \<Rightarrow> int \<Rightarrow> int \<Rightarrow> int \<Rightarrow> go_error option \<Rightarrow> sock_run \<Rightarrow> sock_run option" where
  "run_ticked opt i now stamp sent done_at answer r =
     (let w = rWriter r in
      if length (wLive w) \<le> i \<or> \<not> wLive w ! i then Some r
      else if wDeadline w < now then Some (r\<lparr>rWriter := writer_gone i w\<rparr>)
      else if wShards w = [] then None
      else let shards = batch_shards (wShards w) (wNext w ! i) (wBatch w ! i);
               w = w\<lparr>wNext := (wNext w)[i := wNext w ! i + wBatch w ! i]\<rparr>
           in case answer of
                Some e \<Rightarrow> run_note (''insert: '' @ e) (r\<lparr>rWriter := writer_gone i w\<rparr>)
              | None \<Rightarrow> Some (r\<lparr>rWriter := writer_count (rFrom r) (rTo r) (stamp div 1000) sent done_at shards w\<rparr>))"

definition run_step :: "sock_options \<Rightarrow> sock_event \<Rightarrow> sock_run \<Rightarrow> sock_run option" where
  "run_step opt e r =
     (case e of
        Opened i opened conn dialed joined \<Rightarrow> run_opened opt i opened conn dialed joined r
      | Heard i msg now \<Rightarrow> Some (run_heard opt i msg now r)
      | Ended i err \<Rightarrow> run_ended err r
      | Ticked i now stamp sent done_at answer \<Rightarrow> run_ticked opt i now stamp sent done_at answer r)"

fun run_steps :: "sock_options \<Rightarrow> sock_event list \<Rightarrow> sock_run \<Rightarrow> sock_run option" where
  "run_steps opt [] r = Some r"
| "run_steps opt (e # es) r = (case run_step opt e r of None \<Rightarrow> None | Some r' \<Rightarrow> run_steps opt es r')"

section \<open>The whole run\<close>

text \<open>
  How many sockets a shard's rows are owed to, on the view that the ones held are the first ids.
\<close>

definition socketsOn :: "sock_options \<Rightarrow> nat \<Rightarrow> nat \<Rightarrow> nat" where
  "socketsOn opt shard held =
     (let n = held div nat (soShards opt) in if shard < held mod nat (soShards opt) then n + 1 else n)"

definition shardsHeld :: "sock_options \<Rightarrow> sock_run \<Rightarrow> nat list" where
  "shardsHeld opt r = [0..<nat (if soShards opt < rHeld r then soShards opt else rHeld r)]"

definition node_quantiles :: "metrics \<Rightarrow> string \<Rightarrow> (string \<times> any) list" where
  "node_quantiles d name =
     (let bs = fleet_Buckets d name in
      concat (map (\<lambda>(label, p). case fleet_Quantile bs p of
                (v, True) \<Rightarrow> [(label @ ''_ms'', AFloat (round3 (fmul v 1000)))]
              | (_, False) \<Rightarrow> []) [(''p50'', fl (1 / 2)), (''p99'', fl (99 / 100))])
      @ (let count = metrics_Get d (name @ ''_count'') in
         if 0 < count
         then [(''mean_ms'', AFloat (round3 (fmul (fdiv (metrics_Get d (name @ ''_sum'')) count) 1000))),
               (''count'', AFloat count)]
         else []))"

definition nodeView :: "metrics \<Rightarrow> metrics \<Rightarrow> (string \<times> any) list" where
  "nodeView before after =
     (let d = metrics_Delta before after in
      [(''changes_delivered'', AFloat (metrics_Get d ''zou_realtime_changes_total'')),
       (''sockets'', AFloat (metrics_Get after ''zou_realtime_sockets'')),
       (''subscribers'', AFloat (metrics_Get after ''zou_realtime_subscribers''))]
      @ concat (map (\<lambda>name. unless_empty (TrimPrefix name ''zou_realtime_'') (node_quantiles d name))
          [''zou_realtime_change_seconds'', ''zou_realtime_commit_to_socket_seconds'']))"

record sock_result =
  srHeld :: int
  srWanted :: int
  srRefused :: int
  srLost :: int
  srFailures :: "string list"
  srRampSecs :: f64
  srElapsed :: f64
  srConnectMS :: "string \<rightharpoonup> f64"
  srJoinMS :: "string \<rightharpoonup> f64"
  srRows :: nat
  srExpected :: nat
  srDelivered :: int
  srMissing :: int
  srStray :: nat
  srDeliveryMS :: "string \<rightharpoonup> f64"
  srCommitMS :: "string \<rightharpoonup> f64"
  srTimeline :: "second list"
  srPerShard :: shard_spread
  srNode :: "(string \<times> any) list option"

definition result_zero :: "int \<Rightarrow> sock_result" where
  "result_zero want =
     \<lparr>srHeld = 0, srWanted = want, srRefused = 0, srLost = 0, srFailures = [], srRampSecs = 0, srElapsed = 0,
      srConnectMS = Map.empty, srJoinMS = Map.empty, srRows = 0, srExpected = 0, srDelivered = 0, srMissing = 0,
      srStray = 0, srDeliveryMS = Map.empty, srCommitMS = Map.empty, srTimeline = [],
      srPerShard = \<lparr>spShards = 0, spSockets = 0, spMinSeen = 0, spMaxSeen = 0, spMeanSeen = 0, spEmpty = 0\<rparr>,
      srNode = None\<rparr>"

text \<open>
  What a run is up against: the ramp's own error, the events up to its end, the writer's dials, the
  instants the clock was read at, the events of the warmup and of the measured window with its
  drain, the two scrapes, and whether the run was interrupted.
\<close>

record sock_inputs =
  inRampErr :: "go_error option"
  inRamp :: "sock_event list"
  inDials :: "nat \<Rightarrow> go_error option"
  inStarted :: int
  inWarmPush :: int
  inWarm :: "sock_event list"
  inBefore :: "metrics go_result"
  inFrom :: int
  inPush :: int
  inMeasured :: "sock_event list"
  inEnded :: int
  inAfter :: "metrics go_result"
  inErr :: "go_error option"

definition result_ramped :: "sock_options \<Rightarrow> sock_run \<Rightarrow> sock_result" where
  "result_ramped opt r =
     (result_zero (soSockets opt))
       \<lparr>srHeld := rHeld r, srRefused := soSockets opt - rHeld r,
        srConnectMS := latency_Percentiles (rConnect r), srJoinMS := latency_Percentiles (rJoins r),
        srRampSecs := round3 (rampSecs (rConnect r))\<rparr>"

definition expected_of :: "sock_options \<Rightarrow> nat \<Rightarrow> (nat \<times> nat) list \<Rightarrow> nat" where
  "expected_of opt held perShard = sum_list (map (\<lambda>(shard, rows). rows * socketsOn opt shard held) perShard)"

text \<open>The window opened and the writers started over it, then the events of that span.\<close>

definition run_span :: "sock_options \<Rightarrow> int \<Rightarrow> int \<Rightarrow> int \<Rightarrow> int \<Rightarrow> sock_event list \<Rightarrow> sock_run \<Rightarrow> sock_run option" where
  "run_span opt from til push spn es r =
     (let r = run_window from til r in
      case push_start opt push spn (rWriter r) of None \<Rightarrow> None
      | Some w \<Rightarrow> run_steps opt es (r\<lparr>rWriter := w\<rparr>))"

definition run_result :: "sock_options \<Rightarrow> sock_inputs \<Rightarrow> sock_result \<Rightarrow> nat \<Rightarrow> sock_run \<Rightarrow> sock_result" where
  "run_result opt inp res shards r =
     (let (hist, seconds, perShard, stray) = run_tally (rCols r);
          w = rWriter r;
          delivered = sint (hcount hist);
          expect = expected_of opt (nat (srHeld res)) (wShard w)
      in res\<lparr>srElapsed := round3 (Seconds (inEnded inp - inStarted inp)),
             srRows := wRows w, srCommitMS := latency_Percentiles (wSample w),
             srDelivered := delivered, srStray := stray, srDeliveryMS := hist_Percentiles hist,
             srTimeline := seconds, srLost := rLost r, srFailures := failures_list (rFailures r),
             srExpected := expect, srMissing := int expect - delivered,
             srPerShard := spread perShard shards (nat (srHeld res) div nat (soShards opt)),
             srNode := (if soOpsURL opt = [] then None
                        else case (inBefore inp, inAfter inp) of
                               (Inr before, Inr after) \<Rightarrow> Some (nodeView before after)
                             | _ \<Rightarrow> None)\<rparr>)"

definition run_measured :: "sock_options \<Rightarrow> sock_inputs \<Rightarrow> sock_run \<Rightarrow> (sock_result \<times> sock_run) option" where
  "run_measured opt inp r =
     (case (if 0 < soWarmup opt
            then run_span opt 0 0 (inWarmPush inp) (soWarmup opt) (inWarm inp) r else Some r) of
        None \<Rightarrow> None
      | Some r1 \<Rightarrow>
        (case run_span opt (inFrom inp div 1000) ((inFrom inp + soDuration opt) div 1000)
                (inPush inp) (soDuration opt) (inMeasured inp) r1 of
           None \<Rightarrow> None
         | Some r2 \<Rightarrow> Some (run_result opt inp (result_ramped opt r) (length (wShards (rWriter r))) r2, r2)))"

text \<open>Up to the writer's connections: what the run stops with, or the state it goes on from.\<close>

definition run_ramped :: "sock_options \<Rightarrow> sock_inputs \<Rightarrow> (sock_result \<times> go_error + sock_run) option" where
  "run_ramped opt inp =
     (case run_steps opt (inRamp inp) run_start of None \<Rightarrow> None
      | Some r \<Rightarrow>
        Some (case inRampErr inp of Some e \<Rightarrow> Inl (result_zero (soSockets opt), e)
         | None \<Rightarrow>
           let res = result_ramped opt r in
           if rHeld r = 0
           then Inl (res\<lparr>srFailures := failures_list (rFailures r)\<rparr>,
                  ''not one socket stayed up, so there is nothing to measure'')
           else let shards = shardsHeld opt r in
             case (if 0 < soRows opt then writer_open opt (inDials inp) shards else Inr (no_writer shards)) of
               Inl e \<Rightarrow> Inl (res, e)
             | Inr w \<Rightarrow> Inr (r\<lparr>rWriter := w\<rparr>)))"

definition sockets_Run :: "sock_options \<Rightarrow> sock_inputs \<Rightarrow> (sock_result \<times> go_error option) option" where
  "sockets_Run options inp =
     (case run_defaults options of
        Inl e \<Rightarrow> Some (result_zero 0, Some e)
      | Inr opt \<Rightarrow>
        (case run_ramped opt inp of None \<Rightarrow> None
         | Some (Inl (res, e)) \<Rightarrow> Some (res, Some e)
         | Some (Inr r) \<Rightarrow> map_option (\<lambda>(res, r'). (res, inErr inp)) (run_measured opt inp r)))"

end
