(* ===== verification/SocketsAccounts.thy ===== *)
theory SocketsAccounts
  imports SocketsRun
begin

text \<open>
  The exact accounting of a socket run: what is published as expected is a multiplication of shares,
  and this theory shows that it is the number of deliveries the held sockets are owed, socket by
  socket, with the published deliveries counted against it.
\<close>

section \<open>What the sockets hear\<close>

definition event_delivery :: "sock_options \<Rightarrow> int \<Rightarrow> int \<Rightarrow> sock_event \<Rightarrow> (nat \<times> delivery) option" where
  "event_delivery opt from til e =
     (case e of
        Heard i msg now \<Rightarrow>
          map_option (\<lambda>stamp. (i mod collectors,
            \<lparr>dFrom = from, dTo = til, dShard = shard_of opt i, dStamp = stamp, dNow = now div 1000\<rparr>)) (change_stamp msg)
      | _ \<Rightarrow> None)"

definition event_deliveries :: "sock_options \<Rightarrow> int \<Rightarrow> int \<Rightarrow> sock_event list \<Rightarrow> (nat \<times> delivery) list" where
  "event_deliveries opt from til es = List.map_filter (event_delivery opt from til) es"

definition file_all :: "collector list \<Rightarrow> (nat \<times> delivery) list \<Rightarrow> collector list" where
  "file_all cols ds = foldl (\<lambda>cols (i, d). cols[i := collector_hear d (cols ! i)]) cols ds"

lemma file_all_append: "file_all cols (as @ bs) = file_all (file_all cols as) bs"
  by (simp add: file_all_def)

lemma event_deliveries_simps [simp]:
  "event_deliveries opt from til [] = []"
  "event_deliveries opt from til (e # es) =
     (case event_delivery opt from til e of None \<Rightarrow> event_deliveries opt from til es
      | Some d \<Rightarrow> d # event_deliveries opt from til es)"
  by (simp_all add: event_deliveries_def List.map_filter_def split: option.splits)

text \<open>What a step leaves of the collectors and the window.\<close>

lemma run_note_frame:
  "run_note e r = Some r' \<Longrightarrow> rCols r' = rCols r \<and> rFrom r' = rFrom r \<and> rTo r' = rTo r \<and> rWriter r' = rWriter r"
  by (auto simp: run_note_def)

lemma run_step_cols:
  assumes "run_step opt e r = Some r'"
  shows "rFrom r' = rFrom r \<and> rTo r' = rTo r \<and>
    rCols r' = file_all (rCols r) (case event_delivery opt (rFrom r) (rTo r) e of None \<Rightarrow> [] | Some d \<Rightarrow> [d])"
proof (cases e)
  case (Opened i opened conn dialed joined)
  then show ?thesis using assms
    by (auto simp: run_step_def run_opened_def file_all_def event_delivery_def
        dest: run_note_frame split: sum.splits outcome.splits)
next
  case (Heard i msg now)
  then show ?thesis using assms
    by (auto simp: run_step_def run_heard_def file_all_def event_delivery_def heard_delivery_def Let_def split: option.splits)
next
  case (Ended i err)
  then show ?thesis using assms
    by (auto simp: run_step_def run_ended_def file_all_def event_delivery_def dest!: run_note_frame split: if_splits)
next
  case (Ticked i now stamp sent done_at answer)
  then show ?thesis using assms
    by (auto simp: run_step_def run_ticked_def file_all_def event_delivery_def Let_def
        dest!: run_note_frame split: if_splits option.splits)
qed

lemma run_steps_cols:
  "run_steps opt es r = Some r' \<Longrightarrow> rFrom r' = rFrom r \<and> rTo r' = rTo r \<and>
     rCols r' = file_all (rCols r) (event_deliveries opt (rFrom r) (rTo r) es)"
proof (induction es arbitrary: r)
  case (Cons e es)
  obtain r1 where r1: "run_step opt e r = Some r1" "run_steps opt es r1 = Some r'"
    using Cons.prems by (auto split: option.splits)
  show ?case using run_step_cols[OF r1(1)] Cons.IH[OF r1(2)]
    by (cases "event_delivery opt (rFrom r) (rTo r) e") (simp_all add: file_all_def)
qed (simp add: file_all_def)

lemma run_span_cols:
  "run_span opt from til push spn es r = Some r' \<Longrightarrow>
     rCols r' = file_all (rCols r) (event_deliveries opt from til es)"
  by (auto simp: run_span_def run_window_def Let_def dest!: run_steps_cols split: option.splits)

section \<open>What the writers commit\<close>

definition writer_sound :: "sock_options \<Rightarrow> sock_writer \<Rightarrow> bool" where
  "writer_sound opt w \<longleftrightarrow> set (wShards w) \<subseteq> {..<nat (soShards opt)} \<and> distinct (map fst (wShard w))
     \<and> fst ` set (wShard w) \<subseteq> set (wShards w) \<and> wRows w = sum_list (map snd (wShard w))"

lemma batch_shards_sub: "shards \<noteq> [] \<Longrightarrow> set (batch_shards shards n b) \<subseteq> set shards"
  by (auto simp: batch_shards_def)

lemma rows_fold:
  assumes "set ss \<subseteq> S" "distinct (map fst m)" "fst ` set m \<subseteq> S"
  shows "distinct (map fst (foldl (\<lambda>m s. map_upd s (plus_at 1) m) m ss))
    \<and> fst ` set (foldl (\<lambda>m s. map_upd s (plus_at 1) m) m ss) \<subseteq> S
    \<and> sum_list (map snd (foldl (\<lambda>m s. map_upd s (plus_at 1) m) m ss)) = sum_list (map snd m) + length ss"
  using assms
  by (induction ss arbitrary: m) (simp_all add: distinct_map_upd keys_map_upd sum_plus_at)

lemma writer_count_sound:
  assumes "writer_sound opt w" and "set ss \<subseteq> set (wShards w)"
  shows "writer_sound opt (writer_count from til us sent done_at ss w)"
  using assms rows_fold[of ss "set (wShards w)" "wShard w"]
  by (auto simp: writer_sound_def writer_count_def)

lemma writer_sound_frame [simp]:
  "writer_sound opt (wNext_update f w) = writer_sound opt w"
  "writer_sound opt (wLive_update g w) = writer_sound opt w"
  "writer_sound opt (wBatch_update f w) = writer_sound opt w"
  "writer_sound opt (wDeadline_update h w) = writer_sound opt w"
  by (simp_all add: writer_sound_def)

lemma run_ticked_sound:
  assumes "run_ticked opt i now stamp sent done_at answer r = Some r'" and "writer_sound opt (rWriter r)"
  shows "writer_sound opt (rWriter r')"
proof -
  have count: "writer_sound opt (writer_count a b us sent done_at
      (batch_shards (wShards (rWriter r)) n m) ((rWriter r)\<lparr>wNext := nx\<rparr>))"
    if "wShards (rWriter r) \<noteq> []" for a b us n m nx
    using that assms(2) batch_shards_sub by (intro writer_count_sound) auto
  show ?thesis
    using assms count
    by (auto simp: run_ticked_def writer_gone_def Let_def dest!: run_note_frame split: if_splits option.splits)
qed

lemma run_steps_sound:
  "run_steps opt es r = Some r' \<Longrightarrow> writer_sound opt (rWriter r) \<Longrightarrow> writer_sound opt (rWriter r')"
proof (induction es arbitrary: r)
  case (Cons e es)
  obtain r1 where r1: "run_step opt e r = Some r1" "run_steps opt es r1 = Some r'"
    using Cons.prems by (auto split: option.splits)
  have "writer_sound opt (rWriter r1)"
    using r1(1) Cons.prems(2)
    by (cases e) (auto simp: run_step_def run_opened_def run_heard_def run_ended_def Let_def
        dest!: run_note_frame dest: run_ticked_sound split: sum.splits outcome.splits option.splits if_splits)
  then show ?case using Cons.IH r1(2) by blast
qed simp

lemma run_span_sound:
  "run_span opt from til push spn es r = Some r' \<Longrightarrow> writer_sound opt (rWriter r) \<Longrightarrow> writer_sound opt (rWriter r')"
  by (auto simp: run_span_def run_window_def push_start_def Let_def
      dest!: run_steps_sound split: option.splits if_splits)

section \<open>The multiplication\<close>

lemma count_mod:
  fixes r m n :: nat
  assumes "r < m"
  shows "length (filter (\<lambda>i. i mod m = r) [0..<n]) = n div m + (if r < n mod m then 1 else 0)"
proof (induction n)
  case (Suc n)
  show ?case
  proof (cases "Suc (n mod m) = m")
    case True
    then have "Suc n mod m = 0" "Suc n div m = Suc (n div m)" by (simp_all add: mod_Suc div_Suc)
    then show ?thesis using Suc True assms by auto
  next
    case False
    then have "Suc n mod m = Suc (n mod m)" "Suc n div m = n div m" by (simp_all add: mod_Suc div_Suc)
    then show ?thesis using Suc assms by auto
  qed
qed simp

lemma socketsOn_card:
  "s < nat (soShards opt) \<Longrightarrow> socketsOn opt s held = length (filter (\<lambda>i. shard_of opt i = s) [0..<held])"
  by (simp add: socketsOn_def shard_of_def count_mod Let_def)

lemma sum_filter_count: "sum_list (map (\<lambda>i. if P i then c else 0) xs) = c * length (filter P xs)" for c :: nat
  by (induction xs) auto

lemma expected_sockets:
  assumes "distinct (map fst m)" and "fst ` set m \<subseteq> {..<nat (soShards opt)}"
  shows "expected_of opt held m = (\<Sum>i\<leftarrow>[0..<held]. seen_on m (shard_of opt i))"
  using assms
proof (induction m)
  case Nil
  then show ?case by (simp add: expected_of_def seen_on_def)
next
  case (Cons kv m)
  obtain s n where kv: "kv = (s, n)" by fastforce
  have new: "seen_on m s = 0"
    using Cons.prems(1) by (auto simp: kv seen_on_def split: option.splits) (metis imageI fst_conv map_of_SomeD)
  have "(\<Sum>i\<leftarrow>[0..<held]. seen_on (kv # m) (shard_of opt i))
      = (\<Sum>i\<leftarrow>[0..<held]. (if shard_of opt i = s then n else 0) + seen_on m (shard_of opt i))"
    using new by (intro arg_cong[where f = sum_list] map_cong) (auto simp: kv seen_on_def)
  also have "\<dots> = n * socketsOn opt s held + expected_of opt held m"
    using Cons by (simp add: sum_list_addf sum_filter_count socketsOn_card kv)
  finally show ?case by (simp add: expected_of_def kv)
qed

section \<open>The published figures\<close>

definition change_in :: "int \<Rightarrow> int \<Rightarrow> sock_event \<Rightarrow> nat \<Rightarrow> bool" where
  "change_in from til e i \<longleftrightarrow>
     (case e of Heard j msg now \<Rightarrow>
        j = i \<and> (case change_stamp msg of None \<Rightarrow> False | Some st \<Rightarrow> from \<noteq> 0 \<and> from \<le> st \<and> st \<le> til)
      | _ \<Rightarrow> False)"

text \<open>How many changes stamped in the window one socket read, and how many changes were read at all.\<close>

definition got :: "int \<Rightarrow> int \<Rightarrow> sock_event list \<Rightarrow> nat \<Rightarrow> nat" where
  "got from til es i = length (filter (\<lambda>e. change_in from til e i) es)"

definition is_change :: "sock_event \<Rightarrow> bool" where
  "is_change e \<longleftrightarrow> (case e of Heard i msg now \<Rightarrow> change_stamp msg \<noteq> None | _ \<Rightarrow> False)"

definition changes :: "sock_event list \<Rightarrow> nat" where "changes es = length (filter is_change es)"

definition ids_below :: "nat \<Rightarrow> sock_event list \<Rightarrow> bool" where
  "ids_below n es \<longleftrightarrow> (\<forall>e \<in> set es. case e of Heard i msg now \<Rightarrow> i < n | _ \<Rightarrow> True)"

abbreviation inside_sum :: "(nat \<times> delivery) list \<Rightarrow> nat" where
  "inside_sum ds \<equiv> sum_list (map (\<lambda>(i, d). inside d) ds)"

lemma one_of_ids: "i < n \<Longrightarrow> sum_list (map (\<lambda>j. if j = i then c else 0) [0..<n]) = (c :: nat)"
  by (simp add: sum_list_distinct_conv_sum_set)

lemma got_sum:
  assumes "ids_below n es"
  shows "inside_sum (event_deliveries opt from til es) = sum_list (map (got from til es) [0..<n])"
  using assms
proof (induction es)
  case (Cons e es)
  have here: "(case event_delivery opt from til e of None \<Rightarrow> 0 | Some (i, d) \<Rightarrow> inside d)
      = sum_list (map (\<lambda>i. if change_in from til e i then 1 else 0) [0..<n])"
  proof (cases "\<exists>i msg now. e = Heard i msg now \<and> change_stamp msg \<noteq> None")
    case True
    then obtain i msg now st where e: "e = Heard i msg now" "change_stamp msg = Some st" by auto
    have "i < n" using Cons.prems by (auto simp: ids_below_def e)
    have m: "map (\<lambda>j. if change_in from til e j then 1 else 0) [0..<n]
        = map (\<lambda>j. if j = i then (if from \<noteq> 0 \<and> from \<le> st \<and> st \<le> til then 1 else 0) else 0) [0..<n]"
      by (auto simp: change_in_def e)
    show ?thesis
      unfolding m one_of_ids[OF \<open>i < n\<close>] by (auto simp: e event_delivery_def inside_def outside_def)
  qed (auto simp: event_delivery_def change_in_def sum_list_0 split: sock_event.splits option.splits)
  have "sum_list (map (got from til (e # es)) [0..<n])
      = sum_list (map (\<lambda>i. (if change_in from til e i then 1 else 0) + got from til es i) [0..<n])"
    by (intro arg_cong[where f = sum_list] map_cong) (auto simp: got_def)
  also have "\<dots> = sum_list (map (\<lambda>i. if change_in from til e i then 1 else 0) [0..<n])
      + sum_list (map (got from til es) [0..<n])"
    by (rule sum_list_addf)
  finally have sum: "sum_list (map (got from til (e # es)) [0..<n])
      = (case event_delivery opt from til e of None \<Rightarrow> 0 | Some (i, d) \<Rightarrow> inside d)
        + inside_sum (event_deliveries opt from til es)"
    using Cons here by (simp add: ids_below_def)
  show ?case unfolding sum by (cases "event_delivery opt from til e") auto
qed (simp add: got_def sum_list_0)

lemma changes_sum: "changes es = length (event_deliveries opt from til es)"
proof (induction es)
  case (Cons e es)
  have "is_change e \<longleftrightarrow> event_delivery opt from til e \<noteq> None"
    by (auto simp: is_change_def event_delivery_def split: sock_event.splits)
  then show ?case using Cons by (cases "event_delivery opt from til e") (simp_all add: changes_def)
qed (simp add: changes_def)

lemma inside_le: "inside_sum ds \<le> length ds"
  by (induction ds) (auto simp: inside_def)

lemma outside_sum: "sum_list (map (\<lambda>(i, d). 1 - inside d) ds) + inside_sum ds = length ds"
  by (induction ds) (auto simp: inside_def)

lemma closed_window: "inside_sum (event_deliveries opt 0 til es) = 0"
proof -
  have "\<forall>(i, d) \<in> set (event_deliveries opt 0 til es). inside d = 0"
    by (auto simp: event_deliveries_def event_delivery_def List.map_filter_def inside_def outside_def
        split: sock_event.splits)
  then show ?thesis by (induction "event_deliveries opt 0 til es") auto
qed

lemma event_cells: "(i, d) \<in> set (event_deliveries opt from til es) \<Longrightarrow> i < collectors"
  by (auto simp: event_deliveries_def event_delivery_def List.map_filter_def collectors_def split: sock_event.splits)

text \<open>Every figure of the fold, over what has been filed in fresh collectors.\<close>

lemma tally_figures:
  assumes "\<forall>(i, d) \<in> set ds. i < collectors"
  shows "hcount (cHist (tally_all (file_all (replicate collectors new_collector) ds))) = of_nat (inside_sum ds)"
    and "shards_seen (tally_all (file_all (replicate collectors new_collector) ds)) = inside_sum ds"
    and "seconds_seen (tally_all (file_all (replicate collectors new_collector) ds)) = inside_sum ds"
    and "cStray (tally_all (file_all (replicate collectors new_collector) ds)) + inside_sum ds = length ds"
proof -
  have "sum_list (map (\<lambda>(i, d). of_nat (inside d)) ds) = (of_nat (inside_sum ds) :: u64)"
    by (induction ds) auto
  then show "hcount (cHist (tally_all (file_all (replicate collectors new_collector) ds))) = of_nat (inside_sum ds)"
    unfolding tally_all_def file_all_def using deliveries.amount_events[OF assms] by simp
  show "shards_seen (tally_all (file_all (replicate collectors new_collector) ds)) = inside_sum ds"
    unfolding tally_all_def file_all_def by (rule shard_counts.amount_events[OF assms])
  show "seconds_seen (tally_all (file_all (replicate collectors new_collector) ds)) = inside_sum ds"
    unfolding tally_all_def file_all_def by (rule timelines.amount_events[OF assms])
  show "cStray (tally_all (file_all (replicate collectors new_collector) ds)) + inside_sum ds = length ds"
    unfolding tally_all_def file_all_def strays.amount_events[OF assms] by (rule outside_sum)
qed

text \<open>The timeline keeps the counts: one entry for every second of the fold.\<close>

lemma distinct_tally_seconds:
  "distinct (map fst acc) \<Longrightarrow> distinct (map fst (tally_seconds acc m))"
  unfolding tally_seconds_def by (induction m arbitrary: acc) (auto simp: distinct_map_upd)

lemma distinct_tally: "distinct (map fst (cSeconds (tally_all cols)))"
proof -
  have "distinct (map fst (cSeconds a)) \<Longrightarrow> distinct (map fst (cSeconds (foldl tally_col a cols)))" for a
    by (induction cols arbitrary: a) (simp_all add: tally_col_def distinct_tally_seconds)
  then show ?thesis by (simp add: tally_all_def new_collector_def)
qed

lemma timeline_from_sN: "map sN (timeline_from out) = map sN out"
  by (cases out) (simp_all add: timeline_from_def comp_def)

lemma timeline_counts:
  assumes "distinct (map fst m)"
  shows "sum_list (map sN (timeline m)) = sum_list (map (\<lambda>kv. sN (snd kv)) m)"
proof -
  define f where "f t = sN (the (map_of m t))" for t
  have m: "map f (map fst m) = map (\<lambda>kv. sN (snd kv)) m"
  proof (simp add: comp_def, rule)
    fix kv assume "kv \<in> set m"
    then have "map_of m (fst kv) = Some (snd kv)" using map_of_is_SomeI[OF assms] by simp
    then show "f (fst kv) = sN (snd kv)" by (simp add: f_def)
  qed
  have "map sN (timeline m) = map f (sort (map fst m))"
    unfolding timeline_def timeline_from_sN by (simp add: sort_times_sort second_out_def comp_def f_def)
  moreover have "mset (map f (sort (map fst m))) = mset (map f (map fst m))"
    by (simp only: mset_map mset_sort)
  then have "sum_list (map f (sort (map fst m))) = sum_list (map f (map fst m))"
    unfolding sum_mset_sum_list[symmetric] by (rule arg_cong)
  ultimately show ?thesis unfolding m by simp
qed

text \<open>
  The premise that the held sockets are the first ids matters: with ids 0 and 2 up over two shards,
  the second shard is still owed a socket.
\<close>

lemma socketsOn_refused:
  "soShards opt = 2 \<Longrightarrow> socketsOn opt 1 2 = 1 \<and> filter (\<lambda>i. shard_of opt i = 1) [0, 2] = []"
  by (simp add: socketsOn_def shard_of_def)

text \<open>Grouping failures cuts an address at its first colon, so the end of the port stays in the reason.\<close>

lemma trimError_keeps_port:
  "trimError ''read tcp 10.0.0.1:5000->10.0.0.2:8000: i/o timeout'' = Some ''read tcp 000: i/o timeout''"
  by code_simp

text \<open>The deliveries of a whole run, in the order they were filed.\<close>

definition run_deliveries :: "sock_options \<Rightarrow> sock_inputs \<Rightarrow> (nat \<times> delivery) list" where
  "run_deliveries opt inp =
     event_deliveries opt 0 0 (inRamp inp)
     @ (if 0 < soWarmup opt then event_deliveries opt 0 0 (inWarm inp) else [])
     @ event_deliveries opt (inFrom inp div 1000) ((inFrom inp + soDuration opt) div 1000) (inMeasured inp)"

lemma inside_run:
  "inside_sum (run_deliveries opt inp) =
     inside_sum (event_deliveries opt (inFrom inp div 1000) ((inFrom inp + soDuration opt) div 1000) (inMeasured inp))"
  unfolding run_deliveries_def
  by (cases "0 < soWarmup opt")
    (simp_all only: map_append sum_list_append closed_window if_True if_False list.map sum_list.Nil add_0)

lemma run_ramped_ready:
  assumes "run_ramped opt inp = Some (Inr r)"
  shows "rCols r = file_all (replicate collectors new_collector) (event_deliveries opt 0 0 (inRamp inp))"
    and "writer_sound opt (rWriter r)"
proof -
  obtain r0 w where r0: "run_steps opt (inRamp inp) run_start = Some r0"
    and w: "(if 0 < soRows opt then writer_open opt (inDials inp) (shardsHeld opt r0)
        else Inr (no_writer (shardsHeld opt r0))) = Inr w"
    and r: "r = r0\<lparr>rWriter := w\<rparr>"
    using assms by (auto simp: run_ramped_def Let_def split: option.splits if_splits sum.splits)
  show "rCols r = file_all (replicate collectors new_collector) (event_deliveries opt 0 0 (inRamp inp))"
    using run_steps_cols[OF r0] by (simp add: r run_start_def)
  have "set (shardsHeld opt r0) \<subseteq> {..<nat (soShards opt)}" by (auto simp: shardsHeld_def)
  moreover have "wShards w = shardsHeld opt r0 \<and> wShard w = [] \<and> wRows w = 0"
    using w by (auto simp: writer_open_def no_writer_def split: if_splits option.splits)
  ultimately show "writer_sound opt (rWriter r)" by (simp add: r writer_sound_def)
qed

lemma run_measured_end:
  assumes "run_measured opt inp r = Some (res, r')"
  shows "rCols r' = file_all (rCols r) ((if 0 < soWarmup opt then event_deliveries opt 0 0 (inWarm inp) else [])
      @ event_deliveries opt (inFrom inp div 1000) ((inFrom inp + soDuration opt) div 1000) (inMeasured inp))"
    and "writer_sound opt (rWriter r) \<Longrightarrow> writer_sound opt (rWriter r')"
    and "res = run_result opt inp (result_ramped opt r) (length (wShards (rWriter r))) r'"
proof -
  obtain r1 where r1: "(if 0 < soWarmup opt
      then run_span opt 0 0 (inWarmPush inp) (soWarmup opt) (inWarm inp) r else Some r) = Some r1"
    and r2: "run_span opt (inFrom inp div 1000) ((inFrom inp + soDuration opt) div 1000)
      (inPush inp) (soDuration opt) (inMeasured inp) r1 = Some r'"
    and res: "res = run_result opt inp (result_ramped opt r) (length (wShards (rWriter r))) r'"
    using assms by (auto simp: run_measured_def split: option.splits)
  show "res = run_result opt inp (result_ramped opt r) (length (wShards (rWriter r))) r'" by (rule res)
  show "rCols r' = file_all (rCols r) ((if 0 < soWarmup opt then event_deliveries opt 0 0 (inWarm inp) else [])
      @ event_deliveries opt (inFrom inp div 1000) ((inFrom inp + soDuration opt) div 1000) (inMeasured inp))"
    using run_span_cols[OF r2] r1
    by (auto simp: file_all_append file_all_def dest!: run_span_cols split: if_splits)
  show "writer_sound opt (rWriter r')" if "writer_sound opt (rWriter r)"
    using r1 that run_span_sound[OF r2] by (auto dest: run_span_sound split: if_splits)
qed


text \<open>Three sockets over two shards, one row each, and one of the three deliveries missing.\<close>

definition run_example :: sock_options where
  "run_example = \<lparr>soToken = [], soSockets = 3, soShards = 2, soConnectRate = 0, soDialers = 1, soReadBuf = 1,
     soSchema = ''s'', soTable = ''t'', soWriteDSN = ''h'', soWriters = 1, soRows = 2, soBatch = 2, soWarmup = 0,
     soDuration = 1000000, soDrain = 1, soHeartbeat = 1, soOpsURL = []\<rparr>"

definition reply_example :: string where
  "reply_example = json_Marshal (JArr [JNull, JNull, JStr ''t'', JStr ''phx_reply'', JObj [(''status'', JStr ''ok'')]])"

definition change_example :: string where
  "change_example = json_Marshal (JArr [JNull, JNull, JStr ''t'', JStr ''postgres_changes'',
     JObj [(''data'', JObj [(''record'', JObj [(''sent_us'', JStr ''1500'')])])]])"

definition conn_example :: ws where
  "conn_example = \<lparr>ws_in = frame_bytes None \<lparr>final = True, opcode = 1, payload = u8_text reply_example\<rparr>,
     ws_out = [], ws_mask = [1, 2, 3, 4], ws_gone = False\<rparr>"

definition input_example :: sock_inputs where
  "input_example = \<lparr>inRampErr = None, inRamp = map (\<lambda>i. Opened i 0 (Inr conn_example) 0 0) [0, 1, 2],
     inDials = (\<lambda>_. None), inStarted = 0, inWarmPush = 0, inWarm = [], inBefore = Inl [], inFrom = 1000000,
     inPush = 1000000, inMeasured = [Ticked 0 1400000 1500000 1500000 1600000 None,
       Heard 0 change_example 1700000, Heard 1 change_example 1800000],
     inEnded = 0, inAfter = Inl [], inErr = None\<rparr>"

lemma change_example_stamp: "change_stamp change_example = Some 1500"
  by code_simp

lemma reply_example_answer: "join_answer reply_example = Some (Ok ())"
  by code_simp

lemma reply_example_fits: "length (u8_text reply_example) \<le> max_alloc"
  by (simp add: reply_example_def max_alloc_def length_u8_text json_quote_def json_escape_def)
lemma every_example: "0 < writer_every 2 2" by code_simp
lemma conn_example_joins: "fst (sock_join opt s conn_example) = Ok ()"
proof -
  define f where "f = \<lparr>final = True, opcode = (1 :: u8), payload = u8_text reply_example\<rparr>"
  have "frame_wf f" using reply_example_fits by (simp add: frame_wf_def f_def)
  then have "ws_frame (frame_bytes None f @ []) = Ok (f, [])" by (intro ws_frame_bytes) auto
  then show ?thesis
  by (simp add: sock_join_def ws_WriteText_def ws_write_def conn_example_def f_def[symmetric] join_wait.simps ws_Read_def ws_read_loop.simps Let_def)
    (simp add: f_def reply_example_answer)
qed

lemma defaults_example: "run_defaults run_example = Inr run_example"
  by (simp add: run_defaults_def run_example_def)

lemma ramped_example:
  "\<exists>r. run_ramped run_example input_example = Some (Inr r) \<and> rHeld r = 3
     \<and> rWriter r = \<lparr>wConns = 1, wShards = [0, 1], wRows = 0, wSample = [], wShard = [],
            wDeadline = 0, wBatch = [], wNext = [], wLive = []\<rparr>"
  by (simp add: run_ramped_def input_example_def run_step_def run_opened_def conn_example_joins run_start_def
      writer_open_def run_example_def shardsHeld_def Let_def upt_rec)

lemma measured_example:
  assumes "rWriter r = \<lparr>wConns = 1, wShards = [0, 1], wRows = 0, wSample = [], wShard = [],
            wDeadline = 0, wBatch = [], wNext = [], wLive = []\<rparr>"
  shows "\<exists>res r'. run_measured run_example input_example r = Some (res, r') \<and> wShard (rWriter r') = [(0, 1), (1, 1)]"
  using every_example
  by (simp add: run_measured_def run_span_def push_start_def input_example_def run_step_def run_ticked_def
      run_window_def assms run_example_def writer_share_def writer_batch_def batch_shards_def run_heard_def
      writer_count_def Let_def upt_rec plus_at_def change_example_stamp split: option.splits)


end
