(* ===== verification/SocketsRamp.thy ===== *)
theory SocketsRamp
  imports Command SocketsAccounts
begin

text \<open>
  Where the sockets of a run go (src/sockets/sockets.go, \<open>wsURL\<close>, \<open>wsURLs\<close>, \<open>localAddrs\<close> and \<open>ramp\<close>):
  the endpoint once for each port of the node, the addresses of this box, the pair of them a socket
  is opened over, and how the ids are handed to the dialers. Reading and writing a URL and resolving
  a name are arguments.
\<close>

section \<open>Endpoints\<close>

record go_url =
  urlScheme :: string
  urlHostname :: string
  urlPort :: string
  urlPath :: string
  urlQuery :: "(string \<times> string) list"

definition query_Set :: "string \<Rightarrow> string \<Rightarrow> (string \<times> string) list \<Rightarrow> (string \<times> string) list" where
  "query_Set k v q = filter (\<lambda>(k', _). k' \<noteq> k) q @ [(k, v)]"

definition endpoint_path :: string where "endpoint_path = ''/realtime/v1/websocket''"

definition wsURL :: "(string \<Rightarrow> go_url go_result) \<Rightarrow> (go_url \<Rightarrow> string) \<Rightarrow> string \<Rightarrow> string \<Rightarrow> string go_result" where
  "wsURL parse write1 base apikey =
     (if base = [] then Inl ''a socket run needs a base url''
      else and_then (parse (TrimSuffix base ''/'')) (\<lambda>u.
        if urlScheme u = ''https'' \<or> urlScheme u = ''wss''
        then Inl ''this driver speaks plain websocket only, so a run needs the node's http port''
        else if urlScheme u \<noteq> ''http'' \<and> urlScheme u \<noteq> ''ws'' then Inl (base @ '' is not a url this driver can open'')
        else let q = query_Set ''vsn'' ''2.0.0'' (urlQuery u);
                 q = (if apikey \<noteq> [] then query_Set ''apikey'' apikey q else q)
             in Inr (write1 (u\<lparr>urlScheme := ''ws'',
                  urlPath := (if HasSuffix (urlPath u) endpoint_path then urlPath u else urlPath u @ endpoint_path),
                  urlQuery := q\<rparr>))))"

fun port_urls :: "(go_url \<Rightarrow> string) \<Rightarrow> go_url \<Rightarrow> int list \<Rightarrow> string list go_result" where
  "port_urls write1 u [] = Inr []"
| "port_urls write1 u (p # ps) =
     (if p \<le> 0 \<or> 65535 < p then Inl (itoa p @ '' is not a port a socket can be opened to'')
      else map_sum id (Cons (write1 (u\<lparr>urlPort := itoa p\<rparr>))) (port_urls write1 u ps))"

definition wsURLs :: "(string \<Rightarrow> go_url go_result) \<Rightarrow> (go_url \<Rightarrow> string) \<Rightarrow> string \<Rightarrow> string \<Rightarrow> int list \<Rightarrow> string list go_result" where
  "wsURLs parse write1 base apikey ports =
     and_then (wsURL parse write1 base apikey) (\<lambda>first.
     if ports = [] then Inr [first]
     else and_then (parse first) (\<lambda>u. port_urls write1 u ports))"

fun localAddrs :: "(string \<Rightarrow> string go_result) \<Rightarrow> string list \<Rightarrow> string list go_result" where
  "localAddrs resolve [] = Inr []"
| "localAddrs resolve (h # hs) =
     (let host = TrimSpace h in
      if host = [] then localAddrs resolve hs
      else case resolve host of
          Inl e \<Rightarrow> Inl (''local address '' @ host @ '': '' @ e)
        | Inr addr \<Rightarrow> map_sum id (Cons addr) (localAddrs resolve hs))"

section \<open>The ramp\<close>

text \<open>The source address and the endpoint of a socket; without addresses the kernel chooses.\<close>

definition dial_at :: "string list \<Rightarrow> string list \<Rightarrow> nat \<Rightarrow> string option \<times> string" where
  "dial_at locals urls i =
     (if locals = [] then (None, urls ! ((i div 1) mod length urls))
      else (Some (locals ! (i mod length locals)), urls ! ((i div length locals) mod length urls)))"

text \<open>The pause between two sockets, none when the rate is not capped.\<close>

definition ramp_every :: "int \<Rightarrow> int option" where
  "ramp_every rate =
     (if rate \<le> 0 then None
      else let every = quot GoTime.Second rate in Some (if every < 1000 then 1000 else every))"

text \<open>The ids handed to the dialers: all of them in order, up to the first one the run was interrupted at.\<close>

definition ramp_ids :: "int \<Rightarrow> (nat \<Rightarrow> bool) \<Rightarrow> nat list" where
  "ramp_ids sockets stopped = takeWhile (\<lambda>i. \<not> stopped i) [0..<nat sockets]"

definition ramp_dials :: "string list \<Rightarrow> string list \<Rightarrow> int \<Rightarrow> (nat \<Rightarrow> bool) \<Rightarrow> (nat \<times> string option \<times> string) list" where
  "ramp_dials locals urls sockets stopped = map (\<lambda>i. (i, dial_at locals urls i)) (ramp_ids sockets stopped)"

section \<open>Sockets over pairs of addresses\<close>

lemma port_urls_ok:
  "port_urls write1 u ps = Inr urls \<Longrightarrow> length urls = length ps \<and> (\<forall>p \<in> set ps. 0 < p \<and> p \<le> 65535)"
  by (induction ps arbitrary: urls) (auto simp: map_sum_def not_le split: if_splits sum.splits)

lemma wsURLs_ok:
  assumes "wsURLs parse write1 base apikey ports = Inr urls"
  shows "length urls = max 1 (length ports) \<and> (\<forall>p \<in> set ports. 0 < p \<and> p \<le> 65535)"
proof (cases "ports = []")
  case False
  then obtain u where "port_urls write1 u ports = Inr urls"
    using assms by (auto simp: wsURLs_def and_then_def split: sum.splits)
  moreover have "1 \<le> length ports" using False by (cases ports) auto
  ultimately show ?thesis using port_urls_ok by fastforce
qed (use assms in \<open>auto simp: wsURLs_def and_then_def split: sum.splits\<close>)

lemma takeWhile_upt: "takeWhile P [0..<n] = [0..<length (takeWhile P [0..<n])]"
  by (metis take_upt takeWhile_eq_take length_takeWhile_le add_0 length_upt minus_nat.diff_0)

lemma mod_pair:
  fixes i l u a b :: nat
  assumes "a < l" and "b < u"
  shows "i mod l = a \<and> (i div l) mod u = b \<longleftrightarrow> i mod (l * u) = a + l * b"
proof -
  have "i mod (l * u) = l * (i div l mod u) + i mod l" by (rule mod_mult2_eq)
  moreover have "(a + l * b) mod l = a" "(a + l * b) div l = b" using assms by simp_all
  moreover have "(l * (i div l mod u) + i mod l) mod l = i mod l" "(l * (i div l mod u) + i mod l) div l = i div l mod u"
    using assms by simp_all
  ultimately show ?thesis by (metis add.commute)
qed

definition sources :: "string list \<Rightarrow> string option list" where
  "sources locals = (if locals = [] then [None] else map Some locals)"

lemma dial_at_iff:
  assumes "distinct locals" and "distinct urls" and "a < length (sources locals)" and "b < length urls"
  shows "dial_at locals urls i = (sources locals ! a, urls ! b) \<longleftrightarrow> i mod (length (sources locals) * length urls) = a + length (sources locals) * b"
proof -
  let ?l = "length (sources locals)" and ?u = "length urls"
  have "dial_at locals urls i = (sources locals ! (i mod ?l), urls ! ((i div ?l) mod ?u))"
    using assms(3) by (auto simp: dial_at_def sources_def)
  moreover have "distinct (sources locals)" using assms(1) by (simp add: sources_def distinct_map)
  moreover have "i mod ?l < ?l" "(i div ?l) mod ?u < ?u" using assms(3,4) by (auto intro!: mod_less_divisor)
  ultimately have "dial_at locals urls i = (sources locals ! a, urls ! b) \<longleftrightarrow> i mod ?l = a \<and> (i div ?l) mod ?u = b"
    using assms by (simp add: nth_eq_iff_index_eq)
  then show ?thesis unfolding mod_pair[OF assms(3,4)] .
qed

text \<open>
  C33: the sockets of a ramp are spread evenly over the pairs of a source address and a port of the
  node. Every port of the list can be opened, every socket goes to one of those pairs, and however far
  the ramp got, two pairs differ by at most one socket: each carries the sockets handed out divided
  by the pairs there are, or one more. So neither list is walked in step with the other.
\<close>

theorem ramp_spread:
  assumes "wsURLs parse write1 base apikey ports = Inr urls" and "distinct urls" and "distinct locals"
    and "from \<in> set (sources locals)" and "url \<in> set urls"
  shows "(\<forall>p \<in> set ports. 0 < p \<and> p \<le> 65535)
    \<and> (let dials = ramp_dials locals urls sockets stopped; pairs = length (sources locals) * max 1 (length ports);
          n = length (filter (\<lambda>(i, d). d = (from, url)) dials)
      in n = length dials div pairs \<or> n = length dials div pairs + 1)"
proof -
  note ok = wsURLs_ok[OF assms(1)]
  define m where "m = length (ramp_ids sockets stopped)"
  have ids: "ramp_ids sockets stopped = [0..<m]" unfolding m_def ramp_ids_def by (rule takeWhile_upt)
  obtain a b where ab: "a < length (sources locals)" "from = sources locals ! a" "b < length urls" "url = urls ! b"
    using assms(4,5) by (auto simp: in_set_conv_nth)
  let ?pairs = "length (sources locals) * length urls"
  have "a + length (sources locals) * b < ?pairs"
  proof -
    have "a + length (sources locals) * b < length (sources locals) * Suc b" using ab(1) by simp
    also have "\<dots> \<le> ?pairs" using ab(3) by (intro mult_le_mono2) simp
    finally show ?thesis .
  qed
  from count_mod[OF this, of m]
  have "length (filter (\<lambda>i. dial_at locals urls i = (from, url)) [0..<m]) \<in> {m div ?pairs, m div ?pairs + 1}"
    unfolding ab(2,4) dial_at_iff[OF assms(3,2) ab(1,3)] by simp
  moreover have "length (filter (\<lambda>(i, d). d = (from, url)) (ramp_dials locals urls sockets stopped))
      = length (filter (\<lambda>i. dial_at locals urls i = (from, url)) [0..<m])"
    by (simp add: ramp_dials_def ids filter_map comp_def)
  moreover have "length (ramp_dials locals urls sockets stopped) = m" by (simp add: ramp_dials_def m_def)
  ultimately show ?thesis using ok by (auto simp: Let_def)
qed

text \<open>Two addresses and two ports: seven sockets over four pairs.\<close>

definition parse_example :: "string \<Rightarrow> go_url go_result" where
  "parse_example s = Inr \<lparr>urlScheme = ''http'', urlHostname = ''h'', urlPort = ''1'', urlPath = [], urlQuery = []\<rparr>"

theorem ramp_spread_witness:
  "\<exists>urls. wsURLs parse_example urlPort ''http://h:1'' ''k'' [81, 82] = Inr urls
     \<and> length (filter (\<lambda>(i, d). d = (Some ''b'', ''82'')) (ramp_dials [''a'', ''b''] urls 7 (\<lambda>_. False))) \<in> {1, 2}"
proof -
  have urls: "wsURLs parse_example urlPort ''http://h:1'' ''k'' [81, 82] = Inr [''81'', ''82'']" by code_simp
  have "length (ramp_dials [''a'', ''b''] [''81'', ''82''] 7 (\<lambda>_. False)) = 7"
    by (simp add: ramp_dials_def ramp_ids_def takeWhile_eq_all_conv[THEN iffD2])
  then show ?thesis
    using ramp_spread[OF urls, of "[''a'', ''b'']" "Some ''b''" "''82''" 7 "\<lambda>_. False"] urls by (auto simp: sources_def Let_def)
qed

end
