(* ===== verification/SocketsDial.thy ===== *)
theory SocketsDial
  imports RestToken SocketsRamp
begin

text \<open>
  Opening one socket (src/sockets/ws.go, \<open>Dial\<close>): where it connects to, the nonce and the request it
  sends, and the handshake of \<open>Frames\<close> over the answer. What the network and the random source do
  is in \<open>dial_world\<close>; a connection that comes to nothing is closed.
\<close>

section \<open>The nonce\<close>

definition std_alphabet :: string where
  "std_alphabet = ''ABCDEFGHIJKLMNOPQRSTUVWXYZabcdefghijklmnopqrstuvwxyz0123456789+/''"

definition std_base64 :: "bytes \<Rightarrow> string" where
  "std_base64 s =
     (let out = map (\<lambda>n. std_alphabet ! n) (b64_groups (map unat s))
      in out @ replicate ((4 - length out mod 4) mod 4) (CHR ''=''))"

section \<open>Dialing\<close>

record dial_world =
  dwConnect :: "string \<Rightarrow> go_error option"
  dwNonce :: "bytes go_result"
  dwDeadline :: "go_error option"
  dwSend :: "string \<Rightarrow> go_error option"
  dwMask :: "bytes go_result"
  dwAnswer :: bytes
  dwClear :: "go_error option"

definition url_host :: "go_url \<Rightarrow> string" where
  "url_host u = (if urlPort u = [] then urlHostname u else urlHostname u @ '':'' @ urlPort u)"

definition dial_host :: "go_url \<Rightarrow> string" where
  "dial_host u = (if urlPort u = [] then urlHostname u @ '':80'' else url_host u)"

text \<open>What the dial comes to, the requests sent, and whether a connection is left open.\<close>

definition ws_Dial :: "(string \<Rightarrow> go_url go_result) \<Rightarrow> (go_url \<Rightarrow> string) \<Rightarrow> dial_world \<Rightarrow> string \<Rightarrow> (go_error, ws) outcome \<times> string list \<times> bool" where
  "ws_Dial parse request_uri w rawurl =
     (case parse rawurl of Inl e \<Rightarrow> (Fail e, [], False)
      | Inr u \<Rightarrow>
        (case dwConnect w (dial_host u) of Some e \<Rightarrow> (Fail e, [], False)
         | None \<Rightarrow>
           (case dwNonce w of Inl e \<Rightarrow> (Fail e, [], False)
            | Inr key \<Rightarrow>
              let req = ws_request (request_uri u) (url_host u) (std_base64 key) in
              (case dwDeadline w of Some e \<Rightarrow> (Fail e, [], False)
               | None \<Rightarrow>
                 (case dwSend w req of Some e \<Rightarrow> (Fail e, [req], False)
                  | None \<Rightarrow>
                    (case dwMask w of Inl e \<Rightarrow> (Fail e, [req], False)
                     | Inr mask1 \<Rightarrow>
                       (case ws_handshake mask1 (dwAnswer w) of
                          Ok c \<Rightarrow> (case dwClear w of Some e \<Rightarrow> (Fail e, [req], False) | None \<Rightarrow> (Ok c, [req], True))
                        | r \<Rightarrow> (r, [req], False))))))))"

text \<open>A connection is left open exactly when the dial succeeded, masked with the bytes drawn for it.\<close>

lemma handshake_mask: "ws_handshake key answer = Ok c \<Longrightarrow> ws_mask c = key"
  by (auto simp: ws_handshake_def split: option.splits prod.splits if_splits)

lemma ws_Dial_open:
  assumes "ws_Dial parse request_uri w rawurl = (r, sent, opened)"
  shows "(opened \<longleftrightarrow> (\<exists>c. r = Ok c)) \<and> (opened \<longrightarrow> length sent = 1 \<and> (\<exists>c. r = Ok c \<and> dwMask w = Inr (ws_mask c)))"
  using assms
  by (auto simp: ws_Dial_def Let_def split: sum.splits option.splits outcome.splits) (metis handshake_mask)+

text \<open>Four characters for every three bytes begun.\<close>

lemma length_b64_groups: "length (b64_groups xs) = (4 * length xs + 2) div 3"
  by (induction xs rule: b64_groups.induct) auto

lemma length_std_base64: "length (std_base64 s) = 4 * ((length s + 2) div 3)"
proof -
  have "(4 * n + 2) div 3 + (4 - (4 * n + 2) div 3 mod 4) mod 4 = 4 * ((n + 2) div 3)" for n :: nat
  proof -
    define q where "q = n div 3"
    have "n = 3 * q \<or> n = 3 * q + 1 \<or> n = 3 * q + 2" unfolding q_def by presburger
    moreover have "(4 * (3 * q) + 2) div 3 = 4 * q" "(4 * (3 * q + 1) + 2) div 3 = 4 * q + 2" "(4 * (3 * q + 2) + 2) div 3 = 4 * q + 3"
      "(3 * q + 2) div 3 = q" "(3 * q + 1 + 2) div 3 = q + 1" "(3 * q + 2 + 2) div 3 = q + 1" by presburger+
    moreover have "4 * q mod 4 = 0" "(4 * q + 2) mod 4 = 2" "(4 * q + 3) mod 4 = 3" by presburger+
    ultimately show ?thesis by (elim disjE) simp_all
  qed
  then show ?thesis by (simp add: std_base64_def Let_def length_b64_groups)
qed

lemma nonce_example: "std_base64 [0xfb, 0xff] = ''+/8=''"
  by code_simp

end
