(* ===== verification/Probe.thy ===== *)
theory Probe
  imports GoTime JsonText GoFmt
begin

text \<open>
  Package \<open>probe\<close>, the calibration run (src/probe/probe.go): the requests in their order, each with
  its retries, against whatever the endpoint answers, and the profile made of their times. The
  endpoint is an argument: the answer to the n-th request of the run and how long it took. The log
  of the requests sent is kept beside the source's counters, so that what is left in the bucket can
  be read off it.
\<close>

section \<open>One operation\<close>

datatype probe_req = PutReq string | GetReq string | ListReq string | DeleteReq string

type_synonym endpoint = "nat \<Rightarrow> (go_error + int \<times> string) \<times> int"

record runner =
  rnAttempts :: nat
  rnSlowdowns :: nat
  rnLog :: "(probe_req \<times> bool) list"

definition retryable :: "int \<Rightarrow> bool" where
  "retryable status \<longleftrightarrow> status \<in> set [429, 500, 502, 503, 504]"

function timed_from :: "endpoint \<Rightarrow> string \<Rightarrow> probe_req \<Rightarrow> nat \<Rightarrow> runner \<Rightarrow> (go_error + f64) \<times> runner" where
  "timed_from w name req attempt r =
     (let (answer, took) = w (length (rnLog r));
          elapsed = fdiv (f64_of_int (Microseconds took)) 1000;
          sent = (\<lambda>served. r\<lparr>rnAttempts := rnAttempts r + 1, rnLog := rnLog r @ [(req, served)]\<rparr>)
      in case answer of
           Inl e \<Rightarrow> (Inl (name @ '': '' @ e), sent False)
         | Inr (status, snippet) \<Rightarrow>
           if status < 300 then (Inr elapsed, sent True)
           else let said = name @ '': http '' @ itoa status @ '': '' @ snippet in
             if retryable status
             then let r = (sent False)\<lparr>rnSlowdowns := rnSlowdowns r + 1\<rparr> in
               if attempt < 4 then timed_from w name req (attempt + 1) r else (Inl said, r)
             else (Inl said, sent False))"
  by pat_completeness auto
termination by (relation "measure (\<lambda>(w, name, req, attempt, r). 4 - attempt)") auto

declare timed_from.simps [simp del]

definition timed :: "endpoint \<Rightarrow> string \<Rightarrow> probe_req \<Rightarrow> runner \<Rightarrow> (go_error + f64) \<times> runner" where
  "timed w name req r = timed_from w name req 1 r"

text \<open>The same operation over many keys, stopping at the first error.\<close>

fun timed_all :: "endpoint \<Rightarrow> string \<Rightarrow> probe_req list \<Rightarrow> runner \<Rightarrow> (go_error + f64 list) \<times> runner" where
  "timed_all w name [] r = (Inr [], r)"
| "timed_all w name (q # qs) r =
     (case timed w name q r of (Inl e, r) \<Rightarrow> (Inl e, r)
      | (Inr t, r) \<Rightarrow>
        (case timed_all w name qs r of (Inl e, r) \<Rightarrow> (Inl e, r)
         | (Inr ts, r) \<Rightarrow> (Inr (t # ts), r)))"

section \<open>The numbers of a profile\<close>

record dist =
  dP50 :: f64
  dP95 :: f64
  dP99 :: f64
  dMax :: f64

definition pctl :: "f64 list \<Rightarrow> f64 \<Rightarrow> f64" where
  "pctl vs q =
     (if vs = [] then 0
      else let n = int (length vs); i = trunc (math_Ceil (fmul q (f64_of_int n))) - 1;
               i = (if i < 0 then 0 else i)
           in vs ! nat (if n \<le> i then n - 1 else i))"

definition dist_of :: "f64 list \<Rightarrow> dist" where
  "dist_of samples =
     (let s = sort samples in
      \<lparr>dP50 = round2 (pctl s (fl (50 / 100))), dP95 = round2 (pctl s (fl (95 / 100))),
       dP99 = round2 (pctl s (fl (99 / 100))), dMax = round2 (pctl s 1)\<rparr>)"

definition probe_median :: "f64 list \<Rightarrow> f64" where
  "probe_median v = pctl (sort v) (fl (1 / 2))"

definition rate :: "int \<Rightarrow> f64 \<Rightarrow> f64 \<Rightarrow> f64" where
  "rate bytes elapsedMS baseMS =
     (let seconds = fdiv (fsub elapsedMS baseMS) 1000;
          seconds = (if seconds \<le> 0 then fdiv elapsedMS 1000 else seconds)
      in if seconds \<le> 0 then 0 else fdiv (fdiv (f64_of_int bytes) 1000000) seconds)"

section \<open>The run\<close>

record probe_options =
  poSamples :: int
  poPayload :: int
  poLarge :: int
  poLargeN :: int
  poPrefix :: string
  poName :: string

definition probe_defaults :: "probe_options \<Rightarrow> probe_options" where
  "probe_defaults o1 =
     o1\<lparr>poSamples := (if poSamples o1 \<le> 0 then 200 else poSamples o1),
        poPayload := (if poPayload o1 \<le> 0 then 8192 else poPayload o1),
        poLarge := (if poLarge o1 \<le> 0 then 16777216 else poLarge o1),
        poLargeN := (if poLargeN o1 \<le> 0 then 3 else poLargeN o1),
        poPrefix := (if poPrefix o1 = [] then ''zoubench-probe'' else poPrefix o1),
        poName := (if poName o1 = [] then ''probed'' else poName o1)\<rparr>"

record profile =
  pfName :: string
  pfGet :: dist
  pfPut :: dist
  pfList :: dist
  pfDelete :: dist
  pfMbps :: f64
  pfSlowdown :: f64

record probe_summary =
  smProfile :: profile
  smAttempts :: nat
  smSlowdowns :: nat

definition warm_reqs :: "string \<Rightarrow> (string \<times> probe_req) list" where
  "warm_reqs dir = concat (map (\<lambda>i. let key = dir @ ''/warmup-'' @ itoa (int i) in
     [(''warmup put'', PutReq key), (''warmup get'', GetReq key), (''warmup delete'', DeleteReq key)]) [0..<3])"

fun timed_each :: "endpoint \<Rightarrow> (string \<times> probe_req) list \<Rightarrow> runner \<Rightarrow> go_error option \<times> runner" where
  "timed_each w [] r = (None, r)"
| "timed_each w ((name, q) # qs) r =
     (case timed w name q r of (Inl e, r) \<Rightarrow> (Some e, r) | (Inr _, r) \<Rightarrow> timed_each w qs r)"

definition probe_keys :: "string \<Rightarrow> nat \<Rightarrow> string list" where
  "probe_keys dir n = map (\<lambda>i. dir @ ''/'' @ pad_left (CHR ''0'') 6 (nat_text i)) [0..<n]"

text \<open>The large round trips, and the rates they give.\<close>

fun large_trips :: "endpoint \<Rightarrow> string \<Rightarrow> int \<Rightarrow> f64 \<Rightarrow> f64 \<Rightarrow> nat list \<Rightarrow> runner \<Rightarrow> (go_error + f64 list) \<times> runner" where
  "large_trips w dir large putP50 getP50 [] r = (Inr [], r)"
| "large_trips w dir large putP50 getP50 (i # trips) r =
     (let key = dir @ ''/large-'' @ itoa (int i) in
      case timed w ''large put'' (PutReq key) r of (Inl e, r) \<Rightarrow> (Inl e, r)
      | (Inr putMS, r) \<Rightarrow>
        (case timed w ''large get'' (GetReq key) r of (Inl e, r) \<Rightarrow> (Inl e, r)
         | (Inr getMS, r) \<Rightarrow>
           (case timed w ''large delete'' (DeleteReq key) r of (Inl e, r) \<Rightarrow> (Inl e, r)
            | (Inr _, r) \<Rightarrow>
              (case large_trips w dir large putP50 getP50 trips r of (Inl e, r) \<Rightarrow> (Inl e, r)
               | (Inr rates, r) \<Rightarrow> (Inr ([rate large putMS putP50, rate large getMS getP50] @ rates), r)))))"

definition slowdown_rate :: "nat \<Rightarrow> nat \<Rightarrow> f64" where
  "slowdown_rate slow attempts =
     (if 0 < attempts
      then fdiv (math_Round (fmul (fdiv (f64_of_int (int slow)) (f64_of_int (int attempts))) 1000000)) 1000000
      else 0)"

definition probe_mbps :: "f64 list \<Rightarrow> f64" where
  "probe_mbps rates = (let mbps = probe_median rates in if mbps < fl (1 / 10) then fl (1 / 10) else mbps)"

definition list_count :: "int \<Rightarrow> nat" where
  "list_count samples = nat (let n = quot samples 4 in if n < 10 then 10 else n)"

definition probe_measure :: "endpoint \<Rightarrow> probe_options \<Rightarrow> string \<Rightarrow> runner \<Rightarrow> (go_error + probe_summary) \<times> runner" where
  "probe_measure w opt dir r =
     (let keys = probe_keys dir (nat (poSamples opt)) in
      case timed_all w ''put'' (map PutReq keys) r of (Inl e, r) \<Rightarrow> (Inl e, r)
      | (Inr puts, r) \<Rightarrow>
        (case timed_all w ''get'' (map GetReq keys) r of (Inl e, r) \<Rightarrow> (Inl e, r)
         | (Inr gets, r) \<Rightarrow>
           (case timed_all w ''list'' (replicate (list_count (poSamples opt)) (ListReq (dir @ ''/''))) r of
              (Inl e, r) \<Rightarrow> (Inl e, r)
            | (Inr listed, r) \<Rightarrow>
              (case large_trips w dir (poLarge opt) (dP50 (dist_of puts)) (dP50 (dist_of gets)) [0..<nat (poLargeN opt)] r of
                 (Inl e, r) \<Rightarrow> (Inl e, r)
               | (Inr rates, r) \<Rightarrow>
                 (case timed_all w ''delete'' (map DeleteReq keys) r of (Inl e, r) \<Rightarrow> (Inl e, r)
                  | (Inr deletes, r) \<Rightarrow>
                    (Inr \<lparr>smProfile = \<lparr>pfName = poName opt, pfGet = dist_of gets, pfPut = dist_of puts,
                            pfList = dist_of listed, pfDelete = dist_of deletes,
                            pfMbps = fdiv (math_Round (fmul (probe_mbps rates) 10)) 10,
                            pfSlowdown = slowdown_rate (rnSlowdowns r) (rnAttempts r)\<rparr>,
                          smAttempts = rnAttempts r, smSlowdowns = rnSlowdowns r\<rparr>, r))))))"

definition probe_Run :: "endpoint \<Rightarrow> probe_options \<Rightarrow> string \<Rightarrow> (go_error + probe_summary) \<times> runner" where
  "probe_Run w options runID =
     (let opt = probe_defaults options; dir = poPrefix opt @ ''/'' @ runID;
          r = \<lparr>rnAttempts = 0, rnSlowdowns = 0, rnLog = []\<rparr>
      in case timed_each w (warm_reqs dir) r of (Some e, r) \<Rightarrow> (Inl e, r)
         | (None, r) \<Rightarrow> probe_measure w opt dir (r\<lparr>rnAttempts := 0, rnSlowdowns := 0\<rparr>))"

definition dist_json :: "dist \<Rightarrow> json" where
  "dist_json d = JObj [(''p50_ms'', JNum (json_float (dP50 d))), (''p95_ms'', JNum (json_float (dP95 d))),
     (''p99_ms'', JNum (json_float (dP99 d))), (''max_ms'', JNum (json_float (dMax d)))]"

definition profile_text :: "profile \<Rightarrow> string" where
  "profile_text p = MarshalIndent (JObj [(''name'', JStr (pfName p)), (''get'', dist_json (pfGet p)),
     (''put'', dist_json (pfPut p)), (''list'', dist_json (pfList p)), (''delete'', dist_json (pfDelete p)),
     (''mbps'', JNum (json_float (pfMbps p))), (''slowdown'', JNum (json_float (pfSlowdown p)))]) @ newline"

section \<open>What is left in the bucket\<close>

text \<open>
  A put may have written its key whatever was answered; only a delete that was served removes it.
\<close>

definition req_effect :: "probe_req \<times> bool \<Rightarrow> string set \<Rightarrow> string set" where
  "req_effect q S = (case q of (PutReq k, _) \<Rightarrow> insert k S | (DeleteReq k, True) \<Rightarrow> S - {k} | _ \<Rightarrow> S)"

definition leftover :: "(probe_req \<times> bool) list \<Rightarrow> string set" where
  "leftover sent = foldl (\<lambda>S q. req_effect q S) {} sent"

definition counted :: "runner \<Rightarrow> bool" where "counted r \<longleftrightarrow> rnSlowdowns r \<le> rnAttempts r"

lemma leftover_snoc: "leftover (sent @ [q]) = req_effect q (leftover sent)"
  by (simp add: leftover_def)

lemma effect_unserved: "req_effect (q, True) (req_effect (q, False) S) = req_effect (q, True) S"
  by (cases q) (auto simp: req_effect_def)

lemma timed_from_ok:
  assumes "timed_from w name req attempt r = (Inr t, r')"
  shows "leftover (rnLog r') = req_effect (req, True) (leftover (rnLog r)) \<and> (counted r \<longrightarrow> counted r')"
  using assms
proof (induction "4 - attempt" arbitrary: attempt r rule: less_induct)
  case less
  obtain answer took where w: "w (length (rnLog r)) = (answer, took)" by fastforce
  show ?case
  proof (cases answer)
    case (Inr sn)
    obtain status snippet where sn: "sn = (status, snippet)" by fastforce
    note step = less.prems[unfolded timed_from.simps[of w name req attempt r] w Inr sn]
    consider (served) "status < 300" | (again) "\<not> status < 300" "retryable status" "attempt < 4"
      using step by (cases "status < 300"; cases "retryable status"; cases "attempt < 4") (auto simp: Let_def)
    then show ?thesis
    proof cases
      case served
      then show ?thesis using step by (auto simp: leftover_snoc counted_def)
    next
      case again
      let ?r = "r\<lparr>rnAttempts := rnAttempts r + 1, rnLog := rnLog r @ [(req, False)], rnSlowdowns := rnSlowdowns r + 1\<rparr>"
      have "leftover (rnLog r') = req_effect (req, True) (leftover (rnLog ?r)) \<and> (counted ?r \<longrightarrow> counted r')"
        using less.hyps[of "attempt + 1" ?r] again step by (simp add: Let_def)
      then show ?thesis by (simp add: leftover_snoc effect_unserved counted_def)
    qed
  qed (use less.prems w in \<open>simp add: timed_from.simps[of w name req attempt r] Let_def\<close>)
qed

lemma timed_all_ok:
  "timed_all w name qs r = (Inr ts, r') \<Longrightarrow>
     leftover (rnLog r') = foldl (\<lambda>S q. req_effect (q, True) S) (leftover (rnLog r)) qs
     \<and> (counted r \<longrightarrow> counted r') \<and> length ts = length qs"
proof (induction qs arbitrary: r ts)
  case (Cons q qs)
  obtain t r1 ts1 where s: "timed w name q r = (Inr t, r1)" "timed_all w name qs r1 = (Inr ts1, r')" "ts = t # ts1"
    using Cons.prems by (auto split: prod.splits sum.splits)
  show ?case using timed_from_ok[OF s(1)[unfolded timed_def]] Cons.IH[OF s(2)] s(3) by auto
qed simp

lemma timed_each_ok:
  "timed_each w qs r = (None, r') \<Longrightarrow>
     leftover (rnLog r') = foldl (\<lambda>S q. req_effect (q, True) S) (leftover (rnLog r)) (map snd qs)"
proof (induction qs arbitrary: r)
  case (Cons nq qs)
  obtain name q where nq: "nq = (name, q)" by fastforce
  obtain t r1 where s: "timed w name q r = (Inr t, r1)" "timed_each w qs r1 = (None, r')"
    using Cons.prems by (auto simp: nq split: prod.splits sum.splits)
  show ?case using timed_from_ok[OF s(1)[unfolded timed_def]] Cons.IH[OF s(2)] by (simp add: nq)
qed simp

lemma large_trips_ok:
  "large_trips w dir large a b trips r = (Inr rates, r') \<Longrightarrow>
     leftover (rnLog r') \<subseteq> leftover (rnLog r) \<and> (counted r \<longrightarrow> counted r')"
proof (induction trips arbitrary: r rates)
  case (Cons i trips)
  obtain p g d r1 r2 r3 rs where s: "timed w ''large put'' (PutReq (dir @ ''/large-'' @ itoa (int i))) r = (Inr p, r1)"
      "timed w ''large get'' (GetReq (dir @ ''/large-'' @ itoa (int i))) r1 = (Inr g, r2)"
      "timed w ''large delete'' (DeleteReq (dir @ ''/large-'' @ itoa (int i))) r2 = (Inr d, r3)"
      "large_trips w dir large a b trips r3 = (Inr rs, r')"
    using Cons.prems by (auto simp: Let_def split: prod.splits sum.splits)
  note t = s(1-3)[unfolded timed_def, THEN timed_from_ok]
  show ?case using t Cons.IH[OF s(4)] by (auto simp: req_effect_def)
qed simp

lemma effect_puts: "foldl (\<lambda>S q. req_effect (q, True) S) S (map PutReq ks) = S \<union> set ks"
  by (induction ks arbitrary: S) (auto simp: req_effect_def)

lemma effect_deletes: "foldl (\<lambda>S q. req_effect (q, True) S) S (map DeleteReq ks) = S - set ks"
  by (induction ks arbitrary: S) (auto simp: req_effect_def)

lemma effect_reads:
  "foldl (\<lambda>S q. req_effect (q, True) S) S (map GetReq ks) = S"
  "foldl (\<lambda>S q. req_effect (q, True) S) S (replicate n (ListReq p)) = S"
  by (induction ks arbitrary: S) (simp_all add: req_effect_def, induction n, simp_all add: req_effect_def)

lemma warm_leaves_nothing: "foldl (\<lambda>S q. req_effect (q, True) S) {} (map snd (warm_reqs dir)) = {}"
  by (auto simp: warm_reqs_def upt_rec req_effect_def Let_def)

section \<open>The curve\<close>

lemma pctl_mono:
  assumes "sorted vs" and "0 \<le> a" and "a \<le> b"
  shows "pctl vs a \<le> pctl vs b"
proof (cases "vs = []")
  case False
  let ?n = "int (length vs)"
  have "trunc (math_Ceil (fmul a (f64_of_int ?n))) \<le> trunc (math_Ceil (fmul b (f64_of_int ?n)))"
    using assms(2,3) by (intro trunc_mono math_Ceil_mono fmul_mono f64_of_int_nonneg) auto
  moreover have "nat (?n - 1) < length vs" using False by (cases vs) auto
  ultimately show ?thesis
    using False assms(1) by (auto simp: pctl_def Let_def intro!: sorted_nth_mono)
qed (simp add: pctl_def)

definition ordered :: "dist \<Rightarrow> bool" where
  "ordered d \<longleftrightarrow> dP50 d \<le> dP95 d \<and> dP95 d \<le> dP99 d \<and> dP99 d \<le> dMax d"

lemma dist_of_ordered: "ordered (dist_of vs)"
proof -
  have q: "fl (50 / 100) \<le> fl (95 / 100)" "fl (95 / 100) \<le> fl (99 / 100)" "fl (99 / 100) \<le> fl 1"
      "0 \<le> fl (50 / 100)" "0 \<le> fl (95 / 100)" "0 \<le> fl (99 / 100)"
    by (rule fl_mono fl_nonneg; simp)+
  have "fl 1 = 1" using fl_of_nat[of 1] by simp
  then have last: "fl (99 / 100) \<le> 1" using q(3) by metis
  show ?thesis
    unfolding ordered_def dist_of_def Let_def dist.select_convs
    by (intro conjI round2_rounding.rnd_mono pctl_mono sorted_sort q last)
qed

lemma slowdown_rate_bounds:
  assumes "slow \<le> attempts"
  shows "0 \<le> slowdown_rate slow attempts \<and> slowdown_rate slow attempts \<le> 1"
proof (cases "0 < attempts")
  case True
  let ?s = "f64_of_int (int slow)" and ?a = "f64_of_int (int attempts)"
  have "f64_of_int 1 \<le> ?a" using True by (intro f64_of_int_mono) simp
  then have a: "0 < ?a" by (simp add: f64_of_int_exact)
  have "fdiv ?s ?a \<le> fdiv ?a ?a" using assms a by (intro fdiv_mono f64_of_int_mono) auto
  also have "fdiv ?a ?a = 1" using a fl_of_nat[of 1] by (simp add: fdiv_def)
  finally have le: "fdiv ?s ?a \<le> 1" .
  have ge: "0 \<le> fdiv ?s ?a" using a by (intro fdiv_nonneg f64_of_int_nonneg) auto
  have "fdiv (math_Round (fmul 0 1000000)) 1000000 \<le> slowdown_rate slow attempts"
    using True ge unfolding slowdown_rate_def by (auto intro!: fdiv_mono math_Round_mono fmul_mono)
  moreover have "slowdown_rate slow attempts \<le> fdiv (math_Round (fmul 1 1000000)) 1000000"
    using True ge le unfolding slowdown_rate_def by (auto intro!: fdiv_mono math_Round_mono fmul_mono)
  moreover have "fdiv (math_Round (fmul 0 1000000)) 1000000 = 0" "fdiv (math_Round (fmul 1 1000000)) 1000000 = 1"
    by code_simp+
  ultimately show ?thesis by simp
qed (simp add: slowdown_rate_def)

lemma mbps_floor: "fl (1 / 10) \<le> fdiv (math_Round (fmul (probe_mbps rates) 10)) 10"
proof -
  have m: "fl (1 / 10) \<le> probe_mbps rates" by (simp add: probe_mbps_def Let_def)
  have "0 \<le> fl (1 / 10)" by (rule fl_nonneg) simp
  then have "fdiv (math_Round (fmul (fl (1 / 10)) 10)) 10 \<le> fdiv (math_Round (fmul (probe_mbps rates) 10)) 10"
    using m by (intro fdiv_mono math_Round_mono fmul_mono) auto
  moreover have "fdiv (math_Round (fmul (fl (1 / 10)) 10)) 10 = fl (1 / 10)" by code_simp
  ultimately show ?thesis by simp
qed

text \<open>
  A probe that returns a profile leaves nothing of its own in the bucket, whatever was
  throttled and retried on the way, and even if a put that was refused wrote its key. The anchors of
  every curve are in order, the throttling rate is a share of the requests counted, and the
  throughput is at least the floor.
\<close>

theorem probe_Run_cleans:
  assumes "probe_Run w options runID = (Inr sm, r)"
  shows "leftover (rnLog r) = {}
    \<and> list_all ordered [pfGet (smProfile sm), pfPut (smProfile sm), pfList (smProfile sm), pfDelete (smProfile sm)]
    \<and> smSlowdowns sm \<le> smAttempts sm
    \<and> 0 \<le> pfSlowdown (smProfile sm) \<and> pfSlowdown (smProfile sm) \<le> 1
    \<and> fl (1 / 10) \<le> pfMbps (smProfile sm)"
proof -
  define opt where "opt = probe_defaults options"
  define dir where "dir = poPrefix opt @ ''/'' @ runID"
  define keys where "keys = probe_keys dir (nat (poSamples opt))"
  obtain r0 where warm: "timed_each w (warm_reqs dir) \<lparr>rnAttempts = 0, rnSlowdowns = 0, rnLog = []\<rparr> = (None, r0)"
    and run: "probe_measure w opt dir (r0\<lparr>rnAttempts := 0, rnSlowdowns := 0\<rparr>) = (Inr sm, r)"
    using assms by (auto simp: probe_Run_def opt_def dir_def Let_def split: prod.splits option.splits)
  have "leftover (rnLog r0) = {}"
    using timed_each_ok[OF warm] by (simp add: leftover_def warm_leaves_nothing)
  then have start: "leftover (rnLog (r0\<lparr>rnAttempts := 0, rnSlowdowns := 0\<rparr>)) = {}"
    "counted (r0\<lparr>rnAttempts := 0, rnSlowdowns := 0\<rparr>)" by (simp_all add: counted_def)
  obtain puts r1 gets r2 lst r3 rates r4 dels where
      p: "timed_all w ''put'' (map PutReq keys) (r0\<lparr>rnAttempts := 0, rnSlowdowns := 0\<rparr>) = (Inr puts, r1)"
    and g: "timed_all w ''get'' (map GetReq keys) r1 = (Inr gets, r2)"
    and l: "timed_all w ''list'' (replicate (list_count (poSamples opt)) (ListReq (dir @ ''/''))) r2 = (Inr lst, r3)"
    and t: "large_trips w dir (poLarge opt) (dP50 (dist_of puts)) (dP50 (dist_of gets)) [0..<nat (poLargeN opt)] r3
        = (Inr rates, r4)"
    and d: "timed_all w ''delete'' (map DeleteReq keys) r4 = (Inr dels, r)"
    and sm: "sm = \<lparr>smProfile = \<lparr>pfName = poName opt, pfGet = dist_of gets, pfPut = dist_of puts,
          pfList = dist_of lst, pfDelete = dist_of dels, pfMbps = fdiv (math_Round (fmul (probe_mbps rates) 10)) 10,
          pfSlowdown = slowdown_rate (rnSlowdowns r) (rnAttempts r)\<rparr>,
        smAttempts = rnAttempts r, smSlowdowns = rnSlowdowns r\<rparr>"
    using run by (auto simp: probe_measure_def keys_def Let_def split: prod.splits sum.splits)
  have "leftover (rnLog r3) = set keys"
    using timed_all_ok[OF p] timed_all_ok[OF g] timed_all_ok[OF l] start
    by (simp add: effect_puts effect_reads)
  then have "leftover (rnLog r) = {}"
    using large_trips_ok[OF t] timed_all_ok[OF d] by (auto simp: effect_deletes)
  moreover have "counted r"
    using start(2) timed_all_ok[OF p] timed_all_ok[OF g] timed_all_ok[OF l] large_trips_ok[OF t] timed_all_ok[OF d]
    by simp
  ultimately show ?thesis
    using slowdown_rate_bounds by (simp add: sm counted_def dist_of_ordered mbps_floor)
qed

definition steady_endpoint :: endpoint where "steady_endpoint n = (Inr (200, []), 1000000)"

lemma steady_timed:
  "timed steady_endpoint name q r =
     (Inr (fdiv (f64_of_int (Microseconds 1000000)) 1000), r\<lparr>rnAttempts := rnAttempts r + 1, rnLog := rnLog r @ [(q, True)]\<rparr>)"
  by (simp add: timed_def timed_from.simps steady_endpoint_def Let_def)

lemma steady_all: "\<exists>ts r'. timed_all steady_endpoint name qs r = (Inr ts, r')"
proof (induction qs arbitrary: r)
  case (Cons q qs)
  obtain ts r' where "timed_all steady_endpoint name qs (r\<lparr>rnAttempts := rnAttempts r + 1, rnLog := rnLog r @ [(q, True)]\<rparr>)
      = (Inr ts, r')"
    using Cons.IH by blast
  then show ?case by (simp add: steady_timed)
qed simp

lemma steady_trips: "\<exists>ts r'. large_trips steady_endpoint dir large a b trips r = (Inr ts, r')"
proof (induction trips arbitrary: r)
  case (Cons i trips)
  let ?k = "dir @ ''/large-'' @ itoa (int i)"
  obtain ts r' where "large_trips steady_endpoint dir large a b trips
      (r\<lparr>rnAttempts := rnAttempts r + 3, rnLog := rnLog r @ [(PutReq ?k, True), (GetReq ?k, True), (DeleteReq ?k, True)]\<rparr>)
      = (Inr ts, r')"
    using Cons.IH by blast
  then show ?case by (simp add: steady_timed Let_def eval_nat_numeral)
qed simp

lemma steady_each: "\<exists>r'. timed_each steady_endpoint qs r = (None, r')"
  by (induction qs arbitrary: r) (auto simp: steady_timed)

definition probe_example :: probe_options where
  "probe_example = \<lparr>poSamples = 2, poPayload = 0, poLarge = 0, poLargeN = 1, poPrefix = [], poName = ''p''\<rparr>"

lemma steady_probes: "\<exists>sm r. probe_Run steady_endpoint options runID = (Inr sm, r)"
proof -
  define opt where "opt = probe_defaults options"
  define dir where "dir = poPrefix opt @ ''/'' @ runID"
  have "\<exists>sm r'. probe_measure steady_endpoint opt dir r = (Inr sm, r')" for r
  proof -
    define keys where "keys = probe_keys dir (nat (poSamples opt))"
    obtain puts r1 where 1: "timed_all steady_endpoint ''put'' (map PutReq keys) r = (Inr puts, r1)" using steady_all by blast
    obtain gets r2 where 2: "timed_all steady_endpoint ''get'' (map GetReq keys) r1 = (Inr gets, r2)" using steady_all by blast
    obtain lst r3 where 3: "timed_all steady_endpoint ''list''
        (replicate (list_count (poSamples opt)) (ListReq (dir @ ''/''))) r2 = (Inr lst, r3)" using steady_all by blast
    obtain rates r4 where 4: "large_trips steady_endpoint dir (poLarge opt) (dP50 (dist_of puts)) (dP50 (dist_of gets))
        [0..<nat (poLargeN opt)] r3 = (Inr rates, r4)" using steady_trips by blast
    obtain dels r5 where 5: "timed_all steady_endpoint ''delete'' (map DeleteReq keys) r4 = (Inr dels, r5)" using steady_all by blast
    show ?thesis using 1 2 3 4 5 by (simp add: probe_measure_def keys_def Let_def)
  qed
  moreover obtain r0 where "timed_each steady_endpoint (warm_reqs dir) \<lparr>rnAttempts = 0, rnSlowdowns = 0, rnLog = []\<rparr> = (None, r0)"
    using steady_each by blast
  ultimately show ?thesis by (auto simp: probe_Run_def opt_def dir_def Let_def)
qed

theorem probe_Run_cleans_witness:
  "\<exists>sm r. probe_Run steady_endpoint probe_example ''r1'' = (Inr sm, r) \<and> leftover (rnLog r) = {}
     \<and> ordered (pfPut (smProfile sm))"
  using steady_probes[of probe_example "''r1''"] probe_Run_cleans by fastforce

end
