(* ===== verification/CmdProbe.thy ===== *)
theory CmdProbe
  imports Command Probe
begin

text \<open>
  \<open>zoubench probe\<close> (src/cmd/zoubench/probe.go) around the calibration run of \<open>Probe\<close>, and the dispatch
  of src/cmd/zoubench/main.go on the first argument.
\<close>

section \<open>Dispatch\<close>

datatype command = CRun | CRest | CReport | CCost | CDashboard | CProbe | CAttach | CSustain | CFleet | CSockets | CUsage

definition command_of :: "string list \<Rightarrow> command \<times> string list" where
  "command_of argv =
     (case argv of [] \<Rightarrow> (CUsage, []) | [prog] \<Rightarrow> (CUsage, [])
      | prog # word # rest \<Rightarrow>
        (case map_of [(''run'', CRun), (''rest'', CRest), (''report'', CReport), (''cost'', CCost), (''dashboard'', CDashboard),
            (''probe'', CProbe), (''attach'', CAttach), (''sustain'', CSustain), (''fleet'', CFleet), (''sockets'', CSockets)] word of
           None \<Rightarrow> (CUsage, []) | Some c \<Rightarrow> (c, rest)))"

section \<open>The command\<close>

record probe_args =
  pbEndpoint :: string
  pbBucket :: string
  pbName :: string
  pbSamples :: int
  pbPayload :: int
  pbLarge :: int
  pbPrefix :: string
  pbCardsdir :: string
  pbOut :: string

record probe_world =
  pwAccess :: string
  pwSecret :: string
  pwEndpoint :: endpoint
  pwRunID :: string
  pwWrite :: "string \<Rightarrow> string \<Rightarrow> go_error option"

datatype probe_end = ProbeUsage | ProbeDied go_error

record probe_out =
  pbPath :: string
  pbText :: string
  pbSummary :: probe_summary

definition probe_cmd_options :: "probe_args \<Rightarrow> probe_options" where
  "probe_cmd_options a =
     \<lparr>poSamples = pbSamples a, poPayload = pbPayload a, poLarge = pbLarge a, poLargeN = 0, poPrefix = pbPrefix a,
      poName = pbName a\<rparr>"

definition probe_path :: "probe_args \<Rightarrow> string" where
  "probe_path a = (if pbOut a = [] then path_Join (pbCardsdir a) (pbName a @ ''.calibration.json'') else pbOut a)"

text \<open>What the command ends with, and the requests it sent until then.\<close>

definition cmdProbe :: "probe_args \<Rightarrow> probe_world \<Rightarrow> (probe_end + probe_out) \<times> (probe_req \<times> bool) list" where
  "cmdProbe a w =
     (if pbEndpoint a = [] \<or> pbBucket a = [] \<or> pbName a = [] then (Inl ProbeUsage, [])
      else if pwAccess w = [] \<or> pwSecret w = []
      then (Inl (ProbeDied ''probe needs AWS_ACCESS_KEY_ID and AWS_SECRET_ACCESS_KEY in the environment''), [])
      else case probe_Run (pwEndpoint w) (probe_cmd_options a) (pwRunID w) of
          (Inl e, r) \<Rightarrow> (Inl (ProbeDied e), rnLog r)
        | (Inr sm, r) \<Rightarrow>
          let text1 = profile_text (smProfile sm) in
          (case pwWrite w (probe_path a) text1 of Some e \<Rightarrow> (Inl (ProbeDied e), rnLog r)
           | None \<Rightarrow> (Inr \<lparr>pbPath = probe_path a, pbText = text1, pbSummary = sm\<rparr>, rnLog r)))"

section \<open>What a saved profile is\<close>

lemma cmdProbe_Inr:
  assumes "cmdProbe a w = (Inr out, sent)"
  obtains r where "probe_Run (pwEndpoint w) (probe_cmd_options a) (pwRunID w) = (Inr (pbSummary out), r)" "sent = rnLog r"
    "pbText out = profile_text (smProfile (pbSummary out))" "pbPath out = probe_path a" "pwWrite w (pbPath out) (pbText out) = None"
  using assms by (auto simp: cmdProbe_def Let_def split: if_splits prod.splits sum.splits option.splits)

lemma probe_Run_name: "probe_Run w options runID = (Inr sm, r) \<Longrightarrow> poName options \<noteq> [] \<Longrightarrow> pfName (smProfile sm) = poName options"
  by (auto simp: probe_Run_def probe_measure_def probe_defaults_def Let_def split: prod.splits sum.splits option.splits)

text \<open>
  C32: a profile the command saves is of a whole calibration run: it is under the name asked for, at
  the path named or beside the price cards, nothing of the run is left in the bucket however often it was
  throttled, its curves are in order, its throttling rate is a share and its throughput above the
  floor. Without a key in the environment not one request is sent.
\<close>

theorem probe_saves_clean:
  assumes "cmdProbe a w = (end1, sent)"
  shows "(case end1 of Inl e \<Rightarrow> pwAccess w = [] \<or> pwSecret w = [] \<longrightarrow> sent = []
    | Inr out \<Rightarrow>
        (let p = smProfile (pbSummary out) in
         pwAccess w \<noteq> [] \<and> pwSecret w \<noteq> [] \<and> leftover sent = {}
         \<and> pwWrite w (probe_path a) (profile_text p) = None \<and> pbPath out = probe_path a \<and> pfName p = pbName a
         \<and> list_all ordered [pfGet p, pfPut p, pfList p, pfDelete p]
         \<and> smSlowdowns (pbSummary out) \<le> smAttempts (pbSummary out)
         \<and> 0 \<le> pfSlowdown p \<and> pfSlowdown p \<le> 1 \<and> fl (1 / 10) \<le> pfMbps p))"
proof (cases end1)
  case (Inl e)
  then show ?thesis using assms by (auto simp: cmdProbe_def split: if_splits)
next
  case (Inr out)
  obtain r where r: "probe_Run (pwEndpoint w) (probe_cmd_options a) (pwRunID w) = (Inr (pbSummary out), r)" "sent = rnLog r"
    "pbText out = profile_text (smProfile (pbSummary out))" "pbPath out = probe_path a" "pwWrite w (pbPath out) (pbText out) = None"
    using cmdProbe_Inr[OF assms[unfolded Inr]] by blast
  have keys: "pwAccess w \<noteq> []" "pwSecret w \<noteq> []" "pbName a \<noteq> []" using assms Inr by (auto simp: cmdProbe_def split: if_splits)
  have "pfName (smProfile (pbSummary out)) = pbName a" using probe_Run_name[OF r(1)] keys(3) by (simp add: probe_cmd_options_def)
  then show ?thesis using probe_Run_cleans[OF r(1)] r keys by (simp add: Inr Let_def)
qed

definition dev_probe :: probe_args where
  "dev_probe = \<lparr>pbEndpoint = ''https://s3'', pbBucket = ''b'', pbName = ''dev'', pbSamples = 2, pbPayload = 8192,
     pbLarge = 16777216, pbPrefix = ''zoubench-probe'', pbCardsdir = ''pricecards'', pbOut = []\<rparr>"

definition dev_world :: probe_world where
  "dev_world = \<lparr>pwAccess = ''id'', pwSecret = ''key'', pwEndpoint = steady_endpoint, pwRunID = ''r1'', pwWrite = (\<lambda>_ _. None)\<rparr>"

theorem probe_saves_clean_witness:
  "\<exists>out sent. cmdProbe dev_probe dev_world = (Inr out, sent) \<and> leftover sent = {}
     \<and> pbPath out = path_Join ''pricecards'' ''dev.calibration.json'' \<and> pfName (smProfile (pbSummary out)) = ''dev''"
proof -
  obtain sm r where "probe_Run steady_endpoint (probe_cmd_options dev_probe) ''r1'' = (Inr sm, r)" using steady_probes by blast
  then obtain out sent where out: "cmdProbe dev_probe dev_world = (Inr out, sent)"
    by (simp add: cmdProbe_def dev_world_def Let_def) (simp add: dev_probe_def)
  have "probe_path dev_probe = path_Join ''pricecards'' ''dev.calibration.json''" "pbName dev_probe = ''dev''"
    by (simp_all add: probe_path_def dev_probe_def)
  then show ?thesis using probe_saves_clean[OF out] out by (simp add: Let_def)
qed

end
