(* ===== verification/Jsonable.thy ===== *)
theory Jsonable
  imports GoAny GoStrings
begin

text \<open>
  \<open>jsonable\<close> (src/cmd/zoubench/fleet.go): what the fleet command does to a document before it encodes
  it, so that a number the encoder refuses costs that number and not the document. A document here
  may hold such numbers, which the documents of the other theories cannot.
\<close>

section \<open>Values the encoder may refuse\<close>

text \<open>
  A value of the document by its Go type: a map of anything, a map of floats, a slice of anything, or
  a value of any other type, which is either written as it is or refused as a whole.
\<close>

datatype gov = GMap "(string \<times> gov) list" | GFloats "(string \<times> f64 option) list" | GList "gov list"
  | GWritable any | GRefused

fun marshals :: "gov \<Rightarrow> bool" where
  "marshals (GMap m) = list_all marshals (map snd m)"
| "marshals (GFloats m) = list_all (\<lambda>v. v \<noteq> None) (map snd m)"
| "marshals (GList l) = list_all marshals l"
| "marshals (GWritable v) = True"
| "marshals GRefused = False"

definition gfloat :: "f64 option \<Rightarrow> gov" where
  "gfloat v = (case v of None \<Rightarrow> GRefused | Some x \<Rightarrow> GWritable (AFloat x))"

section \<open>The walk\<close>

text \<open>The document it comes to, and the paths of what was left out, in the order of the walk.\<close>

function jsonable :: "gov \<Rightarrow> string \<Rightarrow> string list \<Rightarrow> gov \<times> string list"
  and jsonable_map :: "(string \<times> gov) list \<Rightarrow> string \<Rightarrow> string list \<Rightarrow> (string \<times> gov) list \<times> string list"
  and jsonable_list :: "nat \<Rightarrow> gov list \<Rightarrow> string \<Rightarrow> string list \<Rightarrow> gov list \<times> string list" where
  "jsonable v path bad =
     (if marshals v then (v, bad)
      else case v of
          GMap m \<Rightarrow> apfst GMap (jsonable_map m path bad)
        | GFloats m \<Rightarrow> apfst GMap (jsonable_map (map (apsnd gfloat) m) path bad)
        | GList l \<Rightarrow> apfst GList (jsonable_list 0 l path bad)
        | _ \<Rightarrow> (GWritable ANil, bad @ [TrimPrefix path ''/'']))"
| "jsonable_map [] path bad = ([], bad)"
| "jsonable_map ((k, v) # m) path bad =
     (let (v', bad1) = jsonable v (path @ ''/'' @ k) bad; (m', bad2) = jsonable_map m path bad1 in ((k, v') # m', bad2))"
| "jsonable_list i [] path bad = ([], bad)"
| "jsonable_list i (v # l) path bad =
     (let (v', bad1) = jsonable v (path @ ''/'' @ nat_text i) bad; (l', bad2) = jsonable_list (i + 1) l path bad1
      in (v' # l', bad2))"
  by pat_completeness auto

text \<open>The map of floats is walked as one of their values, which are smaller than the map they are in.\<close>

fun weight :: "gov \<Rightarrow> nat" where
  "weight (GMap m) = 1 + sum_list (map (\<lambda>(k, v). 1 + weight v) m)"
| "weight (GFloats m) = 2 + 3 * length m"
| "weight (GList l) = 1 + sum_list (map (\<lambda>v. 1 + weight v) l)"
| "weight (GWritable v) = 1"
| "weight GRefused = 1"

lemma weight_floats: "sum_list (map (\<lambda>(k, v). 1 + weight v) (map (apsnd gfloat) m)) = 2 * length m"
  by (induction m) (auto simp: gfloat_def split: option.splits)

termination jsonable
proof (relation "measure (\<lambda>x. case x of Inl (v, _, _) \<Rightarrow> weight v
    | Inr (Inl (m, _, _)) \<Rightarrow> sum_list (map (\<lambda>(k, v). 1 + weight v) m)
    | Inr (Inr (_, l, _, _)) \<Rightarrow> sum_list (map (\<lambda>v. 1 + weight v) l))", goal_cases)
qed (auto simp: weight_floats[simplified])

section \<open>Paths\<close>

definition children :: "gov \<Rightarrow> (string \<times> gov) list" where
  "children v =
     (case v of GMap m \<Rightarrow> m | GFloats m \<Rightarrow> map (apsnd gfloat) m
      | GList l \<Rightarrow> zip (map nat_text [0..<length l]) l | _ \<Rightarrow> [])"

fun dig :: "gov \<Rightarrow> string list \<Rightarrow> gov option" where
  "dig v [] = Some v"
| "dig v (k # ks) = (case map_of (children v) k of None \<Rightarrow> None | Some u \<Rightarrow> dig u ks)"

fun keyed :: "gov \<Rightarrow> bool" where
  "keyed (GMap m) \<longleftrightarrow> distinct (map fst m) \<and> list_all keyed (map snd m)"
| "keyed (GFloats m) \<longleftrightarrow> distinct (map fst m)"
| "keyed (GList l) \<longleftrightarrow> list_all keyed l"
| "keyed v \<longleftrightarrow> True"

definition say :: "string \<Rightarrow> string list \<Rightarrow> string" where
  "say path p = TrimPrefix (path @ concat (map (Cons (CHR ''/'')) p)) ''/''"

definition under :: "string list \<Rightarrow> string list list list \<Rightarrow> string list list" where
  "under ks pss = concat (map2 (\<lambda>k ps. map (Cons k) ps) ks pss)"

text \<open>The paths of what is refused, in the order of the walk.\<close>

fun refused :: "gov \<Rightarrow> string list list" where
  "refused (GMap m) = under (map fst m) (map refused (map snd m))"
| "refused (GFloats m) = under (map fst m) (map (\<lambda>v. if v = None then [[]] else []) (map snd m))"
| "refused (GList l) = under (map nat_text [0..<length l]) (map refused l)"
| "refused (GWritable v) = []"
| "refused GRefused = [[]]"

lemma under_simps [simp]: "under [] pss = []" "under ks [] = []" "under (k # ks) (ps # pss) = map (Cons k) ps @ under ks pss"
  by (simp_all add: under_def)

lemma under_none:
  assumes "list_all (\<lambda>ps. ps = []) pss"
  shows "under ks pss = []"
proof -
  have "ps = []" if "ps \<in> set (map2 (\<lambda>k ps. map (Cons k) ps) ks pss)" for ps
    using that assms by (auto simp: list_all_iff dest!: set_zip_rightD)
  then show ?thesis unfolding under_def by (simp only: concat_eq_Nil_conv) blast
qed

lemma refused_gfloat: "refused (gfloat v) = (if v = None then [[]] else [])" by (cases v) (simp_all add: gfloat_def)

lemma refused_floats: "refused (GFloats m) = refused (GMap (map (apsnd gfloat) m))"
  by (simp add: comp_def refused_gfloat)

lemma refused_marshals: "marshals v \<Longrightarrow> refused v = []"
proof (induction v rule: refused.induct)
  case (2 m)
  then show ?case unfolding refused.simps by (intro under_none) (auto simp: list_all_iff)
qed (auto simp: list_all_iff intro!: under_none)

lemma under_iff: "p \<in> set (under ks (map f us)) \<longleftrightarrow> (\<exists>(k, u) \<in> set (zip ks us). \<exists>q \<in> set (f u). p = k # q)"
proof (induction us arbitrary: ks)
  case (Cons u us)
  then show ?case by (cases ks) auto
qed simp

lemma under_distinct:
  assumes "distinct ks" and "\<forall>u \<in> set us. distinct (f u)"
  shows "distinct (under ks (map f us))"
  using assms
proof (induction us arbitrary: ks)
  case (Cons u us)
  show ?case
  proof (cases ks)
    case (Cons k ks')
    have "k \<notin> set ks'" "distinct (under ks' (map f us))" using Cons Cons.prems Cons.IH[of ks'] by auto
    moreover have "k # q \<notin> set (under ks' (map f us))" for q
      using calculation(1) unfolding under_iff by (auto dest: set_zip_leftD)
    ultimately show ?thesis using Cons Cons.prems by (auto simp: distinct_map)
  qed simp
qed simp

lemma refused_children:
  "refused v = (if v = GRefused then [[]] else under (map fst (children v)) (map refused (map snd (children v))))"
  by (cases v) (simp_all add: children_def refused_gfloat comp_def map_fst_zip map_snd_zip del: map_map, simp_all add: comp_def refused_gfloat)

lemma nat_text_inj: "nat_text i = nat_text j \<longleftrightarrow> i = j"
  using nat_text_spec[of i] nat_text_spec[of j] by metis

lemma keyed_children:
  assumes "keyed v"
  shows "distinct (map fst (children v))" and "(k, u) \<in> set (children v) \<Longrightarrow> keyed u"
  using assms
  by (cases v; auto simp: children_def list_all_iff gfloat_def distinct_map inj_on_def nat_text_inj map_fst_zip
      dest!: set_zip_rightD split: option.splits)+

lemma child_weight:
  assumes "(k, u) \<in> set (children v)"
  shows "weight u < weight v"
proof (cases v)
  case (GMap m)
  then have "Suc (weight u) \<in> set (map (\<lambda>(k, v). Suc (weight v)) m)" using assms by (force simp: children_def)
  from member_le_sum_list[OF this] show ?thesis by (simp add: GMap)
next
  case (GList l)
  then have "Suc (weight u) \<in> set (map (\<lambda>v. Suc (weight v)) l)"
    using assms by (auto simp: children_def dest!: set_zip_rightD)
  from member_le_sum_list[OF this] show ?thesis by (simp add: GList)
qed (use assms in \<open>auto simp: children_def gfloat_def split: option.splits\<close>)

lemma refused_digs:
  assumes "keyed v"
  shows "(\<forall>p. p \<in> set (refused v) \<longleftrightarrow> dig v p = Some GRefused) \<and> distinct (refused v)"
  using assms
proof (induction v rule: measure_induct_rule[of weight])
  case (less v)
  note key = keyed_children[OF less.prems]
  have sub: "q \<in> set (refused u) \<longleftrightarrow> dig u q = Some GRefused" "distinct (refused u)" if "(k, u) \<in> set (children v)" for k u q
    using less.IH[OF child_weight[OF that]] key(2)[OF that] by blast+
  have "p \<in> set (refused v) \<longleftrightarrow> dig v p = Some GRefused" for p
  proof (cases "v = GRefused")
    case True
    then show ?thesis by (cases p) (simp_all add: children_def)
  next
    case False
    have "p \<in> set (refused v) \<longleftrightarrow> (\<exists>(k, u) \<in> set (children v). \<exists>q. p = k # q \<and> dig u q = Some GRefused)"
      unfolding refused_children[of v] if_not_P[OF False] under_iff zip_map_fst_snd using sub(1) by fast
    also have "\<dots> \<longleftrightarrow> dig v p = Some GRefused"
    proof (cases p)
      case (Cons k q)
      have "(\<exists>(k', u) \<in> set (children v). \<exists>q'. k # q = k' # q' \<and> dig u q' = Some GRefused)
          \<longleftrightarrow> (\<exists>u. (k, u) \<in> set (children v) \<and> dig u q = Some GRefused)" by auto
      also have "\<dots> \<longleftrightarrow> (\<exists>u. map_of (children v) k = Some u \<and> dig u q = Some GRefused)"
        by (simp only: map_of_eq_Some_iff[OF key(1)])
      finally show ?thesis unfolding Cons by (simp split: option.split)
    qed (use False in simp)
    finally show ?thesis .
  qed
  moreover have "distinct (under (map fst (children v)) (map refused (map snd (children v))))"
    by (rule under_distinct[OF key(1)]) (use sub(2) in fastforce)
  then have "distinct (refused v)" unfolding refused_children[of v] by simp
  ultimately show ?case by blast
qed

section \<open>What the walk keeps\<close>

definition kept :: "gov \<Rightarrow> gov \<Rightarrow> bool" where
  "kept v v' \<longleftrightarrow> (\<forall>p u. dig v p = Some u \<and> marshals u \<longrightarrow> dig v' p = Some u)"

lemma kept_refl: "kept v v" by (simp add: kept_def)

lemma kept_children:
  assumes "\<not> marshals v" and "\<And>k u. map_of (children v) k = Some u \<Longrightarrow> \<exists>u'. map_of (children v') k = Some u' \<and> kept u u'"
  shows "kept v v'"
  unfolding kept_def
proof (intro allI impI, elim conjE)
  fix p u
  assume d: "dig v p = Some u" and m: "marshals u"
  then obtain k q where p: "p = k # q" using assms(1) by (cases p) auto
  then obtain x where "map_of (children v) k = Some x" "dig x q = Some u" using d by (auto split: option.splits)
  then show "dig v' p = Some u" using assms(2)[of k x] m unfolding p kept_def by auto
qed

lemma kept_map_of:
  "list_all2 (rel_prod (=) kept) m m' \<Longrightarrow> map_of m k = Some u \<Longrightarrow> \<exists>u'. map_of m' k = Some u' \<and> kept u u'"
  by (induction m m' rule: list_all2_induct) (auto split: if_splits)

lemma kept_zip: "list_all2 kept l l' \<Longrightarrow> length ks = length l \<Longrightarrow> list_all2 (rel_prod (=) kept) (zip ks l) (zip ks l')"
  by (auto simp: list_all2_conv_all_nth)

lemma say_Cons: "say path (k # q) = say (path @ ''/'' @ k) q" by (simp add: say_def)

lemma jsonable_walk:
  "marshals (fst (jsonable v path bad)) \<and> kept v (fst (jsonable v path bad))
     \<and> snd (jsonable v path bad) = bad @ map (say path) (refused v)"
  "list_all marshals (map snd (fst (jsonable_map m path bad)))
     \<and> list_all2 (rel_prod (=) kept) m (fst (jsonable_map m path bad))
     \<and> snd (jsonable_map m path bad) = bad @ map (say path) (under (map fst m) (map refused (map snd m)))"
  "list_all marshals (fst (jsonable_list i l path bad)) \<and> list_all2 kept l (fst (jsonable_list i l path bad))
     \<and> snd (jsonable_list i l path bad) = bad @ map (say path) (under (map nat_text [i..<i + length l]) (map refused l))"
proof (induction v path bad and m path bad and i l path bad rule: jsonable_jsonable_map_jsonable_list.induct)
  case (1 v path bad)
  show ?case
  proof (cases "marshals v")
    case True
    then show ?thesis by (simp add: jsonable.simps[of v] kept_refl refused_marshals del: jsonable.simps)
  next
    case no: False
    show ?thesis
    proof (cases v)
      case (GMap m)
      let ?r = "jsonable_map m path bad"
      have r: "jsonable v path bad = (GMap (fst ?r), snd ?r)" using no GMap by (simp add: apfst_def map_prod_def split: prod.splits)
      have IH: "list_all marshals (map snd (fst ?r))" "list_all2 (rel_prod (=) kept) m (fst ?r)"
        "snd ?r = bad @ map (say path) (under (map fst m) (map refused (map snd m)))" using 1(1)[OF no GMap] by blast+
      have "kept v (GMap (fst ?r))"
        by (rule kept_children[OF no]) (use kept_map_of[OF IH(2)] GMap in \<open>simp add: children_def\<close>)
      then show ?thesis unfolding r using IH GMap by simp
    next
      case (GFloats m)
      let ?m = "map (apsnd gfloat) m" let ?r = "jsonable_map ?m path bad"
      have r: "jsonable v path bad = (GMap (fst ?r), snd ?r)" using no GFloats by (simp add: apfst_def map_prod_def split: prod.splits)
      have IH: "list_all marshals (map snd (fst ?r))" "list_all2 (rel_prod (=) kept) ?m (fst ?r)"
        "snd ?r = bad @ map (say path) (under (map fst ?m) (map refused (map snd ?m)))" using 1(2)[OF no GFloats] by blast+
      have "kept v (GMap (fst ?r))"
        by (rule kept_children[OF no]) (use kept_map_of[OF IH(2)] GFloats in \<open>simp add: children_def\<close>)
      then show ?thesis unfolding r using IH GFloats refused_floats[of m] by simp
    next
      case (GList l)
      let ?r = "jsonable_list 0 l path bad"
      have r: "jsonable v path bad = (GList (fst ?r), snd ?r)" using no GList by (simp add: apfst_def map_prod_def split: prod.splits)
      have IH: "list_all marshals (fst ?r)" "list_all2 kept l (fst ?r)"
        "snd ?r = bad @ map (say path) (under (map nat_text [0..<0 + length l]) (map refused l))" using 1(3)[OF no GList] by blast+
      have "list_all2 (rel_prod (=) kept) (children v) (children (GList (fst ?r)))"
        using kept_zip[OF IH(2), of "map nat_text [0..<length l]"] list_all2_lengthD[OF IH(2)] by (simp add: GList children_def)
      then have "kept v (GList (fst ?r))" by (intro kept_children[OF no] kept_map_of)
      then show ?thesis unfolding r using IH GList by simp
    next
      case GRefused
      have "kept GRefused (GWritable ANil)" using kept_children[OF no, of "GWritable ANil"] GRefused by (simp add: children_def)
      then show ?thesis by (simp add: GRefused say_def)
    qed (use no in simp)
  qed
next
  case (3 k v m path bad)
  then show ?case by (auto simp: say_Cons comp_def split: prod.splits simp del: jsonable.simps)
next
  case (5 i v l path bad)
  have "[i..<i + length (v # l)] = i # [i + 1..<(i + 1) + length l]" by (simp add: upt_rec)
  then show ?case using 5 by (auto simp: say_Cons comp_def split: prod.splits simp del: jsonable.simps upt_Suc)
qed auto


text \<open>A rate that is not a number in a document of other numbers.\<close>

definition no_time :: gov where
  "no_time = GMap [(''steady'', GMap [(''rps'', GRefused), (''latency_ms'', GFloats [(''p50'', Some 5)])]),
     (''tenants'', GWritable (AInt 1000)), (''seen'', GFloats [(''a'', None), (''b'', Some 2)])]"


end
