(* ===== verification/HttpRequests.thy ===== *)
theory HttpRequests
  imports Json
begin

text \<open>
  The requests of a workload (src/resthttp/resthttp.go): their description, the weighted list a
  uniform draw picks from, the placeholders filled from a random source, and the headers of the
  request that goes out. A random source is the sequence of numbers it will produce; a draw below
  \<open>n\<close> takes the next one modulo \<open>n\<close>, which leaves open every sequence of draws.
\<close>

section \<open>Shapes\<close>

record request =
  rq_Name :: string
  rq_Method :: string
  rq_Path :: string
  rq_Body :: string
  rq_Header :: "(string \<times> string) list"
  rq_Auth :: string
  rq_Weight :: int
  rq_Expect :: int

definition request_zero :: request where
  "request_zero = \<lparr>rq_Name = [], rq_Method = [], rq_Path = [], rq_Body = [], rq_Header = [],
     rq_Auth = [], rq_Weight = 0, rq_Expect = 0\<rparr>"

definition request_fields :: "request fields" where
  "request_fields =
     [(''name'', on_field dec_string rq_Name (\<lambda>v. rq_Name_update (\<lambda>_. v))),
      (''method'', on_field dec_string rq_Method (\<lambda>v. rq_Method_update (\<lambda>_. v))),
      (''path'', on_field dec_string rq_Path (\<lambda>v. rq_Path_update (\<lambda>_. v))),
      (''body'', on_field dec_string rq_Body (\<lambda>v. rq_Body_update (\<lambda>_. v))),
      (''header'', on_field (dec_map [] dec_string) rq_Header (\<lambda>v. rq_Header_update (\<lambda>_. v))),
      (''auth'', on_field dec_string rq_Auth (\<lambda>v. rq_Auth_update (\<lambda>_. v))),
      (''weight'', on_field dec_int rq_Weight (\<lambda>v. rq_Weight_update (\<lambda>_. v))),
      (''expect'', on_field dec_int rq_Expect (\<lambda>v. rq_Expect_update (\<lambda>_. v)))]"

definition weighted :: "request list \<Rightarrow> request list" where
  "weighted reqs =
     concat (map (\<lambda>r. replicate (nat (if rq_Weight r \<le> 0 then 1 else rq_Weight r)) r) reqs)"

definition wanted :: "request \<Rightarrow> int" where
  "wanted r = (if rq_Expect r = 0 then 200 else rq_Expect r)"

section \<open>Random draws\<close>

type_synonym rng = "nat list"

definition rng_next :: "rng \<Rightarrow> nat \<times> rng" where
  "rng_next g = (case g of [] \<Rightarrow> (0, []) | x # g' \<Rightarrow> (x, g'))"

text \<open>\<open>IntN\<close> panics on a bound that is not positive.\<close>

definition IntN :: "int \<Rightarrow> rng \<Rightarrow> (int \<times> rng) option" where
  "IntN n g = (if n \<le> 0 then None else Some (apfst (\<lambda>x. int x mod n) (rng_next g)))"

definition Uint32 :: "rng \<Rightarrow> nat \<times> rng" where "Uint32 g = apfst (\<lambda>x. x mod 2 ^ 32) (rng_next g)"

fun hex_text :: "nat \<Rightarrow> string" where
  "hex_text n = (if n < 16 then [hex_digit n] else hex_text (n div 16) @ [hex_digit (n mod 16)])"

declare hex_text.simps [simp del]

section \<open>Placeholders\<close>

text \<open>\<open>Sscanf\<close> with \<open>\%d:\%d\<close> over two variables that start at one.\<close>

definition scan_int :: "string \<Rightarrow> (int \<times> string) option" where
  "scan_int s =
     (let s = dropWhile (\<lambda>c. is_space c \<and> c \<noteq> CHR 0x0A) s;
          (sign, t) = (case s of c # u \<Rightarrow> if c = CHR ''-'' \<or> c = CHR ''+'' then ([c], u) else ([], s) | [] \<Rightarrow> ([], []))
      in case Atoi (sign @ takeWhile is_digit t) of
           None \<Rightarrow> None
         | Some n \<Rightarrow> Some (n, dropWhile is_digit t))"

definition scan_pair :: "string \<Rightarrow> int \<times> int" where
  "scan_pair spec =
     (case scan_int spec of None \<Rightarrow> (1, 1)
      | Some (lo, rest) \<Rightarrow>
        (case rest of c # t \<Rightarrow>
           if c = CHR '':'' then (case scan_int t of None \<Rightarrow> (lo, 1) | Some (hi, _) \<Rightarrow> (lo, hi)) else (lo, 1)
         | [] \<Rightarrow> (lo, 1)))"

definition rand_mark :: string where "rand_mark = [CHR 0x7B, CHR 0x7B] @ ''rand:''"
definition hex_mark :: string where "hex_mark = [CHR 0x7B, CHR 0x7B] @ ''hex'' @ [CHR 0x7D, CHR 0x7D]"
definition close_mark :: string where "close_mark = [CHR 0x7D, CHR 0x7D]"

definition braces :: "string \<Rightarrow> nat" where "braces s = length (filter (\<lambda>c. c = CHR 0x7B) s)"

text \<open>One placeholder: where it starts and ends and what the bounds in it are.\<close>

definition rand_find :: "string \<Rightarrow> (string \<times> int \<times> int \<times> string) option" where
  "rand_find s =
     (case strings_Index s rand_mark of None \<Rightarrow> None
      | Some i \<Rightarrow>
        (case strings_Index (drop i s) close_mark of None \<Rightarrow> None
         | Some j \<Rightarrow>
           let (lo, hi) = scan_pair (take (j - length rand_mark) (drop (i + length rand_mark) s))
           in Some (take i s, lo, if hi < lo then lo else hi, drop (i + j + 2) s)))"

lemma braces_append [simp]: "braces (s @ t) = braces s + braces t"
  by (simp add: braces_def)

lemma braces_itoa [simp]: "braces (itoa n) = 0"
proof -
  have "list_all is_digit (nat_text m)" for m using nat_text_spec by blast
  then have "\<forall>c \<in> set (itoa n). is_digit c \<or> c = CHR ''-''"
    by (auto simp: itoa_def list_all_iff split: if_splits)
  then show ?thesis
    unfolding braces_def by (fastforce simp: filter_empty_conv is_digit_def)
qed

lemma index_split: "strings_Index s p = Some i \<Longrightarrow> s = take i s @ p @ drop (i + length p) s"
proof (induction s arbitrary: i)
  case Nil
  then show ?case by (cases "p = []") auto
next
  case (Cons c s)
  show ?case
  proof (cases "HasPrefix (c # s) p")
    case True
    then show ?thesis using Cons.prems by (auto simp: HasPrefix_iff)
  next
    case False
    then obtain k where "strings_Index s p = Some k" "i = Suc k" using Cons.prems by auto
    then show ?thesis using Cons.IH[of k] by simp
  qed
qed

lemma rand_find_braces:
  assumes "rand_find s = Some (before, lo, hi, after)"
  shows "braces before + braces after < braces s"
proof -
  obtain i j where i: "strings_Index s rand_mark = Some i"
    and j: "strings_Index (drop i s) close_mark = Some j"
    and out: "before = take i s" "after = drop (i + j + 2) s"
    using assms by (auto simp: rand_find_def Let_def split: option.splits prod.splits)
  have s: "s = take i s @ rand_mark @ drop (i + length rand_mark) s" by (rule index_split[OF i])
  have d: "drop i s = take j (drop i s) @ close_mark @ drop (j + 2) (drop i s)"
    using index_split[OF j] by (simp add: close_mark_def)
  have front: "braces s = braces before + braces (drop i s)"
    unfolding out(1) braces_append[symmetric] by simp
  have start: "drop i s = rand_mark @ drop (i + length rand_mark) s"
    using s by (metis append_eq_conv_conj index_split i append_take_drop_id same_append_eq)
  have "j \<noteq> 0"
  proof
    assume "j = 0"
    then have "hd (drop i s) = CHR 0x7D" using d by (metis append_Nil close_mark_def list.sel(1) append_Cons take0)
    moreover have "hd (drop i s) = CHR 0x7B" by (subst start) (simp add: rand_mark_def)
    ultimately show False by simp
  qed
  then have "0 < braces (take j (drop i s))"
    using start by (cases j) (simp_all add: rand_mark_def braces_def)
  moreover have "braces (drop i s) = braces (take j (drop i s)) + braces (drop (i + j + 2) s)"
  proof -
    have "braces (drop i s) = braces (take j (drop i s)) + braces close_mark + braces (drop (j + 2) (drop i s))"
      by (subst d) simp
    then show ?thesis by (simp add: close_mark_def braces_def add.commute add.left_commute)
  qed
  ultimately show ?thesis using front out(2) by simp
qed

function expand_rand :: "string \<Rightarrow> rng \<Rightarrow> (string \<times> rng) option" where
  "expand_rand s g =
     (case rand_find s of None \<Rightarrow> Some (s, g)
      | Some (before, lo, hi, after) \<Rightarrow>
        (case IntN (wrap64 (wrap64 (hi - lo) + 1)) g of None \<Rightarrow> None
         | Some (v, g) \<Rightarrow> expand_rand (before @ itoa (wrap64 (lo + v)) @ after) g))"
  by pat_completeness auto
termination
  by (relation "measure (\<lambda>(s, g). braces s)") (auto dest: rand_find_braces)

lemma braces_hex_text [simp]: "braces (pad_left (CHR ''0'') 8 (hex_text n)) = 0"
proof -
  have digit: "hex_digit d \<noteq> CHR 0x7B" if "d < 16" for d
    using that by (auto simp: hex_digit_def dest!: arg_cong[where f = "of_char :: char \<Rightarrow> nat"])
  have "braces (hex_text n) = 0"
    by (induction n rule: hex_text.induct, subst hex_text.simps) (auto simp: braces_def digit)
  then show ?thesis by (auto simp: pad_left_def braces_def)
qed

definition hex_find :: "string \<Rightarrow> (string \<times> string) option" where
  "hex_find s = map_option (\<lambda>i. (take i s, drop (i + length hex_mark) s)) (strings_Index s hex_mark)"

lemma hex_find_braces: "hex_find s = Some (before, after) \<Longrightarrow> braces before + braces after < braces s"
proof -
  assume "hex_find s = Some (before, after)"
  then obtain i where i: "strings_Index s hex_mark = Some i" "before = take i s"
    "after = drop (i + length hex_mark) s" by (auto simp: hex_find_def)
  have "braces s = braces (take i s) + braces hex_mark + braces (drop (i + length hex_mark) s)"
    by (subst index_split[OF i(1)]) simp
  then show ?thesis using i by (simp add: hex_mark_def braces_def)
qed

function expand_hex :: "string \<Rightarrow> rng \<Rightarrow> string \<times> rng" where
  "expand_hex s g =
     (case hex_find s of None \<Rightarrow> (s, g)
      | Some (before, after) \<Rightarrow>
        let (w, g) = Uint32 g in expand_hex (before @ pad_left (CHR ''0'') 8 (hex_text w) @ after) g)"
  by pat_completeness auto
termination
  by (relation "measure (\<lambda>(s, g). braces s)") (auto dest: hex_find_braces)

declare expand_rand.simps [simp del] expand_hex.simps [simp del]

definition Expand :: "string \<Rightarrow> rng \<Rightarrow> (string \<times> rng) option" where
  "Expand s g = (case expand_rand s g of None \<Rightarrow> None | Some (s, g) \<Rightarrow> Some (expand_hex s g))"

section \<open>What a range placeholder becomes\<close>

lemma scan_int_itoa:
  assumes "- (2 ^ 63) \<le> n" "n < 2 ^ 63" and "r = [] \<or> \<not> is_digit (hd r)"
  shows "scan_int (itoa n @ r) = Some (n, r)"
proof -
  let ?d = "nat_text (nat \<bar>n\<bar>)"
  have d: "list_all is_digit ?d" "?d \<noteq> []" using nat_text_spec by blast+
  then obtain c u where c: "?d = c # u" "is_digit c" by (cases ?d) auto
  have r: "takeWhile is_digit (?d @ r) = ?d" "dropWhile is_digit (?d @ r) = r"
    using d assms(3) by (cases r; auto simp: list_all_iff takeWhile_append dropWhile_append)+
  have shape: "itoa n = (if n < 0 then CHR ''-'' # ?d else ?d)" by (simp add: itoa_def)
  note atoi = Atoi_itoa[OF assms(1,2), unfolded shape]
  show ?thesis
  proof (cases "n < 0")
    case True
    then show ?thesis using atoi r by (simp add: scan_int_def shape is_space_def)
  next
    case False
    then have "itoa n @ r = c # u @ r" using shape c by simp
    moreover have "\<not> is_space c" "c \<noteq> CHR ''-''" "c \<noteq> CHR ''+''"
      using c(2) digit_not_space digit_not_sign by blast+
    ultimately show ?thesis using atoi r False c by (simp add: scan_int_def)
  qed
qed

lemma scan_pair_itoa:
  assumes "- (2 ^ 63) \<le> lo" "lo < 2 ^ 63" "- (2 ^ 63) \<le> hi" "hi < 2 ^ 63"
  shows "scan_pair (itoa lo @ '':'' @ itoa hi) = (lo, hi)"
proof -
  have "\<not> is_digit (CHR '':'')" by (simp add: is_digit_def)
  then have "scan_int (itoa lo @ CHR '':'' # itoa hi) = Some (lo, CHR '':'' # itoa hi)"
    using assms by (intro scan_int_itoa) auto
  then show ?thesis using scan_int_itoa[OF assms(3,4), of "[]"] by (simp add: scan_pair_def)
qed

lemma no_brace: "CHR 0x7B \<notin> set s \<longleftrightarrow> braces s = 0"
  by (auto simp: braces_def filter_empty_conv)

lemma no_mark: "CHR 0x7B \<notin> set s \<Longrightarrow> p = CHR 0x7B # q \<Longrightarrow> strings_Index s p = None"
  by (induction s) (auto simp: HasPrefix_def)

lemma itoa_no_close: "CHR 0x7D \<notin> set (itoa n)"
proof -
  have "CHR 0x7D \<notin> set (nat_text m)" for m
    using nat_text_spec[of m] by (auto simp: list_all_iff is_digit_def)
  then show ?thesis by (simp add: itoa_def)
qed

definition range_mark :: "int \<Rightarrow> int \<Rightarrow> string" where
  "range_mark lo hi = rand_mark @ itoa lo @ '':'' @ itoa hi @ close_mark"

lemma rand_find_range:
  assumes "CHR 0x7B \<notin> set a" and "- (2 ^ 63) \<le> lo" "lo \<le> hi" "hi < 2 ^ 63"
  shows "rand_find (a @ range_mark lo hi @ b) = Some (a, lo, hi, b)"
proof -
  let ?spec = "itoa lo @ '':'' @ itoa hi"
  have i: "strings_Index (a @ rand_mark @ (?spec @ close_mark @ b)) rand_mark = Some (length a)"
    by (rule strings_Index_append) (use assms(1) in \<open>auto simp: rand_mark_def\<close>)
  have j: "strings_Index ((rand_mark @ ?spec) @ close_mark @ b) close_mark = Some (length (rand_mark @ ?spec))"
    by (rule strings_Index_append) (auto simp: close_mark_def rand_mark_def itoa_no_close)
  have "scan_pair ?spec = (lo, hi)" using assms by (intro scan_pair_itoa) linarith+
  then show ?thesis
    using i j assms(3) by (simp add: rand_find_def range_mark_def Let_def close_mark_def eval_nat_numeral)
qed

lemma plain_text:
  assumes "CHR 0x7B \<notin> set s"
  shows "rand_find s = None" "hex_find s = None"
  using no_mark[OF assms, of rand_mark] no_mark[OF assms, of hex_mark]
  by (simp_all add: rand_find_def hex_find_def rand_mark_def hex_mark_def)

text \<open>
  C38: a range placeholder in otherwise plain text becomes a number of its range, the text around it
  kept and one number drawn, and no number of the range is out of reach: each is what some draw
  gives.
\<close>

theorem Expand_in_range:
  assumes "CHR 0x7B \<notin> set a" and "CHR 0x7B \<notin> set b"
    and "- (2 ^ 63) \<le> lo" "lo \<le> hi" "hi < 2 ^ 63" "hi - lo < 2 ^ 63 - 1"
  shows "(\<exists>v. lo \<le> v \<and> v \<le> hi
      \<and> Expand (a @ range_mark lo hi @ b) g = Some (a @ itoa v @ b, snd (rng_next g)))
    \<and> (\<forall>v. lo \<le> v \<and> v \<le> hi \<longrightarrow>
      Expand (a @ range_mark lo hi @ b) (nat (v - lo) # g) = Some (a @ itoa v @ b, g))"
proof -
  have w: "wrap64 (wrap64 (hi - lo) + 1) = hi - lo + 1" using assms by (simp add: wrap64_id)
  have step: "Expand (a @ range_mark lo hi @ b) h
      = Some (a @ itoa (lo + int (fst (rng_next h)) mod (hi - lo + 1)) @ b, snd (rng_next h))" for h
  proof -
    let ?v = "int (fst (rng_next h)) mod (hi - lo + 1)"
    have v: "0 \<le> ?v" "?v \<le> hi - lo" using assms(4) pos_mod_bound[of "hi - lo + 1"] by auto
    then have "wrap64 (lo + ?v) = lo + ?v" using assms by (intro wrap64_id) linarith+
    moreover have "CHR 0x7B \<notin> set (a @ itoa (lo + ?v) @ b)"
      using assms(1,2) by (simp add: no_brace)
    note plain_text[OF this]
    ultimately show ?thesis
      using rand_find_range[OF assms(1,3,4,5), of b] w assms(4)
      by (simp add: Expand_def expand_rand.simps[of _ h] IntN_def expand_rand.simps[of "a @ _ @ b" "snd _"]
          expand_hex.simps apfst_def map_prod_def split_beta)
  qed
  show ?thesis
  proof (intro conjI allI impI)
    have "0 \<le> int (fst (rng_next g)) mod (hi - lo + 1)" "int (fst (rng_next g)) mod (hi - lo + 1) \<le> hi - lo"
      using assms(4) pos_mod_bound[of "hi - lo + 1"] by auto
    then show "\<exists>v. lo \<le> v \<and> v \<le> hi
        \<and> Expand (a @ range_mark lo hi @ b) g = Some (a @ itoa v @ b, snd (rng_next g))"
      using step[of g] by (intro exI[of _ "lo + int (fst (rng_next g)) mod (hi - lo + 1)"]) simp
    fix v assume "lo \<le> v \<and> v \<le> hi"
    then show "Expand (a @ range_mark lo hi @ b) (nat (v - lo) # g) = Some (a @ itoa v @ b, g)"
      using step[of "nat (v - lo) # g"] by (simp add: rng_next_def)
  qed
qed

theorem Expand_in_range_witness:
  "Expand (''id=eq.'' @ range_mark 1 100 @ []) [41] = Some (''id=eq.'' @ itoa 42 @ [], [])"
proof -
  have "\<forall>v. 1 \<le> v \<and> v \<le> 100 \<longrightarrow>
      Expand (''id=eq.'' @ range_mark 1 100 @ []) (nat (v - 1) # []) = Some (''id=eq.'' @ itoa v @ [], [])"
    using Expand_in_range[of "''id=eq.''" "[]" 1 100 "[]"] by simp
  from this[rule_format, of 42] show ?thesis by simp
qed

section \<open>The request that goes out\<close>

text \<open>Header names are canonical: a capital after every hyphen, small letters elsewhere.\<close>

definition is_token_char :: "char \<Rightarrow> bool" where
  "is_token_char c \<longleftrightarrow> (let n = of_char c :: nat in
     is_digit c \<or> (65 \<le> n \<and> n \<le> 90) \<or> (97 \<le> n \<and> n \<le> 122) \<or> n \<in> {33, 35, 36, 37, 38, 39, 42, 43, 45, 46, 94, 95, 96, 124, 126})"

definition to_upper :: "char \<Rightarrow> char" where
  "to_upper c = (let n = of_char c :: nat in if 97 \<le> n \<and> n \<le> 122 then char_of (n - 32) else c)"

fun canonical_from :: "bool \<Rightarrow> string \<Rightarrow> string" where
  "canonical_from up [] = []"
| "canonical_from up (c # s) = (if up then to_upper c else to_lower c) # canonical_from (c = CHR ''-'') s"

definition canonical_key :: "string \<Rightarrow> string" where
  "canonical_key k = (if list_all is_token_char k then canonical_from True k else k)"

definition header_Set :: "string \<Rightarrow> string \<Rightarrow> (string \<times> string) list \<Rightarrow> (string \<times> string) list" where
  "header_Set k v h = map_upd (canonical_key k) (\<lambda>_. v) h"

record wire =
  w_Method :: string
  w_URL :: string
  w_Header :: "(string \<times> string) list"
  w_Body :: "string option"

text \<open>
  The parts of a request every driver builds alike: the method, the expanded path and body, and the
  headers around the authorization, with the request's own headers last.
\<close>

definition request_method :: "request \<Rightarrow> string" where
  "request_method r = (if rq_Method r = [] then ''GET'' else rq_Method r)"

definition request_text :: "request \<Rightarrow> rng \<Rightarrow> (string \<times> string option \<times> rng) option" where
  "request_text r g =
     (case Expand (rq_Path r) g of None \<Rightarrow> None
      | Some (path, g) \<Rightarrow>
        if rq_Body r = [] then Some (path, None, g)
        else (case Expand (rq_Body r) g of None \<Rightarrow> None
              | Some (body, g) \<Rightarrow> Some (path, Some body, g)))"

definition request_tokens :: "(string \<times> string) list \<Rightarrow> request \<Rightarrow> (string \<times> string) list \<Rightarrow> (string \<times> string) list" where
  "request_tokens toks r h =
     (let auth = (if rq_Auth r = [] then ''anon'' else rq_Auth r);
          tok = (case map_of toks auth of None \<Rightarrow> [] | Some t \<Rightarrow> t);
          h = (if tok \<noteq> [] then header_Set ''authorization'' (''Bearer '' @ tok) h else h);
          h = (if rq_Body r \<noteq> [] then header_Set ''content-type'' ''application/json'' h else h)
      in foldl (\<lambda>h (k, v). header_Set k v h) h (rq_Header r))"

end
