(* ===== verification/HttpLoad.thy ===== *)
theory HttpLoad
  imports HttpRequests Latency Streams
begin

text \<open>
  Package \<open>resthttp\<close> (src/resthttp/resthttp.go): one client's loop, what it keeps of every reply, and
  the fold of the clients into an outcome. What the clock, the server and the random source do is an
  argument: an event says how the server answers the request of that turn, and whether the phase had
  ended by then. The accounting both http drivers rest on is proved once, in a locale.
\<close>

section \<open>What a client keeps\<close>

record http_local =
  lSamples :: "sample list"
  lStatus :: "(int \<times> nat) list"
  lPerReq :: "(string \<times> f64 list) list"
  lFailures :: "string list"
  lBytes :: int
  lRequests :: nat
  lErrors :: nat

definition local_zero :: http_local where
  "local_zero = \<lparr>lSamples = [], lStatus = [], lPerReq = [], lFailures = [], lBytes = 0, lRequests = 0, lErrors = 0\<rparr>"

definition local_fail :: "string \<Rightarrow> 'a http_local_scheme \<Rightarrow> 'a http_local_scheme" where
  "local_fail said l =
     l\<lparr>lErrors := lErrors l + 1,
       lFailures := (if length (lFailures l) < 5 then lFailures l @ [said] else lFailures l)\<rparr>"

definition local_keep :: "string \<Rightarrow> f64 \<Rightarrow> int \<Rightarrow> 'a http_local_scheme \<Rightarrow> 'a http_local_scheme" where
  "local_keep name took epoch l =
     l\<lparr>lSamples := lSamples l @ [\<lparr>MS = took, Epoch = epoch\<rparr>],
       lPerReq := map_upd name (append_at [took]) (lPerReq l)\<rparr>"

text \<open>A reply: a failed call, or milliseconds, status and bytes read.\<close>

type_synonym reply = "go_error + f64 \<times> int \<times> int"

definition rest_note :: "bool \<Rightarrow> request \<Rightarrow> reply \<Rightarrow> int \<Rightarrow> http_local \<Rightarrow> http_local" where
  "rest_note keep req answer epoch l =
     (case answer of
        Inl e \<Rightarrow> local_fail (rq_Name req @ '': '' @ e) (l\<lparr>lRequests := lRequests l + 1\<rparr>)
      | Inr (took, status, n) \<Rightarrow>
        let l = l\<lparr>lRequests := lRequests l + 1, lBytes := lBytes l + n,
                  lStatus := map_upd status (plus_at 1) (lStatus l)\<rparr>
        in if status \<noteq> wanted req
           then local_fail (rq_Name req @ '': wanted '' @ itoa (wanted req) @ '', got '' @ itoa status) l
           else if keep then local_keep (rq_Name req) took epoch l else l)"

section \<open>A client's loop\<close>

record options =
  BaseURL :: string
  Clients :: int
  Warmup :: int
  Requests :: "request list"
  Tokens :: "(string \<times> string) list"
  APIKey :: string

definition rest_wire :: "options \<Rightarrow> request \<Rightarrow> rng \<Rightarrow> (wire \<times> rng) option" where
  "rest_wire opt r g =
     (case request_text r g of None \<Rightarrow> None
      | Some (path, body, g) \<Rightarrow>
        Some (\<lparr>w_Method = request_method r, w_URL = BaseURL opt @ path,
               w_Header = request_tokens (Tokens opt) r
                 (if APIKey opt \<noteq> [] then header_Set ''apikey'' (APIKey opt) [] else []),
               w_Body = body\<rparr>, g))"

record rest_event =
  ev_reply :: "wire \<Rightarrow> reply"
  ev_ended :: bool
  ev_epoch :: int

fun rest_client :: "options \<Rightarrow> request list \<Rightarrow> bool \<Rightarrow> rest_event list \<Rightarrow> rng \<Rightarrow> http_local \<Rightarrow> http_local option" where
  "rest_client opt picks keep [] g l = Some l"
| "rest_client opt picks keep (e # es) g l =
     (case IntN (int (length picks)) g of None \<Rightarrow> None
      | Some (i, g) \<Rightarrow>
        let req = picks ! nat i in
        (case rest_wire opt req g of None \<Rightarrow> None
         | Some (w, g) \<Rightarrow>
           if ev_ended e then Some l
           else rest_client opt picks keep es g (rest_note keep req (ev_reply e w) (ev_epoch e) l)))"

section \<open>The outcome\<close>

record http_outcome =
  out_Samples :: "sample list"
  out_Requests :: nat
  out_Errors :: nat
  out_Status :: "(int \<times> nat) list"
  out_PerRequest :: "(string \<times> (string \<rightharpoonup> f64)) list"
  out_Failures :: "string list"
  out_Bytes :: int
  out_Elapsed :: int

definition merge_status :: "(int \<times> nat) list \<Rightarrow> (int \<times> nat) list \<Rightarrow> (int \<times> nat) list" where
  "merge_status acc st = merge_counts acc st"

definition merge_perReq :: "(string \<times> f64 list) list \<Rightarrow> (string \<times> f64 list) list \<Rightarrow> (string \<times> f64 list) list" where
  "merge_perReq acc per = foldl (\<lambda>acc (name, vals). map_upd name (append_at vals) acc) acc per"

definition merge_local :: "http_local \<Rightarrow> 'a http_local_scheme \<Rightarrow> http_local" where
  "merge_local acc l =
     \<lparr>lSamples = lSamples acc @ lSamples l, lStatus = merge_status (lStatus acc) (lStatus l),
      lPerReq = merge_perReq (lPerReq acc) (lPerReq l), lFailures = lFailures acc @ lFailures l,
      lBytes = lBytes acc + lBytes l, lRequests = lRequests acc + lRequests l,
      lErrors = lErrors acc + lErrors l\<rparr>"

definition per_request :: "f64 list \<Rightarrow> (string \<rightharpoonup> f64)" where
  "per_request vals =
     (latency_Percentiles (map (\<lambda>v. \<lparr>MS = v, Epoch = 0\<rparr>) vals))(''requests'' \<mapsto> f64_of_int (int (length vals)))"

definition http_merge :: "int \<Rightarrow> 'a http_local_scheme list \<Rightarrow> http_outcome" where
  "http_merge elapsed locals =
     (let m = foldl merge_local local_zero locals in
      \<lparr>out_Samples = lSamples m, out_Requests = lRequests m, out_Errors = lErrors m,
       out_Status = lStatus m, out_PerRequest = map (\<lambda>(name, vals). (name, per_request vals)) (lPerReq m),
       out_Failures = (if 5 < length (lFailures m) then take 5 (lFailures m) else lFailures m),
       out_Bytes = lBytes m, out_Elapsed = elapsed\<rparr>)"

definition rest_drive :: "options \<Rightarrow> request list \<Rightarrow> bool \<Rightarrow> (nat \<Rightarrow> rest_event list) \<Rightarrow> (nat \<Rightarrow> rng) \<Rightarrow> int \<Rightarrow>
    (go_error, http_outcome) outcome" where
  "rest_drive opt picks keep traffic seed elapsed =
     (case traverse (\<lambda>i. rest_client opt picks keep (traffic i) (seed i) local_zero) [0..<nat (Clients opt)] of
        None \<Rightarrow> Panic
      | Some locals \<Rightarrow> Ok (http_merge elapsed locals))"

definition rest_Run :: "options \<Rightarrow> (nat \<Rightarrow> rest_event list) \<Rightarrow> (nat \<Rightarrow> rest_event list) \<Rightarrow> (nat \<Rightarrow> rng) \<Rightarrow> int \<Rightarrow>
    (go_error, http_outcome) outcome" where
  "rest_Run opt warm traffic seed elapsed =
     (if Requests opt = [] then Fail ''no requests in the workload''
      else let opt = (if Clients opt \<le> 0 then opt\<lparr>Clients := 8\<rparr> else opt);
               picks = weighted (Requests opt)
           in if 0 < Warmup opt
              then (case rest_drive opt picks False warm seed 0 of
                      Ok _ \<Rightarrow> rest_drive opt picks True traffic seed elapsed
                    | Fail e \<Rightarrow> Fail e | Panic \<Rightarrow> Panic)
              else rest_drive opt picks True traffic seed elapsed)"

section \<open>Accounting\<close>

text \<open>What becomes of one request: the call broke, the status was another one, or it was served.\<close>

datatype verdict = Broke string | Refused int int string | Served int int string f64 int

definition local_step :: "http_local \<Rightarrow> verdict \<Rightarrow> http_local" where
  "local_step l v =
     (case v of
        Broke said \<Rightarrow> local_fail said (l\<lparr>lRequests := lRequests l + 1\<rparr>)
      | Refused status n said \<Rightarrow>
          local_fail said (l\<lparr>lRequests := lRequests l + 1, lBytes := lBytes l + n,
            lStatus := map_upd status (plus_at 1) (lStatus l)\<rparr>)
      | Served status n name took epoch \<Rightarrow>
          local_keep name took epoch (l\<lparr>lRequests := lRequests l + 1, lBytes := lBytes l + n,
            lStatus := map_upd status (plus_at 1) (lStatus l)\<rparr>))"

definition statuses :: "http_local \<Rightarrow> nat" where "statuses l = sum_list (map snd (lStatus l))"

definition accounted :: "http_local \<Rightarrow> bool" where
  "accounted l \<longleftrightarrow> lRequests l = lErrors l + length (lSamples l)
     \<and> statuses l \<le> lRequests l \<and> lRequests l \<le> statuses l + lErrors l
     \<and> min 5 (length (lFailures l)) = min 5 (lErrors l)
     \<and> sum_list (map (\<lambda>kv. length (snd kv)) (lPerReq l)) = length (lSamples l)
     \<and> distinct (map fst (lPerReq l))"

lemma sum_merge_status: "sum_list (map snd (merge_status acc st)) = sum_list (map snd acc) + sum_list (map snd st)"
  by (simp add: merge_status_def sum_merge_counts)

lemma sum_merge_perReq:
  "sum_list (map (\<lambda>kv. length (snd kv)) (merge_perReq acc per))
     = sum_list (map (\<lambda>kv. length (snd kv)) acc) + sum_list (map (\<lambda>kv. length (snd kv)) per)"
  unfolding merge_perReq_def
  by (induction per arbitrary: acc) (auto simp: sum_append_at)

lemma keys_merge_perReq:
  "distinct (map fst acc) \<Longrightarrow> distinct (map fst (merge_perReq acc per))
     \<and> fst ` set (merge_perReq acc per) = fst ` set acc \<union> fst ` set per"
  unfolding merge_perReq_def
proof (induction per arbitrary: acc)
  case (Cons e per)
  then show ?case
    by (cases e) (simp add: distinct_map_upd keys_map_upd)
qed simp

lemma accounted_zero: "accounted local_zero"
  by (simp add: accounted_def local_zero_def statuses_def)

lemma accounted_step:
  assumes "accounted l"
  shows "accounted (local_step l v)"
proof (cases v)
  case (Broke said)
  then show ?thesis using assms
    by (auto simp: accounted_def statuses_def local_step_def local_fail_def)
next
  case (Refused status n said)
  then show ?thesis using assms
    by (auto simp: accounted_def statuses_def local_step_def local_fail_def sum_plus_at)
next
  case (Served status n name took epoch)
  then show ?thesis using assms
    by (auto simp: accounted_def statuses_def local_step_def local_keep_def sum_plus_at sum_append_at distinct_map_upd)
qed

lemma accounted_merge: "accounted acc \<Longrightarrow> accounted l \<Longrightarrow> accounted (merge_local acc l)"
  by (auto simp: accounted_def statuses_def merge_local_def sum_merge_status sum_merge_perReq keys_merge_perReq)

lemma names_step:
  "fst ` set (lPerReq (local_step l v)) \<subseteq> fst ` set (lPerReq l) \<union> {name. \<exists>s n t d. v = Served s n name t d}"
  by (cases v) (auto simp: local_step_def local_fail_def local_keep_def keys_map_upd)

lemma merge_names: "fst ` set (lPerReq (merge_local acc l)) = fst ` set (lPerReq acc) \<union> fst ` set (lPerReq l)"
proof -
  have "fst ` set (merge_perReq acc per) = fst ` set acc \<union> fst ` set per" for acc per :: "(string \<times> f64 list) list"
    unfolding merge_perReq_def
  proof (induction per arbitrary: acc)
    case (Cons e per)
    then show ?case by (cases e) (simp add: keys_map_upd)
  qed simp
  then show ?thesis by (simp add: merge_local_def)
qed

text \<open>
  A driver whose clients note a reply the way \<open>local_step\<close> does, seen through \<open>look\<close>: whatever it
  keeps beside that, and whatever replies come, its clients' books balance.
\<close>

locale load_driver =
  fixes note_reply :: "'e \<Rightarrow> 'l \<Rightarrow> 'l" and look :: "'l \<Rightarrow> http_local" and judge :: "'e \<Rightarrow> verdict"
  assumes simulates: "look (note_reply e l) = local_step (look l) (judge e)"
begin

lemma look_fold: "look (foldl (\<lambda>l e. note_reply e l) l es) = foldl local_step (look l) (map judge es)"
  by (induction es arbitrary: l) (simp_all add: simulates)

lemma client_accounted: "accounted (look l) \<Longrightarrow> accounted (look (foldl (\<lambda>l e. note_reply e l) l es))"
  unfolding look_fold by (induction es arbitrary: l rule: rev_induct) (simp_all add: accounted_step)

lemma client_names:
  "fst ` set (lPerReq (look (foldl (\<lambda>l e. note_reply e l) l es)))
     \<subseteq> fst ` set (lPerReq (look l)) \<union> {name. \<exists>e \<in> set es. \<exists>s n t d. judge e = Served s n name t d}"
  unfolding look_fold
proof (induction es rule: rev_induct)
  case (snoc e es)
  let ?m = "foldl local_step (look l) (map judge es)"
  let ?C = "\<lambda>es. {name. \<exists>e \<in> set es. \<exists>s n t d. judge e = Served s n name t d}"
  let ?D = "{name. \<exists>s n t d. judge e = Served s n name t d}"
  have D: "?C es \<union> ?D \<subseteq> ?C (es @ [e])" by auto
  have "fst ` set (lPerReq (local_step ?m (judge e))) \<subseteq> fst ` set (lPerReq ?m) \<union> ?D" by (rule names_step)
  also have "\<dots> \<subseteq> (fst ` set (lPerReq (look l)) \<union> ?C es) \<union> ?D" using snoc by (intro Un_mono) simp_all
  also have "\<dots> \<subseteq> fst ` set (lPerReq (look l)) \<union> ?C (es @ [e])" using D by blast
  finally show ?case by simp
qed simp

end

text \<open>The outcome of a driver whose clients' books balance.\<close>

definition outcome_accounted :: "http_outcome \<Rightarrow> bool" where
  "outcome_accounted out \<longleftrightarrow> out_Requests out = out_Errors out + length (out_Samples out)
     \<and> sum_list (map snd (out_Status out)) \<le> out_Requests out
     \<and> out_Requests out \<le> sum_list (map snd (out_Status out)) + out_Errors out
     \<and> length (out_Failures out) = min 5 (out_Errors out)
     \<and> distinct (map fst (out_PerRequest out))
     \<and> (\<exists>ns. map (\<lambda>(_, p). p ''requests'') (out_PerRequest out) = map (\<lambda>n. Some (f64_of_int (int n))) ns
          \<and> sum_list ns = length (out_Samples out))"

lemma merge_fold:
  assumes "\<forall>l \<in> set ls. accounted l" and "accounted acc"
  shows "accounted (foldl merge_local acc ls)
    \<and> fst ` set (lPerReq (foldl merge_local acc ls)) = fst ` set (lPerReq acc) \<union> (\<Union>l \<in> set ls. fst ` set (lPerReq l))"
  using assms by (induction ls arbitrary: acc) (auto simp: accounted_merge merge_names)

lemma http_merge_accounted:
  assumes "\<forall>l \<in> set ls. accounted l"
  shows "outcome_accounted (http_merge elapsed ls)
    \<and> fst ` set (out_PerRequest (http_merge elapsed ls)) = (\<Union>l \<in> set ls. fst ` set (lPerReq l))"
proof -
  let ?m = "foldl merge_local local_zero ls"
  have m: "accounted ?m" "fst ` set (lPerReq ?m) = (\<Union>l \<in> set ls. fst ` set (lPerReq l))"
    using merge_fold[OF assms accounted_zero] by (simp_all add: local_zero_def)
  let ?ns = "map (\<lambda>kv. length (snd kv)) (lPerReq ?m)"
  have pr: "out_PerRequest (http_merge elapsed ls) = map (\<lambda>kv. (fst kv, per_request (snd kv))) (lPerReq ?m)"
    by (auto simp: http_merge_def Let_def)
  have "map (\<lambda>(_, p). p ''requests'') (out_PerRequest (http_merge elapsed ls))
      = map (\<lambda>n. Some (f64_of_int (int n))) ?ns"
    unfolding pr by (simp add: per_request_def)
  moreover have "sum_list ?ns = length (lSamples ?m)" using m(1) by (simp add: accounted_def)
  moreover have keys: "map fst (out_PerRequest (http_merge elapsed ls)) = map fst (lPerReq ?m)"
    unfolding pr by (simp add: comp_def)
  moreover have "length (out_Failures (http_merge elapsed ls)) = min 5 (lErrors ?m)"
    using m(1) by (auto simp: accounted_def http_merge_def Let_def)
  moreover have "out_Requests (http_merge elapsed ls) = lRequests ?m" "out_Errors (http_merge elapsed ls) = lErrors ?m"
    "out_Samples (http_merge elapsed ls) = lSamples ?m" "out_Status (http_merge elapsed ls) = lStatus ?m"
    by (simp_all add: http_merge_def Let_def)
  ultimately have "outcome_accounted (http_merge elapsed ls)"
    using m(1) unfolding outcome_accounted_def accounted_def statuses_def by metis
  moreover have "fst ` set (out_PerRequest (http_merge elapsed ls)) = fst ` set (lPerReq ?m)"
    using keys by (metis list.set_map)
  ultimately show ?thesis using m(2) by simp
qed

section \<open>The rest driver's books\<close>

definition rest_verdict :: "request \<times> reply \<times> int \<Rightarrow> verdict" where
  "rest_verdict e =
     (let (req, answer, epoch) = e in
      case answer of Inl err \<Rightarrow> Broke (rq_Name req @ '': '' @ err)
      | Inr (took, status, n) \<Rightarrow>
          if status \<noteq> wanted req
          then Refused status n (rq_Name req @ '': wanted '' @ itoa (wanted req) @ '', got '' @ itoa status)
          else Served status n (rq_Name req) took epoch)"

definition rest_noted :: "request \<times> reply \<times> int \<Rightarrow> http_local \<Rightarrow> http_local" where
  "rest_noted e l = (case e of (req, answer, epoch) \<Rightarrow> rest_note True req answer epoch l)"

interpretation rest: load_driver rest_noted "\<lambda>l. l" rest_verdict
  by unfold_locales (auto simp: rest_noted_def rest_note_def rest_verdict_def local_step_def Let_def split: sum.splits)

lemma IntN_picks: "IntN (int (length xs)) g = Some (i, g') \<Longrightarrow> xs ! nat i \<in> set xs"
proof -
  assume "IntN (int (length xs)) g = Some (i, g')"
  then have "xs \<noteq> []" "i = int (fst (rng_next g)) mod int (length xs)"
    by (cases "rng_next g"; auto simp: IntN_def split: if_splits)+
  then have "nat i < length xs" by (simp add: zmod_int[symmetric])
  then show ?thesis by simp
qed

lemma rest_client_notes:
  "rest_client opt picks True es g l = Some l' \<Longrightarrow>
     \<exists>sent. l' = foldl (\<lambda>l e. rest_noted e l) l sent
       \<and> fst ` set sent \<subseteq> set picks"
proof (induction es arbitrary: g l)
  case Nil
  then show ?case by (intro exI[of _ "[]"]) simp
next
  case (Cons e es)
  obtain i g1 where i: "IntN (int (length picks)) g = Some (i, g1)"
    using Cons.prems by (auto split: option.splits)
  obtain w g2 where w: "rest_wire opt (picks ! nat i) g1 = Some (w, g2)"
    using Cons.prems i by (auto simp: Let_def split: option.splits)
  show ?case
  proof (cases "ev_ended e")
    case True
    then show ?thesis using Cons.prems i w by (intro exI[of _ "[]"]) simp
  next
    case False
    then obtain sent where
      "l' = foldl (\<lambda>l e. rest_noted e l)
          (rest_note True (picks ! nat i) (ev_reply e w) (ev_epoch e) l) sent"
      "fst ` set sent \<subseteq> set picks"
      using Cons.IH[of g2 "rest_note True (picks ! nat i) (ev_reply e w) (ev_epoch e) l"] Cons.prems i w
      by auto
    then show ?thesis using IntN_picks[OF i]
      by (intro exI[of _ "(picks ! nat i, ev_reply e w, ev_epoch e) # sent"]) (simp add: rest_noted_def)
  qed
qed

lemma rest_client_accounted:
  assumes "rest_client opt picks True es g local_zero = Some l"
  shows "accounted l \<and> fst ` set (lPerReq l) \<subseteq> rq_Name ` set picks"
proof -
  obtain sent where l: "l = foldl (\<lambda>l e. rest_noted e l) local_zero sent"
    and picks: "fst ` set sent \<subseteq> set picks" using rest_client_notes[OF assms] by blast
  have "judge = rest_verdict e \<Longrightarrow> judge = Served s n name t d \<Longrightarrow> name = rq_Name (fst e)" for judge e s n name t d
    by (auto simp: rest_verdict_def Let_def split: prod.splits sum.splits if_splits)
  then have "{name. \<exists>e \<in> set sent. \<exists>s n t d. rest_verdict e = Served s n name t d} \<subseteq> rq_Name ` set picks"
    using picks by fastforce
  moreover have "lPerReq local_zero = []" by (simp add: local_zero_def)
  ultimately have "fst ` set (lPerReq l) \<subseteq> rq_Name ` set picks"
    using rest.client_names[of local_zero sent] unfolding l by simp
  then show ?thesis using rest.client_accounted[OF accounted_zero, of sent] unfolding l by blast
qed

lemma weighted_set: "set (weighted reqs) = set reqs"
  by (auto simp: weighted_def)

text \<open>
  Whatever the server answers and the random source draws, a run's books balance: every request
  sent is a sample or an error, the statuses are all the answered requests, the failures named are
  the first five errors at most, and the shapes reported are distinct shapes of the workload whose
  request counts add up to the samples.
\<close>

theorem rest_Run_accounts:
  assumes "rest_Run opt warm traffic seed elapsed = Ok out"
  shows "outcome_accounted out \<and> fst ` set (out_PerRequest out) \<subseteq> rq_Name ` set (Requests opt)"
proof -
  obtain opt' where o: "rest_drive opt' (weighted (Requests opt)) True traffic seed elapsed = Ok out"
    using assms by (auto simp: rest_Run_def Let_def split: if_splits outcome.splits)
  then obtain ls where ls: "traverse (\<lambda>i. rest_client opt' (weighted (Requests opt)) True (traffic i) (seed i) local_zero)
        [0..<nat (Clients opt')] = Some ls" "out = http_merge elapsed ls"
    by (auto simp: rest_drive_def split: option.splits)
  have "accounted l \<and> fst ` set (lPerReq l) \<subseteq> rq_Name ` set (Requests opt)" if "l \<in> set ls" for l
  proof -
    have "Some l \<in> set (map Some ls)" using that by simp
    then obtain i where "rest_client opt' (weighted (Requests opt)) True (traffic i) (seed i) local_zero = Some l"
      unfolding traverse_Some[THEN iffD1, OF ls(1), symmetric] by auto
    from rest_client_accounted[OF this] show ?thesis by (simp add: weighted_set)
  qed
  then show ?thesis using http_merge_accounted[of ls elapsed] ls(2) by auto
qed

definition load_example :: options where
  "load_example = \<lparr>BaseURL = ''http://h'', Clients = 2, Warmup = 0,
     Requests = [request_zero\<lparr>rq_Name := ''read'', rq_Path := ''/t''\<rparr>], Tokens = [], APIKey = []\<rparr>"

definition ok_then_broken :: "nat \<Rightarrow> rest_event list" where
  "ok_then_broken i = [\<lparr>ev_reply = \<lambda>_. Inr (5, 200, 10), ev_ended = False, ev_epoch = 7\<rparr>,
     \<lparr>ev_reply = \<lambda>_. Inl ''reset'', ev_ended = False, ev_epoch = 8\<rparr>]"

lemma Expand_plain: "CHR 0x7B \<notin> set s \<Longrightarrow> Expand s g = Some (s, g)"
  by (simp add: Expand_def expand_rand.simps expand_hex.simps plain_text)

theorem rest_Run_accounts_witness:
  "\<exists>out. rest_Run load_example ok_then_broken ok_then_broken (\<lambda>_. []) 9 = Ok out \<and> outcome_accounted out"
proof -
  have "weighted (Requests load_example) = Requests load_example"
    by (simp add: weighted_def load_example_def request_zero_def)
  then have "\<exists>out. rest_Run load_example ok_then_broken ok_then_broken (\<lambda>_. []) 9 = Ok out"
    by (simp add: rest_Run_def load_example_def rest_drive_def upt_rec ok_then_broken_def IntN_def rng_next_def
        rest_wire_def request_text_def request_zero_def Expand_plain Let_def)
  then show ?thesis using rest_Run_accounts by blast
qed

end
