(* ===== verification/Sustain.thy ===== *)
theory Sustain
  imports Latency Json
begin

text \<open>
  Package \<open>sustain\<close> (src/sustain/sustain.go): the arithmetic that decides whether a soak passed.
  The status and fold parsers, the read amplification gate, the recovery time summary, the ledger
  of acknowledged writes and the parser of a collection sweep's summary line.
\<close>

section \<open>Compaction status\<close>

record ShardStatus =
  Shard :: int
  Debt :: int
  Amp :: f64
  Bound :: f64

definition ShardStatus_fields :: "ShardStatus fields" where
  "ShardStatus_fields =
     [(''shard'', on_field dec_int Shard (\<lambda>v. Shard_update (\<lambda>_. v))),
      (''debt'', on_field dec_int Debt (\<lambda>v. Debt_update (\<lambda>_. v))),
      (''amp'', on_field dec_float Amp (\<lambda>v. Amp_update (\<lambda>_. v))),
      (''bound'', on_field dec_float Bound (\<lambda>v. Bound_update (\<lambda>_. v)))]"

definition ParseCompactStatus :: "string \<Rightarrow> ShardStatus list go_result" where
  "ParseCompactStatus raw =
     (case json_Unmarshal
         (dec_list \<lparr>Shard = 0, Debt = 0, Amp = 0, Bound = 0\<rparr> (dec_struct False ShardStatus_fields)) raw [] of
        None \<Rightarrow> Inl ''compact status: json''
      | Some shards \<Rightarrow> Inr shards)"

definition MaxAmp :: "ShardStatus list \<Rightarrow> f64 \<times> bool" where
  "MaxAmp shards =
     foldl (\<lambda>(amp, over) s.
        (if amp < Amp s then Amp s else amp,
         if 0 < Bound s \<and> Bound s < Amp s then True else over)) (0, False) shards"

text \<open>The loop of \<open>BoundHeld\<close> from index \<open>i\<close>.\<close>

function bound_held_from :: "bool list \<Rightarrow> nat \<Rightarrow> bool" where
  "bound_held_from over i =
     (if i < length over then
        if over ! i \<and> over ! (i - 1) then False else bound_held_from over (i + 1)
      else True)"
  by pat_completeness auto
termination by (relation "measure (\<lambda>(over, i). length over - i)") auto

declare bound_held_from.simps [simp del]

definition BoundHeld :: "bool list \<Rightarrow> bool" where
  "BoundHeld over = bound_held_from over 1"

lemma MaxAmp_snoc:
  "MaxAmp (xs @ [s]) = (max (fst (MaxAmp xs)) (Amp s), snd (MaxAmp xs) \<or> 0 < Bound s \<and> Bound s < Amp s)"
  by (auto simp: MaxAmp_def split: prod.splits)

lemma MaxAmp_Nil: "MaxAmp [] = (0, False)"
  by (simp add: MaxAmp_def)

lemma MaxAmp_fst: "fst (MaxAmp xs) = Max (insert 0 (Amp ` set xs))"
proof (induction xs rule: rev_induct)
  case (snoc s xs)
  have "insert 0 (Amp ` set (xs @ [s])) = insert (Amp s) (insert 0 (Amp ` set xs))" by auto
  then show ?case using snoc by (simp add: MaxAmp_snoc max.commute)
qed (simp add: MaxAmp_Nil)

lemma MaxAmp_snd: "snd (MaxAmp xs) \<longleftrightarrow> (\<exists>s \<in> set xs. 0 < Bound s \<and> Bound s < Amp s)"
  by (induction xs rule: rev_induct) (auto simp: MaxAmp_Nil MaxAmp_snoc)

lemma bound_held_from_iff:
  "bound_held_from over i \<longleftrightarrow> \<not> (\<exists>j \<ge> i. j < length over \<and> over ! j \<and> over ! (j - 1))"
proof (induction over i rule: bound_held_from.induct)
  case (1 over i)
  show ?case
  proof (cases "i < length over \<and> \<not> (over ! i \<and> over ! (i - 1))")
    case True
    then have "(\<exists>j \<ge> i. j < length over \<and> over ! j \<and> over ! (j - 1))
        \<longleftrightarrow> (\<exists>j \<ge> i + 1. j < length over \<and> over ! j \<and> over ! (j - 1))"
      by (metis Suc_eq_plus1 Suc_leD Suc_leI le_neq_implies_less)
    then show ?thesis using 1 True by (subst bound_held_from.simps) auto
  next
    case False
    then show ?thesis by (subst bound_held_from.simps) auto
  qed
qed

text \<open>
  The amplification gate over a run's status samples: the samples are reduced by \<open>MaxAmp\<close> and the
  flags judged by \<open>BoundHeld\<close>, as the soak does.
\<close>

definition amp_gate :: "ShardStatus list list \<Rightarrow> bool" where
  "amp_gate samples = BoundHeld (map (\<lambda>s. snd (MaxAmp s)) samples)"

definition violates :: "ShardStatus list \<Rightarrow> bool" where
  "violates sample \<longleftrightarrow> (\<exists>s \<in> set sample. 0 < Bound s \<and> Bound s < Amp s)"

lemma shift_pair:
  "(\<exists>j \<ge> 1. j < n \<and> P j \<and> P (j - 1)) \<longleftrightarrow> (\<exists>i. i + 1 < n \<and> P (i + 1) \<and> P (i :: nat))"
proof
  assume "\<exists>j \<ge> 1. j < n \<and> P j \<and> P (j - 1)"
  then obtain j where "1 \<le> j" "j < n" "P j" "P (j - 1)" by blast
  then show "\<exists>i. i + 1 < n \<and> P (i + 1) \<and> P i" by (intro exI[of _ "j - 1"]) simp
next
  assume "\<exists>i. i + 1 < n \<and> P (i + 1) \<and> P i"
  then obtain i where "i + 1 < n" "P (i + 1)" "P i" by blast
  then show "\<exists>j \<ge> 1. j < n \<and> P j \<and> P (j - 1)" by (intro exI[of _ "i + 1"]) simp
qed

text \<open>
  The amplification gate of a soak fails exactly when two samples in a row each hold a shard
  over its own bound, and each sample's published amplification is its worst shard's.
\<close>

theorem amp_gate_iff:
  "(amp_gate samples \<longleftrightarrow> \<not> (\<exists>i. i + 1 < length samples \<and> violates (samples ! i) \<and> violates (samples ! (i + 1))))
   \<and> (\<forall>sample. fst (MaxAmp sample) = Max (insert 0 (Amp ` set sample)))"
proof -
  let ?over = "map (\<lambda>s. snd (MaxAmp s)) samples"
  have "BoundHeld ?over \<longleftrightarrow> \<not> (\<exists>j \<ge> 1. j < length samples \<and> ?over ! j \<and> ?over ! (j - 1))"
    by (simp add: BoundHeld_def bound_held_from_iff)
  also have "(\<exists>j \<ge> 1. j < length samples \<and> ?over ! j \<and> ?over ! (j - 1))
      \<longleftrightarrow> (\<exists>i. i + 1 < length samples \<and> ?over ! (i + 1) \<and> ?over ! i)"
    by (rule shift_pair)
  also have "\<dots> \<longleftrightarrow> (\<exists>i. i + 1 < length samples \<and> violates (samples ! i) \<and> violates (samples ! (i + 1)))"
    by (intro ex_cong1) (auto simp: violates_def MaxAmp_snd)
  finally show ?thesis by (simp add: amp_gate_def MaxAmp_fst)
qed

section \<open>Drills and recovery times\<close>

record Drill =
  drill_Seq :: int
  drill_Mode :: string
  drill_T :: f64
  RTOms :: "f64 option"
  LedgerOK :: bool
  BalanceOK :: "bool option"
  KillError :: string
  CheckError :: string

record rto_stats =
  rto_p50 :: f64
  rto_p95 :: f64
  rto_max :: f64
  rto_count :: nat

text \<open>Reading a missing key of a Go map gives the zero value.\<close>

definition at_zero :: "(string \<rightharpoonup> f64) \<Rightarrow> string \<Rightarrow> f64" where
  "at_zero p k = (case p k of None \<Rightarrow> 0 | Some v \<Rightarrow> v)"

definition rto_samples :: "Drill list \<Rightarrow> (string \<times> sample list) list" where
  "rto_samples drills =
     group_by drill_Mode (\<lambda>d. \<lparr>MS = the (RTOms d), Epoch = 0\<rparr>) (filter (\<lambda>d. RTOms d \<noteq> None) drills)"

definition RTOSummary :: "Drill list \<Rightarrow> (string \<times> rto_stats) list" where
  "RTOSummary drills =
     map (\<lambda>(mode, samples).
       let p = latency_Percentiles samples
       in (mode, \<lparr>rto_p50 = at_zero p ''p50'', rto_p95 = at_zero p ''p95'', rto_max = at_zero p ''max'',
             rto_count = length samples\<rparr>)) (rto_samples drills)"

section \<open>The ledger of acknowledged writes\<close>

record Ledger =
  next_id :: int
  acked :: "int list"

definition NewLedger :: Ledger where
  "NewLedger = \<lparr>next_id = 1, acked = []\<rparr>"

definition Ledger_Next :: "Ledger \<Rightarrow> int \<times> Ledger" where
  "Ledger_Next l = (next_id l, l\<lparr>next_id := next_id l + 1\<rparr>)"

definition Ledger_Ack :: "int \<Rightarrow> Ledger \<Rightarrow> Ledger" where
  "Ledger_Ack i l = l\<lparr>acked := acked l @ [i]\<rparr>"

definition Ledger_Acked :: "Ledger \<Rightarrow> nat" where
  "Ledger_Acked l = length (acked l)"

definition Ledger_MaxAcked :: "Ledger \<Rightarrow> int" where
  "Ledger_MaxAcked l = (if acked l = [] then 0 else last (acked l))"

text \<open>
  The loop of \<open>Chunks\<close> from \<open>lo\<close>. It does not return for a chunk size of zero, and for a negative
  size \<open>lo\<close> goes negative and the slice expression panics; both are \<open>None\<close>.
\<close>

partial_function (option) chunks_from :: "int list \<Rightarrow> int \<Rightarrow> int \<Rightarrow> int list list option" where
  "chunks_from xs sz lo =
     (if lo < int (length xs) then
        (let hi = min (lo + sz) (int (length xs)) in
         if hi < lo then None
         else Option.bind (chunks_from xs sz (lo + sz))
           (\<lambda>out. Some (take (nat (hi - lo)) (drop (nat lo) xs) # out)))
      else Some [])"

definition Ledger_Chunks :: "int \<Rightarrow> Ledger \<Rightarrow> int list list option" where
  "Ledger_Chunks sz l = chunks_from (acked l) sz 0"

lemma chunks_from_spec:
  assumes "0 < sz" and "0 \<le> lo"
  shows "\<exists>out. chunks_from xs sz lo = Some out \<and> concat out = drop (nat lo) xs
    \<and> (\<forall>c \<in> set out. c \<noteq> [] \<and> length c \<le> nat sz)"
  using assms(2)
proof (induction "nat (int (length xs) - lo)" arbitrary: lo rule: less_induct)
  case less
  show ?case
  proof (cases "lo < int (length xs)")
    case False
    then show ?thesis using less.prems by (subst chunks_from.simps) auto
  next
    case True
    let ?hi = "min (lo + sz) (int (length xs))"
    let ?c = "take (nat (?hi - lo)) (drop (nat lo) xs)"
    obtain out where out: "chunks_from xs sz (lo + sz) = Some out"
      "concat out = drop (nat (lo + sz)) xs" "\<forall>c \<in> set out. c \<noteq> [] \<and> length c \<le> nat sz"
      using less.hyps[of "lo + sz"] less.prems assms(1) True by auto
    have "?c @ drop (nat (lo + sz)) xs = drop (nat lo) xs"
    proof (cases "lo + sz \<le> int (length xs)")
      case le: True
      have "nat (lo + sz) = nat (?hi - lo) + nat lo" using le less.prems assms(1) by simp
      then have "drop (nat (lo + sz)) xs = drop (nat (?hi - lo)) (drop (nat lo) xs)" by simp
      then show ?thesis by (metis append_take_drop_id)
    next
      case gt: False
      then have "length (drop (nat lo) xs) \<le> nat (?hi - lo)" using True less.prems by simp
      then show ?thesis using gt by simp
    qed
    moreover have "?c \<noteq> []" "length ?c \<le> nat sz"
      using True assms(1) less.prems by auto
    ultimately show ?thesis using True out assms(1)
      by (subst chunks_from.simps) (auto simp: Let_def)
  qed
qed

text \<open>
  Splitting the ledger for verification returns for every positive chunk size, and the chunks,
  none of them empty or longer than asked, hold every acknowledged id once and in order.
\<close>

theorem Ledger_Chunks_total:
  assumes "0 < sz"
  shows "\<exists>out. Ledger_Chunks sz l = Some out \<and> concat out = acked l
    \<and> (\<forall>c \<in> set out. c \<noteq> [] \<and> length c \<le> nat sz)"
  using chunks_from_spec[OF assms, of 0 "acked l"] by (simp add: Ledger_Chunks_def)

theorem Ledger_Chunks_total_witness:
  "\<exists>out. Ledger_Chunks 2 \<lparr>next_id = 9, acked = [1, 4, 5]\<rparr> = Some out \<and> concat out = [1, 4, 5]"
  using Ledger_Chunks_total[of 2 "\<lparr>next_id = 9, acked = [1, 4, 5]\<rparr>"] by auto

section \<open>Fold reports\<close>

record FoldShard =
  fold_Shard :: int
  fold_Horizon :: string
  Retired :: int
  Outputs :: int
  Imaged :: int
  Unbased :: int
  Pinned :: int
  BytesBefore :: int
  BytesAfter :: int

record FoldReport =
  Horizon :: string
  DataChecksums :: bool
  Shards :: "FoldShard list"

definition FoldShard_zero :: FoldShard where
  "FoldShard_zero = \<lparr>fold_Shard = 0, fold_Horizon = [], Retired = 0, Outputs = 0, Imaged = 0,
     Unbased = 0, Pinned = 0, BytesBefore = 0, BytesAfter = 0\<rparr>"

definition FoldShard_fields :: "FoldShard fields" where
  "FoldShard_fields =
     [(''shard'', on_field dec_int fold_Shard (\<lambda>v. fold_Shard_update (\<lambda>_. v))),
      (''horizon'', on_field dec_string fold_Horizon (\<lambda>v. fold_Horizon_update (\<lambda>_. v))),
      (''retired'', on_field dec_int Retired (\<lambda>v. Retired_update (\<lambda>_. v))),
      (''outputs'', on_field dec_int Outputs (\<lambda>v. Outputs_update (\<lambda>_. v))),
      (''imaged'', on_field dec_int Imaged (\<lambda>v. Imaged_update (\<lambda>_. v))),
      (''unbased'', on_field dec_int Unbased (\<lambda>v. Unbased_update (\<lambda>_. v))),
      (''pinned'', on_field dec_int Pinned (\<lambda>v. Pinned_update (\<lambda>_. v))),
      (''bytes_before'', on_field dec_int BytesBefore (\<lambda>v. BytesBefore_update (\<lambda>_. v))),
      (''bytes_after'', on_field dec_int BytesAfter (\<lambda>v. BytesAfter_update (\<lambda>_. v)))]"

definition FoldReport_fields :: "FoldReport fields" where
  "FoldReport_fields =
     [(''horizon'', on_field dec_string Horizon (\<lambda>v. Horizon_update (\<lambda>_. v))),
      (''data_checksums'', on_field dec_bool DataChecksums (\<lambda>v. DataChecksums_update (\<lambda>_. v))),
      (''shards'', on_field (dec_list FoldShard_zero (dec_struct False FoldShard_fields)) Shards
         (\<lambda>v. Shards_update (\<lambda>_. v)))]"

definition ParseFoldReport :: "string \<Rightarrow> FoldReport go_result" where
  "ParseFoldReport raw =
     (case json_Unmarshal (dec_struct False FoldReport_fields) raw
         \<lparr>Horizon = [], DataChecksums = False, Shards = []\<rparr> of
        None \<Rightarrow> Inl ''fold report: json''
      | Some rep \<Rightarrow> if Horizon rep = [] then Inl ''fold report: no horizon'' else Inr rep)"

definition FoldTotals :: "FoldReport \<Rightarrow> int \<times> int \<times> int" where
  "FoldTotals r =
     foldl (\<lambda>(before, after, retired) s.
        (before + BytesBefore s, after + BytesAfter s, retired + Retired s)) (0, 0, 0) (Shards r)"

lemma FoldTotals_sums:
  "FoldTotals r = (sum_list (map BytesBefore (Shards r)), sum_list (map BytesAfter (Shards r)),
     sum_list (map Retired (Shards r)))"
proof -
  have "foldl (\<lambda>(b, a, t) s. (b + BytesBefore s, a + BytesAfter s, t + Retired s)) (b, a, t) xs
      = (b + sum_list (map BytesBefore xs), a + sum_list (map BytesAfter xs), t + sum_list (map Retired xs))"
    for b a t :: int and xs :: "FoldShard list"
    by (induction xs arbitrary: b a t) simp_all
  then show ?thesis by (simp add: FoldTotals_def)
qed

section \<open>Collection sweeps\<close>

record GcSummary =
  Tenants :: int
  Deleted :: int
  Candidates :: int

fun countBefore_from :: "string \<Rightarrow> string list \<Rightarrow> string \<Rightarrow> int go_result" where
  "countBefore_from prev [] word = Inl (''gc summary: nothing before '' @ Quote word)"
| "countBefore_from prev (f # fs) word =
     (if f = word then
        (case Atoi (TrimSuffix prev '','') of
           None \<Rightarrow> Inl (''gc summary: '' @ Quote prev @ '' before '' @ Quote word @ '' is not a number'')
         | Some n \<Rightarrow> Inr n)
      else countBefore_from f fs word)"

definition countBefore :: "string list \<Rightarrow> string \<Rightarrow> int go_result" where
  "countBefore words word =
     (case words of [] \<Rightarrow> Inl (''gc summary: nothing before '' @ Quote word)
      | f # fs \<Rightarrow> countBefore_from f fs word)"

definition gc_line :: "string \<Rightarrow> string" where
  "gc_line raw =
     foldl (\<lambda>line l. let l = TrimSpace l in if l \<noteq> [] then l else line) [] (split_lines raw)"

definition ParseGcSummary :: "string \<Rightarrow> GcSummary go_result" where
  "ParseGcSummary raw =
     (let line = gc_line raw; f = strings_Fields line in
      if length f < 6 \<or> f ! (length f - 1) \<noteq> ''window''
      then Inl (''gc summary: '' @ Quote line @ '' is not a sweep summary'')
      else case countBefore f ''tenants,'' of Inl e \<Rightarrow> Inl e | Inr t \<Rightarrow>
           case countBefore f ''objects,'' of Inl e \<Rightarrow> Inl e | Inr d \<Rightarrow>
           case countBefore f ''waiting'' of Inl e \<Rightarrow> Inl e | Inr c \<Rightarrow>
             Inr \<lparr>Tenants = t, Deleted = d, Candidates = c\<rparr>)"

text \<open>The line a sweep ends with, and the one of a dry run.\<close>

definition sweep_line :: "bool \<Rightarrow> int \<Rightarrow> int \<Rightarrow> int \<Rightarrow> string \<Rightarrow> string" where
  "sweep_line dry t d c window = strings_Join
     ([itoa t, ''tenants,''] @ (if dry then [''would'', ''delete''] else [''deleted''])
      @ [itoa d, ''objects,'', itoa c, ''waiting'', ''out'', ''the'', window, ''window'']) '' ''"

lemma sweep_words:
  assumes "window \<noteq> []" and "\<forall>c \<in> set window. \<not> is_space c"
  shows "strings_Fields (sweep_line dry t d c window) =
     [itoa t, ''tenants,''] @ (if dry then [''would'', ''delete''] else [''deleted''])
      @ [itoa d, ''objects,'', itoa c, ''waiting'', ''out'', ''the'', window, ''window'']"
  unfolding sweep_line_def using assms itoa_not_space itoa_ne
  by (intro Fields_Join) (auto simp: is_space_def)

lemma sweep_line_trim: "TrimSpace (sweep_line dry t d c window) = sweep_line dry t d c window"
proof (rule TrimSpace_edges)
  show "\<not> is_space (hd (sweep_line dry t d c window))"
    using itoa_not_space[of "hd (itoa t)" t] by (simp add: sweep_line_def)
  have "last (sweep_line dry t d c window) = CHR ''w''" by (simp add: sweep_line_def)
  then show "\<not> is_space (last (sweep_line dry t d c window))" by (simp add: is_space_def)
qed (simp add: sweep_line_def)

lemma gc_line_last:
  assumes "TrimSpace line = line" and "line \<noteq> []" and "CHR 0x0A \<notin> set line"
  shows "gc_line (pre @ newline @ line @ newline) = line"
proof -
  have "split_by (\<lambda>c. c = CHR 0x0A) line = [line]" by (rule split_by_single) (use assms(3) in auto)
  then have "split_lines (pre @ newline @ line @ newline) = split_lines pre @ [line, []]"
    using assms(3) by (simp add: newline_def strings_Split_def split_by_sep split_by_append)
  then show ?thesis using assms by (simp add: gc_line_def Let_def)
qed

text \<open>
  Whatever a sweep logged before it, the summary line it ends with, real or dry run, is read
  back as the counts it was printed from.
\<close>

theorem ParseGcSummary_roundtrip:
  assumes "window \<noteq> []" and "\<forall>c \<in> set window. \<not> is_space c"
    and "\<forall>n \<in> {t, d, c}. - (2 ^ 63) \<le> n \<and> n < 2 ^ 63"
  shows "ParseGcSummary (pre @ newline @ sweep_line dry t d c window @ newline)
    = Inr \<lparr>Tenants = t, Deleted = d, Candidates = c\<rparr>"
proof -
  have nl: "CHR 0x0A \<notin> set (sweep_line dry t d c window)"
    using assms(2) itoa_not_space[of "CHR 0x0A"]
    by (auto simp: sweep_line_def is_space_def)
  have "sweep_line dry t d c window \<noteq> []" by (simp add: sweep_line_def itoa_ne)
  then have line: "gc_line (pre @ newline @ sweep_line dry t d c window @ newline)
      = sweep_line dry t d c window"
    using nl by (intro gc_line_last sweep_line_trim)
  have int: "Atoi (itoa t) = Some t" "Atoi (itoa d) = Some d" "Atoi (itoa c) = Some c"
    using assms(3) by (auto intro: Atoi_itoa)
  show ?thesis
    by (simp add: ParseGcSummary_def line sweep_words[OF assms(1,2)] Let_def countBefore_def
        itoa_neq TrimSuffix_itoa is_digit_def int)
qed

theorem ParseGcSummary_roundtrip_witness:
  "ParseGcSummary ([] @ newline @ sweep_line True 3 128 64 ''2m'' @ newline)
     = Inr \<lparr>Tenants = 3, Deleted = 128, Candidates = 64\<rparr>"
  by (rule ParseGcSummary_roundtrip) (simp_all add: is_space_def)

end
