(* ===== verification/Soak.thy ===== *)
theory Soak
  imports Sustain GoTime
begin

text \<open>
  The soak driver's own machinery (src/cmd/zoubench/sustain.go): the recovery clock, statements
  with retries, the ledger's write stream, one tick of each background loop, the identities that
  are checked after a drill, the process lookups a drill kills by, and how a result file is saved.
  The database, the clock and the programs it runs are parameters: an answer per attempt, a time
  per iteration, the outcome of a system call.
\<close>

definition round1 :: "f64 \<Rightarrow> f64" where "round1 v = round_int 10 v"
definition cmd_round3 :: "f64 \<Rightarrow> f64" where "cmd_round3 v = round_int 1000 v"

section \<open>Statements with retries\<close>

text \<open>
  \<open>clock i\<close> is the time \<open>waitWrite\<close> reads at the start of its attempt \<open>i\<close>, \<open>attempt i\<close> what
  dialing and running the statement came to, \<open>done i\<close> the time after it.
\<close>

partial_function (option) waitWrite_from ::
    "(nat \<Rightarrow> int) \<Rightarrow> (nat \<Rightarrow> string go_result) \<Rightarrow> (nat \<Rightarrow> int) \<Rightarrow> int \<Rightarrow> int \<Rightarrow> nat \<Rightarrow> f64 option option" where
  "waitWrite_from clock attempt finished start deadline i =
     (if clock i < deadline then
        (case attempt i of
           Inr _ \<Rightarrow> Some (Some (ms (finished i - start)))
         | Inl _ \<Rightarrow> waitWrite_from clock attempt finished start deadline (i + 1))
      else Some None)"

definition waitWrite ::
    "(nat \<Rightarrow> int) \<Rightarrow> (nat \<Rightarrow> string go_result) \<Rightarrow> (nat \<Rightarrow> int) \<Rightarrow> int \<Rightarrow> int \<Rightarrow> f64 option option" where
  "waitWrite clock attempt finished start deadline = waitWrite_from clock attempt finished start deadline 0"

fun soakQuery_from :: "(nat \<Rightarrow> string go_result) \<Rightarrow> nat list \<Rightarrow> go_error \<Rightarrow> string go_result" where
  "soakQuery_from attempt [] last_err = Inl last_err"
| "soakQuery_from attempt (i # is) last_err =
     (case attempt i of Inr v \<Rightarrow> Inr v | Inl e \<Rightarrow> soakQuery_from attempt is e)"

definition soakQuery :: "(nat \<Rightarrow> string go_result) \<Rightarrow> string go_result" where
  "soakQuery attempt = soakQuery_from attempt [0..<5] []"

lemma waitWrite_from_first:
  assumes "i \<le> k" and "\<forall>j. i \<le> j \<and> j < k \<longrightarrow> clock j < deadline \<and> isl (attempt j)"
  shows "waitWrite_from clock attempt finished start deadline i
    = waitWrite_from clock attempt finished start deadline k"
  using assms
proof (induction "k - i" arbitrary: i)
  case 0
  then show ?case by simp
next
  case (Suc n)
  then have "clock i < deadline" "isl (attempt i)" by auto
  then have "waitWrite_from clock attempt finished start deadline i
      = waitWrite_from clock attempt finished start deadline (i + 1)"
    by (subst waitWrite_from.simps) (auto simp: isl_def)
  then show ?case using Suc.hyps(1)[of "i + 1"] Suc.hyps(2) Suc.prems by auto
qed

text \<open>
  The recovery clock always stops once the clock passes the deadline, and what it reports is
  the time of the first attempt that committed before the deadline: a recovery time is published
  if and only if there is such an attempt, so a server that never came back has none rather than
  a zero.
\<close>

theorem waitWrite_first_commit:
  assumes "\<exists>n. deadline \<le> clock n"
  shows "(\<exists>k. waitWrite clock attempt finished start deadline = Some (Some (ms (finished k - start))) \<and> (\<exists>v. attempt k = Inr v)
        \<and> (\<forall>j \<le> k. clock j < deadline) \<and> (\<forall>j < k. isl (attempt j)))
    \<or> (\<exists>n. waitWrite clock attempt finished start deadline = Some None \<and> deadline \<le> clock n \<and> (\<forall>j < n. isl (attempt j)))"
proof -
  let ?stop = "\<lambda>i. deadline \<le> clock i \<or> (\<exists>v. attempt i = Inr v)"
  define k where "k = (LEAST i. ?stop i)"
  have "\<exists>i. ?stop i" using assms(1) by blast
  then have k: "?stop k" unfolding k_def by (rule LeastI_ex)
  have before: "\<not> ?stop j" if "j < k" for j using that unfolding k_def by (rule not_less_Least)
  have fails: "isl (attempt j)" "clock j < deadline" if "j < k" for j
    using before[OF that] by (cases "attempt j"; simp)+
  define out where "out = waitWrite clock attempt finished start deadline"
  have out: "out = waitWrite_from clock attempt finished start deadline k"
    unfolding out_def waitWrite_def using fails by (intro waitWrite_from_first) auto
  show ?thesis
  proof (cases "clock k < deadline")
    case True
    then obtain v where v: "attempt k = Inr v" using k by auto
    then have "out = Some (Some (ms (finished k - start)))"
      unfolding out using True by (subst waitWrite_from.simps) simp
    moreover have "\<forall>j \<le> k. clock j < deadline" using True fails(2) by (auto simp: le_less)
    ultimately show ?thesis using v fails(1) unfolding out_def by blast
  next
    case False
    then have "out = Some None" unfolding out by (subst waitWrite_from.simps) simp
    moreover have "deadline \<le> clock k" using False by simp
    ultimately show ?thesis using fails(1) unfolding out_def by blast
  qed
qed

theorem waitWrite_first_commit_witness:
  "\<exists>r. waitWrite (\<lambda>i. int i * 25000000) (\<lambda>i. if i < 3 then Inl ''refused'' else Inr [])
     (\<lambda>i. int i * 25000000 + 1) 0 3600000000000 = Some r"
proof -
  have "\<exists>n. (3600000000000 :: int) \<le> int n * 25000000" by (rule exI[of _ 144000]) simp
  from waitWrite_first_commit[OF this] show ?thesis by blast
qed

lemma soakQuery_from_Inr:
  "soakQuery_from attempt is e = Inr v \<Longrightarrow> \<exists>i \<in> set is. attempt i = Inr v"
  by (induction attempt "is" e rule: soakQuery_from.induct) (auto split: sum.splits)

lemma soakQuery_const: "(\<And>i. attempt i = Inr v) \<Longrightarrow> soakQuery attempt = Inr v"
  by (simp add: soakQuery_def upt_rec)

section \<open>The ledger's write stream\<close>

text \<open>
  One round of \<open>ledgerWriter\<close>: dial when there is no connection, take an id, insert it, record it
  only when the insert returned. \<open>rows\<close> is the table: an insert that returned is in it, one whose
  answer was lost may be.
\<close>

record writer_state =
  conn :: bool
  led :: Ledger
  rows :: "int list"

datatype tick = DialFailed | InsertReturned | AnswerLost bool

definition ledger_tick :: "tick \<Rightarrow> writer_state \<Rightarrow> writer_state" where
  "ledger_tick t w =
     (let (i, l) = Ledger_Next (led w) in
        case t of
          DialFailed \<Rightarrow> w
        | InsertReturned \<Rightarrow> w\<lparr>conn := True, led := Ledger_Ack i l, rows := rows w @ [i]\<rparr>
        | AnswerLost landed \<Rightarrow> w\<lparr>conn := False, led := l, rows := (if landed then rows w @ [i] else rows w)\<rparr>)"

definition writer_start :: writer_state where
  "writer_start = \<lparr>conn = False, led = NewLedger, rows = []\<rparr>"

inductive writer_run :: "writer_state \<Rightarrow> bool" where
  start: "writer_run writer_start"
| tick: "writer_run w \<Longrightarrow> writer_run (ledger_tick t w)"

definition writer_inv :: "writer_state \<Rightarrow> bool" where
  "writer_inv w \<longleftrightarrow> sorted_wrt (<) (acked (led w)) \<and> set (acked (led w)) \<subseteq> set (rows w)
     \<and> sorted_wrt (<) (rows w) \<and> (\<forall>i \<in> set (rows w). 0 < i \<and> i < next_id (led w)) \<and> 0 < next_id (led w)"

lemma writer_inv_tick: "writer_inv w \<Longrightarrow> writer_inv (ledger_tick t w)"
  by (cases t)
    (auto simp: writer_inv_def ledger_tick_def Ledger_Next_def Ledger_Ack_def sorted_wrt_append
      dest: subsetD)

lemma writer_run_inv: "writer_run w \<Longrightarrow> writer_inv w"
proof (induction rule: writer_run.induct)
  case start
  then show ?case by (simp add: writer_inv_def writer_start_def NewLedger_def)
next
  case (tick w t)
  then show ?case by (simp add: writer_inv_tick)
qed

lemma last_of_ascending: "sorted_wrt (<) xs \<Longrightarrow> (x :: int) \<in> set xs \<Longrightarrow> x \<le> last xs"
  by (induction xs) (auto simp: less_imp_le)



section \<open>The identities\<close>

definition ledger_sql :: "int list \<Rightarrow> string" where
  "ledger_sql chunk =
     ''select count(*) from zoubench_ledger where id = any('{'' @ strings_Join (map itoa chunk) '',''
       @ ''}'::bigint[])''"

text \<open>\<open>query sql i\<close> is the answer the attempt \<open>i\<close> at a statement gets.\<close>

fun verify_chunks :: "(string \<Rightarrow> nat \<Rightarrow> string go_result) \<Rightarrow> int list list \<Rightarrow> bool \<times> go_error option" where
  "verify_chunks query [] = (True, None)"
| "verify_chunks query (chunk # cs) =
     (case soakQuery (query (ledger_sql chunk)) of
        Inl e \<Rightarrow> (False, Some (''ledger check: '' @ e))
      | Inr got \<Rightarrow> if got \<noteq> itoa (int (length chunk)) then (False, None) else verify_chunks query cs)"

definition verifyLedger :: "(string \<Rightarrow> nat \<Rightarrow> string go_result) \<Rightarrow> Ledger \<Rightarrow> (bool \<times> go_error option) option" where
  "verifyLedger query l = map_option (verify_chunks query) (Ledger_Chunks 10000 l)"

definition balance_sql :: string where
  "balance_sql =
     ''select coalesce(sum(delta),0) = (select sum(abalance) from pgbench_accounts)''
     @ '' and coalesce(sum(delta),0) = (select sum(bbalance) from pgbench_branches)''
     @ '' and coalesce(sum(delta),0) = (select sum(tbalance) from pgbench_tellers)''
     @ '' from pgbench_history''"

definition verifyBalance :: "(string \<Rightarrow> nat \<Rightarrow> string go_result) \<Rightarrow> bool \<times> go_error option" where
  "verifyBalance query =
     (case soakQuery (query balance_sql) of
        Inl e \<Rightarrow> (False, Some (''balance check: '' @ e))
      | Inr got \<Rightarrow> (got = ''t'', None))"

text \<open>A database that answers the ledger's count query from a table without repeated ids.\<close>

definition counts_from :: "(string \<Rightarrow> nat \<Rightarrow> string go_result) \<Rightarrow> int list \<Rightarrow> bool" where
  "counts_from query table \<longleftrightarrow>
     (\<forall>chunk i. (\<forall>x \<in> set chunk. 0 < x \<and> x < 2 ^ 63) \<longrightarrow>
        query (ledger_sql chunk) i = Inr (itoa (int (length (filter (\<lambda>x. x \<in> set chunk) table)))))"

text \<open>One such database: it reads the ids between the braces of the statement.\<close>

definition table_db :: "int list \<Rightarrow> string \<Rightarrow> nat \<Rightarrow> string go_result" where
  "table_db table sql i =
     (let ids = map Atoi (strings_Split (takeWhile (\<lambda>c. c \<noteq> CHR 0x7D) (drop 54 sql)) (CHR '',''))
      in Inr (itoa (int (length (filter (\<lambda>x. Some x \<in> set ids) table)))))"

lemma itoa_chars: "c \<in> set (itoa n) \<Longrightarrow> is_digit c \<or> c = CHR ''-''"
  using nat_text_spec[of "nat n"] nat_text_spec[of "nat (- n)"]
  by (auto simp: itoa_def list_all_iff split: if_splits)

lemma itoa_without: "\<not> is_digit c \<Longrightarrow> c \<noteq> CHR ''-'' \<Longrightarrow> c \<notin> set (itoa n)"
  using itoa_chars by blast

lemma Join_chars: "c \<in> set (strings_Join ss sep) \<Longrightarrow> (\<exists>s \<in> set ss. c \<in> set s) \<or> c \<in> set sep"
  by (induction ss sep rule: strings_Join.induct) auto

lemma table_db_counts: "counts_from (table_db table) table"
proof -
  have count: "table_db table (ledger_sql chunk) i
      = Inr (itoa (int (length (filter (\<lambda>x. x \<in> set chunk) table))))"
    if small: "\<forall>x \<in> set chunk. 0 < x \<and> x < 2 ^ 63" for chunk i
  proof -
    let ?ids = "strings_Join (map itoa chunk) '',''"
    have "c \<noteq> CHR 0x7D" if "c \<in> set ?ids" for c
      using Join_chars[OF that] itoa_without[of "CHR 0x7D"] by (auto simp: is_digit_def)
    then have "takeWhile (\<lambda>c. c \<noteq> CHR 0x7D) (drop 54 (ledger_sql chunk)) = ?ids"
      by (simp add: ledger_sql_def takeWhile_append2 del: strings_Join.simps)
    moreover have "set (map Atoi (strings_Split ?ids (CHR '',''))) - {None} = Some ` set chunk"
    proof (cases "chunk = []")
      case True
      then show ?thesis by (simp add: strings_Split_def Atoi_def)
    next
      case False
      have "CHR '','' \<notin> set (itoa x)" for x by (rule itoa_without) (simp_all add: is_digit_def)
      then have split: "strings_Split ?ids (CHR '','') = map itoa chunk"
        using False by (intro Split_Join) auto
      have "Atoi (itoa x) = Some x" if "x \<in> set chunk" for x
        using small that by (intro Atoi_itoa) auto
      then show ?thesis unfolding split by force
    qed
    then have "Some x \<in> set (map Atoi (strings_Split ?ids (CHR '',''))) \<longleftrightarrow> x \<in> set chunk" for x
      by blast
    ultimately show ?thesis by (simp add: table_db_def)
  qed
  then show ?thesis by (simp add: counts_from_def)
qed

lemma count_chunk:
  assumes "distinct table" and "distinct chunk"
  shows "length (filter (\<lambda>x. x \<in> set chunk) table) = length chunk \<longleftrightarrow> set chunk \<subseteq> set table"
proof -
  have "length (filter (\<lambda>x. x \<in> set chunk) table) = card (set table \<inter> set chunk)"
    using assms(1) by (metis distinct_card distinct_filter inter_set_filter inf_commute set_filter
        Int_commute filter_set)
  moreover have "length chunk = card (set chunk)" using assms(2) by (simp add: distinct_card)
  ultimately show ?thesis
    by (metis Int_absorb1 Int_commute List.finite_set card_subset_eq inf_le2 inf_le1 le_iff_inf)
qed

lemma itoa_int_inj: "m < 2 ^ 63 \<Longrightarrow> n < 2 ^ 63 \<Longrightarrow> itoa (int m) = itoa (int n) \<longleftrightarrow> m = n"
  using itoa_inj[of "int m" "int n"] by auto

lemma verify_chunks_spec:
  assumes "counts_from query table" and "distinct table" and "length table < 2 ^ 63"
    and "\<forall>c \<in> set cs. distinct c \<and> length c < 2 ^ 63 \<and> (\<forall>x \<in> set c. 0 < x \<and> x < 2 ^ 63)"
  shows "verify_chunks query cs = (set (concat cs) \<subseteq> set table, None)"
  using assms(4)
proof (induction cs)
  case Nil
  then show ?case by simp
next
  case (Cons c cs)
  let ?n = "length (filter (\<lambda>x. x \<in> set c) table)"
  have q: "soakQuery (query (ledger_sql c)) = Inr (itoa (int ?n))"
    using assms(1) Cons.prems by (intro soakQuery_const) (simp add: counts_from_def)
  have "?n < 2 ^ 63" using assms(3) length_filter_le[of "\<lambda>x. x \<in> set c" table] by linarith
  then have "itoa (int ?n) = itoa (int (length c)) \<longleftrightarrow> set c \<subseteq> set table"
    using Cons.prems assms(2) by (subst itoa_int_inj) (auto simp: count_chunk)
  then show ?case using Cons q by auto
qed

text \<open>
  Against a database that answers its count query from a table with a primary key, the ledger
  check returns, never fails as a query, and passes exactly when every acknowledged id is in the
  table: it neither misses a lost write nor reports one that is there, and extra rows do not matter.
\<close>

theorem verifyLedger_exact:
  assumes "writer_run w" and "counts_from query table" and "distinct table"
    and "length table < 2 ^ 63" and "next_id (led w) < 2 ^ 63"
  shows "verifyLedger query (led w) = Some (set (acked (led w)) \<subseteq> set table, None)"
proof -
  obtain cs where cs: "Ledger_Chunks 10000 (led w) = Some cs" "concat cs = acked (led w)"
    "\<forall>c \<in> set cs. c \<noteq> [] \<and> length c \<le> nat 10000"
    using chunks_from_spec[of 10000 0 "acked (led w)"] by (auto simp: Ledger_Chunks_def)
  have inv: "writer_inv w" using assms(1) by (rule writer_run_inv)
  then have "distinct (acked (led w))" by (simp add: writer_inv_def strict_sorted_iff)
  then have "\<forall>c \<in> set cs. distinct c" unfolding cs(2)[symmetric] by (simp add: distinct_concat_iff)
  moreover have "\<forall>c \<in> set cs. length c < 2 ^ 63" using cs(3) by fastforce
  moreover have "0 < x \<and> x < 2 ^ 63" if "x \<in> set (acked (led w))" for x
    using inv that assms(5) by (fastforce simp: writer_inv_def)
  then have "\<forall>c \<in> set cs. \<forall>x \<in> set c. 0 < x \<and> x < 2 ^ 63" unfolding cs(2)[symmetric] by auto
  ultimately show ?thesis
    unfolding verifyLedger_def cs(1) cs(2)[symmetric]
    by (subst option.map) (subst verify_chunks_spec[OF assms(2-4)], auto)
qed

theorem verifyLedger_exact_witness:
  "verifyLedger (table_db [1, 3]) (led (ledger_tick InsertReturned writer_start)) = Some (True, None)
   \<and> verifyLedger (table_db [3]) (led (ledger_tick InsertReturned writer_start)) = Some (False, None)"
proof -
  have run: "writer_run (ledger_tick InsertReturned writer_start)" by (intro writer_run.intros)
  have w: "acked (led (ledger_tick InsertReturned writer_start)) = [1]"
    "next_id (led (ledger_tick InsertReturned writer_start)) = 2"
    by (simp_all add: ledger_tick_def writer_start_def NewLedger_def Ledger_Next_def Ledger_Ack_def)
  show ?thesis
    using verifyLedger_exact[OF run table_db_counts, of "[1, 3]"]
      verifyLedger_exact[OF run table_db_counts, of "[3]"] by (simp add: w)
qed

end
