(* ===== verification/SoakOps.thy ===== *)
theory SoakOps
  imports Soak GoFiles
begin

text \<open>
  The rest of the soak driver's operations (src/cmd/zoubench/sustain.go): what one tick of the
  compact, gc and fold loops records, the headline figures of a run, the process lookups a drill
  kills by, and the file writes a result ends in. What an external program printed, and what a
  system call came to, are arguments.
\<close>

section \<open>Background loops\<close>

record compact_sample =
  cs_t :: f64
  cs_amp :: f64
  cs_over :: bool

definition compact_tick :: "string go_result \<Rightarrow> int \<Rightarrow> compact_sample option" where
  "compact_tick status elapsed =
     (case status of Inl _ \<Rightarrow> None
      | Inr out \<Rightarrow>
        (case ParseCompactStatus out of Inl _ \<Rightarrow> None
         | Inr shards \<Rightarrow>
            if shards = [] then None
            else let (amp, over) = MaxAmp shards
                 in Some \<lparr>cs_t = round1 (Seconds elapsed), cs_amp = cmd_round3 amp, cs_over = over\<rparr>))"

record gc_sample =
  gs_t :: f64
  gs_seconds :: f64
  gs_tenants :: int
  gs_deleted :: int
  gs_candidates :: int

definition gc_args :: "string \<Rightarrow> string \<Rightarrow> string \<Rightarrow> string list" where
  "gc_args store retention window =
     [''gc'', store] @ (if retention \<noteq> [] then [''--retention'', retention] else [])
       @ (if window \<noteq> [] then [''--window'', window] else [])"

definition gc_tick :: "string go_result \<Rightarrow> int \<Rightarrow> int \<Rightarrow> gc_sample option" where
  "gc_tick sweep elapsed took =
     (case sweep of Inl _ \<Rightarrow> None
      | Inr out \<Rightarrow>
        (case ParseGcSummary out of Inl _ \<Rightarrow> None
         | Inr s \<Rightarrow> Some \<lparr>gs_t = round1 (Seconds elapsed), gs_seconds = round1 (Seconds took),
             gs_tenants = Tenants s, gs_deleted = Deleted s, gs_candidates = Candidates s\<rparr>))"

datatype exec_error = ExitError string string | OtherError string

record fold_sample =
  fs_t :: f64
  fs_seconds :: f64
  fs_error :: "string option"
  fs_horizon :: string
  fs_checksums :: bool
  fs_shards :: nat
  fs_retired :: int
  fs_before :: int
  fs_after :: int

definition foldFailure :: "int \<Rightarrow> int \<Rightarrow> string \<Rightarrow> fold_sample" where
  "foldFailure elapsed took why =
     \<lparr>fs_t = round1 (Seconds elapsed), fs_seconds = round1 (Seconds took), fs_error = Some why,
      fs_horizon = [], fs_checksums = False, fs_shards = 0, fs_retired = 0, fs_before = 0, fs_after = 0\<rparr>"

definition foldWhy :: "exec_error \<Rightarrow> string" where
  "foldWhy err =
     (case err of
        ExitError stderr msg \<Rightarrow>
          if stderr \<noteq> [] then last (split_lines (TrimSpace stderr)) else msg
      | OtherError msg \<Rightarrow> msg)"

definition fold_args :: "string \<Rightarrow> string \<Rightarrow> string \<Rightarrow> string list" where
  "fold_args store pgbin retention =
     [''compact'', store, ''local'', ''--horizon'', ''--pg-bin'', pgbin, ''--json'']
       @ (if retention \<noteq> [] then [''--retention'', retention] else [])"

definition fold_tick :: "exec_error + string \<Rightarrow> int \<Rightarrow> int \<Rightarrow> fold_sample" where
  "fold_tick answer elapsed took =
     (case answer of Inl err \<Rightarrow> foldFailure elapsed took (foldWhy err)
      | Inr out \<Rightarrow>
        (case ParseFoldReport out of Inl e \<Rightarrow> foldFailure elapsed took e
         | Inr rep \<Rightarrow>
            let (before, after, retired) = FoldTotals rep
            in \<lparr>fs_t = round1 (Seconds elapsed), fs_seconds = round1 (Seconds took), fs_error = None,
                fs_horizon = Horizon rep, fs_checksums = DataChecksums rep,
                fs_shards = length (Shards rep), fs_retired = retired, fs_before = before,
                fs_after = after\<rparr>))"

section \<open>Headline figures\<close>

record fold_headline =
  layers_retired :: int
  fold_failures :: nat
  bytes_after :: "int option"

definition soak_folds :: "fold_sample list \<Rightarrow> fold_headline" where
  "soak_folds folds =
     foldl (\<lambda>h f. case fs_error f of
          Some _ \<Rightarrow> h\<lparr>fold_failures := fold_failures h + 1\<rparr>
        | None \<Rightarrow> h\<lparr>layers_retired := layers_retired h + fs_retired f, bytes_after := Some (fs_after f)\<rparr>)
       \<lparr>layers_retired = 0, fold_failures = 0, bytes_after = None\<rparr> folds"

definition soak_gc_deleted :: "gc_sample list \<Rightarrow> int" where
  "soak_gc_deleted sweeps = foldl (\<lambda>deleted s. deleted + gs_deleted s) 0 sweeps"

definition soak_tps_mean :: "f64 list \<Rightarrow> f64 option" where
  "soak_tps_mean vals =
     (if vals = [] then None
      else Some (round1 (fdiv (float_sum vals) (f64_of_int (int (length vals))))))"

lemma soak_folds_snoc:
  "soak_folds (fs @ [f]) = (case fs_error f of
     Some _ \<Rightarrow> (soak_folds fs)\<lparr>fold_failures := fold_failures (soak_folds fs) + 1\<rparr>
   | None \<Rightarrow> (soak_folds fs)\<lparr>layers_retired := layers_retired (soak_folds fs) + fs_retired f,
       bytes_after := Some (fs_after f)\<rparr>)"
  by (cases "fs_error f") (simp_all add: soak_folds_def)

text \<open>
  Every fold attempt of a soak is accounted for in its headline: a failed one adds to the
  failures and to nothing else, the layers retired are the sum over the folds that ran, and the
  footprint published is that of the last fold that ran, absent when none did.
\<close>

theorem soak_folds_accounting:
  "let h = soak_folds folds; good = filter (\<lambda>f. fs_error f = None) folds in
     fold_failures h + length good = length folds
     \<and> layers_retired h = sum_list (map fs_retired good)
     \<and> bytes_after h = (if good = [] then None else Some (fs_after (last good)))"
proof (induction folds rule: rev_induct)
  case Nil
  then show ?case by (simp add: soak_folds_def)
next
  case (snoc f folds)
  then show ?case by (cases "fs_error f") (simp_all add: soak_folds_snoc Let_def)
qed

section \<open>Processes\<close>

definition serverPid :: "string go_result \<Rightarrow> int go_result" where
  "serverPid raw =
     (case raw of Inl e \<Rightarrow> Inl e
      | Inr s \<Rightarrow>
        let first = (case strings_Cut s newline of None \<Rightarrow> s | Some (a, _) \<Rightarrow> a) in
        (case Atoi (TrimSpace first) of
           None \<Rightarrow> Inl (''strconv.Atoi: parsing '' @ Quote (TrimSpace first))
         | Some n \<Rightarrow> Inr n))"

fun pusher_lines :: "int \<Rightarrow> string list \<Rightarrow> int go_result" where
  "pusher_lines postmaster [] = Inl (''no \"zou wal pusher\" under postmaster '' @ itoa postmaster)"
| "pusher_lines postmaster (line # ls) =
     (if \<not> strings_Contains line ''zou wal pusher'' then pusher_lines postmaster ls
      else let f = strings_Fields (TrimSpace line) in
        if length f < 3 then pusher_lines postmaster ls
        else if Atoi (f ! 1) \<noteq> Some postmaster then pusher_lines postmaster ls
        else case Atoi (f ! 0) of
               None \<Rightarrow> Inl (''strconv.Atoi: parsing '' @ Quote (f ! 0))
             | Some pid \<Rightarrow> Inr pid)"

definition pusherPid :: "string go_result \<Rightarrow> string go_result \<Rightarrow> int go_result" where
  "pusherPid pidfile ps =
     (case serverPid pidfile of Inl e \<Rightarrow> Inl e
      | Inr postmaster \<Rightarrow>
        (case ps of Inl e \<Rightarrow> Inl e | Inr out \<Rightarrow> pusher_lines postmaster (split_lines out)))"

partial_function (option) waitPusherPid_from ::
    "(nat \<Rightarrow> int go_result) \<Rightarrow> (nat \<Rightarrow> int) \<Rightarrow> int \<Rightarrow> nat \<Rightarrow> int go_result option" where
  "waitPusherPid_from lookup clock deadline i =
     (if (case lookup i of Inr _ \<Rightarrow> True | Inl _ \<Rightarrow> False) \<or> deadline < clock i then Some (lookup i)
      else waitPusherPid_from lookup clock deadline (i + 1))"

definition waitPusherPid :: "(nat \<Rightarrow> int go_result) \<Rightarrow> (nat \<Rightarrow> int) \<Rightarrow> int \<Rightarrow> int \<Rightarrow> int go_result option" where
  "waitPusherPid lookup clock now patience = waitPusherPid_from lookup clock (now + patience) 0"

text \<open>The segments \<open>reapSHM\<close> removes, read off what \<open>ipcs\<close> printed.\<close>

definition reapSHM :: "bool \<Rightarrow> string \<Rightarrow> string go_result \<Rightarrow> string list" where
  "reapSHM darwin me ipcs =
     (case ipcs of Inl _ \<Rightarrow> []
      | Inr out \<Rightarrow>
        let (idCol, ownerCol, attachCol) = (if darwin then (1, 4, 8) else (1, 2, 5));
            ours = (\<lambda>line. let f = strings_Fields line in
              if length f \<le> attachCol then None
              else if darwin \<and> f ! 0 \<noteq> ''m'' then None
              else if \<not> darwin \<and> \<not> HasPrefix (f ! 0) ''0x'' then None
              else if f ! ownerCol \<noteq> me \<or> f ! attachCol \<noteq> ''0'' then None
              else Some (f ! idCol))
        in List.map_filter ours (split_lines out))"

text \<open>A line of the process table as \<open>ps -ax -o pid=,ppid=,command=\<close> prints it.\<close>

record process =
  pid :: int
  ppid :: int
  command :: string

definition ps_line :: "process \<Rightarrow> string" where
  "ps_line p = ''  '' @ itoa (pid p) @ '' '' @ itoa (ppid p) @ '' '' @ command p"

lemma Fields_word:
  "\<forall>c \<in> set w. \<not> is_space c \<Longrightarrow> w \<noteq> [] \<Longrightarrow> strings_Fields (w @ CHR '' '' # s) = w # strings_Fields s"
  by (simp add: strings_Fields_def split_by_append is_space_def)

lemma Fields_TrimSpace_head:
  assumes "w \<noteq> []" and "\<forall>c \<in> set w. \<not> is_space c" and "v \<noteq> []" and "\<forall>c \<in> set v. \<not> is_space c"
    and "\<exists>c \<in> set s. \<not> is_space c"
  shows "\<exists>fs. strings_Fields (TrimSpace (''  '' @ w @ '' '' @ v @ '' '' @ s)) = w # v # fs \<and> fs \<noteq> []"
proof -
  let ?r = "rev (dropWhile is_space (rev s))"
  have "dropWhile is_space (''  '' @ w @ '' '' @ v @ '' '' @ s) = w @ '' '' @ v @ '' '' @ s"
    using assms(1,2) by (cases w) (simp_all add: is_space_def)
  moreover have "dropWhile is_space (rev (w @ '' '' @ v @ '' '' @ s))
      = dropWhile is_space (rev s) @ rev (w @ '' '' @ v @ '' '')"
  proof -
    obtain c where "c \<in> set (rev s)" "\<not> is_space c" using assms(5) by auto
    then show ?thesis by (simp add: dropWhile_append1)
  qed
  ultimately have trim: "TrimSpace (''  '' @ w @ '' '' @ v @ '' '' @ s) = w @ '' '' @ v @ '' '' @ ?r"
    by (simp add: TrimSpace_def)
  have fs: "strings_Fields (w @ '' '' @ v @ '' '' @ ?r) = w # v # strings_Fields ?r"
    using assms by (simp add: Fields_word)
  have "\<exists>c \<in> set ?r. \<not> is_space c"
    using assms(5) dropWhile_eq_Nil_conv[of is_space "rev s"] hd_dropWhile[of is_space "rev s"]
    by (metis hd_in_set set_rev)
  then have "strings_Fields ?r \<noteq> []" by (rule Fields_not_empty)
  then show ?thesis using trim fs by simp
qed

definition own_pusher :: "int \<Rightarrow> process \<Rightarrow> bool" where
  "own_pusher postmaster p \<longleftrightarrow>
     strings_Contains (ps_line p) ''zou wal pusher'' \<and> ppid p = postmaster"

definition process_ok :: "process \<Rightarrow> bool" where
  "process_ok p \<longleftrightarrow> (\<exists>c \<in> set (command p). \<not> is_space c) \<and> CHR 0x0A \<notin> set (command p)
     \<and> - (2 ^ 63) \<le> pid p \<and> pid p < 2 ^ 63 \<and> - (2 ^ 63) \<le> ppid p \<and> ppid p < 2 ^ 63"

lemma ps_line_words:
  assumes "process_ok p"
  shows "\<exists>fs. strings_Fields (TrimSpace (ps_line p)) = itoa (pid p) # itoa (ppid p) # fs \<and> fs \<noteq> []"
  unfolding ps_line_def using assms itoa_not_space
  by (intro Fields_TrimSpace_head) (auto simp: process_ok_def)

lemma pusher_lines_ps:
  assumes "\<forall>p \<in> set table. process_ok p"
  shows "pusher_lines postmaster (map ps_line table) =
    (case find (own_pusher postmaster) table of Some p \<Rightarrow> Inr (pid p)
     | None \<Rightarrow> Inl (''no \"zou wal pusher\" under postmaster '' @ itoa postmaster))"
  using assms
proof (induction table)
  case (Cons p table)
  then have ok: "process_ok p" by simp
  obtain fs where fs: "strings_Fields (TrimSpace (ps_line p)) = itoa (pid p) # itoa (ppid p) # fs"
    "fs \<noteq> []" using ps_line_words[OF ok] by blast
  have "Atoi (itoa (pid p)) = Some (pid p)" "Atoi (itoa (ppid p)) = Some (ppid p)"
    using ok by (simp_all add: process_ok_def Atoi_itoa)
  moreover have "\<not> length (itoa (pid p) # itoa (ppid p) # fs) < 3" using fs(2) by (cases fs) auto
  ultimately show ?case
    using Cons fs(1) by (simp add: own_pusher_def Let_def)
qed simp

text \<open>
  A drill only ever kills the sequencer of its own postmaster: whatever else runs on the
  machine, the process id looked up in the process table is that of the first process that is a
  child of the postmaster in the pid file and carries the worker's title, and the lookup fails
  when there is none.
\<close>

theorem pusherPid_own_child:
  assumes "serverPid pidfile = Inr postmaster" and "table \<noteq> []" and "\<forall>p \<in> set table. process_ok p"
  shows "pusherPid pidfile (Inr (strings_Join (map ps_line table) newline)) =
    (case find (own_pusher postmaster) table of Some p \<Rightarrow> Inr (pid p)
     | None \<Rightarrow> Inl (''no \"zou wal pusher\" under postmaster '' @ itoa postmaster))"
proof -
  have "CHR 0x0A \<notin> set (ps_line p)" if "p \<in> set table" for p
    using assms(3) that itoa_not_space[of "CHR 0x0A"]
    by (auto simp: ps_line_def process_ok_def is_space_def)
  then have "split_lines (strings_Join (map ps_line table) newline) = map ps_line table"
    unfolding newline_def using assms(2) by (intro Split_Join) auto
  then show ?thesis using assms by (simp add: pusherPid_def pusher_lines_ps)
qed

theorem pusherPid_own_child_witness:
  "pusherPid (Inr (''77'' @ newline @ ''/data'')) (Inr (strings_Join (map ps_line
      [\<lparr>pid = 5, ppid = 9, command = ''postgres: zou wal pusher''\<rparr>,
       \<lparr>pid = 6, ppid = 77, command = ''postgres: zou wal pusher''\<rparr>]) newline)) = Inr 6"
proof -
  have "serverPid (Inr (''77'' @ newline @ ''/data'')) = Inr 77" by code_simp
  then have "pusherPid (Inr (''77'' @ newline @ ''/data'')) (Inr (strings_Join (map ps_line
      [\<lparr>pid = 5, ppid = 9, command = ''postgres: zou wal pusher''\<rparr>,
       \<lparr>pid = 6, ppid = 77, command = ''postgres: zou wal pusher''\<rparr>]) newline)) =
    (case find (own_pusher 77) [\<lparr>pid = 5, ppid = 9, command = ''postgres: zou wal pusher''\<rparr>,
       \<lparr>pid = 6, ppid = 77, command = ''postgres: zou wal pusher''\<rparr>] of Some p \<Rightarrow> Inr (pid p)
     | None \<Rightarrow> Inl (''no \"zou wal pusher\" under postmaster '' @ itoa 77))"
    by (rule pusherPid_own_child) (simp_all add: process_ok_def is_space_def)
  moreover have "own_pusher 77 \<lparr>pid = 6, ppid = 77, command = ''postgres: zou wal pusher''\<rparr>"
    by code_simp
  ultimately show ?thesis by (simp add: own_pusher_def)
qed

section \<open>Saving the result\<close>

definition writeFileAtomic :: "io \<Rightarrow> string \<Rightarrow> string \<Rightarrow> files \<Rightarrow> go_error option \<times> files" where
  "writeFileAtomic io path out fs =
     (case mkdir_err io of Some e \<Rightarrow> (Some e, fs)
      | None \<Rightarrow>
        let tmp = path @ ''.part'' in
        (case write_err io of
           Some (e, left) \<Rightarrow> (Some e, fs_remove io tmp (fs(tmp := left)))
         | None \<Rightarrow>
           let fs = fs(tmp \<mapsto> out) in
           (case rename_err io of
              Some e \<Rightarrow> (Some e, fs_remove io tmp fs)
            | None \<Rightarrow> (None, fs(tmp := None, path \<mapsto> out)))))"

definition writeResult :: "io \<Rightarrow> io \<Rightarrow> string \<Rightarrow> string \<Rightarrow> string \<Rightarrow> string \<Rightarrow> files \<Rightarrow> string go_result \<times> files" where
  "writeResult io io2 outdir tempdir name out fs =
     (let first = path_Join outdir name in
      case writeFileAtomic io first out fs of
        (None, fs) \<Rightarrow> (Inr first, fs)
      | (Some e, fs) \<Rightarrow>
          let fallback = path_Join tempdir name in
          (case writeFileAtomic io2 fallback out fs of
             (None, fs) \<Rightarrow> (Inr fallback, fs)
           | (Some _, fs) \<Rightarrow> (Inl e, fs)))"

lemma part_ne [simp]: "path @ ''.part'' \<noteq> path" "path \<noteq> path @ ''.part''"
  by simp_all

lemma writeFileAtomic_all_or_nothing:
  assumes "writeFileAtomic io path out fs = (r, fs')"
  shows "(r = None \<longrightarrow> fs' path = Some out \<and> fs' (path @ ''.part'') = None)
    \<and> (r \<noteq> None \<longrightarrow> fs' path = fs path)
    \<and> (\<forall>p. p \<noteq> path \<and> p \<noteq> path @ ''.part'' \<longrightarrow> fs' p = fs p)"
  using assms
  by (auto simp: writeFileAtomic_def fs_remove_def Let_def split: option.splits if_splits)

lemma json_not_part: "HasSuffix name ''.json'' \<Longrightarrow> name \<noteq> p @ ''.part''"
  by (auto simp: HasSuffix_iff)

lemma writeFileAtomic_json:
  assumes "writeFileAtomic io path out fs = (r, fs')" and "HasSuffix p ''.json''"
  shows "fs' p = (if r = None \<and> p = path then Some out else fs p)"
proof -
  have "p \<noteq> path @ ''.part''" using json_not_part[OF assms(2)] .
  then show ?thesis
    using writeFileAtomic_all_or_nothing[OF assms(1)] by (cases "p = path"; cases r) simp_all
qed

text \<open>
  C28: a result file is never half written, however the disk fails: after saving, the file under
  the result's name in either directory is the whole document or what was there before, a
  successful save names a file that holds the whole document, and no other file of the name's
  pattern is touched.
\<close>

theorem writeResult_never_half_written:
  assumes "HasSuffix name ''.json''" and "writeResult io io2 outdir tempdir name out fs = (r, fs')"
  shows "(\<forall>path. HasSuffix path ''.json'' \<longrightarrow> fs' path = fs path \<or> fs' path = Some out)
    \<and> (case r of Inr path \<Rightarrow> fs' path = Some out
       | Inl _ \<Rightarrow> \<forall>path. HasSuffix path ''.json'' \<longrightarrow> fs' path = fs path)"
proof -
  let ?first = "path_Join outdir name" and ?fallback = "path_Join tempdir name"
  obtain r1 fs1 where 1: "writeFileAtomic io ?first out fs = (r1, fs1)" by fastforce
  obtain r2 fs2 where 2: "writeFileAtomic io2 ?fallback out fs1 = (r2, fs2)" by fastforce
  note a1 = writeFileAtomic_json[OF 1] and a2 = writeFileAtomic_json[OF 2]
  have js: "HasSuffix ?first ''.json''" "HasSuffix ?fallback ''.json''"
    using assms(1) by (intro HasSuffix_Join; simp)+
  show ?thesis
  proof (cases r1)
    case None
    then have "r = Inr ?first" "fs' = fs1" using assms(2) 1 by (auto simp: writeResult_def Let_def)
    then show ?thesis using a1 None js by simp
  next
    case (Some e)
    show ?thesis
    proof (cases r2)
      case None
      then have "r = Inr ?fallback" "fs' = fs2"
        using assms(2) 1 2 Some by (auto simp: writeResult_def Let_def)
      then show ?thesis using a1 a2 None Some js by simp
    next
      case (Some e2)
      then have "r = Inl e" "fs' = fs2"
        using assms(2) 1 2 \<open>r1 = Some e\<close> by (auto simp: writeResult_def Let_def)
      then show ?thesis using a1 a2 Some \<open>r1 = Some e\<close> by simp
    qed
  qed
qed

theorem writeResult_never_half_written_witness:
  "fst (writeResult \<lparr>mkdir_err = None, write_err = Some (''full'', Some ''{''), rename_err = None, remove_ok = True\<rparr>
      \<lparr>mkdir_err = None, write_err = None, rename_err = None, remove_ok = True\<rparr> ''out'' ''/tmp'' ''run.json'' ''{}'' Map.empty)
    = Inr ''/tmp/run.json''
   \<and> snd (writeResult \<lparr>mkdir_err = None, write_err = Some (''full'', Some ''{''), rename_err = None, remove_ok = True\<rparr>
      \<lparr>mkdir_err = None, write_err = None, rename_err = None, remove_ok = True\<rparr> ''out'' ''/tmp'' ''run.json'' ''{}'' Map.empty)
      ''/tmp/run.json'' = Some ''{}''"
proof -
  let ?w = "writeResult \<lparr>mkdir_err = None, write_err = Some (''full'', Some ''{''), rename_err = None, remove_ok = True\<rparr>
      \<lparr>mkdir_err = None, write_err = None, rename_err = None, remove_ok = True\<rparr> ''out'' ''/tmp'' ''run.json'' ''{}'' Map.empty"
  have clean: "path_Join ''/tmp'' ''run.json'' = ''/tmp/run.json''" "path_Join ''out'' ''run.json'' = ''out/run.json''"
    by code_simp+
  have r: "fst ?w = Inr ''/tmp/run.json''"
    by (simp add: writeResult_def writeFileAtomic_def clean fs_remove_def Let_def)
  obtain fs' where w: "?w = (Inr ''/tmp/run.json'', fs')" using r by (metis prod.collapse)
  have "HasSuffix ''run.json'' ''.json''" by code_simp
  from writeResult_never_half_written[OF this w] have "fs' ''/tmp/run.json'' = Some ''{}''" by simp
  with w show ?thesis by simp
qed

text \<open>The size of a store directory: a walk's entries, each a directory or a file with its size if it could be read.\<close>

datatype walk_entry = Unreadable | Directory | File "int option"

definition storeBytes :: "bool \<Rightarrow> walk_entry list \<Rightarrow> int option" where
  "storeBytes is_dir entries =
     (if \<not> is_dir then None
      else Some (foldl (\<lambda>total e. case e of File (Some n) \<Rightarrow> total + n | _ \<Rightarrow> total) 0 entries))"

end
