(* ===== verification/Snapshots.thy ===== *)
theory Snapshots
  imports SoakOps GoAny
begin

text \<open>
  Packages \<open>pgstats\<close> (src/pgstats/pgstats.go) and \<open>storefs\<close> (src/storefs/storefs.go): the server's own
  counters before and after a run with their differences, and the size of a store on disk. What
  \<open>psql\<close> prints for an argument list is an argument, and so are the entries of a directory walk.
\<close>

section \<open>Snapshots\<close>

definition views :: "(string \<times> string) list" where
  "views =
     [(''wal'', ''select row_to_json(w) from pg_stat_wal w''),
      (''bgwriter'', ''select row_to_json(b) from pg_stat_bgwriter b''),
      (''checkpoint'', ''select row_to_json(c) from pg_stat_checkpointer c''),
      (''database'', ''select row_to_json(d) from pg_stat_database d where d.datname = current_database()''),
      (''io'', ''select row_to_json(t) from (select coalesce(sum(reads),0) as reads, coalesce(sum(read_bytes),0) as read_bytes, coalesce(sum(writes),0) as writes, coalesce(sum(write_bytes),0) as write_bytes, coalesce(sum(fsyncs),0) as fsyncs from pg_stat_io) t'')]"

definition psql_args :: "string \<Rightarrow> string list \<Rightarrow> string list" where
  "psql_args query connArgs = [''-X'', ''-A'', ''-t'', ''-c'', query] @ connArgs"

text \<open>An answer as a JSON object: \<open>null\<close> leaves the map empty, anything else is an error.\<close>

definition json_row :: "string \<Rightarrow> (string \<times> any) list option" where
  "json_row raw =
     (case json_parse (TrimSpace raw) of None \<Rightarrow> None
      | Some j \<Rightarrow> (case any_of_json j of AMap m \<Rightarrow> Some m | ANil \<Rightarrow> if j = JNull then Some [] else None | _ \<Rightarrow> None))"

type_synonym snapshot = "(string \<times> (string \<times> any) list) list"

definition Snapshot :: "(string list \<Rightarrow> string go_result) \<Rightarrow> string list \<Rightarrow> snapshot" where
  "Snapshot psql connArgs =
     List.map_filter (\<lambda>(name, query).
       case psql (psql_args query connArgs) of Inl _ \<Rightarrow> None
       | Inr raw \<Rightarrow> map_option (Pair name) (json_row raw)) views"

definition Version :: "(string list \<Rightarrow> string go_result) \<Rightarrow> string list \<Rightarrow> string" where
  "Version psql connArgs =
     (case psql (psql_args ''select version()'' connArgs) of Inl _ \<Rightarrow> [] | Inr raw \<Rightarrow> TrimSpace raw)"

definition Settings :: "(string list \<Rightarrow> string go_result) \<Rightarrow> string list \<Rightarrow> (string \<times> any) list option" where
  "Settings psql connArgs =
     (case psql (psql_args ''select coalesce(json_object_agg(name, setting), '{}'::json) from pg_settings where source not in ('default', 'override')'' connArgs) of
        Inl _ \<Rightarrow> None | Inr raw \<Rightarrow> json_row raw)"

section \<open>Differences\<close>

definition row_delta :: "(string \<times> any) list \<Rightarrow> (string \<times> any) list \<Rightarrow> (string \<times> f64) list" where
  "row_delta b a =
     List.map_filter (\<lambda>(k, bv).
       case (as_float bv, as_float (map_get a k)) of (Some bf, Some af) \<Rightarrow> Some (k, fsub af bf) | _ \<Rightarrow> None) b"

definition Delta :: "snapshot \<Rightarrow> snapshot \<Rightarrow> (string \<times> (string \<times> f64) list) list" where
  "Delta before after =
     List.map_filter (\<lambda>(view, b).
       case map_of after view of None \<Rightarrow> None
       | Some a \<Rightarrow> let d = row_delta b a in if d = [] then None else Some (view, d)) before"

text \<open>
  A counter's difference is published exactly when the view was read on both sides with a number for
  it, and it is the difference of the two numbers.
\<close>

lemma map_of_map_filter:
  assumes "distinct (map fst m)"
  shows "map_of (List.map_filter (\<lambda>(k, v). map_option (Pair k) (f k v)) m) k =
    (case map_of m k of None \<Rightarrow> None | Some v \<Rightarrow> f k v)"
  using assms
proof (induction m)
  case (Cons p m)
  have "k \<notin> fst ` set (List.map_filter (\<lambda>(k, v). map_option (Pair k) (f k v)) m)" if "k \<notin> fst ` set m"
    using that by (force simp: map_filter_def)
  then show ?case using Cons
    by (cases p) (auto simp: map_filter_simps map_of_eq_None_iff split: option.splits)
qed (simp add: map_filter_simps)

lemma row_delta_at:
  assumes "distinct (map fst b)"
  shows "map_of (row_delta b a) k =
    (case (map_of b k, map_of a k) of
       (Some (AFloat bf), Some (AFloat af)) \<Rightarrow> Some (fsub af bf) | _ \<Rightarrow> None)"
proof -
  let ?f = "\<lambda>k bv. case (as_float bv, as_float (map_get a k)) of (Some bf, Some af) \<Rightarrow> Some (fsub af bf) | _ \<Rightarrow> None"
  have "row_delta b a = List.map_filter (\<lambda>(k, v). map_option (Pair k) (?f k v)) b"
    unfolding row_delta_def by (rule arg_cong[where f = "\<lambda>f. List.map_filter f b"]) (auto split: option.splits)
  then show ?thesis
    by (auto simp: map_of_map_filter[OF assms] as_float_def map_get_def split: option.splits any.splits)
qed

lemma Delta_at:
  assumes "distinct (map fst before)"
  shows "map_of (Delta before after) view =
    (case (map_of before view, map_of after view) of
       (Some b, Some a) \<Rightarrow> if row_delta b a = [] then None else Some (row_delta b a) | _ \<Rightarrow> None)"
proof -
  let ?f = "\<lambda>view b. case map_of after view of None \<Rightarrow> None
    | Some a \<Rightarrow> if row_delta b a = [] then None else Some (row_delta b a)"
  have "Delta before after = List.map_filter (\<lambda>(k, v). map_option (Pair k) (?f k v)) before"
    unfolding Delta_def by (rule arg_cong[where f = "\<lambda>f. List.map_filter f before"]) (auto simp: Let_def split: option.splits)
  then show ?thesis by (simp add: map_of_map_filter[OF assms] split: option.splits)
qed

lemma distinct_map_filter:
  "distinct (map fst m) \<Longrightarrow> distinct (map fst (List.map_filter (\<lambda>(k, v). map_option (Pair k) (f k v)) m))"
proof (induction m)
  case (Cons p m)
  moreover have "fst ` set (List.map_filter (\<lambda>(k, v). map_option (Pair k) (f k v)) m) \<subseteq> fst ` set m"
    by (force simp: map_filter_def)
  ultimately show ?case by (cases p) (auto simp: map_filter_simps split: option.splits)
qed (simp add: map_filter_simps)

lemma distinct_Snapshot: "distinct (map fst (Snapshot psql connArgs))"
proof -
  let ?f = "\<lambda>name query. case psql (psql_args query connArgs) of Inl _ \<Rightarrow> None | Inr raw \<Rightarrow> json_row raw"
  have eq: "Snapshot psql connArgs = List.map_filter (\<lambda>(k, v). map_option (Pair k) (?f k v)) views"
    unfolding Snapshot_def by (rule arg_cong[where f = "\<lambda>f. List.map_filter f views"]) (auto split: sum.splits)
  have d: "distinct (map fst views)" by (simp add: views_def)
  show ?thesis by (subst eq) (rule distinct_map_filter[OF d])
qed

section \<open>The size of a store\<close>

record footprint =
  fpBytes :: int
  fpObjects :: nat

definition Measure :: "walk_entry list \<Rightarrow> footprint" where
  "Measure entries =
     foldl (\<lambda>fp e. case e of
         File (Some n) \<Rightarrow> \<lparr>fpBytes = fpBytes fp + n, fpObjects = fpObjects fp + 1\<rparr>
       | _ \<Rightarrow> fp) \<lparr>fpBytes = 0, fpObjects = 0\<rparr> entries"

text \<open>What could not be read is not counted; the rest is, once each.\<close>

definition file_sizes :: "walk_entry list \<Rightarrow> int list" where
  "file_sizes entries = List.map_filter (\<lambda>e. case e of File (Some n) \<Rightarrow> Some n | _ \<Rightarrow> None) entries"

lemma Measure_sums: "Measure entries = \<lparr>fpBytes = sum_list (file_sizes entries), fpObjects = length (file_sizes entries)\<rparr>"
proof (induction entries rule: rev_induct)
  case Nil
  then show ?case by (simp add: Measure_def file_sizes_def map_filter_simps)
next
  case (snoc e es)
  moreover have "file_sizes (es @ [e]) = file_sizes es @ file_sizes [e]"
    by (simp add: file_sizes_def map_filter_def)
  ultimately show ?case
    by (simp add: Measure_def) (auto simp: file_sizes_def map_filter_simps split: walk_entry.splits option.splits)
qed

end
