(* ===== verification/Pgbench.thy ===== *)
theory Pgbench
  imports Latency GoFiles GoAny
begin

text \<open>
  Package \<open>pgbench\<close> (src/pgbench/pgbench.go): the command lines built out of a DSN, and what pgbench
  prints and logs read back into numbers. The regular expressions of the source are matchers on
  strings: a matcher says what it captures at the front of a string, and a search tries it at
  every position from the left, as \<open>FindStringSubmatch\<close> does.
\<close>

section \<open>Connection strings\<close>

definition Tool :: "string \<Rightarrow> string \<Rightarrow> string" where
  "Tool pgbin name = (if pgbin \<noteq> [] then path_Join pgbin name else name)"

definition dsn_kv :: "string \<Rightarrow> string \<rightharpoonup> string" where
  "dsn_kv dsn = foldl (\<lambda>kv part. case strings_Cut part ''='' of None \<Rightarrow> kv | Some (k, v) \<Rightarrow> kv(k \<mapsto> v))
     Map.empty (strings_Fields dsn)"

definition kv_get :: "(string \<rightharpoonup> string) \<Rightarrow> string \<Rightarrow> string" where
  "kv_get kv k = (case kv k of None \<Rightarrow> [] | Some v \<Rightarrow> v)"

definition DSNArgs :: "string \<Rightarrow> string list" where
  "DSNArgs dsn =
     (let kv = dsn_kv dsn;
          flag = (\<lambda>f k. let v = kv_get kv k in if v \<noteq> [] then [f, v] else []);
          db = kv_get kv ''dbname''
      in flag ''-h'' ''host'' @ flag ''-p'' ''port'' @ flag ''-U'' ''user''
         @ [if db = [] then ''postgres'' else db])"

definition osUser :: "string \<Rightarrow> string go_result \<Rightarrow> string" where
  "osUser pguser current =
     (if pguser \<noteq> [] then pguser
      else case current of Inr u \<Rightarrow> if u \<noteq> [] then u else ''postgres'' | Inl _ \<Rightarrow> ''postgres'')"

definition DSNParts :: "string \<Rightarrow> string go_result \<Rightarrow> string \<Rightarrow> string \<times> string \<times> string" where
  "DSNParts pguser current dsn =
     (let kv = dsn_kv dsn;
          host = kv_get kv ''host'';
          port = (if kv_get kv ''port'' = [] then ''5432'' else kv_get kv ''port'');
          addr = (if list_ex (\<lambda>c. c = CHR ''/'' \<or> c = CHR 0x5C) host
                  then path_Join host (''.s.PGSQL.'' @ port)
                  else (if host = [] then ''127.0.0.1'' else host) @ '':'' @ port);
          database = (if kv_get kv ''dbname'' = [] then ''postgres'' else kv_get kv ''dbname'');
          user = (if kv_get kv ''user'' = [] then osUser pguser current else kv_get kv ''user'')
      in (addr, user, database))"

section \<open>Matching\<close>

definition is_num :: "char \<Rightarrow> bool" where
  "is_num c \<longleftrightarrow> is_digit c \<or> c = CHR ''.''"

text \<open>One or more of a class, as many as there are, and the rest.\<close>

definition some_of :: "(char \<Rightarrow> bool) \<Rightarrow> string \<Rightarrow> (string \<times> string) option" where
  "some_of P s = (if takeWhile P s = [] then None else Some (takeWhile P s, dropWhile P s))"

text \<open>\<open>\s\<close> in a regular expression is not quite \<open>TrimSpace\<close>'s white space.\<close>

definition re_space :: "char \<Rightarrow> bool" where
  "re_space c \<longleftrightarrow> (of_char c :: nat) \<in> {9, 10, 12, 13, 32}"

fun re_find :: "(string \<Rightarrow> 'a option) \<Rightarrow> string \<Rightarrow> 'a option" where
  "re_find here [] = here []"
| "re_find here (c # s) = (case here (c # s) of Some x \<Rightarrow> Some x | None \<Rightarrow> re_find here s)"

text \<open>With \<open>(?m)^\<close>: at the start and after every newline.\<close>

fun re_find_line :: "(string \<Rightarrow> 'a option) \<Rightarrow> bool \<Rightarrow> string \<Rightarrow> 'a option" where
  "re_find_line here bol [] = (if bol then here [] else None)"
| "re_find_line here bol (c # s) =
     (case (if bol then here (c # s) else None) of Some x \<Rightarrow> Some x
      | None \<Rightarrow> re_find_line here (c = CHR 0x0A) s)"

text \<open>A literal, a run of a class, a literal: the pattern of every line of the summary.\<close>

definition between :: "string \<Rightarrow> (char \<Rightarrow> bool) \<Rightarrow> string \<Rightarrow> string \<Rightarrow> string option" where
  "between pre P post s =
     (case CutPrefix s pre of None \<Rightarrow> None
      | Some t \<Rightarrow>
        (case some_of P t of None \<Rightarrow> None
         | Some (v, rest) \<Rightarrow> if HasPrefix rest post then Some v else None))"

section \<open>The summary\<close>

text \<open>Results whose error the source ignores: zero for what does not parse, the largest number for too large a one.\<close>

definition Atoi_or_max :: "string \<Rightarrow> int" where
  "Atoi_or_max ds = (case Atoi ds of Some n \<Rightarrow> n | None \<Rightarrow> 2 ^ 63 - 1)"

definition summaryPatterns :: "((string \<Rightarrow> string option) \<times> string \<times> bool) list" where
  "summaryPatterns =
     [(re_find_line (between ''tps = '' is_num []) True, ''tps'', False),
      (re_find (between ''latency average = '' is_num '' ms''), ''latency_avg_ms'', False),
      (re_find (between ''latency stddev = '' is_num '' ms''), ''latency_stddev_ms'', False),
      (re_find (between ''initial connection time = '' is_num '' ms''), ''connect_ms'', False),
      (re_find (between ''number of transactions actually processed: '' is_digit []), ''transactions'', True),
      (re_find (between ''number of failed transactions: '' is_digit []), ''failed'', True)]"

text \<open>
  A line of the statement table: white space, a number, white space, digits, white space and the
  rest. The last white space gives one back when nothing else is left for the statement.
\<close>

definition stmtRe :: "string \<Rightarrow> (string \<times> string) option" where
  "stmtRe line =
     (case some_of re_space line of None \<Rightarrow> None
      | Some (_, s) \<Rightarrow>
     (case some_of is_num s of None \<Rightarrow> None
      | Some (v, s) \<Rightarrow>
     (case some_of re_space s of None \<Rightarrow> None
      | Some (_, s) \<Rightarrow>
     (case some_of is_digit s of None \<Rightarrow> None
      | Some (_, s) \<Rightarrow>
     (case some_of re_space s of None \<Rightarrow> None
      | Some (sp, s) \<Rightarrow>
        if s \<noteq> [] then Some (v, s)
        else if 1 < length sp then Some (v, [last sp]) else None)))))"

definition stmt_line :: "bool \<times> (string \<times> f64) list \<Rightarrow> string \<Rightarrow> bool \<times> (string \<times> f64) list" where
  "stmt_line acc line =
     (if strings_Contains line ''statement latencies'' then (True, snd acc)
      else if \<not> fst acc then acc
      else case stmtRe line of None \<Rightarrow> acc
      | Some (v, stmt) \<Rightarrow> (True, map_upd (take 60 (TrimSpace stmt)) (\<lambda>_. float_or_0 v) (snd acc)))"

definition ParseSummary :: "string \<Rightarrow> (string \<times> any) list \<Rightarrow> (string \<times> any) list" where
  "ParseSummary out result =
     (let result = foldl (\<lambda>r (find, key, whole).
            case find out of None \<Rightarrow> r
            | Some v \<Rightarrow> map_upd key (\<lambda>_. if whole then AInt (Atoi_or_max v) else AFloat (float_or_0 v)) r)
          result summaryPatterns;
          stmts = snd (foldl stmt_line (False, []) (split_lines out))
      in if stmts = [] then result
         else map_upd ''statement_latency_ms'' (\<lambda>_. AMap (map (apsnd AFloat) stmts)) result)"

section \<open>The phases of an init\<close>

text \<open>\<open>done in T s (...)\<close>: the parenthesis closed is the last one of the line.\<close>

definition initDoneRe :: "string \<Rightarrow> (string \<times> string) option" where
  "initDoneRe s =
     (case CutPrefix s ''done in '' of None \<Rightarrow> None
      | Some s \<Rightarrow>
     (case some_of is_num s of None \<Rightarrow> None
      | Some (v, s) \<Rightarrow>
     (case CutPrefix s '' s ('' of None \<Rightarrow> None
      | Some s \<Rightarrow>
        let line = takeWhile (\<lambda>c. c \<noteq> CHR 0x0A) s in
        (case last_index (CHR '')'') line of None \<Rightarrow> None
         | Some i \<Rightarrow> if i = 0 then None else Some (v, take i line)))))"

definition phase_char :: "char \<Rightarrow> bool" where
  "phase_char c \<longleftrightarrow> (97 \<le> (of_char c :: nat) \<and> (of_char c :: nat) \<le> 122) \<or> c = CHR '' '' \<or> c = CHR ''-''"

text \<open>What follows the name of a phase: its seconds, and the rest of the text.\<close>

definition phase_end :: "string \<Rightarrow> (string \<times> string) option" where
  "phase_end s =
     (case CutPrefix s '' '' of None \<Rightarrow> None
      | Some s \<Rightarrow>
     (case some_of is_num s of None \<Rightarrow> None
      | Some (v, s) \<Rightarrow> map_option (Pair v) (CutPrefix s '' s'')))"

text \<open>A name of a phase is the shortest that does, starting with what is already read of it.\<close>

fun phase_at :: "string \<Rightarrow> string \<Rightarrow> (string \<times> string \<times> string) option" where
  "phase_at name [] = None"
| "phase_at name (c # s) =
     (if phase_char c then
        (case phase_end s of
           Some (v, rest) \<Rightarrow> Some (name @ [c], v, rest)
         | None \<Rightarrow> phase_at (name @ [c]) s)
      else None)"

lemma some_of_Some: "some_of P s = Some (v, rest) \<Longrightarrow> s = v @ rest \<and> v \<noteq> [] \<and> (\<forall>c \<in> set v. P c)"
  by (auto simp: some_of_def dest: set_takeWhileD split: if_splits)

lemma phase_end_Some:
  assumes "phase_end s = Some (v, rest)"
  shows "length rest < length s"
proof -
  obtain t u where "CutPrefix s '' '' = Some t" "some_of is_num t = Some (v, u)" "CutPrefix u '' s'' = Some rest"
    using assms unfolding phase_end_def by (auto split: option.splits)
  then have "s = '' '' @ t" "t = v @ u" "u = '' s'' @ rest" by (auto simp: CutPrefix_Some dest: some_of_Some)
  then show ?thesis by simp
qed

lemma phase_at_shorter: "phase_at name s = Some (n, v, rest) \<Longrightarrow> length rest < length s"
proof (induction s arbitrary: name)
  case (Cons c s)
  show ?case
  proof (cases "phase_end s")
    case None
    then have "phase_at (name @ [c]) s = Some (n, v, rest)" using Cons.prems by (simp split: if_splits)
    then show ?thesis using Cons.IH by fastforce
  next
    case (Some e)
    then have "phase_end s = Some (v, rest)" using Cons.prems by (cases e) (simp split: if_splits)
    then show ?thesis using phase_end_Some by fastforce
  qed
qed simp

text \<open>\<open>FindAllStringSubmatch\<close>: each match starts where the one before it ended.\<close>

function phases_in :: "string \<Rightarrow> (string \<times> string) list" where
  "phases_in [] = []"
| "phases_in (c # s) =
     (case phase_at [] (c # s) of
        Some (name, v, rest) \<Rightarrow> (name, v) # phases_in rest
      | None \<Rightarrow> phases_in s)"
  by pat_completeness auto
termination by (relation "measure length") (auto simp del: phase_at.simps dest: phase_at_shorter)

definition ParseInitPhases :: "string \<Rightarrow> f64 \<times> (string \<times> f64) list option" where
  "ParseInitPhases out =
     (case re_find initDoneRe out of None \<Rightarrow> (0, None)
      | Some (v, inner) \<Rightarrow>
          (float_or_0 v,
           Some (foldl (\<lambda>m (name, s). map_upd (TrimSpace name) (\<lambda>_. float_or_0 s) m) [] (phases_in inner))))"

section \<open>The transaction log\<close>

record txn =
  txLatencyMS :: f64
  txEpoch :: int

definition txn_line :: "string \<Rightarrow> txn option" where
  "txn_line line =
     (let parts = strings_Fields line in
      if length parts < 5 then None
      else case (Atoi (parts ! 2), Atoi (parts ! 4)) of
        (Some us, Some epoch) \<Rightarrow> Some \<lparr>txLatencyMS = fdiv (f64_of_int us) 1000, txEpoch = epoch\<rparr>
      | _ \<Rightarrow> None)"

text \<open>The files of the log directory in the order of \<open>ReadDir\<close>, each with what reading it comes to.\<close>

definition ParseTxnLogs :: "(string \<times> string go_result) list \<Rightarrow> txn list" where
  "ParseTxnLogs dir =
     concat (map (\<lambda>(name, raw). if \<not> HasPrefix name ''pgbench_log'' then []
       else case raw of Inl _ \<Rightarrow> [] | Inr text1 \<Rightarrow> List.map_filter txn_line (split_lines text1)) dir)"

definition pgbench_samples :: "txn list \<Rightarrow> sample list" where
  "pgbench_samples txns = map (\<lambda>t. \<lparr>MS = txLatencyMS t, Epoch = txEpoch t\<rparr>) txns"

definition pgbench_Percentiles :: "txn list \<Rightarrow> (string \<rightharpoonup> f64)" where
  "pgbench_Percentiles txns = latency_Percentiles (pgbench_samples txns)"

record txn_bucket =
  tbSecond :: int
  tbTxns :: nat
  tbTPS :: f64
  tbP50 :: f64
  tbP99 :: f64

definition pgbench_Buckets :: "txn list \<Rightarrow> int \<Rightarrow> txn_bucket list" where
  "pgbench_Buckets txns width =
     map (\<lambda>b. \<lparr>tbSecond = bucket.Second b, tbTxns = Count b, tbTPS = Rate b, tbP50 = P50 b, tbP99 = P99 b\<rparr>)
       (latency_Buckets (pgbench_samples txns) width)"

section \<open>Reading a log back\<close>

text \<open>
  One line of the log as pgbench writes it: the client, its transaction's number, the time in
  microseconds or the word written in its place for a transaction that was not completed, the
  script, the second and the microsecond.
\<close>

record log_event =
  leClient :: int
  leNo :: int
  leTime :: "string + int"
  leScript :: int
  leEpoch :: int
  leMicro :: int

definition time_word :: "string + int \<Rightarrow> string" where
  "time_word t = (case t of Inl w \<Rightarrow> w | Inr us \<Rightarrow> itoa us)"

definition log_line :: "log_event \<Rightarrow> string" where
  "log_line e = strings_Join
     [itoa (leClient e), itoa (leNo e), time_word (leTime e), itoa (leScript e), itoa (leEpoch e), itoa (leMicro e)] '' ''"

definition log_text :: "log_event list \<Rightarrow> string" where
  "log_text es = concat (map (\<lambda>e. log_line e @ newline) es)"

definition event_txn :: "log_event \<Rightarrow> txn option" where
  "event_txn e = (case leTime e of Inl _ \<Rightarrow> None
     | Inr us \<Rightarrow> Some \<lparr>txLatencyMS = fdiv (f64_of_int us) 1000, txEpoch = leEpoch e\<rparr>)"

definition log_ok :: "log_event \<Rightarrow> bool" where
  "log_ok e \<longleftrightarrow> - (2 ^ 63) \<le> leEpoch e \<and> leEpoch e < 2 ^ 63
     \<and> (case leTime e of Inl w \<Rightarrow> w \<in> {''skipped'', ''failed''} | Inr us \<Rightarrow> 0 \<le> us \<and> us < 2 ^ 63)"

lemma time_word_ok:
  assumes "log_ok e"
  shows "time_word (leTime e) \<noteq> [] \<and> (\<forall>c \<in> set (time_word (leTime e)). \<not> is_space c)"
  using assms itoa_not_space
  by (auto simp: log_ok_def time_word_def is_space_def split: sum.splits)

lemma log_line_fields:
  assumes "log_ok e"
  shows "strings_Fields (log_line e) =
     [itoa (leClient e), itoa (leNo e), time_word (leTime e), itoa (leScript e), itoa (leEpoch e), itoa (leMicro e)]"
  unfolding log_line_def using time_word_ok[OF assms] itoa_not_space
  by (intro Fields_Join) auto

lemma txn_line_back:
  assumes "log_ok e"
  shows "txn_line (log_line e) = event_txn e"
proof -
  have epoch: "Atoi (itoa (leEpoch e)) = Some (leEpoch e)"
    using assms by (intro Atoi_itoa) (auto simp: log_ok_def)
  have "Atoi (time_word (leTime e)) = (case leTime e of Inl _ \<Rightarrow> None | Inr us \<Rightarrow> Some us)"
  proof (cases "leTime e")
    case (Inl w)
    then have "w = ''skipped'' \<or> w = ''failed''" using assms by (auto simp: log_ok_def)
    then show ?thesis using Inl by (auto simp: time_word_def Atoi_def is_digit_def)
  next
    case (Inr us)
    then show ?thesis using assms by (simp add: time_word_def Atoi_itoa log_ok_def)
  qed
  then show ?thesis using epoch
    by (auto simp: txn_line_def log_line_fields[OF assms] event_txn_def Let_def split: sum.splits)
qed

lemma log_line_newline: "log_ok e \<Longrightarrow> CHR 0x0A \<notin> set (log_line e)"
  using time_word_ok[of e] itoa_not_space[of "CHR 0x0A"]
  by (auto simp: log_line_def is_space_def)

lemma split_log_text:
  assumes "list_all log_ok es"
  shows "split_lines (log_text es) = map log_line es @ [[]]"
  using assms
proof (induction es)
  case (Cons e es)
  have "split_lines (log_line e @ newline @ log_text es) = log_line e # split_lines (log_text es)"
    using log_line_newline[of e] Cons.prems
      split_by_append[of "log_line e" "\<lambda>c. c = CHR 0x0A" "CHR 0x0A" "log_text es"]
    by (auto simp: newline_def strings_Split_def)
  then show ?case using Cons by (simp add: log_text_def)
qed (simp add: log_text_def strings_Split_def)

lemma map_filter_log:
  assumes "list_all log_ok es"
  shows "List.map_filter txn_line (split_lines (log_text es)) = List.map_filter event_txn es"
proof -
  have "txn_line [] = None" by (simp add: txn_line_def strings_Fields_def)
  moreover have "List.map_filter txn_line (map log_line es @ ws) = List.map_filter event_txn es @ List.map_filter txn_line ws"
    for ws using assms by (induction es) (auto simp: map_filter_simps txn_line_back split: option.splits)
  ultimately show ?thesis by (simp add: split_log_text[OF assms] map_filter_simps)
qed

text \<open>
  C35: the log of a run is read back as its transactions, in the order of the files and of the lines,
  those pgbench marks as skipped or failed left out and files of other names ignored; and the
  windows the progress of the run is published in count each of them once.
\<close>

theorem ParseTxnLogs_reads_back:
  assumes "\<forall>(name, es) \<in> set dir. list_all log_ok es" and "0 < width"
    and "txns = ParseTxnLogs (map (\<lambda>(name, es). (name, Inr (log_text es))) dir)"
  shows "txns = concat (map (\<lambda>(name, es). if HasPrefix name ''pgbench_log'' then List.map_filter event_txn es else []) dir)
    \<and> sum_list (map tbTxns (pgbench_Buckets txns width)) = length txns"
proof
  have "ParseTxnLogs (map (\<lambda>(name, es). (name, Inr (log_text es))) dir)
      = concat (map (\<lambda>(name, es). if HasPrefix name ''pgbench_log'' then List.map_filter event_txn es else []) dir)"
    unfolding ParseTxnLogs_def map_map comp_def using assms(1)
    by (intro arg_cong[where f = concat] map_cong) (auto simp: map_filter_log)
  then show "txns = concat (map (\<lambda>(name, es). if HasPrefix name ''pgbench_log'' then List.map_filter event_txn es else []) dir)"
    using assms(3) by simp
  have "sum_list (map tbTxns (pgbench_Buckets txns width))
      = sum_list (map Count (latency_Buckets (pgbench_samples txns) width))"
    by (simp add: pgbench_Buckets_def comp_def)
  then show "sum_list (map tbTxns (pgbench_Buckets txns width)) = length txns"
    using latency_buckets_partition[OF assms(2), of "pgbench_samples txns"] by (simp add: pgbench_samples_def)
qed

theorem ParseTxnLogs_reads_back_witness:
  "sum_list (map tbTxns (pgbench_Buckets (ParseTxnLogs [(''pgbench_log.1'',
     Inr (log_text [\<lparr>leClient = 0, leNo = 1, leTime = Inr 1500, leScript = 0, leEpoch = 1700000000, leMicro = 5\<rparr>,
       \<lparr>leClient = 1, leNo = 1, leTime = Inl ''skipped'', leScript = 0, leEpoch = 1700000001, leMicro = 7\<rparr>]))]) 30)) = 1"
  (is "sum_list (map tbTxns (pgbench_Buckets (ParseTxnLogs [(_, Inr (log_text ?es))]) 30)) = 1")
proof -
  note reads = ParseTxnLogs_reads_back[of "[(''pgbench_log.1'', ?es)]" 30, OF _ _ refl]
  have "ParseTxnLogs [(''pgbench_log.1'', Inr (log_text ?es))]
      = [\<lparr>txLatencyMS = fdiv (f64_of_int 1500) 1000, txEpoch = 1700000000\<rparr>]"
    using reads[THEN conjunct1] by (simp add: log_ok_def event_txn_def map_filter_simps HasPrefix_def)
  then have "length (ParseTxnLogs [(''pgbench_log.1'', Inr (log_text ?es))]) = 1" by simp
  then show ?thesis using reads[THEN conjunct2] by (simp add: log_ok_def)
qed

end
