(* ===== verification/Scenario.thy ===== *)
theory Scenario
  imports HttpRequests GoAny JsonText
begin

text \<open>
  Package \<open>scenario\<close> (src/scenario/scenario.go): the scenario document, what each kind of scenario
  has to say, and the defaults filled in at load. A section of the code is a function from scenario
  to scenario or error, and loading runs them in the order of the source.
\<close>

section \<open>The document\<close>

record scenario =
  sc_Name :: string
  sc_Kind :: string
  sc_Init :: bool
  sc_Scale :: int
  sc_Clients :: int
  sc_Threads :: int
  sc_Duration :: int
  sc_Warmup :: int
  sc_Builtin :: string
  sc_Script :: string
  sc_Driver :: string
  sc_Rate :: int
  sc_Setup :: string
  sc_Requests :: "request list"
  sc_Cycles :: int
  sc_Query :: string
  sc_Port :: int
  sc_Segment :: int
  sc_Drills :: "string list"
  sc_CheckpointSecs :: int
  sc_CompactSecs :: int
  sc_GCSecs :: int
  sc_GCRetention :: string
  sc_GCWindow :: string
  sc_FoldSecs :: int
  sc_ServerSideInit :: bool
  sc_Tenants :: int
  sc_WorkingSet :: int
  sc_MaxAttached :: int
  sc_IdleSecs :: int
  sc_SharedBuffers :: string
  sc_Hold :: int
  sc_SampleSecs :: int
  sc_SettleSecs :: int
  sc_DrainSecs :: int
  sc_Sockets :: int
  sc_Shards :: int
  sc_ConnectRate :: int
  sc_Rows :: int
  sc_Batch :: int
  sc_Writers :: int
  sc_HeartbeatSecs :: int
  sc_Table :: string

definition scenario_zero :: scenario where
  "scenario_zero =
     \<lparr>sc_Name = [], sc_Kind = [], sc_Init = False, sc_Scale = 0, sc_Clients = 0,
      sc_Threads = 0, sc_Duration = 0, sc_Warmup = 0, sc_Builtin = [], sc_Script = [], sc_Driver
      = [], sc_Rate = 0, sc_Setup = [], sc_Requests = [], sc_Cycles = 0, sc_Query = [], sc_Port
      = 0, sc_Segment = 0, sc_Drills = [], sc_CheckpointSecs = 0, sc_CompactSecs = 0, sc_GCSecs
      = 0, sc_GCRetention = [], sc_GCWindow = [], sc_FoldSecs = 0, sc_ServerSideInit = False,
      sc_Tenants = 0, sc_WorkingSet = 0, sc_MaxAttached = 0, sc_IdleSecs = 0, sc_SharedBuffers =
      [], sc_Hold = 0, sc_SampleSecs = 0, sc_SettleSecs = 0, sc_DrainSecs = 0, sc_Sockets = 0,
      sc_Shards = 0, sc_ConnectRate = 0, sc_Rows = 0, sc_Batch = 0, sc_Writers = 0,
      sc_HeartbeatSecs = 0, sc_Table = []\<rparr>"

definition scenario_fields :: "scenario fields" where
  "scenario_fields =
     [(''name'', on_field dec_string sc_Name (\<lambda>v. sc_Name_update (\<lambda>_. v))),
      (''kind'', on_field dec_string sc_Kind (\<lambda>v. sc_Kind_update (\<lambda>_. v))),
      (''init'', on_field dec_bool sc_Init (\<lambda>v. sc_Init_update (\<lambda>_. v))),
      (''scale'', on_field dec_int sc_Scale (\<lambda>v. sc_Scale_update (\<lambda>_. v))),
      (''clients'', on_field dec_int sc_Clients (\<lambda>v. sc_Clients_update (\<lambda>_. v))),
      (''threads'', on_field dec_int sc_Threads (\<lambda>v. sc_Threads_update (\<lambda>_. v))),
      (''duration'', on_field dec_int sc_Duration (\<lambda>v. sc_Duration_update (\<lambda>_. v))),
      (''warmup'', on_field dec_int sc_Warmup (\<lambda>v. sc_Warmup_update (\<lambda>_. v))),
      (''builtin'', on_field dec_string sc_Builtin (\<lambda>v. sc_Builtin_update (\<lambda>_. v))),
      (''script'', on_field dec_string sc_Script (\<lambda>v. sc_Script_update (\<lambda>_. v))),
      (''driver'', on_field dec_string sc_Driver (\<lambda>v. sc_Driver_update (\<lambda>_. v))),
      (''rate'', on_field dec_int sc_Rate (\<lambda>v. sc_Rate_update (\<lambda>_. v))),
      (''setup'', on_field dec_string sc_Setup (\<lambda>v. sc_Setup_update (\<lambda>_. v))),
      (''requests'', on_field (dec_list request_zero (dec_struct False request_fields)) sc_Requests (\<lambda>v. sc_Requests_update (\<lambda>_. v))),
      (''cycles'', on_field dec_int sc_Cycles (\<lambda>v. sc_Cycles_update (\<lambda>_. v))),
      (''query'', on_field dec_string sc_Query (\<lambda>v. sc_Query_update (\<lambda>_. v))),
      (''port'', on_field dec_int sc_Port (\<lambda>v. sc_Port_update (\<lambda>_. v))),
      (''segment'', on_field dec_int sc_Segment (\<lambda>v. sc_Segment_update (\<lambda>_. v))),
      (''drills'', on_field (dec_list [] dec_string) sc_Drills (\<lambda>v. sc_Drills_update (\<lambda>_. v))),
      (''checkpoint_secs'', on_field dec_int sc_CheckpointSecs (\<lambda>v. sc_CheckpointSecs_update (\<lambda>_. v))),
      (''compact_secs'', on_field dec_int sc_CompactSecs (\<lambda>v. sc_CompactSecs_update (\<lambda>_. v))),
      (''gc_secs'', on_field dec_int sc_GCSecs (\<lambda>v. sc_GCSecs_update (\<lambda>_. v))),
      (''gc_retention'', on_field dec_string sc_GCRetention (\<lambda>v. sc_GCRetention_update (\<lambda>_. v))),
      (''gc_window'', on_field dec_string sc_GCWindow (\<lambda>v. sc_GCWindow_update (\<lambda>_. v))),
      (''fold_secs'', on_field dec_int sc_FoldSecs (\<lambda>v. sc_FoldSecs_update (\<lambda>_. v))),
      (''server_side_init'', on_field dec_bool sc_ServerSideInit (\<lambda>v. sc_ServerSideInit_update (\<lambda>_. v))),
      (''tenants'', on_field dec_int sc_Tenants (\<lambda>v. sc_Tenants_update (\<lambda>_. v))),
      (''working_set'', on_field dec_int sc_WorkingSet (\<lambda>v. sc_WorkingSet_update (\<lambda>_. v))),
      (''max_attached'', on_field dec_int sc_MaxAttached (\<lambda>v. sc_MaxAttached_update (\<lambda>_. v))),
      (''idle_secs'', on_field dec_int sc_IdleSecs (\<lambda>v. sc_IdleSecs_update (\<lambda>_. v))),
      (''shared_buffers'', on_field dec_string sc_SharedBuffers (\<lambda>v. sc_SharedBuffers_update (\<lambda>_. v))),
      (''hold'', on_field dec_int sc_Hold (\<lambda>v. sc_Hold_update (\<lambda>_. v))),
      (''sample_secs'', on_field dec_int sc_SampleSecs (\<lambda>v. sc_SampleSecs_update (\<lambda>_. v))),
      (''settle_secs'', on_field dec_int sc_SettleSecs (\<lambda>v. sc_SettleSecs_update (\<lambda>_. v))),
      (''drain_secs'', on_field dec_int sc_DrainSecs (\<lambda>v. sc_DrainSecs_update (\<lambda>_. v))),
      (''sockets'', on_field dec_int sc_Sockets (\<lambda>v. sc_Sockets_update (\<lambda>_. v))),
      (''shards'', on_field dec_int sc_Shards (\<lambda>v. sc_Shards_update (\<lambda>_. v))),
      (''connect_rate'', on_field dec_int sc_ConnectRate (\<lambda>v. sc_ConnectRate_update (\<lambda>_. v))),
      (''rows'', on_field dec_int sc_Rows (\<lambda>v. sc_Rows_update (\<lambda>_. v))),
      (''batch'', on_field dec_int sc_Batch (\<lambda>v. sc_Batch_update (\<lambda>_. v))),
      (''writers'', on_field dec_int sc_Writers (\<lambda>v. sc_Writers_update (\<lambda>_. v))),
      (''heartbeat_secs'', on_field dec_int sc_HeartbeatSecs (\<lambda>v. sc_HeartbeatSecs_update (\<lambda>_. v))),
      (''table'', on_field dec_string sc_Table (\<lambda>v. sc_Table_update (\<lambda>_. v)))]"

definition IsREST :: "scenario \<Rightarrow> bool" where "IsREST s \<longleftrightarrow> sc_Kind s = ''rest''"
definition IsAttach :: "scenario \<Rightarrow> bool" where "IsAttach s \<longleftrightarrow> sc_Kind s = ''attach''"
definition IsSustain :: "scenario \<Rightarrow> bool" where "IsSustain s \<longleftrightarrow> sc_Kind s = ''sustain''"
definition IsFleet :: "scenario \<Rightarrow> bool" where "IsFleet s \<longleftrightarrow> sc_Kind s = ''fleet''"
definition IsSockets :: "scenario \<Rightarrow> bool" where "IsSockets s \<longleftrightarrow> sc_Kind s = ''sockets''"

lemmas kinds_of = IsREST_def IsAttach_def IsSustain_def IsFleet_def IsSockets_def

section \<open>Checks and defaults\<close>

definition named_section :: "string \<Rightarrow> scenario \<Rightarrow> scenario go_result" where
  "named_section path sc =
     (if sc_Name sc = [] then Inl (path @ '': scenario has no name'')
      else if IsREST sc \<and> sc_Requests sc = [] then Inl (path @ '': a rest scenario needs requests'')
      else Inr sc)"

definition attach_section :: "scenario \<Rightarrow> scenario go_result" where
  "attach_section sc =
     (if \<not> IsAttach sc then Inr sc else
      let sc = (if sc_Cycles sc = 0 then sc\<lparr>sc_Cycles := 10\<rparr> else sc);
          sc = (if sc_Query sc = [] then sc\<lparr>sc_Query := ''select 1''\<rparr> else sc);
          sc = (if sc_Port sc = 0 then sc\<lparr>sc_Port := 5432\<rparr> else sc)
      in Inr sc)"

definition fleet_section :: "string \<Rightarrow> scenario \<Rightarrow> scenario go_result" where
  "fleet_section path sc =
     (if \<not> IsFleet sc then Inr sc
      else if sc_Requests sc = [] then Inl (path @ '': a fleet scenario needs requests'') else
      let sc = (if sc_Tenants sc = 0 then sc\<lparr>sc_Tenants := 1000\<rparr> else sc);
          sc = (if sc_WorkingSet sc = 0 then sc\<lparr>sc_WorkingSet := quot (sc_Tenants sc) 10\<rparr> else sc);
          sc = (if sc_MaxAttached sc = 0 then sc\<lparr>sc_MaxAttached := 100\<rparr> else sc);
          sc = (if sc_IdleSecs sc = 0 then sc\<lparr>sc_IdleSecs := 300\<rparr> else sc);
          sc = (if sc_SampleSecs sc = 0 then sc\<lparr>sc_SampleSecs := 15\<rparr> else sc)
      in if sc_Tenants sc < sc_WorkingSet sc
         then Inl (path @ '': working_set '' @ itoa (sc_WorkingSet sc) @ '' is larger than tenants '' @ itoa (sc_Tenants sc))
         else Inr sc)"

definition sockets_section :: "string \<Rightarrow> scenario \<Rightarrow> scenario go_result" where
  "sockets_section path sc =
     (if \<not> IsSockets sc then Inr sc
      else if sc_Sockets sc = 0 then Inl (path @ '': a sockets scenario needs sockets'') else
      let sc = (if sc_Table sc = [] then sc\<lparr>sc_Table := ''pulse''\<rparr> else sc);
          sc = (if sc_Shards sc = 0 then sc\<lparr>sc_Shards := 1\<rparr> else sc)
      in if sc_Sockets sc < sc_Shards sc
         then Inl (path @ '': '' @ itoa (sc_Shards sc) @ '' shards and only '' @ itoa (sc_Sockets sc)
           @ '' sockets, so some shard would have nobody on it'')
         else
           let sc = (if sc_Batch sc = 0 then sc\<lparr>sc_Batch := 25\<rparr> else sc);
               sc = (if sc_Writers sc = 0 then sc\<lparr>sc_Writers := 4\<rparr> else sc);
               sc = (if sc_DrainSecs sc = 0 then sc\<lparr>sc_DrainSecs := 10\<rparr> else sc);
               sc = (if sc_HeartbeatSecs sc = 0 then sc\<lparr>sc_HeartbeatSecs := 30\<rparr> else sc)
           in Inr sc)"

definition drill_names :: "string list" where "drill_names = [''pusher'', ''crash'', ''death'']"

definition sustain_section :: "string \<Rightarrow> scenario \<Rightarrow> scenario go_result" where
  "sustain_section path sc =
     (if \<not> IsSustain sc then Inr sc else
      let sc = (if sc_Segment sc = 0 then sc\<lparr>sc_Segment := 600\<rparr> else sc);
          sc = (if sc_Drills sc = [] then sc\<lparr>sc_Drills := drill_names\<rparr> else sc)
      in case find (\<lambda>d. d \<notin> set drill_names) (sc_Drills sc) of
           Some d \<Rightarrow> Inl (path @ '': unknown drill '' @ Quote d)
         | None \<Rightarrow>
           let sc = (if sc_CheckpointSecs sc = 0 then sc\<lparr>sc_CheckpointSecs := 60\<rparr> else sc);
               sc = (if sc_CompactSecs sc = 0 then sc\<lparr>sc_CompactSecs := 120\<rparr> else sc);
               sc = (if sc_Port sc = 0 then sc\<lparr>sc_Port := 5497\<rparr> else sc)
           in Inr sc)"

definition driver_section :: "string \<Rightarrow> scenario \<Rightarrow> scenario go_result" where
  "driver_section path sc =
     (if sc_Driver sc = [] \<or> sc_Driver sc = ''pgbench'' then Inr sc
      else if sc_Driver sc = ''wire'' then
        (if sc_Script sc \<noteq> [] then Inl (path @ '': the wire driver runs tpcb-like, not the script '' @ sc_Script sc)
         else if sc_Builtin sc \<noteq> [] \<and> sc_Builtin sc \<noteq> ''tpcb-like''
           then Inl (path @ '': the wire driver runs tpcb-like, not '' @ sc_Builtin sc)
         else if 0 < sc_Rate sc
           then Inl (path @ '': the wire driver does not pace itself, so it cannot hold a rate of '' @ itoa (sc_Rate sc))
         else Inr sc)
      else Inl (path @ '': unknown driver '' @ Quote (sc_Driver sc)))"

definition load_section :: "scenario \<Rightarrow> scenario go_result" where
  "load_section sc =
     (let sc = (if sc_Clients sc = 0 then sc\<lparr>sc_Clients := 8\<rparr> else sc);
          sc = (if sc_Threads sc = 0 then sc\<lparr>sc_Threads := sc_Clients sc\<rparr> else sc);
          sc = (if sc_Duration sc = 0 then sc\<lparr>sc_Duration := 60\<rparr> else sc)
      in Inr sc)"

fun run_sections :: "('a \<Rightarrow> 'a go_result) list \<Rightarrow> 'a \<Rightarrow> 'a go_result" where
  "run_sections [] x = Inr x"
| "run_sections (f # fs) x = (case f x of Inl e \<Rightarrow> Inl e | Inr y \<Rightarrow> run_sections fs y)"

definition scenario_sections :: "string \<Rightarrow> (scenario \<Rightarrow> scenario go_result) list" where
  "scenario_sections path = [named_section path, attach_section, fleet_section path, sockets_section path,
     sustain_section path, driver_section path, load_section]"

definition scenario_Load :: "string \<Rightarrow> string go_result \<Rightarrow> (scenario \<times> any) go_result" where
  "scenario_Load path file =
     (case file of Inl e \<Rightarrow> Inl e
      | Inr raw \<Rightarrow>
        (case json_Unmarshal (dec_struct False scenario_fields) raw scenario_zero of
           None \<Rightarrow> Inl (path @ '': json'')
         | Some sc \<Rightarrow>
           (case run_sections (scenario_sections path) sc of Inl e \<Rightarrow> Inl e
            | Inr sc \<Rightarrow>
              (case json_parse raw of
                 Some (JObj es) \<Rightarrow> Inr (sc, any_of_json (JObj es))
               | Some JNull \<Rightarrow> Inr (sc, ANil)
               | _ \<Rightarrow> Inl ''json''))))"

section \<open>What a loaded scenario promises its driver\<close>

definition named_ok :: "scenario \<Rightarrow> bool" where
  "named_ok sc \<longleftrightarrow> sc_Name sc \<noteq> [] \<and> (IsREST sc \<longrightarrow> sc_Requests sc \<noteq> [])"

definition attach_ok :: "scenario \<Rightarrow> bool" where
  "attach_ok sc \<longleftrightarrow> (IsAttach sc \<longrightarrow> sc_Cycles sc \<noteq> 0 \<and> sc_Query sc \<noteq> [] \<and> sc_Port sc \<noteq> 0)"

definition fleet_ok :: "scenario \<Rightarrow> bool" where
  "fleet_ok sc \<longleftrightarrow> (IsFleet sc \<longrightarrow> sc_Requests sc \<noteq> [] \<and> sc_Tenants sc \<noteq> 0
     \<and> (sc_WorkingSet sc = 0 \<longrightarrow> \<bar>sc_Tenants sc\<bar> < 10) \<and> sc_WorkingSet sc \<le> sc_Tenants sc
     \<and> sc_MaxAttached sc \<noteq> 0 \<and> sc_IdleSecs sc \<noteq> 0 \<and> sc_SampleSecs sc \<noteq> 0)"

definition sockets_ok :: "scenario \<Rightarrow> bool" where
  "sockets_ok sc \<longleftrightarrow> (IsSockets sc \<longrightarrow> sc_Sockets sc \<noteq> 0 \<and> sc_Table sc \<noteq> [] \<and> sc_Shards sc \<noteq> 0
     \<and> sc_Shards sc \<le> sc_Sockets sc \<and> sc_Batch sc \<noteq> 0 \<and> sc_Writers sc \<noteq> 0 \<and> sc_DrainSecs sc \<noteq> 0
     \<and> sc_HeartbeatSecs sc \<noteq> 0)"

definition sustain_ok :: "scenario \<Rightarrow> bool" where
  "sustain_ok sc \<longleftrightarrow> (IsSustain sc \<longrightarrow> sc_Segment sc \<noteq> 0 \<and> sc_Drills sc \<noteq> []
     \<and> set (sc_Drills sc) \<subseteq> set drill_names \<and> sc_CheckpointSecs sc \<noteq> 0 \<and> sc_CompactSecs sc \<noteq> 0
     \<and> sc_Port sc \<noteq> 0)"

definition driver_ok :: "scenario \<Rightarrow> bool" where
  "driver_ok sc \<longleftrightarrow> sc_Driver sc = [] \<or> sc_Driver sc = ''pgbench''
     \<or> (sc_Driver sc = ''wire'' \<and> sc_Script sc = [] \<and> sc_Builtin sc \<in> {[], ''tpcb-like''} \<and> sc_Rate sc \<le> 0)"

definition load_ok :: "scenario \<Rightarrow> bool" where
  "load_ok sc \<longleftrightarrow> sc_Clients sc \<noteq> 0 \<and> sc_Threads sc \<noteq> 0 \<and> sc_Duration sc \<noteq> 0"

definition scenario_ok :: "scenario \<Rightarrow> bool" where
  "scenario_ok sc \<longleftrightarrow> named_ok sc \<and> attach_ok sc \<and> fleet_ok sc \<and> sockets_ok sc \<and> sustain_ok sc
     \<and> driver_ok sc \<and> load_ok sc"

text \<open>What every section leaves alone.\<close>

definition same_frame :: "scenario \<Rightarrow> scenario \<Rightarrow> bool" where
  "same_frame a b \<longleftrightarrow> sc_Name a = sc_Name b \<and> sc_Kind a = sc_Kind b \<and> sc_Requests a = sc_Requests b
     \<and> sc_Driver a = sc_Driver b \<and> sc_Script a = sc_Script b \<and> sc_Builtin a = sc_Builtin b \<and> sc_Rate a = sc_Rate b"

lemma same_frame_refl [simp]: "same_frame a a"
  by (simp add: same_frame_def)

lemma named_made: "named_section path sc = Inr sc' \<Longrightarrow> sc' = sc \<and> named_ok sc"
  by (auto simp: named_section_def named_ok_def split: if_splits)

text \<open>A default filled in, as an update whose value says whether it was.\<close>

definition dflt :: "'a \<Rightarrow> 'a \<Rightarrow> 'a \<Rightarrow> 'a" where "dflt z d v = (if v = z then d else v)"

lemma dflt_ne [simp]: "d \<noteq> z \<Longrightarrow> dflt z d v \<noteq> z"
  by (simp add: dflt_def)

lemma dflt_zero: "dflt z d v = z \<Longrightarrow> d = z"
  by (auto simp: dflt_def split: if_splits)

lemma filled:
  "(if sc_Cycles s = 0 then s\<lparr>sc_Cycles := d\<rparr> else s) = s\<lparr>sc_Cycles := dflt 0 d (sc_Cycles s)\<rparr>"
  "(if sc_Port s = 0 then s\<lparr>sc_Port := d\<rparr> else s) = s\<lparr>sc_Port := dflt 0 d (sc_Port s)\<rparr>"
  "(if sc_Tenants s = 0 then s\<lparr>sc_Tenants := d\<rparr> else s) = s\<lparr>sc_Tenants := dflt 0 d (sc_Tenants s)\<rparr>"
  "(if sc_WorkingSet s = 0 then s\<lparr>sc_WorkingSet := d\<rparr> else s) = s\<lparr>sc_WorkingSet := dflt 0 d (sc_WorkingSet s)\<rparr>"
  "(if sc_MaxAttached s = 0 then s\<lparr>sc_MaxAttached := d\<rparr> else s) = s\<lparr>sc_MaxAttached := dflt 0 d (sc_MaxAttached s)\<rparr>"
  "(if sc_IdleSecs s = 0 then s\<lparr>sc_IdleSecs := d\<rparr> else s) = s\<lparr>sc_IdleSecs := dflt 0 d (sc_IdleSecs s)\<rparr>"
  "(if sc_SampleSecs s = 0 then s\<lparr>sc_SampleSecs := d\<rparr> else s) = s\<lparr>sc_SampleSecs := dflt 0 d (sc_SampleSecs s)\<rparr>"
  "(if sc_Shards s = 0 then s\<lparr>sc_Shards := d\<rparr> else s) = s\<lparr>sc_Shards := dflt 0 d (sc_Shards s)\<rparr>"
  "(if sc_Batch s = 0 then s\<lparr>sc_Batch := d\<rparr> else s) = s\<lparr>sc_Batch := dflt 0 d (sc_Batch s)\<rparr>"
  "(if sc_Writers s = 0 then s\<lparr>sc_Writers := d\<rparr> else s) = s\<lparr>sc_Writers := dflt 0 d (sc_Writers s)\<rparr>"
  "(if sc_DrainSecs s = 0 then s\<lparr>sc_DrainSecs := d\<rparr> else s) = s\<lparr>sc_DrainSecs := dflt 0 d (sc_DrainSecs s)\<rparr>"
  "(if sc_HeartbeatSecs s = 0 then s\<lparr>sc_HeartbeatSecs := d\<rparr> else s) = s\<lparr>sc_HeartbeatSecs := dflt 0 d (sc_HeartbeatSecs s)\<rparr>"
  "(if sc_Segment s = 0 then s\<lparr>sc_Segment := d\<rparr> else s) = s\<lparr>sc_Segment := dflt 0 d (sc_Segment s)\<rparr>"
  "(if sc_CheckpointSecs s = 0 then s\<lparr>sc_CheckpointSecs := d\<rparr> else s) = s\<lparr>sc_CheckpointSecs := dflt 0 d (sc_CheckpointSecs s)\<rparr>"
  "(if sc_CompactSecs s = 0 then s\<lparr>sc_CompactSecs := d\<rparr> else s) = s\<lparr>sc_CompactSecs := dflt 0 d (sc_CompactSecs s)\<rparr>"
  "(if sc_Clients s = 0 then s\<lparr>sc_Clients := d\<rparr> else s) = s\<lparr>sc_Clients := dflt 0 d (sc_Clients s)\<rparr>"
  "(if sc_Threads s = 0 then s\<lparr>sc_Threads := d\<rparr> else s) = s\<lparr>sc_Threads := dflt 0 d (sc_Threads s)\<rparr>"
  "(if sc_Duration s = 0 then s\<lparr>sc_Duration := d\<rparr> else s) = s\<lparr>sc_Duration := dflt 0 d (sc_Duration s)\<rparr>"
  "(if sc_Query s = [] then s\<lparr>sc_Query := q\<rparr> else s) = s\<lparr>sc_Query := dflt [] q (sc_Query s)\<rparr>"
  "(if sc_Table s = [] then s\<lparr>sc_Table := q\<rparr> else s) = s\<lparr>sc_Table := dflt [] q (sc_Table s)\<rparr>"
  "(if sc_Drills s = [] then s\<lparr>sc_Drills := ds\<rparr> else s) = s\<lparr>sc_Drills := dflt [] ds (sc_Drills s)\<rparr>"
  by (simp_all add: dflt_def)

lemma if_Inl: "((if b then Inl e else r) = Inr y) = (\<not> b \<and> r = Inr y)"
  by simp

lemmas section_simps = Let_def if_Inl same_frame_def kinds_of

lemma attach_made: "attach_section sc = Inr sc' \<Longrightarrow> attach_ok sc' \<and> same_frame sc sc' \<and> (IsAttach sc \<or> sc' = sc)"
  unfolding attach_section_def filled
  by (cases "IsAttach sc") (auto simp: attach_ok_def section_simps)

lemma quot_ten: "quot n 10 = 0 \<Longrightarrow> \<bar>n\<bar> < 10"
  by (cases "n = 0") (auto simp: quot_def sgn_if split: if_splits)

lemma fleet_made: "fleet_section path sc = Inr sc' \<Longrightarrow> fleet_ok sc' \<and> same_frame sc sc' \<and> (IsFleet sc \<or> sc' = sc)"
  unfolding fleet_section_def filled
  by (cases "IsFleet sc") (auto simp: fleet_ok_def section_simps dest!: dflt_zero quot_ten)

lemma sockets_made: "sockets_section path sc = Inr sc' \<Longrightarrow> sockets_ok sc' \<and> same_frame sc sc' \<and> (IsSockets sc \<or> sc' = sc)"
  unfolding sockets_section_def filled
  by (cases "IsSockets sc") (auto simp: sockets_ok_def section_simps)

lemma find_none: "find (\<lambda>d. d \<notin> A) xs = None \<longleftrightarrow> set xs \<subseteq> A"
  by (auto simp: find_None_iff)

lemma drill_names_ne: "drill_names \<noteq> []"
  by (simp add: drill_names_def)

lemma sustain_made: "sustain_section path sc = Inr sc' \<Longrightarrow> sustain_ok sc' \<and> same_frame sc sc' \<and> (IsSustain sc \<or> sc' = sc)"
  unfolding sustain_section_def filled
  by (cases "IsSustain sc") (auto simp: sustain_ok_def section_simps find_none drill_names_ne split: option.splits)

lemma driver_made: "driver_section path sc = Inr sc' \<Longrightarrow> sc' = sc \<and> driver_ok sc"
  by (auto simp: driver_section_def driver_ok_def split: if_splits)

lemma load_made:
  "load_section sc = Inr sc' \<Longrightarrow> load_ok sc' \<and> same_frame sc sc'
     \<and> (fleet_ok sc \<longrightarrow> fleet_ok sc') \<and> (sockets_ok sc \<longrightarrow> sockets_ok sc')
     \<and> (attach_ok sc \<longrightarrow> attach_ok sc') \<and> (sustain_ok sc \<longrightarrow> sustain_ok sc')"
  unfolding load_section_def filled
  by (auto simp: load_ok_def fleet_ok_def sockets_ok_def attach_ok_def sustain_ok_def section_simps dest!: dflt_zero)

text \<open>A scenario that is in order goes through every section unchanged.\<close>

lemma dflt_id: "v \<noteq> z \<Longrightarrow> dflt z d v = v"
  by (simp add: dflt_def)

lemma named_done: "named_ok sc \<Longrightarrow> named_section path sc = Inr sc"
  by (simp add: named_section_def named_ok_def)

lemma attach_done: "attach_ok sc \<Longrightarrow> attach_section sc = Inr sc"
  unfolding attach_section_def by (simp add: attach_ok_def)

lemma quot_small: "\<bar>n\<bar> < 10 \<Longrightarrow> quot n 10 = 0"
  by (simp add: quot_def)

lemma fleet_done: "fleet_ok sc \<Longrightarrow> fleet_section path sc = Inr sc"
proof (cases "sc_WorkingSet sc = 0")
  case True
  assume ok: "fleet_ok sc"
  have "sc\<lparr>sc_WorkingSet := 0\<rparr> = sc" using True by simp
  with True ok show ?thesis unfolding fleet_section_def
    by (cases "IsFleet sc") (auto simp: fleet_ok_def quot_small)
qed (cases "IsFleet sc"; auto simp: fleet_section_def fleet_ok_def)

lemma sockets_done: "sockets_ok sc \<Longrightarrow> sockets_section path sc = Inr sc"
  unfolding sockets_section_def by (cases "IsSockets sc") (auto simp: sockets_ok_def)

lemma sustain_done: "sustain_ok sc \<Longrightarrow> sustain_section path sc = Inr sc"
  unfolding sustain_section_def by (simp add: sustain_ok_def find_none[THEN iffD2])

lemma driver_done: "driver_ok sc \<Longrightarrow> driver_section path sc = Inr sc"
  by (auto simp: driver_section_def driver_ok_def)

lemma load_done: "load_ok sc \<Longrightarrow> load_section sc = Inr sc"
  unfolding load_section_def by (simp add: load_ok_def)

lemmas sections_done = named_done attach_done fleet_done sockets_done sustain_done driver_done load_done

lemma run_sections_ok: "scenario_ok sc \<Longrightarrow> run_sections (scenario_sections path) sc = Inr sc"
  by (simp add: scenario_sections_def scenario_ok_def sections_done)

lemma frame_named: "same_frame a b \<Longrightarrow> named_ok a \<Longrightarrow> named_ok b"
  by (simp add: same_frame_def named_ok_def kinds_of)

lemma frame_driver: "same_frame a b \<Longrightarrow> driver_ok a = driver_ok b"
  by (simp add: same_frame_def driver_ok_def)

lemma frame_trans: "same_frame a b \<Longrightarrow> same_frame b c \<Longrightarrow> same_frame a c"
  by (simp add: same_frame_def)

lemma other_kind:
  assumes "same_frame a b"
  shows "IsFleet a \<Longrightarrow> attach_ok b" "IsSockets a \<Longrightarrow> attach_ok b \<and> fleet_ok b"
    "IsSustain a \<Longrightarrow> attach_ok b \<and> fleet_ok b \<and> sockets_ok b"
  using assms by (auto simp: same_frame_def kinds_of attach_ok_def fleet_ok_def sockets_ok_def)

lemma sections_made:
  assumes "run_sections (scenario_sections path) sc = Inr sc'"
  shows "scenario_ok sc' \<and> same_frame sc sc'"
proof -
  obtain s1 s2 s3 s4 where
    run: "named_section path sc = Inr sc" "attach_section sc = Inr s1" "fleet_section path s1 = Inr s2"
      "sockets_section path s2 = Inr s3" "sustain_section path s3 = Inr s4" "driver_section path s4 = Inr s4"
      "load_section s4 = Inr sc'"
    using assms named_made driver_made
    by (auto simp: scenario_sections_def split: sum.splits) metis
  note m = named_made[OF run(1)] attach_made[OF run(2)] fleet_made[OF run(3)] sockets_made[OF run(4)]
    sustain_made[OF run(5)] driver_made[OF run(6)] load_made[OF run(7)]
  have a2: "attach_ok s2" using m(2,3) other_kind(1)[of s1 s2] by blast
  have a3: "attach_ok s3 \<and> fleet_ok s3" using m(3,4) a2 other_kind(2)[of s2 s3] by blast
  have a4: "attach_ok s4 \<and> fleet_ok s4 \<and> sockets_ok s4" using m(4,5) a3 other_kind(3)[of s3 s4] by blast
  have frame: "same_frame sc sc'" "same_frame s4 sc'"
    using m by (meson frame_trans)+
  then show ?thesis
    using m a4 frame_named[OF frame(1)] frame_driver[OF frame(2)] by (auto simp: scenario_ok_def)
qed

text \<open>
  C39: a scenario that loads keeps every promise its driver relies on: the fields its kind needs are
  there, a working set fits its fleet, no shard goes without a socket, every drill is a known one,
  the wire driver is asked for nothing it cannot do, and clients, threads and duration are set. What
  the document says of the name, the kind, the requests and the driver is kept, and resolving the
  result again changes nothing.
\<close>

theorem scenario_Load_ok:
  assumes "scenario_Load path (Inr raw) = Inr (sc, doc)"
  shows "scenario_ok sc \<and> run_sections (scenario_sections path') sc = Inr sc
    \<and> (\<exists>written. json_Unmarshal (dec_struct False scenario_fields) raw scenario_zero = Some written
         \<and> same_frame written sc)"
proof -
  obtain written where w: "json_Unmarshal (dec_struct False scenario_fields) raw scenario_zero = Some written"
    "run_sections (scenario_sections path) written = Inr sc"
    using assms by (auto simp: scenario_Load_def split: option.splits sum.splits json.splits)
  then show ?thesis using sections_made[OF w(2)] run_sections_ok by blast
qed

theorem scenario_Load_ok_witness:
  "\<exists>sc doc. scenario_Load ''f'' (Inr (MarshalIndent (JObj [(''name'', JStr ''s''), (''kind'', JStr ''sockets''),
      (''sockets'', JNum ''9'')]))) = Inr (sc, doc) \<and> scenario_ok sc \<and> sc_Shards sc = 1"
proof -
  let ?j = "JObj [(''name'', JStr ''s''), (''kind'', JStr ''sockets''), (''sockets'', JNum ''9'')]"
  have parse: "json_parse (MarshalIndent ?j) = Some ?j"
    by (rule json_parse_Marshal) (simp add: ascii_def scan_number_def scan_whole_def scan_digits_def scan_frac_def
        scan_exp_def is_digit_def)
  let ?w = "scenario_zero\<lparr>sc_Name := ''s'', sc_Kind := ''sockets'', sc_Sockets := 9\<rparr>"
  have w: "json_Unmarshal (dec_struct False scenario_fields) (MarshalIndent ?j) scenario_zero = Some ?w"
    unfolding json_Unmarshal_def parse
    by (simp add: dec_struct_def scenario_fields_def find_field_def on_field_def dec_string_def dec_int_def
        Atoi_def is_digit_def digits_val_def digit_val_def)
  obtain sc where sc: "run_sections (scenario_sections ''f'') ?w = Inr sc" "sc_Shards sc = 1"
    by (simp add: scenario_sections_def named_section_def attach_section_def fleet_section_def sockets_section_def
        sustain_section_def driver_section_def load_section_def kinds_of scenario_zero_def)
  have "scenario_Load ''f'' (Inr (MarshalIndent ?j)) = Inr (sc, any_of_json ?j)"
    using w sc parse by (simp add: scenario_Load_def)
  then show ?thesis using scenario_Load_ok[of "''f''" "MarshalIndent ?j" sc] sc(2) by blast
qed

end
