(* ===== verification/CmdRest.thy ===== *)
theory CmdRest
  imports Command RestToken HttpLoad Snapshots Pgbench Scenario
begin

text \<open>
  \<open>zoubench rest\<close> (src/cmd/zoubench/rest.go): the setup file, the tokens, the marks taken around the
  load, the load itself, and the document. The database, the server under load, the clocks and the
  files are fields of \<open>rest_world\<close>. The command dies with \<open>Fail\<close>, and panics where the driver does.
\<close>

record rest_args =
  reScenario :: string
  reUrl :: string
  reLabel :: string
  reSecret :: string
  reAnonKey :: string
  reUser :: string
  reDsn :: string
  reDatadir :: string
  reStats :: string
  reOutdir :: string
  reSimulated :: string

record rest_world =
  wrFile :: "string go_result"
  wrSetup :: "string list \<Rightarrow> go_error option"
  wrHmac :: "string \<Rightarrow> string \<Rightarrow> string"
  wrNow :: int
  wrDate :: string
  wrEnv :: doc
  wrSim :: string
  wrDelay :: string
  wrPsql :: "string list \<Rightarrow> string go_result"
  wrPsqlBefore :: "string list \<Rightarrow> string go_result"
  wrPsqlAfter :: "string list \<Rightarrow> string go_result"
  wrPidfile :: "string go_result"
  wrTree :: doc
  wrSystem :: doc
  wrOpsBefore :: "bytes go_result"
  wrOpsAfter :: "bytes go_result"
  wrWarm :: "nat \<Rightarrow> rest_event list"
  wrTraffic :: "nat \<Rightarrow> rest_event list"
  wrSeed :: "nat \<Rightarrow> rng"
  wrElapsed :: int
  wrMkdir :: "go_error option"
  wrWrite :: "go_error option"

section \<open>Before the load\<close>

text \<open>The workload's own schema and rows, applied on every run that has any.\<close>

definition setup_argv :: "string \<Rightarrow> string \<Rightarrow> string \<Rightarrow> string list" where
  "setup_argv scenarioPath file1 dsn =
     [''-v'', ''ON_ERROR_STOP=1'', ''-q'', ''-f'', path_Join (path_Dir scenarioPath) file1] @ DSNArgs dsn"

definition apply_setup :: "string \<Rightarrow> string \<Rightarrow> string \<Rightarrow> (string list \<Rightarrow> go_error option) \<Rightarrow> unit go_result" where
  "apply_setup scenarioPath file1 dsn psql =
     (if file1 = [] then Inr ()
      else if dsn = [] then Inl (scenarioPath @ '' has a setup file, so the run needs a --dsn to apply it'')
      else dies (psql (setup_argv scenarioPath file1 dsn)))"

definition rest_tokens :: "rest_args \<Rightarrow> rest_world \<Rightarrow> (string \<times> string) list" where
  "rest_tokens a w =
     (if reSecret a = [] then []
      else [(''anon'', KeyToken (wrHmac w) (wrNow w) (reSecret a) ''anon''),
            (''service'', KeyToken (wrHmac w) (wrNow w) (reSecret a) ''service_role''),
            (''user'', UserToken (wrHmac w) (wrNow w) (reSecret a) (reUser a) ''bench@example.com'')])"

definition rest_key :: "rest_args \<Rightarrow> rest_world \<Rightarrow> string" where
  "rest_key a w =
     (if reAnonKey a \<noteq> [] then reAnonKey a
      else case map_of (rest_tokens a w) ''anon'' of None \<Rightarrow> [] | Some key \<Rightarrow> key)"

definition rest_options :: "rest_args \<Rightarrow> rest_world \<Rightarrow> scenario \<Rightarrow> options" where
  "rest_options a w sc =
     \<lparr>BaseURL = TrimSuffix (reUrl a) ''/'', Clients = sc_Clients sc, Warmup = sc_Warmup sc,
      Requests = sc_Requests sc, Tokens = rest_tokens a w, APIKey = rest_key a w\<rparr>"

definition rest_head :: "rest_args \<Rightarrow> rest_world \<Rightarrow> scenario \<Rightarrow> any \<Rightarrow> doc" where
  "rest_head a w sc config =
     (let spec = sim_spec (reSimulated a) (wrSim w) (wrDelay w);
          conn1 = DSNArgs (reDsn a);
          version = (if reDsn a = [] then [] else Version (wrPsql w) conn1)
      in [(''scenario'', AStr (sc_Name sc)), (''label'', AStr (reLabel a)), (''date'', AStr (wrDate w)),
          (''config'', config), (''env'', AMap (wrEnv w)), (''base_url'', AStr (reUrl a))]
         @ (if spec \<noteq> [] then [(''simulated'', AStr spec)] else [])
         @ (if version \<noteq> [] then [(''server_version'', AStr version)] else [])
         @ (if reDsn a = [] then [] else when_some ''server_settings'' (map_option AMap (Settings (wrPsql w) conn1))))"

section \<open>What the load came to\<close>

definition rest_bucket_any :: "bucket \<Rightarrow> any" where
  "rest_bucket_any b = AMap [(''t'', AInt (bucket.Second b)), (''n'', AInt (int (Count b))), (''rate'', AFloat (Rate b)),
     (''p50'', AFloat (P50 b)), (''p99'', AFloat (P99 b))]"

definition request_any :: "(string \<rightharpoonup> f64) \<Rightarrow> any" where
  "request_any p = AMap (List.map_filter (\<lambda>k. map_option (\<lambda>v. (k, AFloat v)) (p k))
     [''max'', ''mean'', ''p50'', ''p90'', ''p95'', ''p99'', ''p999'', ''requests'', ''stddev''])"

definition rest_blocks :: "http_outcome \<Rightarrow> doc" where
  "rest_blocks out =
     (let secs = Seconds (out_Elapsed out); pct = latency_Percentiles (out_Samples out) in
      [(''tps'', AFloat (round1 (fdiv (f64_of_int (int (length (out_Samples out)))) secs))),
       (''requests'', AInt (int (out_Requests out))), (''errors'', AInt (int (out_Errors out))),
       (''status'', AMap (map (\<lambda>(code, n). (itoa code, AInt (int n))) (out_Status out))),
       (''bytes'', AInt (out_Bytes out)), (''latency_ms'', pct_any pct),
       (''latency_avg_ms'', AFloat (at_zero pct ''mean'')),
       (''buckets_30s'', AList (map rest_bucket_any (latency_Buckets (out_Samples out) 30))),
       (''per_request'', AMap (map (\<lambda>(name, p). (name, request_any p)) (out_PerRequest out)))]
      @ (if out_Failures out \<noteq> [] then [(''failures'', AList (map AStr (out_Failures out)))] else []))"

definition delta_any :: "(string \<times> (string \<times> f64) list) list \<Rightarrow> doc" where
  "delta_any d = map (\<lambda>(k, m). (k, AMap (map (apsnd AFloat) m))) d"

definition rest_delta :: "rest_args \<Rightarrow> rest_world \<Rightarrow> doc" where
  "rest_delta a w =
     (if reDsn a = [] then []
      else unless_empty ''pg_delta'' (delta_any (Delta (Snapshot (wrPsqlBefore w) (DSNArgs (reDsn a)))
             (Snapshot (wrPsqlAfter w) (DSNArgs (reDsn a))))))"

record rest_out =
  reDoc :: doc
  rePath :: string
  reOutcome :: http_outcome

text \<open>A rate over no time at all is not a number, which the encoder refuses.\<close>

definition encodable :: "http_outcome \<Rightarrow> go_error option" where
  "encodable out = (if Seconds (out_Elapsed out) = 0 then Some ''json: unsupported value'' else None)"

definition cmdREST :: "rest_args \<Rightarrow> rest_world \<Rightarrow> (go_error, rest_out) outcome" where
  "cmdREST a w =
     (case and_then (scenario_Load (reScenario a) (wrFile w)) (\<lambda>(sc, config).
        if \<not> IsREST sc then Inl (reScenario a @ '' is not a rest scenario'')
        else and_then (apply_setup (reScenario a) (sc_Setup sc) (reDsn a) (wrSetup w)) (\<lambda>_.
          and_then (if reDatadir a = [] then Inr 0 else serverPid (wrPidfile w)) (\<lambda>_.
          and_then (stats_mark (reStats a) (wrOpsBefore w)) (\<lambda>opsBefore. Inr (sc, config, opsBefore))))) of
        Inl e \<Rightarrow> Fail e
      | Inr (sc, config, opsBefore) \<Rightarrow>
        (case rest_Run (rest_options a w sc) (wrWarm w) (wrTraffic w) (wrSeed w) (wrElapsed w) of
           Panic \<Rightarrow> Panic
         | Fail e \<Rightarrow> Fail e
         | Ok out \<Rightarrow>
           (case and_then (stats_mark (reStats a) (wrOpsAfter w)) (\<lambda>opsAfter.
              and_then (ops_delta opsBefore opsAfter) (\<lambda>window.
              and_then (dies (wrMkdir w)) (\<lambda>_. and_then (dies (encodable out)) (\<lambda>_.
              and_then (dies (wrWrite w)) (\<lambda>_. Inr window))))) of
              Inl e \<Rightarrow> Fail e
            | Inr window \<Rightarrow> Ok
                \<lparr>reDoc = rest_head a w sc config @ rest_delta a w @ rest_blocks out
                   @ (if reDatadir a \<noteq> [] then [(''server'', AMap (wrTree w))] else [])
                   @ [(''system'', AMap (wrSystem w))] @ ops_block window,
                 rePath = path_Join (reOutdir a) (result_name (sc_Name sc) (reLabel a) (wrDate w)),
                 reOutcome = out\<rparr>)))"

text \<open>The line a run that was answered wrongly ends on, and what is printed of the document.\<close>

definition rest_warning :: "http_outcome \<Rightarrow> string list" where
  "rest_warning out =
     (if 0 < out_Errors out
      then [''zoubench: '' @ itoa (int (out_Errors out)) @ '' of '' @ itoa (int (out_Requests out))
        @ '' requests were not what the workload expected: '' @ strings_Join (out_Failures out) ''; '']
      else [])"

definition rest_brief :: "doc \<Rightarrow> doc" where
  "rest_brief r = filter (\<lambda>(k, v). k \<notin> {''config'', ''server_settings'', ''env'', ''buckets_30s'', ''system''}) r"

section \<open>The books of the document\<close>

lemma rest_head_keys: "fst ` set (rest_head a w sc config) \<subseteq> {''scenario'', ''label'', ''date'', ''config'', ''env'',
    ''base_url'', ''simulated'', ''server_version'', ''server_settings''}"
  by (auto simp: rest_head_def Let_def when_some_def split: option.splits if_splits)

lemma rest_delta_keys: "fst ` set (rest_delta a w) \<subseteq> {''pg_delta''}"
  by (auto simp: rest_delta_def unless_empty_def)

lemma cmdREST_Ok:
  assumes "cmdREST a w = Ok r"
  obtains sc config window where "scenario_Load (reScenario a) (wrFile w) = Inr (sc, config)"
    "rest_Run (rest_options a w sc) (wrWarm w) (wrTraffic w) (wrSeed w) (wrElapsed w) = Ok (reOutcome r)"
    "reDoc r = rest_head a w sc config @ rest_delta a w @ rest_blocks (reOutcome r)
       @ (if reDatadir a \<noteq> [] then [(''server'', AMap (wrTree w))] else []) @ [(''system'', AMap (wrSystem w))] @ ops_block window"
    "encodable (reOutcome r) = None"
  using assms
  by (auto simp: cmdREST_def and_then_def dies_def split: sum.splits outcome.splits option.splits prod.splits if_splits)

lemma rest_doc_get:
  assumes "cmdREST a w = Ok r" and "k \<in> {''tps'', ''requests'', ''errors'', ''status'', ''failures'', ''per_request''}"
  shows "map_get (reDoc r) k = map_get (rest_blocks (reOutcome r)) k"
  using assms(1)
proof (rule cmdREST_Ok)
  fix sc config window
  assume doc: "reDoc r = rest_head a w sc config @ rest_delta a w @ rest_blocks (reOutcome r)
       @ (if reDatadir a \<noteq> [] then [(''server'', AMap (wrTree w))] else []) @ [(''system'', AMap (wrSystem w))] @ ops_block window"
  have "k \<notin> fst ` set (rest_head a w sc config)" "k \<notin> fst ` set (rest_delta a w)"
    using assms(2) rest_head_keys[of a w sc config] rest_delta_keys[of a w] by auto
  then show ?thesis
    unfolding doc using assms(2)
    by (cases "k \<in> fst ` set (rest_blocks (reOutcome r))")
      (auto simp: map_get_append map_get_none ops_block_def split: option.splits)
qed

lemma rest_drive_elapsed: "rest_drive opt picks keep traffic seed elapsed = Ok out \<Longrightarrow> out_Elapsed out = elapsed"
  by (auto simp: rest_drive_def http_merge_def Let_def split: option.splits)

lemma rest_Run_elapsed: "rest_Run opt warm traffic seed elapsed = Ok out \<Longrightarrow> out_Elapsed out = elapsed"
  by (auto simp: rest_Run_def Let_def rest_drive_elapsed split: if_splits outcome.splits)

text \<open>What a reader adds up of the statuses in a document.\<close>

definition status_total :: "doc \<Rightarrow> int" where
  "status_total d = (case map_get d ''status'' of
     AMap m \<Rightarrow> sum_list (map (\<lambda>kv. case snd kv of AInt n \<Rightarrow> n | _ \<Rightarrow> 0) m) | _ \<Rightarrow> 0)"

lemma status_sum: "sum_list (map ((\<lambda>kv. case snd kv of AInt n \<Rightarrow> n | _ \<Rightarrow> 0) \<circ> (\<lambda>(code, n). (itoa code, AInt (int n)))) st)
    = int (sum_list (map snd st))"
  by (induction st) (auto simp: split_beta)


section \<open>A rest run as an example\<close>

definition read_load :: json where
  "read_load = JObj [(''name'', JStr ''r''), (''kind'', JStr ''rest''), (''clients'', JNum ''1''),
     (''requests'', JArr [JObj [(''name'', JStr ''read''), (''path'', JStr ''/t'')]])]"

definition read_args :: rest_args where
  "read_args = \<lparr>reScenario = ''r.json'', reUrl = ''http://h/'', reLabel = ''l'', reSecret = [], reAnonKey = ''k'', reUser = ''u'',
     reDsn = [], reDatadir = [], reStats = [], reOutdir = ''results'', reSimulated = []\<rparr>"

definition read_world :: rest_world where
  "read_world = \<lparr>wrFile = Inr (MarshalIndent read_load), wrSetup = (\<lambda>_. None), wrHmac = (\<lambda>_ t. t), wrNow = 0,
     wrDate = ''2026-01-02T03:04:05Z'', wrEnv = [], wrSim = [], wrDelay = [], wrPsql = (\<lambda>_. Inl ''down''),
     wrPsqlBefore = (\<lambda>_. Inl ''down''), wrPsqlAfter = (\<lambda>_. Inl ''down''), wrPidfile = Inl ''none'', wrTree = [], wrSystem = [],
     wrOpsBefore = Inl ''none'', wrOpsAfter = Inl ''none'', wrWarm = ok_then_broken, wrTraffic = ok_then_broken,
     wrSeed = (\<lambda>_. []), wrElapsed = GoTime.Second, wrMkdir = None, wrWrite = None\<rparr>"

lemma read_parse: "json_parse (MarshalIndent read_load) = Some read_load"
  unfolding read_load_def
  by (rule json_parse_Marshal; simp add: ascii_def scan_number_def scan_whole_def scan_digits_def scan_frac_def
      scan_exp_def is_digit_def)

lemma read_loads: "\<exists>sc config. scenario_Load (reScenario read_args) (wrFile read_world) = Inr (sc, config) \<and> IsREST sc
    \<and> sc_Setup sc = [] \<and> sc_Clients sc = 1 \<and> sc_Warmup sc = 0
    \<and> sc_Requests sc = [request_zero\<lparr>rq_Name := ''read'', rq_Path := ''/t''\<rparr>]"
proof -
  let ?sc = "scenario_zero\<lparr>sc_Name := ''r'', sc_Kind := ''rest'', sc_Clients := 1,
      sc_Requests := [request_zero\<lparr>rq_Name := ''read'', rq_Path := ''/t''\<rparr>]\<rparr>"
  have "json_Unmarshal (dec_struct False scenario_fields) (MarshalIndent read_load) scenario_zero = Some ?sc"
    unfolding json_Unmarshal_def read_parse unfolding read_load_def by code_simp
  moreover obtain sc where "run_sections (scenario_sections (reScenario read_args)) ?sc = Inr sc"
      "sc_Clients sc = 1" "sc_Warmup sc = 0" "IsREST sc" "sc_Setup sc = []" "sc_Requests sc = [request_zero\<lparr>rq_Name := ''read'', rq_Path := ''/t''\<rparr>]"
    by (simp add: scenario_sections_def named_section_def attach_section_def fleet_section_def sockets_section_def
        sustain_section_def driver_section_def load_section_def kinds_of scenario_zero_def)
  ultimately show ?thesis
    using read_parse by (simp add: scenario_Load_def read_world_def) (simp add: read_load_def)
qed


end
