(* ===== verification/FleetState.thy ===== *)
theory FleetState
  imports JsonText GoFiles
begin

text \<open>
  Package \<open>fleet\<close>, what a run remembers between invocations (src/fleet/state.go): the refs that are
  ready, read from a state file and written through a temporary file as each one becomes ready. The
  mutex makes every operation one step.
\<close>

section \<open>Loading\<close>

record disk_state =
  onStore :: string
  onSecret :: string
  onReady :: "string list"

record fleet_state =
  Store :: string
  Secret :: string
  Ready :: "string list"
  state_path :: string
  ready_set :: "string set"

definition State_fields :: "disk_state fields" where
  "State_fields =
     [(''store'', on_field dec_string onStore (\<lambda>v. onStore_update (\<lambda>_. v))),
      (''secret'', on_field dec_string onSecret (\<lambda>v. onSecret_update (\<lambda>_. v))),
      (''ready'', on_field (dec_list [] dec_string) onReady (\<lambda>v. onReady_update (\<lambda>_. v)))]"

definition State_Load :: "string \<Rightarrow> string \<Rightarrow> string \<Rightarrow> file_read \<Rightarrow> fleet_state go_result" where
  "State_Load path store secret file =
     (let s = \<lparr>Store = store, Secret = secret, Ready = [], state_path = path, ready_set = {}\<rparr> in
      case file of NotExist \<Rightarrow> Inr s
      | ReadErr e \<Rightarrow> Inl e
      | Contents raw \<Rightarrow>
        (case json_Unmarshal (dec_struct False State_fields) raw \<lparr>onStore = [], onSecret = [], onReady = []\<rparr> of
           None \<Rightarrow> Inl (path @ '': json'')
         | Some on \<Rightarrow>
            if onStore on \<noteq> store
              then Inl (path @ '' describes tenants in '' @ onStore on @ '', not '' @ store)
            else if onSecret on \<noteq> [] \<and> secret \<noteq> [] \<and> onSecret on \<noteq> secret
              then Inl (path @ '' was written with a different secret, the tokens would not verify'')
            else Inr (s\<lparr>Secret := (if onSecret on \<noteq> [] then onSecret on else secret),
              Ready := onReady on, ready_set := set (onReady on)\<rparr>)))"

section \<open>Adding and saving\<close>

definition State_Has :: "fleet_state \<Rightarrow> string \<Rightarrow> bool" where
  "State_Has s ref \<longleftrightarrow> ref \<in> ready_set s"

definition State_Count :: "fleet_state \<Rightarrow> nat" where "State_Count s = length (Ready s)"

text \<open>Saving follows an \<open>append\<close>, so the slice written is never nil.\<close>

definition state_doc :: "fleet_state \<Rightarrow> json" where
  "state_doc s = JObj [(''store'', JStr (Store s)), (''secret'', JStr (Secret s)),
     (''ready'', JArr (map JStr (Ready s)))]"

definition State_save :: "io \<Rightarrow> fleet_state \<Rightarrow> files \<Rightarrow> go_error option \<times> files" where
  "State_save io s fs =
     (if state_path s = [] then (None, fs)
      else case mkdir_err io of Some e \<Rightarrow> (Some e, fs)
      | None \<Rightarrow>
        let tmp = state_path s @ ''.tmp''; raw = MarshalIndent (state_doc s) in
        (case write_err io of Some (e, left) \<Rightarrow> (Some e, fs(tmp := left))
         | None \<Rightarrow>
           (case rename_err io of Some e \<Rightarrow> (Some e, fs(tmp \<mapsto> raw))
            | None \<Rightarrow> (None, fs(tmp := None, state_path s \<mapsto> raw)))))"

definition State_Add :: "io \<Rightarrow> string \<Rightarrow> fleet_state \<times> files \<Rightarrow> go_error option \<times> fleet_state \<times> files" where
  "State_Add io ref sf =
     (let (s, fs) = sf in
      if ref \<in> ready_set s then (None, s, fs)
      else let s = s\<lparr>ready_set := insert ref (ready_set s), Ready := sort (Ready s @ [ref])\<rparr>;
               (e, fs) = State_save io s fs
           in (e, s, fs))"

definition fleet_Refs :: "string \<Rightarrow> nat \<Rightarrow> string list" where
  "fleet_Refs pre n = map (\<lambda>i. pre @ pad_left (CHR ''0'') 4 (nat_text (i + 1))) [0..<n]"

section \<open>What a killed run finds\<close>

definition state_ok :: "fleet_state \<Rightarrow> bool" where
  "state_ok s \<longleftrightarrow> ready_set s = set (Ready s)"

definition state_ascii :: "fleet_state \<Rightarrow> bool" where
  "state_ascii s \<longleftrightarrow> ascii (Store s) \<and> ascii (Secret s) \<and> list_all ascii (Ready s)"

lemma State_Load_ok: "State_Load path store secret file = Inr s \<Longrightarrow> state_ok s"
  by (auto simp: State_Load_def Let_def state_ok_def split: file_read.splits option.splits if_splits)

lemma field_names:
  "find_field State_fields ''store'' = Some (on_field dec_string onStore (\<lambda>v. onStore_update (\<lambda>_. v)))"
  "find_field State_fields ''secret'' = Some (on_field dec_string onSecret (\<lambda>v. onSecret_update (\<lambda>_. v)))"
  "find_field State_fields ''ready'' = Some (on_field (dec_list [] dec_string) onReady (\<lambda>v. onReady_update (\<lambda>_. v)))"
  by (simp_all add: find_field_def State_fields_def)

lemma traverse_strings: "traverse (\<lambda>e. dec_string e []) (map JStr ss) = Some ss"
  by (induction ss) (simp_all add: dec_string_def)

lemma state_doc_back:
  assumes "state_ascii s"
  shows "json_Unmarshal (dec_struct False State_fields) (MarshalIndent (state_doc s)) \<lparr>onStore = [], onSecret = [], onReady = []\<rparr>
    = Some \<lparr>onStore = Store s, onSecret = Secret s, onReady = Ready s\<rparr>"
proof -
  have "json_ok (state_doc s)"
    using assms by (auto simp: state_doc_def state_ascii_def list_all_iff ascii_def)
  then show ?thesis
    by (simp add: json_Unmarshal_def json_parse_Marshal state_doc_def dec_struct_def field_names
        on_field_def dec_string_def dec_list_def traverse_strings[unfolded dec_string_def])
qed

lemma State_Load_saved:
  "state_ok s \<Longrightarrow> state_ascii s \<Longrightarrow>
     State_Load (state_path s) (Store s) (Secret s) (Contents (MarshalIndent (state_doc s))) = Inr s"
  by (simp add: State_Load_def state_doc_back state_ok_def)

lemma State_Add_new:
  assumes "State_Add io ref (s, fs) = (r, s', fs')" and "ref \<notin> ready_set s"
  shows "s' = s\<lparr>ready_set := insert ref (ready_set s), Ready := sort (Ready s @ [ref])\<rparr>
    \<and> State_save io s' fs = (r, fs')"
  using assms by (auto simp: State_Add_def Let_def split: prod.splits)

lemma State_save_atomic:
  assumes "State_save io s fs = (r, fs')" and "state_path s \<noteq> []"
  shows "(r = None \<longrightarrow> fs' (state_path s) = Some (MarshalIndent (state_doc s)))
    \<and> (r \<noteq> None \<longrightarrow> fs' (state_path s) = fs (state_path s))"
  using assms by (auto simp: State_save_def Let_def split: option.splits)

text \<open>
  C18: a ref added is a ref a later run finds. Adding keeps the set of ready refs and the list of
  them in step; a new ref whose save succeeded leaves a file from which \<open>LoadState\<close>, under the same
  store and secret, makes exactly the state in memory; a save that fails at any system call leaves
  the file as it was.
\<close>

theorem State_Add_durable:
  assumes "state_ok s" and "state_path s \<noteq> []" and "state_ascii s" and "ascii ref"
    and "State_Add io ref (s, fs) = (r, s', fs')"
  shows "state_ok s' \<and> set (Ready s') = insert ref (set (Ready s))
    \<and> (r = None \<and> ref \<notin> set (Ready s) \<longrightarrow>
        (\<exists>raw. fs' (state_path s) = Some raw
          \<and> State_Load (state_path s) (Store s) (Secret s) (Contents raw) = Inr s'))
    \<and> (r \<noteq> None \<longrightarrow> fs' (state_path s) = fs (state_path s))"
proof (cases "ref \<in> ready_set s")
  case True
  then show ?thesis using assms by (auto simp: State_Add_def state_ok_def)
next
  case False
  note new = State_Add_new[OF assms(5) False]
  have s': "state_ok s'" "state_ascii s'" "state_path s' = state_path s" "Store s' = Store s"
    "Secret s' = Secret s" "set (Ready s') = insert ref (set (Ready s))"
    using new assms by (auto simp: state_ok_def state_ascii_def list_all_iff)
  note saved = State_save_atomic[of io s' fs r fs']
  show ?thesis
    using State_Load_saved[OF s'(1,2)] saved new s' assms(2) by auto
qed

definition state_example :: fleet_state where
  "state_example = \<lparr>Store = ''s3://b'', Secret = ''k<1>'', Ready = [''t0002''], state_path = ''d/s.json'',
     ready_set = {''t0002''}\<rparr>"

definition disk_works :: io where
  "disk_works = \<lparr>mkdir_err = None, write_err = None, rename_err = None, remove_ok = True\<rparr>"

theorem State_Add_durable_witness:
  "\<exists>s' fs' raw. State_Add disk_works ''t0001'' (state_example, Map.empty) = (None, s', fs')
    \<and> fs' ''d/s.json'' = Some raw \<and> Ready s' = [''t0001'', ''t0002'']
    \<and> State_Load ''d/s.json'' ''s3://b'' ''k<1>'' (Contents raw) = Inr s'"
proof -
  obtain r s' fs' where add: "State_Add disk_works ''t0001'' (state_example, Map.empty) = (r, s', fs')"
    by (metis prod_cases3)
  have new: "''t0001'' \<notin> ready_set state_example" by (simp add: state_example_def)
  note s' = State_Add_new[OF add new]
  have r: "r = None"
    using s' by (auto simp: State_save_def disk_works_def Let_def state_example_def)
  have "Ready s' = [''t0001'', ''t0002'']"
    using s' by (simp add: state_example_def less_char_def)
  moreover have "state_ok state_example" "state_path state_example \<noteq> []" "state_ascii state_example" "ascii ''t0001''"
    by (simp_all add: state_example_def state_ok_def state_ascii_def ascii_def)
  note State_Add_durable[OF this add]
  ultimately show ?thesis using add r new
    by (auto simp: state_example_def)
qed

end
