(* ===== verification/Provision.thy ===== *)
theory Provision
  imports FleetState FleetMetrics Latency GoAny GoTime
begin

text \<open>
  Making the tenants that are not there yet (src/cmd/zoubench/fleet.go): the refs are handed to a
  pool of workers over an unbuffered channel, each worker registers, touches and sets up its tenant
  and then adds it to the saved state. The pool is a step relation, so every interleaving of the
  workers is covered; the theorem says where it can stop.
\<close>

section \<open>One tenant\<close>

text \<open>What the three steps of a tenant come to: the exit and output of the registration, the answer
  of the first request, the exit and output of the schema.\<close>

record tenant_answers =
  taRegister :: "bool \<times> string"
  taTouch :: "http_answer go_result"
  taSetup :: "bool \<times> string"

definition prov_register :: "bool \<times> string \<Rightarrow> go_error option" where
  "prov_register r =
     (let (failed, out) = r in
      if failed \<and> \<not> strings_Contains out ''already'' then Some (''tenant create: '' @ TrimSpace out) else None)"

definition prov_touch :: "http_answer go_result \<Rightarrow> go_error option" where
  "prov_touch answer =
     (case answer of Inl e \<Rightarrow> Some e
      | Inr res \<Rightarrow>
        if StatusCode res \<noteq> 200
        then Some (''first request answered '' @ Status res @ '': '' @ TrimSpace (take 400 (Body res)))
        else None)"

definition prov_setup :: "string \<Rightarrow> bool \<times> string \<Rightarrow> go_error option" where
  "prov_setup schema r =
     (if schema = [] then None
      else let (failed, out) = r in if failed then Some (''setup: '' @ TrimSpace out) else None)"

definition tenant_err :: "string \<Rightarrow> tenant_answers \<Rightarrow> go_error option" where
  "tenant_err schema a =
     (case prov_register (taRegister a) of Some e \<Rightarrow> Some e
      | None \<Rightarrow> (case prov_touch (taTouch a) of Some e \<Rightarrow> Some e
        | None \<Rightarrow> prov_setup schema (taSetup a)))"

section \<open>The pool\<close>

datatype worker = Waiting | Busy string | Gone

record provision =
  pvQueue :: "string list"
  pvWorkers :: "worker list"
  pvCreate :: "f64 list"
  pvFirst :: "f64 list"
  pvFailed :: "string list"
  pvState :: fleet_state
  pvFiles :: files

record provision_args =
  paSetup :: string
  paRefs :: "string list"
  paJobs :: int

definition prov_todo :: "provision_args \<Rightarrow> fleet_state \<Rightarrow> string list" where
  "prov_todo a s = filter (\<lambda>ref. \<not> State_Has s ref) (paRefs a)"

definition prov_jobs :: "provision_args \<Rightarrow> int" where
  "prov_jobs a = (if paJobs a \<le> 0 then 8 else paJobs a)"

definition prov_start :: "provision_args \<Rightarrow> fleet_state \<Rightarrow> files \<Rightarrow> provision" where
  "prov_start a s fs =
     \<lparr>pvQueue = prov_todo a s, pvWorkers = replicate (nat (prov_jobs a)) Waiting, pvCreate = [],
      pvFirst = [], pvFailed = [], pvState = s, pvFiles = fs\<rparr>"

definition keep_five :: "string \<Rightarrow> string list \<Rightarrow> string list" where
  "keep_five said failed = (if length failed < 5 then failed @ [said] else failed)"

text \<open>
  A ref goes from the sender to a worker that is waiting; a worker is done with its ref. A worker
  whose state could not be saved returns.
\<close>

datatype prov_event = Handed nat | Tried nat tenant_answers io f64 f64

inductive prov_step :: "string \<Rightarrow> prov_event \<Rightarrow> provision \<Rightarrow> provision \<Rightarrow> bool" for schema :: string where
  hand: "\<lbrakk>pvQueue p = ref # rest; i < length (pvWorkers p); pvWorkers p ! i = Waiting\<rbrakk> \<Longrightarrow>
    prov_step schema (Handed i) p (p\<lparr>pvQueue := rest, pvWorkers := (pvWorkers p)[i := Busy ref]\<rparr>)"
| broke: "\<lbrakk>i < length (pvWorkers p); pvWorkers p ! i = Busy ref; tenant_err schema a = Some e\<rbrakk> \<Longrightarrow>
    prov_step schema (Tried i a io created touched) p
      (p\<lparr>pvFailed := keep_five (ref @ '': '' @ e) (pvFailed p), pvWorkers := (pvWorkers p)[i := Waiting]\<rparr>)"
| made: "\<lbrakk>i < length (pvWorkers p); pvWorkers p ! i = Busy ref; tenant_err schema a = None;
      State_Add io ref (pvState p, pvFiles p) = (r, s, fs)\<rbrakk> \<Longrightarrow>
    prov_step schema (Tried i a io created touched) p
      (p\<lparr>pvCreate := pvCreate p @ [created], pvFirst := pvFirst p @ [touched], pvState := s, pvFiles := fs,
         pvWorkers := (pvWorkers p)[i := (if r = None then Waiting else Gone)]\<rparr>)"

code_pred (modes: i \<Rightarrow> i \<Rightarrow> i \<Rightarrow> o \<Rightarrow> bool) prov_step .

inductive_cases handedE: "prov_step schema (Handed i) p q"
inductive_cases triedE: "prov_step schema (Tried i a io c t) p q"

inductive prov_reach :: "provision_args \<Rightarrow> fleet_state \<Rightarrow> files \<Rightarrow> provision \<Rightarrow> bool"
  for a :: provision_args and s :: fleet_state and fs :: files where
  begun: "prov_reach a s fs (prov_start a s fs)"
| moved: "prov_reach a s fs p \<Longrightarrow> prov_step (paSetup a) e p q \<Longrightarrow> prov_reach a s fs q"

section \<open>The result\<close>

definition asSamples :: "f64 list \<Rightarrow> sample list" where
  "asSamples vals = map (\<lambda>v. \<lparr>MS = v, Epoch = 0\<rparr>) vals"

definition float_map :: "(string \<rightharpoonup> f64) \<Rightarrow> any" where
  "float_map mp = AMap (List.map_filter (\<lambda>k. map_option (\<lambda>v. (k, AFloat v)) (mp k))
     [''max'', ''mean'', ''min'', ''p50'', ''p90'', ''p95'', ''p99'', ''p999''])"

definition cmd_round2 :: "f64 \<Rightarrow> f64" where "cmd_round2 v = round_int 100 v"

definition prov_result :: "provision_args \<Rightarrow> fleet_state \<Rightarrow> int \<Rightarrow> provision \<Rightarrow> (string \<times> any) list \<times> go_error option" where
  "prov_result a s took p =
     (let made = length (pvCreate p);
          out = [(''tenants_made'', AInt (int made)),
                 (''tenants_skipped'', AInt (int (length (paRefs a)) - int (length (prov_todo a s)))),
                 (''seconds'', AFloat (cmd_round2 (Seconds took))),
                 (''cold_create_ms'', float_map (latency_Percentiles (asSamples (pvCreate p)))),
                 (''first_request_ms'', float_map (latency_Percentiles (asSamples (pvFirst p)))),
                 (''jobs'', AInt (prov_jobs a))]
            @ (if 0 < made then [(''tenants_per_minute'', AFloat (cmd_round2 (fdiv (f64_of_int (int made)) (Minutes took))))] else [])
      in case pvFailed p of [] \<Rightarrow> (out, None)
         | first # _ \<Rightarrow>
           (out @ [(''failures'', AList (map AStr (pvFailed p)))],
            Some (itoa (int (length (pvFailed p))) @ '' tenants could not be provisioned, first: '' @ first)))"

section \<open>Where the pool stops\<close>

fun is_busy :: "worker \<Rightarrow> bool" where
  "is_busy (Busy ref) = True"
| "is_busy _ = False"

definition prov_left :: "provision \<Rightarrow> nat" where
  "prov_left p = 2 * length (pvQueue p) + length (filter is_busy (pvWorkers p))"

text \<open>Every ref that is not ready yet is still on its way, as long as none has failed.\<close>

definition on_the_way :: "provision \<Rightarrow> string \<Rightarrow> bool" where
  "on_the_way p ref \<longleftrightarrow> ref \<in> set (pvQueue p) \<or> Busy ref \<in> set (pvWorkers p)"

definition prov_inv :: "provision_args \<Rightarrow> fleet_state \<Rightarrow> provision \<Rightarrow> bool" where
  "prov_inv a s p \<longleftrightarrow> length (pvFirst p) = length (pvCreate p) \<and> length (pvFailed p) \<le> 5 \<and>
     (pvFailed p = [] \<longrightarrow>
        (\<forall>ref \<in> set (paRefs a). State_Has (pvState p) ref \<or> on_the_way p ref) \<and>
        length (pvCreate p) + length (pvQueue p) + length (filter is_busy (pvWorkers p)) = length (prov_todo a s))"

lemma keep_five_simps [simp]: "keep_five said failed \<noteq> []" "length failed \<le> 5 \<Longrightarrow> length (keep_five said failed) \<le> 5"
  by (auto simp: keep_five_def)

lemma State_Add_has:
  "State_Add io ref (s, fs) = (r, s', fs') \<Longrightarrow> State_Has s' k \<longleftrightarrow> k = ref \<or> State_Has s k"
  by (auto simp: State_Add_def State_Has_def Let_def split: if_splits prod.splits)

lemma busy_after:
  assumes "i < length ws" and "ws ! i = Busy ref" and "\<not> is_busy w"
  obtains n where "length (filter is_busy ws) = Suc n" and "length (filter is_busy (ws[i := w])) = n"
  using length_filter_update[of i ws is_busy w] assms by simp

lemma gone_or_waiting: "\<not> is_busy (if P then Waiting else Gone)"
  by simp

lemma busy_before:
  "i < length ws \<Longrightarrow> ws ! i = Waiting \<Longrightarrow>
     length (filter is_busy (ws[i := Busy ref])) = length (filter is_busy ws) + 1"
  using length_filter_update[of i ws is_busy "Busy ref"] by simp

lemma prov_step_left: "prov_step schema e p q \<Longrightarrow> prov_left q < prov_left p"
proof (induction rule: prov_step.induct)
  case (broke i p ref a e io created touched)
  then obtain n where "length (filter is_busy (pvWorkers p)) = Suc n"
      "length (filter is_busy ((pvWorkers p)[i := Waiting])) = n"
    by (auto elim: busy_after[where w = Waiting])
  then show ?case by (simp add: prov_left_def)
next
  case (made i p ref a io r s fs created touched)
  then obtain n where "length (filter is_busy (pvWorkers p)) = Suc n"
      "length (filter is_busy ((pvWorkers p)[i := if r = None then Waiting else Gone])) = n"
    using busy_after[OF made.hyps(1,2) gone_or_waiting[of "r = None"]] by metis
  then show ?case by (simp add: prov_left_def)
qed (simp add: prov_left_def busy_before)

lemma prov_step_inv: "prov_step (paSetup a) e p q \<Longrightarrow> prov_inv a s p \<Longrightarrow> prov_inv a s q"
proof (induction rule: prov_step.induct)
  case (hand p ref rest i)
  have "Busy k \<in> set ((pvWorkers p)[i := Busy ref])" if "Busy k \<in> set (pvWorkers p)" for k
    using that hand(3) by (auto intro: in_set_update)
  moreover have "Busy ref \<in> set ((pvWorkers p)[i := Busy ref])" using hand(2) by (rule set_update_memI)
  ultimately show ?case
    using hand by (auto simp: prov_inv_def on_the_way_def busy_before)
next
  case (broke i p ref b e io created touched)
  then show ?case by (auto simp: prov_inv_def)
next
  case (made i p ref b io r s' fs' created touched)
  have "Busy k \<in> set ((pvWorkers p)[i := w])" if "Busy k \<in> set (pvWorkers p)" "k \<noteq> ref" for k w
    using that made(2) by (auto intro: in_set_update)
  moreover obtain n where "length (filter is_busy (pvWorkers p)) = Suc n"
      "length (filter is_busy ((pvWorkers p)[i := if r = None then Waiting else Gone])) = n"
    using busy_after[OF made.hyps(1,2) gone_or_waiting[of "r = None"]] by metis
  ultimately show ?case
    using made.prems State_Add_has[OF made.hyps(4)] by (simp add: prov_inv_def on_the_way_def) blast
qed

lemma prov_start_inv: "prov_inv a s (prov_start a s fs)"
  by (auto simp: prov_inv_def prov_start_def on_the_way_def prov_todo_def)

lemma prov_reach_inv: "prov_reach a s fs p \<Longrightarrow> prov_inv a s p"
  by (induction rule: prov_reach.induct) (auto intro: prov_start_inv prov_step_inv)

text \<open>A busy worker can always go on, if only by failing.\<close>

lemma busy_goes_on: "Busy ref \<in> set (pvWorkers p) \<Longrightarrow> \<exists>e q. prov_step schema e p q"
proof -
  assume "Busy ref \<in> set (pvWorkers p)"
  then obtain i where "i < length (pvWorkers p)" "pvWorkers p ! i = Busy ref" by (auto simp: in_set_conv_nth)
  moreover have "tenant_err schema \<lparr>taRegister = (True, []), taTouch = Inl [], taSetup = (False, [])\<rparr>
      = Some (''tenant create: '')"
    by (simp add: tenant_err_def prov_register_def strings_Contains_def TrimSpace_def)
  ultimately show ?thesis by (blast intro: prov_step.broke)
qed

lemma waiting_goes_on: "Waiting \<in> set (pvWorkers p) \<Longrightarrow> pvQueue p \<noteq> [] \<Longrightarrow> \<exists>e q. prov_step schema e p q"
  by (auto simp: in_set_conv_nth neq_Nil_conv intro: prov_step.hand)

text \<open>
  C16: provisioning always comes to a stop, since every move leaves less to do. Where it stops no
  tenant is half made; either every ref was handed out, and then without a recorded failure every
  ref asked for is ready and every missing one was made, or all the workers are gone, each after a
  state that could not be saved, and the sender waits for ever.
\<close>

theorem provision_stops:
  assumes "prov_reach a s fs p"
  shows "(\<forall>e q. prov_step (paSetup a) e p q \<longrightarrow> prov_left q < prov_left p)
    \<and> ((\<forall>e q. \<not> prov_step (paSetup a) e p q) \<longrightarrow>
        set (pvWorkers p) \<subseteq> {Waiting, Gone}
        \<and> (pvQueue p = [] \<or> set (pvWorkers p) \<subseteq> {Gone})
        \<and> (pvQueue p = [] \<and> snd (prov_result a s took p) = None \<longrightarrow>
            (\<forall>ref \<in> set (paRefs a). State_Has (pvState p) ref)
            \<and> length (pvCreate p) = length (prov_todo a s)))"
proof (intro conjI impI)
  show "\<forall>e q. prov_step (paSetup a) e p q \<longrightarrow> prov_left q < prov_left p" by (blast intro: prov_step_left)
next
  assume stuck: "\<forall>e q. \<not> prov_step (paSetup a) e p q"
  show idle: "set (pvWorkers p) \<subseteq> {Waiting, Gone}"
  proof
    fix w assume "w \<in> set (pvWorkers p)"
    then show "w \<in> {Waiting, Gone}" using busy_goes_on[of _ p "paSetup a"] stuck by (cases w rule: worker.exhaust) auto
  qed
  then show "pvQueue p = [] \<or> set (pvWorkers p) \<subseteq> {Gone}" using waiting_goes_on stuck by blast
  assume "pvQueue p = [] \<and> snd (prov_result a s took p) = None"
  then have q: "pvQueue p = []" and f: "pvFailed p = []"
    by (auto simp: prov_result_def Let_def split: list.splits)
  have busy: "filter is_busy (pvWorkers p) = []" using idle by (auto simp: filter_empty_conv)
  note inv = prov_reach_inv[OF assms, unfolded prov_inv_def on_the_way_def]
  show "\<forall>ref \<in> set (paRefs a). State_Has (pvState p) ref" using inv q f idle by auto
  show "length (pvCreate p) = length (prov_todo a s)" using inv q f busy by simp
qed

text \<open>Two tenants over one worker: made in turn, or the worker lost with the second ref unsent.\<close>

definition answers_example :: tenant_answers where
  "answers_example = \<lparr>taRegister = (True, ''a already exists''),
     taTouch = Inr \<lparr>StatusCode = 200, Status = ''200 OK'', Body = []\<rparr>, taSetup = (True, [])\<rparr>"

definition args_example :: provision_args where
  "args_example = \<lparr>paSetup = [], paRefs = [''a'', ''b''], paJobs = 1\<rparr>"

definition empty_state :: "string \<Rightarrow> fleet_state" where
  "empty_state path = \<lparr>Store = ''s'', Secret = ''k'', Ready = [], state_path = path, ready_set = {}\<rparr>"

definition disk_full :: io where
  "disk_full = \<lparr>mkdir_err = Some ''no space'', write_err = None, rename_err = None, remove_ok = True\<rparr>"

lemma answers_example_ok: "tenant_err [] answers_example = None"
  by code_simp

text \<open>What the pool is after one ref was handed to the only worker and made.\<close>

lemma one_made:
  assumes "prov_reach args_example s fs p" and "pvQueue p = ref # rest" and "pvWorkers p = [Waiting]"
    and "State_Add io ref (pvState p, pvFiles p) = (r, s', fs')"
  shows "prov_reach args_example s fs (p\<lparr>pvQueue := rest, pvCreate := pvCreate p @ [1], pvFirst := pvFirst p @ [1],
    pvState := s', pvFiles := fs', pvWorkers := [if r = None then Waiting else Gone]\<rparr>)"
proof -
  let ?q = "p\<lparr>pvQueue := rest, pvWorkers := [Busy ref]\<rparr>"
  have "prov_step [] (Handed 0) p ?q"
    using prov_step.hand[of p ref rest 0 "[]"] assms(2,3) by simp
  then have q: "prov_reach args_example s fs ?q"
    using assms(1) prov_reach.moved by (fastforce simp: args_example_def)
  have "prov_step [] (Tried 0 answers_example io 1 1) ?q (?q\<lparr>pvCreate := pvCreate p @ [1], pvFirst := pvFirst p @ [1],
    pvState := s', pvFiles := fs', pvWorkers := [if r = None then Waiting else Gone]\<rparr>)"
    using prov_step.made[of 0 ?q ref "[]" answers_example io r s' fs' 1 1] assms(4) answers_example_ok by simp
  then show ?thesis using q prov_reach.moved by (fastforce simp: args_example_def)
qed

lemma idle_stuck: "pvQueue p = [] \<Longrightarrow> pvWorkers p = [Waiting] \<Longrightarrow> \<not> prov_step schema e p q"
  by (auto elim!: prov_step.cases)

lemma gone_stuck: "pvWorkers p = [Gone] \<Longrightarrow> \<not> prov_step schema e p q"
  by (auto elim!: prov_step.cases)

lemma Add_example:
  "State_Add disk_full ref (empty_state [], fs) = (None, (empty_state [])\<lparr>ready_set := {ref}, Ready := [ref]\<rparr>, fs)"
  "State_Add disk_full ref (empty_state ''p'', fs) = (Some ''no space'', (empty_state ''p'')\<lparr>ready_set := {ref}, Ready := [ref]\<rparr>, fs)"
  by (simp_all add: State_Add_def empty_state_def State_save_def disk_full_def)

lemma disk_works_adds: "\<exists>s' fs'. State_Add disk_works ref (s, fs) = (None, s', fs')"
  by (simp add: State_Add_def State_save_def disk_works_def Let_def)

lemma provision_stuck_example:
  "\<exists>p. prov_reach args_example (empty_state ''p'') Map.empty p \<and> pvQueue p = [''b'']
     \<and> (\<forall>e q. \<not> prov_step (paSetup args_example) e p q)"
proof -
  let ?p = "prov_start args_example (empty_state ''p'') Map.empty"
  have p: "pvQueue ?p = [''a'', ''b'']" "pvWorkers ?p = [Waiting]" "pvState ?p = empty_state ''p''" "pvFiles ?p = Map.empty"
    by (simp_all add: prov_start_def prov_todo_def args_example_def State_Has_def empty_state_def prov_jobs_def)
  show ?thesis
    using one_made[OF prov_reach.begun p(1,2), of disk_full "Some ''no space''"]
    by (intro exI conjI) (assumption | simp add: p Add_example gone_stuck)+
qed

theorem provision_stops_witness:
  "\<exists>p. prov_reach args_example (empty_state []) Map.empty p
     \<and> (\<forall>ref \<in> {''a'', ''b''}. State_Has (pvState p) ref) \<and> length (pvCreate p) = 2"
proof -
  let ?p = "prov_start args_example (empty_state []) Map.empty"
  have p: "pvQueue ?p = [''a'', ''b'']" "pvWorkers ?p = [Waiting]" "pvState ?p = empty_state []" "pvFiles ?p = Map.empty"
    "pvFailed ?p = []" "pvCreate ?p = []" "pvFirst ?p = []"
    by (simp_all add: prov_start_def prov_todo_def args_example_def State_Has_def empty_state_def prov_jobs_def)
  obtain p1 where p1: "prov_reach args_example (empty_state []) Map.empty p1" "pvQueue p1 = [''b'']"
      "pvWorkers p1 = [Waiting]" "pvFailed p1 = []"
    using one_made[OF prov_reach.begun p(1,2), of disk_full None] by (auto simp: p Add_example)
  obtain s' fs' where "State_Add disk_works ''b'' (pvState p1, pvFiles p1) = (None, s', fs')"
    using disk_works_adds by blast
  then obtain p2 where p2: "prov_reach args_example (empty_state []) Map.empty p2" "pvQueue p2 = []"
      "pvWorkers p2 = [Waiting]" "pvFailed p2 = []"
    using one_made[OF p1(1-3)] p1(4) by fastforce
  have "snd (prov_result args_example (empty_state []) 0 p2) = None"
    by (simp add: prov_result_def p2 Let_def)
  then show ?thesis
    using provision_stops[OF p2(1), of 0] p2 idle_stuck[OF p2(2,3)]
    by (auto simp: prov_todo_def args_example_def State_Has_def empty_state_def)
qed

end
