(* ===== verification/FleetDrive.thy ===== *)
theory FleetDrive
  imports HttpLoad
begin

text \<open>
  Package \<open>fleet\<close>, the many tenant driver (src/fleet/fleet.go): every request names its own tenant, so
  a client also keeps which tenants it asked for. The tokens a secret mints are an argument.
\<close>

section \<open>Addresses and requests\<close>

record fleet_options =
  f_BaseURL :: string
  f_Refs :: "string list"
  f_Clients :: int
  f_Warmup :: int
  f_Requests :: "request list"
  f_APIPrefix :: string

definition fleet_URL :: "string \<Rightarrow> string \<Rightarrow> string \<Rightarrow> string \<Rightarrow> string" where
  "fleet_URL base ref pre path = TrimSuffix base ''/'' @ ''/'' @ ref @ pre @ path"

definition fleet_tokens :: "(string \<Rightarrow> string) \<Rightarrow> string \<Rightarrow> (string \<times> string) list" where
  "fleet_tokens key user = [(''anon'', key ''anon''), (''service'', key ''service_role''), (''user'', user)]"

definition fleet_wire :: "fleet_options \<Rightarrow> (string \<times> string) list \<Rightarrow> string \<Rightarrow> request \<Rightarrow> rng \<Rightarrow> (wire \<times> rng) option" where
  "fleet_wire opt toks ref r g =
     (case request_text r g of None \<Rightarrow> None
      | Some (path, body, g) \<Rightarrow>
        Some (\<lparr>w_Method = request_method r, w_URL = fleet_URL (f_BaseURL opt) ref (f_APIPrefix opt) path,
               w_Header = request_tokens toks r
                 (header_Set ''apikey'' (case map_of toks ''anon'' of None \<Rightarrow> [] | Some t \<Rightarrow> t) []),
               w_Body = body\<rparr>, g))"

text \<open>A body is only kept when the status is not the one asked for, and then its first 400 bytes.\<close>

definition fleet_read :: "int \<Rightarrow> int \<Rightarrow> string \<Rightarrow> int \<times> string" where
  "fleet_read want status body =
     (if status = want then (int (length body), [])
      else let raw = take 400 body in (int (length raw), TrimSpace raw))"

section \<open>What a client keeps\<close>

record fleet_local = http_local +
  lTouched :: "string list"

definition fleet_zero :: fleet_local where
  "fleet_zero = http_local.extend local_zero \<lparr>lTouched = []\<rparr>"

text \<open>A reply: a failed call, or milliseconds, status and body.\<close>

type_synonym fleet_reply = "go_error + f64 \<times> int \<times> string"

definition fleet_note :: "bool \<Rightarrow> string \<Rightarrow> request \<Rightarrow> fleet_reply \<Rightarrow> int \<Rightarrow> fleet_local \<Rightarrow> fleet_local" where
  "fleet_note keep ref req answer epoch l =
     (case answer of
        Inl e \<Rightarrow>
          local_fail (ref @ '' '' @ rq_Name req @ '': '' @ e)
            (l\<lparr>lRequests := lRequests l + 1, lTouched := List.insert ref (lTouched l)\<rparr>)
      | Inr (took, status, body) \<Rightarrow>
        let (n, said) = fleet_read (wanted req) status body;
            l = l\<lparr>lRequests := lRequests l + 1, lBytes := lBytes l + n,
                  lTouched := List.insert ref (lTouched l),
                  lStatus := map_upd status (plus_at 1) (lStatus l)\<rparr>
        in if status \<noteq> wanted req
           then local_fail (ref @ '' '' @ rq_Name req @ '': wanted '' @ itoa (wanted req) @ '', got '' @ itoa status @ '': '' @ said) l
           else if keep then local_keep (rq_Name req) took epoch l else l)"

record fleet_event =
  fe_reply :: "wire \<Rightarrow> fleet_reply"
  fe_ended :: bool
  fe_epoch :: int

fun fleet_client :: "fleet_options \<Rightarrow> (string \<times> string) list \<Rightarrow> request list \<Rightarrow> bool \<Rightarrow> fleet_event list \<Rightarrow> rng \<Rightarrow>
    fleet_local \<Rightarrow> fleet_local option" where
  "fleet_client opt toks picks keep [] g l = Some l"
| "fleet_client opt toks picks keep (e # es) g l =
     (case IntN (int (length picks)) g of None \<Rightarrow> None
      | Some (i, g) \<Rightarrow>
        let req = picks ! nat i in
        (case IntN (int (length (f_Refs opt))) g of None \<Rightarrow> None
         | Some (k, g) \<Rightarrow>
           let ref = f_Refs opt ! nat k in
           (case fleet_wire opt toks ref req g of None \<Rightarrow> None
            | Some (w, g) \<Rightarrow>
              if fe_ended e then Some l
              else fleet_client opt toks picks keep es g (fleet_note keep ref req (fe_reply e w) (fe_epoch e) l))))"

section \<open>The outcome\<close>

record fleet_outcome = http_outcome +
  Touched :: nat

definition fleet_merge :: "int \<Rightarrow> fleet_local list \<Rightarrow> fleet_outcome" where
  "fleet_merge elapsed ls =
     http_outcome.extend (http_merge elapsed ls)
       \<lparr>Touched = length (foldl (\<lambda>acc l. foldl (\<lambda>acc ref. List.insert ref acc) acc (lTouched l)) [] ls)\<rparr>"

definition fleet_drive :: "fleet_options \<Rightarrow> (string \<times> string) list \<Rightarrow> request list \<Rightarrow> bool \<Rightarrow> (nat \<Rightarrow> fleet_event list) \<Rightarrow>
    (nat \<Rightarrow> rng) \<Rightarrow> int \<Rightarrow> (go_error, fleet_outcome) outcome" where
  "fleet_drive opt toks picks keep traffic seed elapsed =
     (case traverse (\<lambda>i. fleet_client opt toks picks keep (traffic i) (seed i) fleet_zero) [0..<nat (f_Clients opt)] of
        None \<Rightarrow> Panic
      | Some ls \<Rightarrow> Ok (fleet_merge elapsed ls))"

definition fleet_Drive :: "(string \<Rightarrow> string) \<Rightarrow> string \<Rightarrow> fleet_options \<Rightarrow> (nat \<Rightarrow> fleet_event list) \<Rightarrow>
    (nat \<Rightarrow> fleet_event list) \<Rightarrow> (nat \<Rightarrow> rng) \<Rightarrow> int \<Rightarrow> (go_error, fleet_outcome) outcome" where
  "fleet_Drive key user opt warm traffic seed elapsed =
     (if f_Requests opt = [] then Fail ''no requests in the workload''
      else if f_Refs opt = [] then Fail ''no tenants to send to''
      else let opt = (if f_Clients opt \<le> 0 then opt\<lparr>f_Clients := 8\<rparr> else opt);
               opt = (if f_APIPrefix opt = [] then opt\<lparr>f_APIPrefix := ''/rest/v1''\<rparr> else opt);
               picks = weighted (f_Requests opt);
               toks = fleet_tokens key user
           in if 0 < f_Warmup opt
              then (case fleet_drive opt toks picks False warm seed 0 of
                      Ok _ \<Rightarrow> fleet_drive opt toks picks True traffic seed elapsed
                    | Fail e \<Rightarrow> Fail e | Panic \<Rightarrow> Panic)
              else fleet_drive opt toks picks True traffic seed elapsed)"

section \<open>The fleet driver's books\<close>

type_synonym fleet_entry = "string \<times> request \<times> fleet_reply \<times> int"

definition fleet_noted :: "fleet_entry \<Rightarrow> fleet_local \<Rightarrow> fleet_local" where
  "fleet_noted e l = (case e of (ref, req, answer, epoch) \<Rightarrow> fleet_note True ref req answer epoch l)"

definition fleet_verdict :: "fleet_entry \<Rightarrow> verdict" where
  "fleet_verdict e =
     (let (ref, req, answer, epoch) = e in
      case answer of Inl err \<Rightarrow> Broke (ref @ '' '' @ rq_Name req @ '': '' @ err)
      | Inr (took, status, body) \<Rightarrow>
        let (n, said) = fleet_read (wanted req) status body in
        if status \<noteq> wanted req
        then Refused status n (ref @ '' '' @ rq_Name req @ '': wanted '' @ itoa (wanted req) @ '', got '' @ itoa status @ '': '' @ said)
        else Served status n (rq_Name req) took epoch)"

interpretation fleet: load_driver fleet_noted http_local.truncate fleet_verdict
proof
  fix e :: fleet_entry and l
  obtain ref req answer epoch where e: "e = (ref, req, answer, epoch)" by (cases e)
  show "http_local.truncate (fleet_noted e l) = local_step (http_local.truncate l) (fleet_verdict e)"
  proof (cases answer)
    case (Inl err)
    then show ?thesis using e
      by (simp add: fleet_noted_def fleet_note_def fleet_verdict_def local_step_def local_fail_def http_local.truncate_def)
  next
    case (Inr r)
    obtain took status body where r: "r = (took, status, body)" by (cases r)
    obtain n said where n: "fleet_read (wanted req) status body = (n, said)" by fastforce
    show ?thesis using e Inr r n
      by (simp add: fleet_noted_def fleet_note_def fleet_verdict_def local_step_def local_fail_def local_keep_def
          http_local.truncate_def)
  qed
qed

lemma fleet_touched:
  "set (lTouched (foldl (\<lambda>l e. fleet_noted e l) l es)) = set (lTouched l) \<union> fst ` set es
   \<and> lRequests (foldl (\<lambda>l e. fleet_noted e l) l es) = lRequests l + length es"
proof (induction es rule: rev_induct)
  case (snoc e es)
  obtain ref req answer epoch where e: "e = (ref, req, answer, epoch)" by (cases e)
  show ?case using snoc e
    by (cases answer)
      (auto simp: fleet_noted_def fleet_note_def local_fail_def local_keep_def Let_def split: prod.splits)
qed simp

lemma fleet_client_sent:
  "fleet_client opt toks picks True es g l = Some l' \<Longrightarrow>
     \<exists>sent. l' = foldl (\<lambda>l e. fleet_noted e l) l sent \<and> (\<lambda>e. fst (snd e)) ` set sent \<subseteq> set picks
       \<and> fst ` set sent \<subseteq> set (f_Refs opt)"
proof (induction es arbitrary: g l)
  case Nil
  then show ?case by (intro exI[of _ "[]"]) simp
next
  case (Cons e es)
  obtain i g1 where i: "IntN (int (length picks)) g = Some (i, g1)"
    using Cons.prems by (auto split: option.splits)
  obtain k g2 where k: "IntN (int (length (f_Refs opt))) g1 = Some (k, g2)"
    using Cons.prems i by (auto simp: Let_def split: option.splits)
  let ?req = "picks ! nat i" and ?ref = "f_Refs opt ! nat k"
  obtain w g3 where w: "fleet_wire opt toks ?ref ?req g2 = Some (w, g3)"
    using Cons.prems i k by (auto simp: Let_def split: option.splits)
  show ?case
  proof (cases "fe_ended e")
    case True
    then show ?thesis using Cons.prems i k w by (intro exI[of _ "[]"]) simp
  next
    case False
    let ?l = "fleet_note True ?ref ?req (fe_reply e w) (fe_epoch e) l"
    obtain sent where "l' = foldl (\<lambda>l e. fleet_noted e l) ?l sent"
      "(\<lambda>e. fst (snd e)) ` set sent \<subseteq> set picks" "fst ` set sent \<subseteq> set (f_Refs opt)"
      using Cons.IH[of g3 ?l] Cons.prems i k w False by auto
    then show ?thesis using IntN_picks[OF i] IntN_picks[OF k]
      by (intro exI[of _ "(?ref, ?req, fe_reply e w, fe_epoch e) # sent"]) (simp add: fleet_noted_def)
  qed
qed

lemma fleet_client_accounted:
  assumes "fleet_client opt toks picks True es g fleet_zero = Some l"
  shows "accounted (http_local.truncate l) \<and> fst ` set (lPerReq l) \<subseteq> rq_Name ` set picks
    \<and> set (lTouched l) \<subseteq> set (f_Refs opt) \<and> card (set (lTouched l)) \<le> lRequests l
    \<and> (lRequests l = 0 \<longleftrightarrow> lTouched l = [])"
proof -
  obtain sent where l: "l = foldl (\<lambda>l e. fleet_noted e l) fleet_zero sent"
    and picks: "(\<lambda>e. fst (snd e)) ` set sent \<subseteq> set picks" and refs: "fst ` set sent \<subseteq> set (f_Refs opt)"
    using fleet_client_sent[OF assms] by blast
  have zero: "http_local.truncate fleet_zero = local_zero" "lTouched fleet_zero = []" "lRequests fleet_zero = 0"
    by (simp_all add: fleet_zero_def http_local.truncate_def http_local.extend_def local_zero_def)
  have "fleet_verdict e = Served s n name t d \<Longrightarrow> name = rq_Name (fst (snd e))" for e s n name t d
    by (auto simp: fleet_verdict_def Let_def split: prod.splits sum.splits if_splits)
  then have "{name. \<exists>e \<in> set sent. \<exists>s n t d. fleet_verdict e = Served s n name t d} \<subseteq> rq_Name ` set picks"
    using picks by fastforce
  moreover have "lPerReq local_zero = []" by (simp add: local_zero_def)
  ultimately have "fst ` set (lPerReq (http_local.truncate l)) \<subseteq> rq_Name ` set picks"
    using fleet.client_names[of fleet_zero sent] unfolding l zero by simp
  moreover have "accounted (http_local.truncate l)"
    unfolding l by (rule fleet.client_accounted) (simp add: zero accounted_zero)
  moreover have "set (lTouched l) = fst ` set sent" "lRequests l = length sent"
    using fleet_touched[of fleet_zero sent] zero l by simp_all
  moreover have "card (fst ` set sent) \<le> length sent"
    by (metis card_length length_map list.set_map)
  moreover have "lPerReq (http_local.truncate l) = lPerReq l" by (simp add: http_local.truncate_def)
  ultimately show ?thesis using refs by auto
qed

lemma merge_truncate: "http_merge elapsed ls = http_merge elapsed (map http_local.truncate ls)"
proof -
  have "merge_local acc l = merge_local acc (http_local.truncate l)" for acc and l :: "'a http_local_scheme"
    by (simp add: merge_local_def http_local.truncate_def)
  then have "foldl merge_local acc ls = foldl merge_local acc (map http_local.truncate ls)" for acc
    by (induction ls arbitrary: acc) simp_all
  then show ?thesis by (simp add: http_merge_def)
qed

lemma insert_all:
  "distinct acc \<Longrightarrow> distinct (foldl (\<lambda>acc ref. List.insert ref acc) acc xs)
     \<and> set (foldl (\<lambda>acc ref. List.insert ref acc) acc xs) = set acc \<union> set xs"
  by (induction xs arbitrary: acc) simp_all

lemma touched_all:
  "distinct acc \<Longrightarrow> distinct (foldl (\<lambda>acc l. foldl (\<lambda>acc ref. List.insert ref acc) acc (lTouched l)) acc ls)
     \<and> set (foldl (\<lambda>acc l. foldl (\<lambda>acc ref. List.insert ref acc) acc (lTouched l)) acc ls)
       = set acc \<union> (\<Union>l \<in> set ls. set (lTouched l))"
proof (induction ls arbitrary: acc)
  case (Cons l ls)
  note one = insert_all[OF Cons.prems, of "lTouched l"]
  show ?case using Cons.IH[OF one[THEN conjunct1]] one by auto
qed simp

lemma merged_requests: "out_Requests (http_merge elapsed ls) = sum_list (map lRequests ls)"
proof -
  have "lRequests (foldl merge_local acc ls) = lRequests acc + sum_list (map lRequests ls)" for acc
    by (induction ls arbitrary: acc) (simp_all add: merge_local_def)
  then show ?thesis by (simp add: http_merge_def Let_def local_zero_def)
qed

lemma card_touched:
  assumes "\<forall>l \<in> set ls. card (set (lTouched l)) \<le> lRequests l"
  shows "card (\<Union>l \<in> set ls. set (lTouched l)) \<le> sum_list (map lRequests ls)"
  using assms
proof (induction ls)
  case (Cons l ls)
  have "card (set (lTouched l) \<union> (\<Union>l \<in> set ls. set (lTouched l)))
      \<le> card (set (lTouched l)) + card (\<Union>l \<in> set ls. set (lTouched l))" by (rule card_Un_le)
  then show ?case using Cons by fastforce
qed simp

lemma fleet_merge_fields:
  "http_outcome.truncate (fleet_merge elapsed ls) = http_merge elapsed ls"
  "Touched (fleet_merge elapsed ls) = card (\<Union>l \<in> set ls. set (lTouched l))"
proof -
  show "http_outcome.truncate (fleet_merge elapsed ls) = http_merge elapsed ls"
    by (simp add: fleet_merge_def http_outcome.truncate_def http_outcome.extend_def)
  let ?t = "foldl (\<lambda>acc l. foldl (\<lambda>acc ref. List.insert ref acc) acc (lTouched l)) [] ls"
  have "distinct ?t" "set ?t = (\<Union>l \<in> set ls. set (lTouched l))" using touched_all[of "[]" ls] by simp_all
  from distinct_card[OF this(1)] this(2) show "Touched (fleet_merge elapsed ls) = card (\<Union>l \<in> set ls. set (lTouched l))"
    by (simp add: fleet_merge_def http_outcome.extend_def)
qed

text \<open>
  Whatever the node answers and the random source draws, a phase's books balance as a rest
  run's do, and the tenants it says it touched are tenants it was given, at most one for each
  request, and none only when no request was sent.
\<close>

theorem fleet_Drive_accounts:
  assumes "fleet_Drive key user opt warm traffic seed elapsed = Ok out"
  shows "outcome_accounted (http_outcome.truncate out)
    \<and> fst ` set (out_PerRequest out) \<subseteq> rq_Name ` set (f_Requests opt)
    \<and> Touched out \<le> card (set (f_Refs opt)) \<and> Touched out \<le> out_Requests out
    \<and> (Touched out = 0 \<longleftrightarrow> out_Requests out = 0)"
proof -
  obtain opt' where o: "fleet_drive opt' (fleet_tokens key user) (weighted (f_Requests opt)) True traffic seed elapsed = Ok out"
    and refs: "f_Refs opt' = f_Refs opt"
    using assms by (auto simp: fleet_Drive_def Let_def split: if_splits outcome.splits)
  then obtain ls where ls: "traverse (\<lambda>i. fleet_client opt' (fleet_tokens key user) (weighted (f_Requests opt)) True
        (traffic i) (seed i) fleet_zero) [0..<nat (f_Clients opt')] = Some ls" "out = fleet_merge elapsed ls"
    by (auto simp: fleet_drive_def split: option.splits)
  have each: "accounted (http_local.truncate l) \<and> fst ` set (lPerReq l) \<subseteq> rq_Name ` set (f_Requests opt)
      \<and> set (lTouched l) \<subseteq> set (f_Refs opt) \<and> card (set (lTouched l)) \<le> lRequests l
      \<and> (lRequests l = 0 \<longleftrightarrow> lTouched l = [])" if "l \<in> set ls" for l
  proof -
    have "Some l \<in> set (map Some ls)" using that by simp
    then obtain i where "fleet_client opt' (fleet_tokens key user) (weighted (f_Requests opt)) True
        (traffic i) (seed i) fleet_zero = Some l"
      unfolding traverse_Some[THEN iffD1, OF ls(1), symmetric] by auto
    from fleet_client_accounted[OF this] show ?thesis by (simp add: weighted_set refs)
  qed
  have books: "outcome_accounted (http_merge elapsed ls)
      \<and> fst ` set (out_PerRequest (http_merge elapsed ls)) = (\<Union>l \<in> set ls. fst ` set (lPerReq l))"
    using http_merge_accounted[of "map http_local.truncate ls" elapsed] each
    unfolding merge_truncate[of elapsed ls, symmetric] by (simp add: http_local.truncate_def)
  have t: "Touched out = card (\<Union>l \<in> set ls. set (lTouched l))"
    "http_outcome.truncate out = http_merge elapsed ls"
    unfolding ls(2) by (rule fleet_merge_fields)+
  have same: "out_PerRequest out = out_PerRequest (http_merge elapsed ls)"
    "out_Requests out = out_Requests (http_merge elapsed ls)"
    unfolding t(2)[symmetric] by (simp_all add: http_outcome.truncate_def)
  have "(\<Union>l \<in> set ls. set (lTouched l)) \<subseteq> set (f_Refs opt)" using each by blast
  then have "Touched out \<le> card (set (f_Refs opt))" unfolding t by (intro card_mono) auto
  moreover have "Touched out \<le> out_Requests out"
    unfolding t same merged_requests by (rule card_touched) (use each in blast)
  moreover have "Touched out = 0 \<longleftrightarrow> out_Requests out = 0"
    unfolding t same merged_requests using each by auto
  moreover have "fst ` set (out_PerRequest out) \<subseteq> rq_Name ` set (f_Requests opt)"
    unfolding same books[THEN conjunct2] using each by blast
  ultimately show ?thesis using books t(2) by simp
qed

theorem fleet_Drive_accounts_witness:
  "\<exists>out. fleet_Drive (\<lambda>r. r) ''u'' \<lparr>f_BaseURL = ''http://h/'', f_Refs = [''a'', ''b''], f_Clients = 1, f_Warmup = 0,
      f_Requests = [request_zero\<lparr>rq_Path := ''/t''\<rparr>], f_APIPrefix = []\<rparr> (\<lambda>_. [])
      (\<lambda>_. [\<lparr>fe_reply = \<lambda>_. Inr (5, 503, ''busy''), fe_ended = False, fe_epoch = 7\<rparr>]) (\<lambda>_. [0, 1]) 9 = Ok out
    \<and> Touched out \<le> 1"
proof -
  let ?d = "fleet_Drive (\<lambda>r. r) ''u'' \<lparr>f_BaseURL = ''http://h/'', f_Refs = [''a'', ''b''], f_Clients = 1, f_Warmup = 0,
      f_Requests = [request_zero\<lparr>rq_Path := ''/t''\<rparr>], f_APIPrefix = []\<rparr> (\<lambda>_. [])
      (\<lambda>_. [\<lparr>fe_reply = \<lambda>_. Inr (5, 503, ''busy''), fe_ended = False, fe_epoch = 7\<rparr>]) (\<lambda>_. [0, 1]) 9"
  obtain out where out: "?d = Ok out" "out_Requests out = 1"
    by (simp add: fleet_Drive_def fleet_drive_def upt_rec IntN_def rng_next_def fleet_wire_def request_text_def
        request_zero_def Expand_plain Let_def weighted_def fleet_merge_def http_outcome.extend_def
        merged_requests fleet_note_def fleet_zero_def http_local.extend_def local_zero_def local_fail_def
        fleet_read_def wanted_def)
  show ?thesis using out fleet_Drive_accounts[OF out(1)] by auto
qed

end
