(* ===== verification/FleetIdle.thy ===== *)
theory FleetIdle
  imports Float64
begin

text \<open>
  Package \<open>fleet\<close>, what a node costs while nobody asks it for anything (src/fleet/idle.go): the
  samples of a hold phase, the settle that is cut off its head, and the two rates read off the
  intervals between consecutive samples.
\<close>

record idle_sample =
  Elapsed :: f64
  Attached :: int
  sPuts :: int
  sGets :: int
  sLists :: int
  sDeletes :: int

record idle_ops =
  iPuts :: f64
  iGets :: f64
  iLists :: f64
  iDeletes :: f64

definition idle_scale :: "idle_ops \<Rightarrow> f64 \<Rightarrow> idle_ops" where
  "idle_scale a by = \<lparr>iPuts = fmul (iPuts a) by, iGets = fmul (iGets a) by,
     iLists = fmul (iLists a) by, iDeletes = fmul (iDeletes a) by\<rparr>"

definition idle_add :: "idle_ops \<Rightarrow> idle_ops \<Rightarrow> idle_ops" where
  "idle_add a b = \<lparr>iPuts = fadd (iPuts a) (iPuts b), iGets = fadd (iGets a) (iGets b),
     iLists = fadd (iLists a) (iLists b), iDeletes = fadd (iDeletes a) (iDeletes b)\<rparr>"

definition idle_Total :: "idle_ops \<Rightarrow> f64" where
  "idle_Total a = fadd (fadd (fadd (iPuts a) (iGets a)) (iLists a)) (iDeletes a)"

definition no_ops :: idle_ops where
  "no_ops = \<lparr>iPuts = 0, iGets = 0, iLists = 0, iDeletes = 0\<rparr>"

record Idle =
  DormantSeconds :: f64
  AttachedSeconds :: f64
  ProjectSeconds :: f64
  DormantOps :: idle_ops
  AttachedOps :: idle_ops
  idle_DormantPerHour :: idle_ops
  idle_AttachedPerHour :: idle_ops
  DrainSeconds :: f64
  SawDormant :: bool
  Samples :: nat

definition fleet_After :: "idle_sample list \<Rightarrow> f64 \<Rightarrow> idle_sample list" where
  "fleet_After samples seconds = filter (\<lambda>s. seconds \<le> Elapsed s) samples"

text \<open>When the node last held something, \<open>-1\<close> when it never did.\<close>

definition lastAttached :: "idle_sample list \<Rightarrow> f64" where
  "lastAttached samples = foldl (\<lambda>l s. if 0 < Attached s then Elapsed s else l) (- 1) samples"

text \<open>The work of one interval. The counters are \<open>int64\<close>, so their difference may wrap.\<close>

definition interval_ops :: "idle_sample \<Rightarrow> idle_sample \<Rightarrow> idle_ops" where
  "interval_ops prev cur =
     \<lparr>iPuts = f64_of_int (wrap64 (sPuts cur - sPuts prev)),
      iGets = f64_of_int (wrap64 (sGets cur - sGets prev)),
      iLists = f64_of_int (wrap64 (sLists cur - sLists prev)),
      iDeletes = f64_of_int (wrap64 (sDeletes cur - sDeletes prev))\<rparr>"

definition shrank :: "idle_ops \<Rightarrow> bool" where
  "shrank a \<longleftrightarrow> iPuts a < 0 \<or> iGets a < 0 \<or> iLists a < 0 \<or> iDeletes a < 0"

text \<open>Where an interval goes: into the dormant window, into the attached one, or into neither.\<close>

datatype pile = Dormant | Held | Dropped

definition interval_pile :: "f64 \<Rightarrow> f64 \<Rightarrow> idle_sample \<Rightarrow> idle_sample \<Rightarrow> pile" where
  "interval_pile drain held prev cur =
     (if fsub (Elapsed cur) (Elapsed prev) \<le> 0 then Dropped
      else if shrank (interval_ops prev cur) then Dropped
      else if Attached prev = 0
        then (if 0 \<le> held \<and> Elapsed prev < fadd held drain then Dropped else Dormant)
      else Held)"

definition rates_step :: "f64 \<Rightarrow> f64 \<Rightarrow> Idle \<Rightarrow> idle_sample \<times> idle_sample \<Rightarrow> Idle" where
  "rates_step drain held out pc =
     (let (prev, cur) = pc; seconds = fsub (Elapsed cur) (Elapsed prev); ops = interval_ops prev cur
      in case interval_pile drain held prev cur of
           Dropped \<Rightarrow> out
         | Dormant \<Rightarrow> out\<lparr>DormantSeconds := fadd (DormantSeconds out) seconds,
             DormantOps := idle_add (DormantOps out) ops\<rparr>
         | Held \<Rightarrow> out\<lparr>AttachedSeconds := fadd (AttachedSeconds out) seconds,
             ProjectSeconds := fadd (ProjectSeconds out) (fmul seconds (f64_of_int (Attached prev))),
             AttachedOps := idle_add (AttachedOps out) ops\<rparr>)"

definition max0 :: "f64 \<Rightarrow> f64" where "max0 v = (if v < 0 then 0 else v)"

text \<open>The dormant rate first, since the attached one has it taken out.\<close>

definition dormant_rate :: "Idle \<Rightarrow> Idle" where
  "dormant_rate out =
     (if 0 < DormantSeconds out
      then out\<lparr>SawDormant := True,
        idle_DormantPerHour := idle_scale (DormantOps out) (fdiv 3600 (DormantSeconds out))\<rparr>
      else out)"

definition attached_rate :: "Idle \<Rightarrow> Idle" where
  "attached_rate out =
     (if 0 < ProjectSeconds out
      then let own = idle_scale (idle_DormantPerHour out) (fdiv (AttachedSeconds out) 3600);
               net = \<lparr>iPuts = max0 (fsub (iPuts (AttachedOps out)) (iPuts own)),
                      iGets = max0 (fsub (iGets (AttachedOps out)) (iGets own)),
                      iLists = max0 (fsub (iLists (AttachedOps out)) (iLists own)),
                      iDeletes = max0 (fsub (iDeletes (AttachedOps out)) (iDeletes own))\<rparr>
           in out\<lparr>idle_AttachedPerHour := idle_scale net (fdiv 3600 (ProjectSeconds out))\<rparr>
      else out)"

definition idle_start :: "nat \<Rightarrow> f64 \<Rightarrow> Idle" where
  "idle_start n drain =
     \<lparr>DormantSeconds = 0, AttachedSeconds = 0, ProjectSeconds = 0, DormantOps = no_ops,
      AttachedOps = no_ops, idle_DormantPerHour = no_ops, idle_AttachedPerHour = no_ops,
      DrainSeconds = drain, SawDormant = False, Samples = n\<rparr>"

definition intervals :: "'a list \<Rightarrow> ('a \<times> 'a) list" where "intervals xs = zip xs (tl xs)"

definition rates_sums :: "idle_sample list \<Rightarrow> f64 \<Rightarrow> Idle" where
  "rates_sums samples drain =
     foldl (rates_step drain (lastAttached samples)) (idle_start (length samples) drain)
       (intervals samples)"

definition fleet_Rates :: "idle_sample list \<Rightarrow> f64 \<Rightarrow> Idle" where
  "fleet_Rates samples drain =
     (if length samples < 2 then idle_start (length samples) drain
      else attached_rate (dormant_rate (rates_sums (sort_key Elapsed samples) drain)))"

section \<open>Where the work of a hold goes\<close>

lemma sum_list_three:
  "sum_list (map f (filter (\<lambda>x. P x = Dormant) xs)) + sum_list (map f (filter (\<lambda>x. P x = Held) xs))
     + sum_list (map f (filter (\<lambda>x. P x = Dropped) xs)) = (sum_list (map f xs) :: int)"
proof (induction xs)
  case (Cons x xs)
  then show ?case by (cases "P x") auto
qed simp

lemma sum_list_pile_le:
  "\<forall>x \<in> set xs. 0 \<le> f x \<Longrightarrow> sum_list (map f (filter P xs)) \<le> (sum_list (map f xs) :: int)"
  by (induction xs) auto

lemma sum_list_pile_nonneg:
  "\<forall>x \<in> set xs. 0 \<le> f x \<Longrightarrow> 0 \<le> (sum_list (map f (filter P xs)) :: int)"
  by (induction xs) auto

lemma intervals_telescope:
  "xs \<noteq> [] \<Longrightarrow> sum_list (map (\<lambda>(p, c). f c - f p) (intervals xs)) = (f (last xs) - f (hd xs) :: int)"
proof (induction xs)
  case (Cons x xs)
  then show ?case by (cases xs) (auto simp: intervals_def)
qed simp

lemma intervals_sorted:
  "sorted (map f xs) \<Longrightarrow> (p, c) \<in> set (intervals xs) \<Longrightarrow> f p \<le> f c"
proof (induction xs)
  case (Cons x xs)
  then show ?case by (cases xs) (auto simp: intervals_def)
qed (simp add: intervals_def)

lemma fadd_of_int: "\<bar>a + b\<bar> \<le> 2 ^ 53 \<Longrightarrow> fadd (of_int a) (of_int b) = of_int (a + b)"
  unfolding fadd_def of_int_add[symmetric] by (rule fl_of_int)

lemma rates_step_Dormant [simp]:
  "DormantOps (rates_step drain h out (p, c)) =
     (if interval_pile drain h p c = Dormant then idle_add (DormantOps out) (interval_ops p c)
      else DormantOps out)"
  unfolding rates_step_def Let_def prod.case
  by (cases "interval_pile drain h p c") simp_all

lemma rates_step_Held [simp]:
  "AttachedOps (rates_step drain h out (p, c)) =
     (if interval_pile drain h p c = Held then idle_add (AttachedOps out) (interval_ops p c)
      else AttachedOps out)"
  unfolding rates_step_def Let_def prod.case
  by (cases "interval_pile drain h p c") simp_all

text \<open>
  One of the four counters, as a sample carries it (\<open>f\<close>) and as a window accumulates it (\<open>g\<close>): what
  the accounting of a hold needs of it.
\<close>

locale idle_counter =
  fixes f :: "idle_sample \<Rightarrow> int" and g :: "idle_ops \<Rightarrow> f64"
  assumes zero: "g no_ops = 0"
    and add: "g (idle_add a b) = fadd (g a) (g b)"
    and interval: "g (interval_ops p c) = f64_of_int (wrap64 (f c - f p))"
begin

definition grew :: "idle_sample \<times> idle_sample \<Rightarrow> int" where "grew pc = f (snd pc) - f (fst pc)"

lemma interval_exact:
  "0 \<le> grew (p, c) \<Longrightarrow> grew (p, c) \<le> 2 ^ 53 \<Longrightarrow> g (interval_ops p c) = of_int (grew (p, c))"
  by (simp add: interval grew_def wrap64_id f64_of_int_exact)

lemma piles_sum:
  assumes "\<forall>pc \<in> set ivs. 0 \<le> grew pc" and "sum_list (map grew ivs) \<le> 2 ^ 53"
  shows "g (DormantOps (foldl (rates_step drain h) (idle_start n drain) ivs)) =
      of_int (sum_list (map grew (filter (\<lambda>(p, c). interval_pile drain h p c = Dormant) ivs)))
    \<and> g (AttachedOps (foldl (rates_step drain h) (idle_start n drain) ivs)) =
      of_int (sum_list (map grew (filter (\<lambda>(p, c). interval_pile drain h p c = Held) ivs)))"
  using assms
proof (induction ivs rule: rev_induct)
  case Nil
  then show ?case by (simp add: idle_start_def zero)
next
  case (snoc pc ivs)
  obtain p c where pc: "pc = (p, c)" by fastforce
  let ?s = "\<lambda>P. sum_list (map grew (filter P ivs))"
  have pos: "\<forall>x \<in> set ivs. 0 \<le> grew x" "0 \<le> grew (p, c)" using snoc.prems pc by auto
  have nn: "0 \<le> ?s P" for P by (rule sum_list_pile_nonneg[OF pos(1)])
  have up: "?s P + grew (p, c) \<le> 2 ^ 53" for P
    using sum_list_pile_le[OF pos(1), of P] snoc.prems(2) pc by simp
  have one: "g (interval_ops p c) = of_int (grew (p, c))"
    using pos(2) up[of "\<lambda>_. False"] by (intro interval_exact) auto
  have add1: "fadd (of_int (?s P)) (g (interval_ops p c)) = of_int (?s P + grew (p, c))" for P
    unfolding one using nn[of P] pos(2) up[of P] by (intro fadd_of_int) linarith
  have "sum_list (map grew ivs) \<le> 2 ^ 53" using snoc.prems(2) pos(2) pc by simp
  note IH = snoc.IH[OF pos(1) this]
  show ?case
    by (cases "interval_pile drain h p c")
      (simp_all add: pc add IH add1 del: of_int_add)
qed

lemma hold_accounts:
  assumes "samples \<noteq> []" and "sorted (map f samples)"
    and "f (last samples) - f (hd samples) \<le> 2 ^ 53"
    and R_def: "R = foldl (rates_step drain h) (idle_start n drain) (intervals samples)"
  shows "g (DormantOps R) + g (AttachedOps R)
      + of_int (sum_list (map (\<lambda>(p, c). f c - f p)
          (filter (\<lambda>(p, c). interval_pile drain h p c = Dropped) (intervals samples))))
    = of_int (f (last samples) - f (hd samples))"
proof -
  have grew: "grew = (\<lambda>(p, c). f c - f p)" by (auto simp: grew_def fun_eq_iff)
  note tel = intervals_telescope[OF assms(1), of f]
  have pos: "\<forall>pc \<in> set (intervals samples). 0 \<le> grew pc"
    using intervals_sorted[OF assms(2)] by (auto simp: grew_def)
  have "sum_list (map grew (intervals samples)) \<le> 2 ^ 53" using tel assms(3) by (simp add: grew)
  note sums = piles_sum[OF pos this, of drain h n]
  show ?thesis
    unfolding R_def sums[THEN conjunct1] sums[THEN conjunct2] tel[symmetric]
    unfolding grew of_int_add[symmetric]
    using sum_list_three[of "\<lambda>(p, c). f c - f p" "\<lambda>(p, c). interval_pile drain h p c" "intervals samples"]
    by (simp add: case_prod_unfold)
qed

end

interpretation puts: idle_counter sPuts iPuts
  by unfold_locales (simp_all add: no_ops_def idle_add_def interval_ops_def)

interpretation gets: idle_counter sGets iGets
  by unfold_locales (simp_all add: no_ops_def idle_add_def interval_ops_def)

interpretation lsts: idle_counter sLists iLists
  by unfold_locales (simp_all add: no_ops_def idle_add_def interval_ops_def)

interpretation deletes: idle_counter sDeletes iDeletes
  by unfold_locales (simp_all add: no_ops_def idle_add_def interval_ops_def)

lemma rates_keep_sums [simp]:
  "DormantOps (attached_rate out) = DormantOps out" "AttachedOps (attached_rate out) = AttachedOps out"
  "DormantOps (dormant_rate out) = DormantOps out" "AttachedOps (dormant_rate out) = AttachedOps out"
  by (simp_all add: attached_rate_def dormant_rate_def Let_def)

text \<open>No counter went backwards: the only intervals in neither window are drained or empty ones.\<close>

lemma dropped_interval:
  assumes "interval_pile drain h p c = Dropped" and "\<not> shrank (interval_ops p c)"
  shows "fsub (Elapsed c) (Elapsed p) \<le> 0
    \<or> (Attached p = 0 \<and> 0 \<le> h \<and> Elapsed p < fadd h drain)"
  using assms by (auto simp: interval_pile_def split: if_splits)

lemma grew_not_shrank:
  assumes "\<And>f :: idle_sample \<Rightarrow> int. f \<in> {sPuts, sGets, sLists, sDeletes} \<Longrightarrow> f p \<le> f c \<and> f c - f p \<le> 2 ^ 53"
  shows "\<not> shrank (interval_ops p c)"
  using assms[of sPuts] assms[of sGets] assms[of sLists] assms[of sDeletes]
  by (simp add: shrank_def interval_ops_def wrap64_id f64_of_int_exact)

lemma interval_within:
  "sorted (map f xs) \<Longrightarrow> (p, c) \<in> set (intervals xs) \<Longrightarrow> f c - f p \<le> f (last xs) - (f (hd xs) :: int)"
proof (induction xs)
  case (Cons x xs)
  show ?case
  proof (cases xs)
    case (Cons y ys)
    have "f y \<le> f (last xs)" using Cons.prems(1) \<open>xs = y # ys\<close> by (auto simp: last_map)
    then show ?thesis using Cons.IH Cons.prems \<open>xs = y # ys\<close> by (auto simp: intervals_def)
  qed (use Cons.prems in \<open>auto simp: intervals_def\<close>)
qed (simp add: intervals_def)

text \<open>
  C24: every store operation of a hold is charged once. For each of the four counters the dormant
  window, the attached window and the intervals in neither add up to exactly what the counter grew
  over the hold, and an interval in neither lies in the drain after the last detach or lasts no time.
\<close>

theorem Rates_accounts:
  assumes "2 \<le> length samples" and "ord = sort_key Elapsed samples"
    and "\<forall>f \<in> {sPuts, sGets, sLists, sDeletes}. sorted (map f ord) \<and> f (last ord) - f (hd ord) \<le> 2 ^ 53"
    and "lost = filter (\<lambda>(p, c). interval_pile drain (lastAttached ord) p c = Dropped) (intervals ord)"
  shows "(\<forall>(f, g) \<in> {(sPuts, iPuts), (sGets, iGets), (sLists, iLists), (sDeletes, iDeletes)}.
       g (DormantOps (fleet_Rates samples drain)) + g (AttachedOps (fleet_Rates samples drain))
         + of_int (sum_list (map (\<lambda>(p, c). f c - f p) lost)) = of_int (f (last ord) - f (hd ord)))
    \<and> (\<forall>(p, c) \<in> set lost. fsub (Elapsed c) (Elapsed p) \<le> 0
       \<or> (Attached p = 0 \<and> 0 \<le> lastAttached ord \<and> Elapsed p < fadd (lastAttached ord) drain))"
proof
  have ne: "ord \<noteq> []" using assms(1,2) by (metis length_sort list.size(3) not_numeral_le_zero)
  have R: "DormantOps (fleet_Rates samples drain) = DormantOps (rates_sums ord drain)"
    "AttachedOps (fleet_Rates samples drain) = AttachedOps (rates_sums ord drain)"
    using assms(1,2) by (simp_all add: fleet_Rates_def)
  have s: "sorted (map sPuts ord)" "sorted (map sGets ord)" "sorted (map sLists ord)"
    "sorted (map sDeletes ord)" using assms(3) by auto
  have b: "sPuts (last ord) - sPuts (hd ord) \<le> 2 ^ 53" "sGets (last ord) - sGets (hd ord) \<le> 2 ^ 53"
    "sLists (last ord) - sLists (hd ord) \<le> 2 ^ 53" "sDeletes (last ord) - sDeletes (hd ord) \<le> 2 ^ 53"
    using assms(3) by auto
  note acc = puts.hold_accounts[OF ne s(1) b(1) rates_sums_def]
    gets.hold_accounts[OF ne s(2) b(2) rates_sums_def]
    lsts.hold_accounts[OF ne s(3) b(3) rates_sums_def]
    deletes.hold_accounts[OF ne s(4) b(4) rates_sums_def]
  show "\<forall>(f, g) \<in> {(sPuts, iPuts), (sGets, iGets), (sLists, iLists), (sDeletes, iDeletes)}.
      g (DormantOps (fleet_Rates samples drain)) + g (AttachedOps (fleet_Rates samples drain))
        + of_int (sum_list (map (\<lambda>(p, c). f c - f p) lost)) = of_int (f (last ord) - f (hd ord))"
    unfolding R assms(4) using acc by simp
  show "\<forall>(p, c) \<in> set lost. fsub (Elapsed c) (Elapsed p) \<le> 0
      \<or> (Attached p = 0 \<and> 0 \<le> lastAttached ord \<and> Elapsed p < fadd (lastAttached ord) drain)"
  proof (clarify, rule ccontr)
    fix p c assume pc: "(p, c) \<in> set lost" and no: "\<not> fsub (Elapsed c) (Elapsed p) \<le> 0"
      "\<not> (Attached p = 0 \<and> 0 \<le> lastAttached ord \<and> Elapsed p < fadd (lastAttached ord) drain)"
    have mem: "(p, c) \<in> set (intervals ord)" "interval_pile drain (lastAttached ord) p c = Dropped"
      using pc assms(4) by auto
    have "\<not> shrank (interval_ops p c)"
    proof (rule grew_not_shrank)
      fix f :: "idle_sample \<Rightarrow> int"
      assume "f \<in> {sPuts, sGets, sLists, sDeletes}"
      then have f: "sorted (map f ord)" "f (last ord) - f (hd ord) \<le> 2 ^ 53" using assms(3) by auto
      show "f p \<le> f c \<and> f c - f p \<le> 2 ^ 53"
        using intervals_sorted[OF f(1) mem(1)] interval_within[OF f(1) mem(1)] f(2) by simp
    qed
    then show False using dropped_interval[OF mem(2)] no by blast
  qed
qed

definition hold_example :: "idle_sample list" where
  "hold_example =
     [\<lparr>Elapsed = 0, Attached = 2, sPuts = 10, sGets = 4, sLists = 0, sDeletes = 0\<rparr>,
      \<lparr>Elapsed = 10, Attached = 0, sPuts = 15, sGets = 4, sLists = 1, sDeletes = 0\<rparr>,
      \<lparr>Elapsed = 20, Attached = 0, sPuts = 16, sGets = 4, sLists = 1, sDeletes = 2\<rparr>,
      \<lparr>Elapsed = 40, Attached = 0, sPuts = 18, sGets = 5, sLists = 1, sDeletes = 2\<rparr>]"

lemma hold_example_sorted: "sort_key Elapsed hold_example = hold_example"
  by (simp add: hold_example_def)

lemma hold_example_lost:
  "filter (\<lambda>(p, c). interval_pile 15 (lastAttached hold_example) p c = Dropped) (intervals hold_example)
     = [(hold_example ! 1, hold_example ! 2)]"
  by code_simp

theorem Rates_accounts_witness:
  "iPuts (DormantOps (fleet_Rates hold_example 15)) + iPuts (AttachedOps (fleet_Rates hold_example 15)) + 1 = 8"
proof -
  have "iPuts (DormantOps (fleet_Rates hold_example 15)) + iPuts (AttachedOps (fleet_Rates hold_example 15))
      + of_int (sum_list (map (\<lambda>(p, c). sPuts c - sPuts p) [(hold_example ! 1, hold_example ! 2)]))
    = of_int (sPuts (last hold_example) - sPuts (hd hold_example))"
    using Rates_accounts[of hold_example hold_example "[(hold_example ! 1, hold_example ! 2)]" 15]
      hold_example_sorted hold_example_lost
    by (simp add: hold_example_def)
  then show ?thesis by (simp add: hold_example_def)
qed

section \<open>Nothing published is negative\<close>

definition ops_nonneg :: "idle_ops \<Rightarrow> bool" where
  "ops_nonneg a \<longleftrightarrow> 0 \<le> iPuts a \<and> 0 \<le> iGets a \<and> 0 \<le> iLists a \<and> 0 \<le> iDeletes a"

definition idle_nonneg :: "Idle \<Rightarrow> bool" where
  "idle_nonneg out \<longleftrightarrow> 0 \<le> DormantSeconds out \<and> 0 \<le> AttachedSeconds out \<and> 0 \<le> ProjectSeconds out
     \<and> ops_nonneg (DormantOps out) \<and> ops_nonneg (AttachedOps out)
     \<and> ops_nonneg (idle_DormantPerHour out) \<and> ops_nonneg (idle_AttachedPerHour out)"

lemma ops_nonneg_intros [intro]:
  "ops_nonneg no_ops"
  "ops_nonneg a \<Longrightarrow> ops_nonneg b \<Longrightarrow> ops_nonneg (idle_add a b)"
  "ops_nonneg a \<Longrightarrow> 0 \<le> by \<Longrightarrow> ops_nonneg (idle_scale a by)"
  "\<not> shrank a \<Longrightarrow> ops_nonneg a"
  by (auto simp: ops_nonneg_def no_ops_def idle_add_def idle_scale_def shrank_def not_less intro!: f64_nonneg)

lemma rates_step_nonneg:
  assumes "idle_nonneg out" and "0 \<le> Attached p"
  shows "idle_nonneg (rates_step drain h out (p, c))"
proof (cases "interval_pile drain h p c")
  case Dropped
  then show ?thesis using assms(1) by (simp add: rates_step_def)
next
  case Dormant
  then have "0 < fsub (Elapsed c) (Elapsed p)" "\<not> shrank (interval_ops p c)"
    by (auto simp: interval_pile_def split: if_splits)
  then show ?thesis using assms(1) Dormant
    by (auto simp: rates_step_def Let_def idle_nonneg_def intro!: fadd_nonneg)
next
  case Held
  then have "0 < fsub (Elapsed c) (Elapsed p)" "\<not> shrank (interval_ops p c)"
    by (auto simp: interval_pile_def split: if_splits)
  then show ?thesis using assms Held
    by (auto simp: rates_step_def Let_def idle_nonneg_def intro!: fadd_nonneg fmul_nonneg f64_of_int_nonneg)
qed

lemma rates_fold_nonneg:
  "idle_nonneg out \<Longrightarrow> \<forall>(p, c) \<in> set ivs. 0 \<le> Attached p \<Longrightarrow>
     idle_nonneg (foldl (rates_step drain h) out ivs)"
  by (induction ivs arbitrary: out) (auto intro: rates_step_nonneg)

lemma rates_step_saw [simp]: "SawDormant (rates_step drain h out pc) = SawDormant out"
  unfolding rates_step_def Let_def
  by (cases pc; cases "interval_pile drain h (fst pc) (snd pc)") simp_all

lemma fold_unrated: "SawDormant (foldl (rates_step drain h) out ivs) = SawDormant out"
  by (induction ivs arbitrary: out) simp_all

lemma max0_nonneg: "0 \<le> max0 v"
  by (simp add: max0_def)

lemma attached_rate_nonneg: "idle_nonneg out \<Longrightarrow> idle_nonneg (attached_rate out)"
  by (auto simp: attached_rate_def idle_nonneg_def Let_def intro!: fdiv_nonneg)
    (auto simp: ops_nonneg_def idle_scale_def intro!: fmul_nonneg fdiv_nonneg max0_nonneg)

lemma dormant_rate_nonneg: "idle_nonneg out \<Longrightarrow> idle_nonneg (dormant_rate out)"
  by (auto simp: dormant_rate_def idle_nonneg_def intro!: fdiv_nonneg)

text \<open>
  Whatever the samples, restarts and repeated readings included, no window, count or rate of a
  hold is published negative, and the hold claims a dormant window exactly when it measured one.
\<close>

lemma Rates_nonneg:
  assumes "\<forall>s \<in> set samples. 0 \<le> Attached s"
  shows "idle_nonneg (fleet_Rates samples drain)
    \<and> (SawDormant (fleet_Rates samples drain) \<longleftrightarrow> 0 < DormantSeconds (fleet_Rates samples drain))"
proof -
  let ?ord = "sort_key Elapsed samples" and ?n = "length (sort_key Elapsed samples)"
  have start: "idle_nonneg (idle_start n drain)" for n
    by (auto simp: idle_nonneg_def idle_start_def)
  have "\<forall>(p, c) \<in> set (intervals ?ord). 0 \<le> Attached p"
    using assms by (auto simp: intervals_def dest!: set_zip_leftD)
  then have sums: "idle_nonneg (rates_sums ?ord drain)"
    unfolding rates_sums_def by (rule rates_fold_nonneg[OF start])
  have saw: "SawDormant (attached_rate (dormant_rate out)) \<longleftrightarrow>
      (SawDormant out \<or> 0 < DormantSeconds (attached_rate (dormant_rate out)))" for out
    by (auto simp: attached_rate_def dormant_rate_def Let_def)
  have "\<not> SawDormant (rates_sums ?ord drain)"
    by (simp add: rates_sums_def fold_unrated idle_start_def)
  then show ?thesis
    using attached_rate_nonneg[OF dormant_rate_nonneg[OF sums]] saw start
    by (auto simp: fleet_Rates_def idle_start_def)
qed

end
