(* ===== verification/Cost.thy ===== *)
theory Cost
  imports GoAny GoFiles
begin

text \<open>
  Package \<open>cost\<close> (src/cost/cost.go, src/cost/tail.go): price cards and what refuses one, the price
  of a measured run, and the price of a month of a mostly idle fleet. Every figure goes through
  float64 arithmetic in the order of the source.
\<close>

section \<open>Cards\<close>

record Card =
  Name :: string
  AsOf :: string
  Source :: string
  cNote :: string
  GBBytes :: f64
  StoragePerGBMonth :: f64
  ClassAPerMillion :: f64
  ClassBPerMillion :: f64
  DeletePerMillion :: f64
  UploadPerGB :: f64
  RetrievalPerGB :: f64
  EgressPerGB :: f64
  EgressFreeGBMonth :: f64
  EgressFreeTimesStorage :: f64
  NeedsBox :: bool

definition Card_zero :: Card where
  "Card_zero = \<lparr>Name = [], AsOf = [], Source = [], cNote = [], GBBytes = 0, StoragePerGBMonth = 0,
     ClassAPerMillion = 0, ClassBPerMillion = 0, DeletePerMillion = 0, UploadPerGB = 0,
     RetrievalPerGB = 0, EgressPerGB = 0, EgressFreeGBMonth = 0, EgressFreeTimesStorage = 0,
     NeedsBox = False\<rparr>"

definition Card_fields :: "Card fields" where
  "Card_fields =
     [(''name'', on_field dec_string Name (\<lambda>v. Name_update (\<lambda>_. v))),
      (''as_of'', on_field dec_string AsOf (\<lambda>v. AsOf_update (\<lambda>_. v))),
      (''source'', on_field dec_string Source (\<lambda>v. Source_update (\<lambda>_. v))),
      (''note'', on_field dec_string cNote (\<lambda>v. cNote_update (\<lambda>_. v))),
      (''gb_bytes'', on_field dec_float GBBytes (\<lambda>v. GBBytes_update (\<lambda>_. v))),
      (''storage_per_gb_month'', on_field dec_float StoragePerGBMonth (\<lambda>v. StoragePerGBMonth_update (\<lambda>_. v))),
      (''class_a_per_million'', on_field dec_float ClassAPerMillion (\<lambda>v. ClassAPerMillion_update (\<lambda>_. v))),
      (''class_b_per_million'', on_field dec_float ClassBPerMillion (\<lambda>v. ClassBPerMillion_update (\<lambda>_. v))),
      (''delete_per_million'', on_field dec_float DeletePerMillion (\<lambda>v. DeletePerMillion_update (\<lambda>_. v))),
      (''upload_per_gb'', on_field dec_float UploadPerGB (\<lambda>v. UploadPerGB_update (\<lambda>_. v))),
      (''retrieval_per_gb'', on_field dec_float RetrievalPerGB (\<lambda>v. RetrievalPerGB_update (\<lambda>_. v))),
      (''egress_per_gb'', on_field dec_float EgressPerGB (\<lambda>v. EgressPerGB_update (\<lambda>_. v))),
      (''egress_free_gb_month'', on_field dec_float EgressFreeGBMonth (\<lambda>v. EgressFreeGBMonth_update (\<lambda>_. v))),
      (''egress_free_times_storage'', on_field dec_float EgressFreeTimesStorage (\<lambda>v. EgressFreeTimesStorage_update (\<lambda>_. v))),
      (''needs_box'', on_field dec_bool NeedsBox (\<lambda>v. NeedsBox_update (\<lambda>_. v)))]"

definition cost_Load :: "string \<Rightarrow> string go_result \<Rightarrow> Card go_result" where
  "cost_Load path file =
     (case file of Inl e \<Rightarrow> Inl e
      | Inr raw \<Rightarrow>
        (case json_Unmarshal (dec_struct False Card_fields) raw Card_zero of
           None \<Rightarrow> Inl (path @ '': json'')
         | Some c \<Rightarrow>
            if Name c = [] then Inl (path @ '': card has no name'')
            else if GBBytes c \<le> 0 then Inl (path @ '': card bills in a GB of no bytes'')
            else if NeedsBox c then Inl (path @ '': card has no prices in it, see its note'')
            else Inr c))"

text \<open>\<open>read path\<close> is the content of a file.\<close>

definition cost_Find :: "(string \<Rightarrow> string go_result) \<Rightarrow> string \<Rightarrow> string \<Rightarrow> Card go_result" where
  "cost_Find read dir name = (let path = path_Join dir (name @ ''.json'') in cost_Load path (read path))"

section \<open>Pricing a run\<close>

record Usage =
  uStorageBytes :: int
  uPuts :: int
  uGets :: int
  uLists :: int
  uDeletes :: int
  uUploadBytes :: int
  uDownloadBytes :: int
  uMeasured :: bool
  uEgress :: bool
  uTxns :: int
  uCommits :: int
  uIngestedBytes :: int

definition round4 :: "f64 \<Rightarrow> f64" where "round4 v = round_int 10000 v"

definition requests :: "Card \<Rightarrow> int \<Rightarrow> int \<Rightarrow> int \<Rightarrow> int \<Rightarrow> f64" where
  "requests c puts gets lsts deletes =
     (let classA = fmul (fdiv (f64_of_int (wrap64 (puts + lsts))) 1000000) (ClassAPerMillion c);
          classB = fmul (fdiv (f64_of_int gets) 1000000) (ClassBPerMillion c)
      in fadd (fadd classA classB) (fmul (fdiv (f64_of_int deletes) 1000000) (DeletePerMillion c)))"

definition storageGB :: "Card \<Rightarrow> int \<Rightarrow> f64" where
  "storageGB c n = fdiv (f64_of_int n) (GBBytes c)"

definition cost_ops :: "Card \<Rightarrow> Usage \<Rightarrow> f64" where
  "cost_ops c u = requests c (uPuts u) (uGets u) (uLists u) (uDeletes u)"

definition cost_transfer :: "Card \<Rightarrow> Usage \<Rightarrow> f64" where
  "cost_transfer c u =
     fadd (fmul (fdiv (f64_of_int (uUploadBytes u)) (GBBytes c)) (UploadPerGB c))
       (fmul (fdiv (f64_of_int (uDownloadBytes u)) (GBBytes c)) (RetrievalPerGB c))"

definition cost_egress :: "Card \<Rightarrow> Usage \<Rightarrow> f64" where
  "cost_egress c u =
     (let free = fadd (EgressFreeGBMonth c) (fmul (storageGB c (uStorageBytes u)) (EgressFreeTimesStorage c));
          billable = fsub (fdiv (f64_of_int (uDownloadBytes u)) (GBBytes c)) free;
          billable = (if billable < 0 then 0 else billable)
      in fmul billable (EgressPerGB c))"

definition cost_work :: "Card \<Rightarrow> Usage \<Rightarrow> f64" where
  "cost_work c u =
     (let work = fadd (cost_ops c u) (cost_transfer c u)
      in if uEgress u then fadd work (cost_egress c u) else work)"

definition Compute :: "Card \<Rightarrow> Usage \<Rightarrow> (string \<times> any) list" where
  "Compute c u =
     [(''card'', AStr (Name c)), (''card_dated'', AStr (AsOf c)), (''card_source'', AStr (Source c)),
      (''storage_usd_month'', AFloat (round4 (fmul (storageGB c (uStorageBytes u)) (StoragePerGBMonth c))))]
     @ (if \<not> uMeasured u then [(''ops_usd'', AStr ''unmeasured'')]
        else
          [(''ops_usd'', AFloat (round4 (cost_ops c u)))]
          @ (if 0 < cost_transfer c u then [(''transfer_usd'', AFloat (round4 (cost_transfer c u)))] else [])
          @ [(''egress_usd'', if uEgress u then AFloat (round4 (cost_egress c u))
               else AStr ''not counted, the reader is in the region of the bucket''),
             (''workload_usd'', AFloat (round4 (cost_work c u)))]
          @ (if 0 < uTxns u
             then [(''usd_per_million_txns'', AFloat (round4 (fmul (fdiv (cost_work c u) (f64_of_int (uTxns u))) 1000000)))]
             else [])
          @ (if 0 < uCommits u
             then [(''usd_per_million_commits'', AFloat (round4 (fmul (fdiv (cost_work c u) (f64_of_int (uCommits u))) 1000000)))]
             else [])
          @ (if 0 < uIngestedBytes u
             then [(''usd_per_gb_ingested'', AFloat (round4 (fdiv (cost_work c u) (fdiv (f64_of_int (uIngestedBytes u)) (GBBytes c)))))]
             else []))"

section \<open>Prices never fall with use\<close>

definition card_ok :: "Card \<Rightarrow> bool" where
  "card_ok c \<longleftrightarrow> 0 < GBBytes c \<and> 0 \<le> StoragePerGBMonth c \<and> 0 \<le> ClassAPerMillion c \<and> 0 \<le> ClassBPerMillion c
     \<and> 0 \<le> DeletePerMillion c \<and> 0 \<le> UploadPerGB c \<and> 0 \<le> RetrievalPerGB c \<and> 0 \<le> EgressPerGB c
     \<and> 0 \<le> EgressFreeGBMonth c \<and> 0 \<le> EgressFreeTimesStorage c"

definition used :: "(Usage \<Rightarrow> int) list" where
  "used = [uPuts, uGets, uLists, uDeletes, uUploadBytes, uDownloadBytes]"

definition usage_le :: "Usage \<Rightarrow> Usage \<Rightarrow> bool" where
  "usage_le u v \<longleftrightarrow> (\<forall>f \<in> set used. 0 \<le> f u \<and> f u \<le> f v \<and> f v < 2 ^ 62)
     \<and> uStorageBytes u = uStorageBytes v \<and> uMeasured u \<and> uMeasured v \<and> uEgress u = uEgress v"

lemma scaled_mono: "a \<le> b \<Longrightarrow> 0 \<le> a \<Longrightarrow> 0 < d \<Longrightarrow> 0 \<le> p \<Longrightarrow>
    fmul (fdiv (f64_of_int a) d) p \<le> fmul (fdiv (f64_of_int b) d) p"
  by (intro fmul_mono fdiv_mono f64_of_int_mono f64_nonneg order_refl) auto

lemma scaled_nonneg: "0 \<le> a \<Longrightarrow> 0 < d \<Longrightarrow> 0 \<le> p \<Longrightarrow> 0 \<le> fmul (fdiv (f64_of_int a) d) p"
  by (intro f64_nonneg) auto

lemma requests_mono:
  assumes "card_ok c" and "0 \<le> p" "p \<le> p'" "0 \<le> g" "g \<le> g'" "0 \<le> l" "l \<le> l'" "0 \<le> d" "d \<le> d'"
    and "p' + l' < 2 ^ 63"
  shows "0 \<le> requests c p g l d" and "requests c p g l d \<le> requests c p' g' l' d'"
proof -
  have w: "wrap64 (p + l) = p + l" "wrap64 (p' + l') = p' + l'"
    using assms by (auto intro!: wrap64_id)
  note ok = assms(1)[unfolded card_ok_def]
  show "0 \<le> requests c p g l d"
    unfolding requests_def Let_def w using assms ok by (intro fadd_nonneg scaled_nonneg) auto
  show "requests c p g l d \<le> requests c p' g' l' d'"
    unfolding requests_def Let_def w using assms ok by (intro fadd_mono scaled_mono) auto
qed

lemma usage_leD:
  assumes "usage_le u v"
  shows "0 \<le> uPuts u" "uPuts u \<le> uPuts v" "uPuts v < 2 ^ 62" "0 \<le> uGets u" "uGets u \<le> uGets v"
    "0 \<le> uLists u" "uLists u \<le> uLists v" "uLists v < 2 ^ 62" "0 \<le> uDeletes u" "uDeletes u \<le> uDeletes v"
    "0 \<le> uUploadBytes u" "uUploadBytes u \<le> uUploadBytes v" "0 \<le> uDownloadBytes u"
    "uDownloadBytes u \<le> uDownloadBytes v" "uStorageBytes u = uStorageBytes v" "uEgress u = uEgress v"
    "uMeasured u" "uMeasured v"
  using assms by (auto simp: usage_le_def used_def)

lemma cost_ops_mono:
  assumes "card_ok c" and "usage_le u v"
  shows "0 \<le> cost_ops c u" and "cost_ops c u \<le> cost_ops c v"
  unfolding cost_ops_def using assms(1) usage_leD[OF assms(2)] by (auto intro!: requests_mono)

lemma cost_transfer_mono:
  assumes "card_ok c" and "usage_le u v"
  shows "0 \<le> cost_transfer c u" and "cost_transfer c u \<le> cost_transfer c v"
  unfolding cost_transfer_def using assms(1) usage_leD[OF assms(2)]
  by (auto simp: card_ok_def intro!: fadd_mono fadd_nonneg scaled_mono scaled_nonneg)

lemma cost_egress_mono:
  assumes "card_ok c" and "usage_le u v"
  shows "0 \<le> cost_egress c u" and "cost_egress c u \<le> cost_egress c v"
proof -
  let ?free = "fadd (EgressFreeGBMonth c) (fmul (storageGB c (uStorageBytes v)) (EgressFreeTimesStorage c))"
  let ?b = "\<lambda>w. fsub (fdiv (f64_of_int (uDownloadBytes w)) (GBBytes c)) ?free"
  note ok = assms(1)[unfolded card_ok_def] and u = usage_leD[OF assms(2)]
  have "?b u \<le> ?b v" using ok u by (intro fsub_mono fdiv_mono f64_of_int_mono order_refl) auto
  then show "cost_egress c u \<le> cost_egress c v"
    unfolding cost_egress_def Let_def u(15) using ok by (intro fmul_mono) auto
  show "0 \<le> cost_egress c u"
    unfolding cost_egress_def Let_def using ok by (intro fmul_nonneg) auto
qed

interpretation round4_rounding: rounding round4
  by unfold_locales (simp_all add: round4_def round_int_mono round_int_zero)


section \<open>The long tail\<close>

definition HoursPerMonth :: f64 where "HoursPerMonth = 730"

record Ops =
  oPuts :: f64
  oGets :: f64
  oLists :: f64
  oDeletes :: f64

definition Ops_scale :: "Ops \<Rightarrow> f64 \<Rightarrow> Ops" where
  "Ops_scale o1 by = \<lparr>oPuts = fmul (oPuts o1) by, oGets = fmul (oGets o1) by, oLists = fmul (oLists o1) by,
     oDeletes = fmul (oDeletes o1) by\<rparr>"

definition Ops_add :: "Ops \<Rightarrow> Ops \<Rightarrow> Ops" where
  "Ops_add o1 b = \<lparr>oPuts = fadd (oPuts o1) (oPuts b), oGets = fadd (oGets o1) (oGets b),
     oLists = fadd (oLists o1) (oLists b), oDeletes = fadd (oDeletes o1) (oDeletes b)\<rparr>"

definition Ops_usd :: "Ops \<Rightarrow> Card \<Rightarrow> f64" where
  "Ops_usd o1 c = requests c (trunc (oPuts o1)) (trunc (oGets o1)) (trunc (oLists o1)) (trunc (oDeletes o1))"

definition Ops_any :: "Ops \<Rightarrow> any" where
  "Ops_any o1 = AMap [(''puts'', AFloat (oPuts o1)), (''gets'', AFloat (oGets o1)),
     (''lists'', AFloat (oLists o1)), (''deletes'', AFloat (oDeletes o1))]"

record Tail =
  Projects :: int
  AttachedAtOnce :: int
  tStorageBytes :: int
  DormantPerHour :: Ops
  AttachedPerProjectHour :: Ops
  BoxUSDMonth :: f64
  BoxSource :: string

definition tail_ops :: "Tail \<Rightarrow> Ops" where
  "tail_ops t = Ops_scale
     (Ops_add (DormantPerHour t) (Ops_scale (AttachedPerProjectHour t) (f64_of_int (AttachedAtOnce t))))
     HoursPerMonth"

definition tail_storage :: "Card \<Rightarrow> Tail \<Rightarrow> f64" where
  "tail_storage c t = fmul (storageGB c (tStorageBytes t)) (StoragePerGBMonth c)"

definition tail_total :: "Card \<Rightarrow> Tail \<Rightarrow> f64" where
  "tail_total c t = fadd (fadd (tail_storage c t) (Ops_usd (tail_ops t) c)) (BoxUSDMonth t)"

definition Monthly :: "Card \<Rightarrow> Tail \<Rightarrow> (string \<times> any) list" where
  "Monthly c t =
     [(''card'', AStr (Name c)), (''card_dated'', AStr (AsOf c)), (''projects'', AInt (Projects t)),
      (''attached_at_once'', AInt (AttachedAtOnce t)),
      (''storage_gb'', AFloat (round4 (storageGB c (tStorageBytes t)))),
      (''storage_usd_month'', AFloat (round4 (tail_storage c t))),
      (''ops_month'', Ops_any (tail_ops t)),
      (''ops_usd_month'', AFloat (round4 (Ops_usd (tail_ops t) c))),
      (''total_usd_month'', AFloat (round4 (tail_total c t)))]
     @ (if 0 < BoxUSDMonth t
        then [(''compute_usd_month'', AFloat (round4 (BoxUSDMonth t))), (''compute_source'', AStr (BoxSource t))]
        else [(''compute_usd_month'', AStr ''not priced'')])
     @ (if 0 < Projects t
        then [(''usd_per_project_month'', AFloat (round4 (fdiv (tail_total c t) (f64_of_int (Projects t))))),
              (''store_usd_per_project_month'',
                AFloat (round4 (fdiv (fadd (tail_storage c t) (Ops_usd (tail_ops t) c)) (f64_of_int (Projects t)))))]
        else [])"

definition tail_ok :: "Tail \<Rightarrow> bool" where
  "tail_ok t \<longleftrightarrow> 0 \<le> tStorageBytes t \<and> 0 \<le> BoxUSDMonth t \<and> fl (BoxUSDMonth t) = BoxUSDMonth t
     \<and> (\<forall>f \<in> {oPuts, oGets, oLists, oDeletes}. 0 \<le> f (tail_ops t) \<and> f (tail_ops t) < 2 ^ 62)"

lemma fadd_ge:
  assumes "0 \<le> b" and "fl a = a"
  shows "a \<le> fadd a b" and "a \<le> fadd b a"
  using fl_mono[of a "a + b"] fl_mono[of a "b + a"] assms by (simp_all add: fadd_def)

lemma trunc_bounds: "0 \<le> x \<Longrightarrow> x < 2 ^ 62 \<Longrightarrow> 0 \<le> trunc x \<and> trunc x < 2 ^ 62"
  by (simp add: trunc_def floor_less_iff)

text \<open>
  The month's total of a fleet covers each of its lines: the published storage and request
  lines, and the compute line when there is one, are never more than the total, which is never
  negative; compute is said to be unpriced exactly when no box price was given.
\<close>

theorem Monthly_total_covers:
  assumes "card_ok c" and "tail_ok t"
  shows "\<exists>s q m. map_get (Monthly c t) ''storage_usd_month'' = AFloat s
    \<and> map_get (Monthly c t) ''ops_usd_month'' = AFloat q
    \<and> map_get (Monthly c t) ''total_usd_month'' = AFloat m
    \<and> 0 \<le> s \<and> s \<le> m \<and> 0 \<le> q \<and> q \<le> m
    \<and> (case map_get (Monthly c t) ''compute_usd_month'' of AFloat b \<Rightarrow> 0 < BoxUSDMonth t \<and> b \<le> m
       | v \<Rightarrow> v = AStr ''not priced'' \<and> BoxUSDMonth t = 0)"
proof -
  let ?s = "tail_storage c t" and ?q = "Ops_usd (tail_ops t) c" and ?b = "BoxUSDMonth t"
  note ok = assms(1)[unfolded card_ok_def] and tok = assms(2)[unfolded tail_ok_def]
  have s: "0 \<le> ?s" "fl ?s = ?s"
    unfolding tail_storage_def storageGB_def using ok tok
    by (auto simp: fmul_def fl_idem intro!: fl_nonneg mult_nonneg_nonneg fdiv_nonneg f64_of_int_nonneg)
  have tr: "0 \<le> trunc (f (tail_ops t)) \<and> trunc (f (tail_ops t)) < 2 ^ 62"
    if "f \<in> {oPuts, oGets, oLists, oDeletes}" for f
    using tok that by (intro trunc_bounds) auto
  have q: "0 \<le> ?q"
    unfolding Ops_usd_def using tr[of oPuts] tr[of oGets] tr[of oLists] tr[of oDeletes] assms(1)
    by (intro requests_mono(1)[where p' = "trunc (oPuts (tail_ops t))" and g' = "trunc (oGets (tail_ops t))"
          and l' = "trunc (oLists (tail_ops t))" and d' = "trunc (oDeletes (tail_ops t))"]) simp_all
  have q': "fl ?q = ?q" by (simp add: Ops_usd_def requests_def fadd_def fl_idem)
  have b: "0 \<le> ?b" "fl ?b = ?b" using tok by auto
  have sq: "?s \<le> fadd ?s ?q" "?q \<le> fadd ?s ?q" using fadd_ge s q q' by auto
  have "fl (fadd ?s ?q) = fadd ?s ?q" by (simp add: fadd_def fl_idem)
  then have "fadd ?s ?q \<le> tail_total c t" unfolding tail_total_def using fadd_ge(1)[OF b(1)] by simp
  moreover have "?b \<le> tail_total c t"
    unfolding tail_total_def using fadd_ge(2)[OF _ b(2)] s(1) q by (simp add: fadd_nonneg)
  ultimately have r: "round4 ?s \<le> round4 (tail_total c t)" "round4 ?q \<le> round4 (tail_total c t)"
    "round4 ?b \<le> round4 (tail_total c t)"
    using sq by (auto intro: round4_rounding.rnd_mono order_trans)
  have n: "0 \<le> round4 ?s" "0 \<le> round4 ?q"
    using s(1) q by (auto intro: round4_rounding.rnd_nonneg)
  show ?thesis using r n b(1) by (auto simp: Monthly_def)
qed

definition card_example :: Card where
  "card_example = Card_zero\<lparr>Name := ''example'', GBBytes := 1073741824, StoragePerGBMonth := 1, ClassAPerMillion := 5\<rparr>"

lemma card_ok_example: "card_ok card_example"
  by (simp add: card_ok_def card_example_def Card_zero_def)


theorem Monthly_total_covers_witness:
  "\<exists>s m. map_get (Monthly card_example \<lparr>Projects = 800, AttachedAtOnce = 64, tStorageBytes = 1000,
       DormantPerHour = \<lparr>oPuts = 0, oGets = 0, oLists = 0, oDeletes = 0\<rparr>,
       AttachedPerProjectHour = \<lparr>oPuts = 0, oGets = 0, oLists = 0, oDeletes = 0\<rparr>,
       BoxUSDMonth = 0, BoxSource = []\<rparr>) ''storage_usd_month'' = AFloat s
    \<and> map_get (Monthly card_example \<lparr>Projects = 800, AttachedAtOnce = 64, tStorageBytes = 1000,
       DormantPerHour = \<lparr>oPuts = 0, oGets = 0, oLists = 0, oDeletes = 0\<rparr>,
       AttachedPerProjectHour = \<lparr>oPuts = 0, oGets = 0, oLists = 0, oDeletes = 0\<rparr>,
       BoxUSDMonth = 0, BoxSource = []\<rparr>) ''total_usd_month'' = AFloat m \<and> 0 \<le> s \<and> s \<le> m"
proof -
  have "tail_ok \<lparr>Projects = 800, AttachedAtOnce = 64, tStorageBytes = 1000,
       DormantPerHour = \<lparr>oPuts = 0, oGets = 0, oLists = 0, oDeletes = 0\<rparr>,
       AttachedPerProjectHour = \<lparr>oPuts = 0, oGets = 0, oLists = 0, oDeletes = 0\<rparr>,
       BoxUSDMonth = 0, BoxSource = []\<rparr>"
    by (simp add: tail_ok_def tail_ops_def Ops_scale_def Ops_add_def fmul_def fadd_def)
  from Monthly_total_covers[OF card_ok_example this] show ?thesis by blast
qed

end
