(* ===== verification/CmdFleet.thy ===== *)
theory CmdFleet
  imports Jsonable Command CmdRest Provision FleetDrive FleetIdle FleetMetrics Cost Snapshots
begin

text \<open>
  \<open>zoubench fleet\<close> (src/cmd/zoubench/fleet.go), around the provisioning of \<open>Provision\<close>: the node it
  starts and waits for, the steady and churn phases, the hold, what a sleeping fleet costs, and every
  way the run ends with what that leaves of the node. The answers of the node, its counters, the clock
  and the files are in \<open>fleet_world\<close>; the numbers are finite, so the pass of \<open>Jsonable\<close> over the
  document takes nothing out.
\<close>

section \<open>Provisioning as the command runs it\<close>

fun prov_do :: "string \<Rightarrow> prov_event \<Rightarrow> provision \<Rightarrow> provision option" where
  "prov_do schema (Handed i) p =
     (case pvQueue p of [] \<Rightarrow> None
      | ref # rest \<Rightarrow>
        if i < length (pvWorkers p) \<and> pvWorkers p ! i = Waiting
        then Some (p\<lparr>pvQueue := rest, pvWorkers := (pvWorkers p)[i := Busy ref]\<rparr>) else None)"
| "prov_do schema (Tried i a io created touched) p =
     (if length (pvWorkers p) \<le> i then None
      else case pvWorkers p ! i of
          Busy ref \<Rightarrow>
            (case tenant_err schema a of
               Some e \<Rightarrow> Some (p\<lparr>pvFailed := keep_five (ref @ '': '' @ e) (pvFailed p), pvWorkers := (pvWorkers p)[i := Waiting]\<rparr>)
             | None \<Rightarrow>
               let (r, s, fs) = State_Add io ref (pvState p, pvFiles p)
               in Some (p\<lparr>pvCreate := pvCreate p @ [created], pvFirst := pvFirst p @ [touched], pvState := s, pvFiles := fs,
                    pvWorkers := (pvWorkers p)[i := (if r = None then Waiting else Gone)]\<rparr>))
        | _ \<Rightarrow> None)"

fun prov_events :: "string \<Rightarrow> prov_event list \<Rightarrow> provision \<Rightarrow> provision option" where
  "prov_events schema [] p = Some p"
| "prov_events schema (e # es) p = (case prov_do schema e p of None \<Rightarrow> None | Some q \<Rightarrow> prov_events schema es q)"

text \<open>It returns once every ref was handed out and no worker is at one; \<open>None\<close> when it is not there yet.\<close>

definition provision_run :: "provision_args \<Rightarrow> fleet_state \<Rightarrow> files \<Rightarrow> prov_event list \<Rightarrow> int
    \<Rightarrow> ((string \<times> any) list \<times> go_error option \<times> fleet_state) option" where
  "provision_run a s fs es took =
     (case prov_events (paSetup a) es (prov_start a s fs) of None \<Rightarrow> None
      | Some p \<Rightarrow>
        if pvQueue p = [] \<and> filter is_busy (pvWorkers p) = []
        then let (doc, e) = prov_result a s took p in Some (doc, e, pvState p) else None)"

section \<open>Arguments and the world\<close>

record fleet_args =
  faScenario :: string
  faZoubin :: string
  faPgbin :: string
  faStore :: string
  faWorkdir :: string
  faLabel :: string
  faOutdir :: string
  faPhases :: string
  faJobs :: int
  faCpus :: string
  faHttp :: int
  faPg :: int
  faOps :: int
  faPrefix :: string
  faKeep :: bool
  faCardsdir :: string
  faPricecard :: string
  faBoxUSD :: f64
  faBoxSource :: string

record phase_world =
  phStatsBefore :: "bytes go_result"
  phBefore :: "http_answer go_result"
  phWarm :: "nat \<Rightarrow> fleet_event list"
  phTraffic :: "nat \<Rightarrow> fleet_event list"
  phSeed :: "nat \<Rightarrow> rng"
  phElapsed :: int
  phAfter :: "http_answer go_result"
  phRuntime :: "walk_entry list"
  phStatsAfter :: "bytes go_result"

record hold_look =
  hlMetrics :: "http_answer go_result"
  hlStats :: "bytes go_result"
  hlSince :: int

record fleet_world =
  fwFile :: "string go_result"
  fwMkdirWork :: "go_error option"
  fwSecret :: string
  fwState :: file_read
  fwDisk :: files
  fwDate :: string
  fwEnv :: doc
  fwSim :: string
  fwDelay :: string
  fwLog :: "go_error option"
  fwStart :: "string list \<Rightarrow> go_error option"
  fwHealthClock :: "nat \<Rightarrow> int"
  fwHealth :: "nat \<Rightarrow> http_answer go_result"
  fwHealthDeadline :: int
  fwHmac :: "string \<Rightarrow> string \<Rightarrow> string"
  fwNow :: int
  fwOpsBefore :: "bytes go_result"
  fwPool :: "prov_event list"
  fwPoolTook :: int
  fwSteady :: phase_world
  fwHoldClock :: "nat \<Rightarrow> int"
  fwLooks :: "nat \<Rightarrow> hold_look"
  fwHoldRuntime :: "walk_entry list"
  fwChurn :: phase_world
  fwTree :: doc
  fwSystem :: doc
  fwOpsAfter :: "bytes go_result"
  fwStoreWalk :: "walk_entry list"
  fwRuntimeWalk :: "walk_entry list"
  fwPriceWalk :: "walk_entry list"
  fwCards :: "string \<Rightarrow> string go_result"
  fwMkdir :: "go_error option"
  fwWrite :: "go_error option"

text \<open>What was done to the node, and how a run that does not save its results ends.\<close>

datatype node_event = NodeStarted | NodeStopped

datatype fleet_end = Died go_error | Panicked

type_synonym fleet_failure = "fleet_end \<times> node_event list"

definition wanted_phases :: "fleet_args \<Rightarrow> string list" where
  "wanted_phases a = map TrimSpace (strings_Split (faPhases a) (CHR '',''))"

definition fleet_secret :: "fleet_world \<Rightarrow> string" where
  "fleet_secret w = (if fwSecret w = [] then ''fleet-bench-secret-at-least-32-characters-long'' else fwSecret w)"

definition local_url :: "int \<Rightarrow> string \<Rightarrow> string" where
  "local_url port path = ''http://127.0.0.1:'' @ itoa port @ path"

definition stats_path :: "fleet_args \<Rightarrow> string" where "stats_path a = path_Join (faWorkdir a) ''store-stats''"

definition setupPath :: "string \<Rightarrow> string \<Rightarrow> string" where
  "setupPath scenarioPath schema = (if schema = [] then [] else path_Join (path_Dir scenarioPath) schema)"

section \<open>The node\<close>

definition serve_argv :: "fleet_args \<Rightarrow> scenario \<Rightarrow> string list" where
  "serve_argv a sc =
     (let argv = [faZoubin a, ''serve'', faStore a, ''--pg-bin'', faPgbin a,
             ''--runtime'', path_Join (faWorkdir a) ''runtime'', ''--http'', itoa (faHttp a), ''--pg'', itoa (faPg a),
             ''--pool'', ''0'', ''--ops'', itoa (faOps a)]
           @ (if 0 < sc_MaxAttached sc then [''--max-attached'', itoa (sc_MaxAttached sc)] else [])
           @ (if 0 < sc_IdleSecs sc then [''--idle-secs'', itoa (sc_IdleSecs sc)] else [])
           @ (if sc_SharedBuffers sc \<noteq> [] then [''--shared-buffers'', sc_SharedBuffers sc] else [])
      in if faCpus a \<noteq> [] then [''taskset'', ''-c'', faCpus a] @ argv else argv)"

definition startServe :: "fleet_args \<Rightarrow> fleet_world \<Rightarrow> scenario \<Rightarrow> unit go_result" where
  "startServe a w sc = and_then (dies (fwLog w)) (\<lambda>_. dies (fwStart w (serve_argv a sc)))"

text \<open>\<open>Some None\<close> once it answered well, \<open>Some (Some e)\<close> when the deadline passed first.\<close>

partial_function (option) healthy_from :: "(nat \<Rightarrow> int) \<Rightarrow> (nat \<Rightarrow> http_answer go_result) \<Rightarrow> int \<Rightarrow> nat \<Rightarrow> go_error option option" where
  "healthy_from clock answer deadline i =
     (if clock i < deadline
      then (if (case answer i of Inl _ \<Rightarrow> False | Inr res \<Rightarrow> StatusCode res = 200) then Some None
            else healthy_from clock answer deadline (i + 1))
      else Some (Some ''the node was not healthy within 1m0s''))"

definition waitHealthy :: "(nat \<Rightarrow> int) \<Rightarrow> (nat \<Rightarrow> http_answer go_result) \<Rightarrow> int \<Rightarrow> go_error option option" where
  "waitHealthy clock answer deadline = healthy_from clock answer deadline 0"

text \<open>What stopping comes to: nothing under \<open>--keep-node\<close>.\<close>

definition stop_node :: "fleet_args \<Rightarrow> node_event list" where
  "stop_node a = (if faKeep a then [] else [NodeStopped])"

text \<open>The last forty lines of the node's log, which a run that fails shows.\<close>

definition dump :: "string go_result \<Rightarrow> string list" where
  "dump raw =
     (case raw of Inl _ \<Rightarrow> []
      | Inr s \<Rightarrow> let ls = split_lines (TrimSpace s) in drop (length ls - 40) ls)"

section \<open>A phase\<close>

definition scraped :: "string \<Rightarrow> http_answer go_result \<Rightarrow> metrics option" where
  "scraped url answer = (case fleet_Scrape url answer of Inr (m, None) \<Rightarrow> Some m | _ \<Rightarrow> None)"

definition attach_bucket_any :: "metric_bucket \<Rightarrow> any" where
  "attach_bucket_any b = AMap [(''le'', AFloat (LE b)), (''count'', AFloat (metric_bucket.Count b))]"

definition ceiling_field :: "string \<Rightarrow> f64 \<times> bool \<Rightarrow> doc" where
  "ceiling_field k p = (if snd p then [(k, AFloat (fst p))] else [])"

definition node_block :: "metrics \<Rightarrow> metrics \<Rightarrow> doc" where
  "node_block before after =
     (let d = metrics_Delta before after;
          series = (\<lambda>name label val. name @ ''{'' @ label @ ''='' @ [CHR 0x22] @ val @ [CHR 0x22] @ ''}'');
          bs = fleet_Buckets d ''zou_tenant_attach_seconds'';
          (mean, known) = AttachSecs d
      in [(''attached_now'', AFloat (metrics_Get after ''zou_tenants_attached'')),
          (''attaches_ok'', AFloat (metrics_Get d (series ''zou_tenant_attaches_total'' ''outcome'' ''ok''))),
          (''attaches_error'', AFloat (metrics_Get d (series ''zou_tenant_attaches_total'' ''outcome'' ''error''))),
          (''registry_hits'', AFloat (metrics_Get d (series ''zou_registry_lookups_total'' ''result'' ''hit''))),
          (''registry_misses'', AFloat (metrics_Get d (series ''zou_registry_lookups_total'' ''result'' ''miss''))),
          (''attach_buckets_s'', if bs = [] then ANil else AList (map attach_bucket_any bs)),
          (''http_requests_rest'', AFloat (metrics_Get d
             (''zou_http_requests_total{surface='' @ [CHR 0x22] @ ''rest'' @ [CHR 0x22] @ '',status='' @ [CHR 0x22] @ ''200'' @ [CHR 0x22] @ ''}'')))]
         @ (if known then [(''attach_mean_s'', AFloat (cmd_round3 mean))] else [])
         @ ceiling_field ''attach_p50_s_ceiling'' (fleet_Quantile bs (fl (1 / 2)))
         @ ceiling_field ''attach_p99_s_ceiling'' (fleet_Quantile bs (fl (99 / 100))))"

definition fleet_phase_options :: "fleet_args \<Rightarrow> scenario \<Rightarrow> string list \<Rightarrow> fleet_options" where
  "fleet_phase_options a sc drawFrom =
     \<lparr>f_BaseURL = local_url (faHttp a) [], f_Refs = drawFrom, f_Clients = sc_Clients sc, f_Warmup = sc_Warmup sc * GoTime.Second,
      f_Requests = sc_Requests sc, f_APIPrefix = []\<rparr>"

definition phase_drive :: "fleet_args \<Rightarrow> fleet_world \<Rightarrow> scenario \<Rightarrow> string list \<Rightarrow> phase_world \<Rightarrow> (go_error, fleet_outcome) outcome" where
  "phase_drive a w sc drawFrom ph =
     fleet_Drive (KeyToken (fwHmac w) (fwNow w) (fleet_secret w))
       (UserToken (fwHmac w) (fwNow w) (fleet_secret w) ''00000000-0000-0000-0000-0000000000aa'' ''bench@zou.test'')
       (fleet_phase_options a sc drawFrom) (phWarm ph) (phTraffic ph) (phSeed ph) (phElapsed ph)"

definition phase_figures :: "string list \<Rightarrow> fleet_outcome \<Rightarrow> doc" where
  "phase_figures drawFrom out =
     [(''tenants_drawn_from'', AInt (int (length drawFrom))), (''tenants_touched'', AInt (int (Touched out))),
      (''requests'', AInt (int (out_Requests out))), (''errors'', AInt (int (out_Errors out))),
      (''rps'', AFloat (cmd_round2 (fdiv (f64_of_int (int (out_Requests out))) (Seconds (out_Elapsed out))))),
      (''latency_ms'', pct_any (latency_Percentiles (out_Samples out))),
      (''buckets'', AList (map rest_bucket_any (latency_Buckets (out_Samples out) 30))),
      (''per_request'', AMap (map (\<lambda>(name, p). (name, request_any p)) (out_PerRequest out))),
      (''status'', AMap (map (\<lambda>(code, n). (itoa code, AInt (int n))) (out_Status out))),
      (''bytes_read'', AInt (out_Bytes out)), (''seconds'', AFloat (cmd_round2 (Seconds (out_Elapsed out))))]
     @ (if out_Failures out \<noteq> [] then [(''failures'', AList (map AStr (out_Failures out)))] else [])"

definition phase_block :: "fleet_args \<Rightarrow> string list \<Rightarrow> phase_world \<Rightarrow> fleet_outcome \<Rightarrow> doc" where
  "phase_block a drawFrom ph out =
     phase_figures drawFrom out
     @ (case (scraped (local_url (faOps a) ''/metrics'') (phBefore ph), scraped (local_url (faOps a) ''/metrics'') (phAfter ph)) of
          (Some before, Some after) \<Rightarrow> [(''node'', AMap (node_block before after))] | _ \<Rightarrow> [])
     @ [(''runtime_bytes'', AInt (fpBytes (Measure (phRuntime ph))))]
     @ (case (zoustats_Read (stats_path a) (phStatsBefore ph), zoustats_Read (stats_path a) (phStatsAfter ph)) of
          (Inr before, Inr after) \<Rightarrow>
            (case zoustats_Diff before after of Inl _ \<Rightarrow> [] | Inr d \<Rightarrow> [(''store_ops'', AMap (zoustats_Report d))])
        | _ \<Rightarrow> [])"

text \<open>A phase that fails stops the node; a client that panics takes the command with it.\<close>

definition phase :: "fleet_args \<Rightarrow> fleet_world \<Rightarrow> scenario \<Rightarrow> string \<Rightarrow> string list \<Rightarrow> phase_world \<Rightarrow> fleet_failure + doc" where
  "phase a w sc name drawFrom ph =
     (case phase_drive a w sc drawFrom ph of
        Panic \<Rightarrow> Inl (Panicked, [NodeStarted])
      | Fail e \<Rightarrow> Inl (Died e, NodeStarted # stop_node a)
      | Ok out \<Rightarrow> Inr [(name, AMap (phase_block a drawFrom ph out))])"

section \<open>The hold\<close>

definition hold_take :: "fleet_args \<Rightarrow> hold_look \<Rightarrow> idle_sample list" where
  "hold_take a l =
     (case (scraped (local_url (faOps a) ''/metrics'') (hlMetrics l), zoustats_Read (stats_path a) (hlStats l)) of
        (Some m, Inr c) \<Rightarrow>
          let t = zoustats_Sum c in
          [\<lparr>Elapsed = cmd_round2 (Seconds (hlSince l)), Attached = trunc (metrics_Get m ''zou_tenants_attached''),
            sPuts = sint (Puts t), sGets = sint (Gets t), sLists = sint (Lists t), sDeletes = sint (Deletes t)\<rparr>]
      | _ \<Rightarrow> [])"

text \<open>One look before the loop and one after each sleep; \<open>clock i\<close> is the time since the start at check \<open>i\<close>.\<close>

partial_function (option) hold_from :: "(nat \<Rightarrow> int) \<Rightarrow> (nat \<Rightarrow> idle_sample list) \<Rightarrow> int \<Rightarrow> nat \<Rightarrow> idle_sample list
    \<Rightarrow> idle_sample list option" where
  "hold_from clock takes until1 i samples =
     (if clock i < until1 then hold_from clock takes until1 (i + 1) (samples @ takes (i + 1)) else Some samples)"

definition hold_samples :: "fleet_args \<Rightarrow> fleet_world \<Rightarrow> scenario \<Rightarrow> idle_sample list option" where
  "hold_samples a w sc =
     hold_from (fwHoldClock w) (\<lambda>i. hold_take a (fwLooks w i)) (sc_Hold sc * GoTime.Second) 0 (hold_take a (fwLooks w 0))"

definition hold_rates :: "scenario \<Rightarrow> idle_sample list \<Rightarrow> Idle" where
  "hold_rates sc samples = fleet_Rates (fleet_After samples (f64_of_int (sc_SettleSecs sc))) (f64_of_int (sc_DrainSecs sc))"

definition idle_ops_any :: "idle_ops \<Rightarrow> any" where
  "idle_ops_any p = AMap [(''puts'', AFloat (iPuts p)), (''gets'', AFloat (iGets p)), (''lists'', AFloat (iLists p)),
     (''deletes'', AFloat (iDeletes p))]"

definition idle_any :: "Idle \<Rightarrow> any" where
  "idle_any r = AMap [(''dormant_seconds'', AFloat (DormantSeconds r)), (''attached_seconds'', AFloat (AttachedSeconds r)),
     (''project_seconds'', AFloat (ProjectSeconds r)), (''dormant_ops'', idle_ops_any (DormantOps r)),
     (''attached_ops'', idle_ops_any (AttachedOps r)), (''dormant_ops_per_hour'', idle_ops_any (idle_DormantPerHour r)),
     (''attached_ops_per_project_hour'', idle_ops_any (idle_AttachedPerHour r)), (''drain_seconds'', AFloat (DrainSeconds r)),
     (''saw_dormant'', ABool (SawDormant r)), (''samples'', AInt (int (Samples r)))]"

definition idle_sample_any :: "idle_sample \<Rightarrow> any" where
  "idle_sample_any s = AMap [(''t'', AFloat (Elapsed s)), (''attached'', AInt (Attached s)), (''puts'', AInt (sPuts s)),
     (''gets'', AInt (sGets s)), (''lists'', AInt (sLists s)), (''deletes'', AInt (sDeletes s))]"

definition hold_block :: "scenario \<Rightarrow> walk_entry list \<Rightarrow> idle_sample list \<Rightarrow> doc" where
  "hold_block sc runtime samples =
     [(''seconds'', AInt (sc_Hold sc)), (''every'', AInt (sc_SampleSecs sc)), (''settle_secs'', AInt (sc_SettleSecs sc)),
      (''drain_secs'', AInt (sc_DrainSecs sc)), (''rates'', idle_any (hold_rates sc samples)),
      (''samples'', if samples = [] then ANil else AList (map idle_sample_any samples)),
      (''runtime_bytes'', AInt (fpBytes (Measure runtime)))]"

section \<open>What a month of it costs\<close>

definition ops_of_idle :: "idle_ops \<Rightarrow> Ops" where
  "ops_of_idle p = \<lparr>oPuts = iPuts p, oGets = iGets p, oLists = iLists p, oDeletes = iDeletes p\<rparr>"

definition fleet_tail :: "fleet_args \<Rightarrow> scenario \<Rightarrow> nat \<Rightarrow> int \<Rightarrow> Idle \<Rightarrow> Tail" where
  "fleet_tail a sc ready bytes1 idle =
     \<lparr>Projects = int ready, AttachedAtOnce = sc_MaxAttached sc, tStorageBytes = bytes1,
      DormantPerHour = ops_of_idle (idle_DormantPerHour idle), AttachedPerProjectHour = ops_of_idle (idle_AttachedPerHour idle),
      BoxUSDMonth = faBoxUSD a, BoxSource = faBoxSource a\<rparr>"

definition card_names :: "fleet_args \<Rightarrow> string list" where
  "card_names a = filter (\<lambda>n. n \<noteq> []) (map TrimSpace (strings_Split (faPricecard a) (CHR '','')))"

fun priced_blocks :: "(string \<Rightarrow> Card go_result) \<Rightarrow> Tail \<Rightarrow> bool \<Rightarrow> string list \<Rightarrow> any list go_result" where
  "priced_blocks find1 t saw [] = Inr []"
| "priced_blocks find1 t saw (n # ns) =
     and_then (find1 n) (\<lambda>card.
       map_sum id (Cons (AMap (Monthly card t @ [(''dormant_window_measured'', ABool saw)]))) (priced_blocks find1 t saw ns))"

definition fleet_cost :: "fleet_args \<Rightarrow> fleet_world \<Rightarrow> scenario \<Rightarrow> nat \<Rightarrow> Idle \<Rightarrow> doc go_result" where
  "fleet_cost a w sc ready idle =
     (let fp = Measure (fwPriceWalk w) in
      if faPricecard a \<noteq> [] \<and> 0 < Samples idle \<and> 0 < fpObjects fp
      then map_sum id (\<lambda>blocks. [(''cost'', if blocks = [] then ANil else AList blocks)])
             (priced_blocks (cost_Find (fwCards w) (faCardsdir a)) (fleet_tail a sc ready (fpBytes fp) idle) (SawDormant idle) (card_names a))
      else Inr [])"

section \<open>The command\<close>

definition fleet_head :: "fleet_args \<Rightarrow> fleet_world \<Rightarrow> scenario \<Rightarrow> any \<Rightarrow> doc" where
  "fleet_head a w sc config =
     (let spec = sim_spec [] (fwSim w) (fwDelay w) in
      [(''scenario'', AStr (sc_Name sc)), (''label'', AStr (faLabel a)), (''date'', AStr (fwDate w)),
       (''config'', config), (''env'', AMap (fwEnv w)),
       (''node'', AMap [(''max_attached'', AInt (sc_MaxAttached sc)), (''idle_secs'', AInt (sc_IdleSecs sc)),
          (''shared_buffers'', AStr (sc_SharedBuffers sc)), (''cpus'', AStr (faCpus a)), (''tenants'', AInt (sc_Tenants sc))])]
      @ (if spec \<noteq> [] then [(''simulated'', AStr spec)] else []))"

text \<open>Up to the node: the scenario, the work directory, the state a former run left, and the node itself.\<close>

definition fleet_start :: "fleet_args \<Rightarrow> fleet_world \<Rightarrow> (scenario \<times> any \<times> fleet_state) go_result" where
  "fleet_start a w =
     and_then (scenario_Load (faScenario a) (fwFile w)) (\<lambda>(sc, config).
     if \<not> IsFleet sc then Inl (faScenario a @ '' is not a fleet scenario'')
     else and_then (dies (fwMkdirWork w)) (\<lambda>_.
       and_then (State_Load (path_Join (faWorkdir a) ''fleet-state.json'') (faStore a) (fleet_secret w) (fwState w)) (\<lambda>s.
       and_then (startServe a w sc) (\<lambda>_. Inr (sc, config, s)))))"

definition fleet_provision :: "fleet_args \<Rightarrow> fleet_world \<Rightarrow> scenario \<Rightarrow> fleet_state \<Rightarrow> (fleet_failure + doc \<times> fleet_state) option" where
  "fleet_provision a w sc s =
     (if ''provision'' \<notin> set (wanted_phases a) then Some (Inr ([], s))
      else case provision_run \<lparr>paSetup = setupPath (faScenario a) (sc_Setup sc), paRefs = fleet_Refs (faPrefix a) (nat (sc_Tenants sc)),
                paJobs = faJobs a\<rparr> s (fwDisk w) (fwPool w) (fwPoolTook w) of
          None \<Rightarrow> None
        | Some (doc1, Some e, s') \<Rightarrow> Some (Inl (Died e, NodeStarted # stop_node a))
        | Some (doc1, None, s') \<Rightarrow> Some (Inr ([(''provision'', AMap doc1)], s')))"

definition steady_width :: "scenario \<Rightarrow> 'a list \<Rightarrow> nat" where
  "steady_width sc ready =
     (if sc_WorkingSet sc \<le> 0 \<or> int (length ready) < sc_WorkingSet sc then length ready else nat (sc_WorkingSet sc))"

definition idle_zero :: Idle where
  "idle_zero = idle_start 0 0"

definition fleet_hold :: "fleet_args \<Rightarrow> fleet_world \<Rightarrow> scenario \<Rightarrow> (doc \<times> Idle) option" where
  "fleet_hold a w sc =
     (if ''hold'' \<in> set (wanted_phases a) \<and> 0 < sc_Hold sc
      then map_option (\<lambda>samples. ([(''hold'', AMap (hold_block sc (fwHoldRuntime w) samples))], hold_rates sc samples)) (hold_samples a w sc)
      else Some ([], idle_zero))"

definition fleet_phases :: "fleet_args \<Rightarrow> fleet_world \<Rightarrow> scenario \<Rightarrow> fleet_state \<Rightarrow> (fleet_failure + doc \<times> Idle) option" where
  "fleet_phases a w sc s =
     run_then (Some (if ''steady'' \<in> set (wanted_phases a)
       then phase a w sc ''steady'' (take (steady_width sc (Ready s)) (Ready s)) (fwSteady w) else Inr [])) (\<lambda>steady.
     run_then (map_option Inr (fleet_hold a w sc)) (\<lambda>(held, idle).
     run_then (Some (if ''churn'' \<in> set (wanted_phases a)
       then phase a w sc ''churn'' (Ready s) (fwChurn w) else Inr [])) (\<lambda>churn.
     Some (Inr (steady @ held @ churn, idle)))))"

text \<open>Counters that cannot be read before the run are taken as they were decoded, or as zeros.\<close>

definition counters_of :: "bytes go_result \<Rightarrow> counters" where
  "counters_of raw =
     (case raw of Inl _ \<Rightarrow> replicate slots 0
      | Inr bs \<Rightarrow> if length bs < slots * 8 then replicate slots 0 else zoustats_decode bs)"

definition fleet_totals :: "fleet_args \<Rightarrow> fleet_world \<Rightarrow> nat \<Rightarrow> doc" where
  "fleet_totals a w ready =
     (let fp = Measure (fwStoreWalk w); rt = Measure (fwRuntimeWalk w) in
      [(''process'', AMap (fwTree w)), (''system'', AMap (fwSystem w))]
      @ (case zoustats_Read (stats_path a) (fwOpsAfter w) of Inl _ \<Rightarrow> []
         | Inr after \<Rightarrow>
           (case zoustats_Diff (counters_of (fwOpsBefore w)) after of Inl _ \<Rightarrow> []
            | Inr d \<Rightarrow> [(''store_ops'', AMap (zoustats_Report d))]))
      @ (if 0 < fpObjects fp
         then [(''store'', AMap [(''bytes'', AInt (fpBytes fp)), (''objects'', AInt (int (fpObjects fp))),
                 (''bytes_per_tenant'', AInt (quot (fpBytes fp) (int (max ready 1))))])] else [])
      @ [(''runtime'', AMap [(''bytes'', AInt (fpBytes rt)), (''objects'', AInt (int (fpObjects rt)))]),
         (''tenants_ready'', AInt (int ready))])"

definition doc_gov :: "doc \<Rightarrow> gov" where
  "doc_gov d = GMap (map (apsnd GWritable) d)"

record fleet_out =
  foDoc :: doc
  foWritten :: "gov \<times> string list"
  foPath :: string
  foNode :: "node_event list"
  foReady :: "string list"

definition died :: "node_event list \<Rightarrow> 'a go_result \<Rightarrow> (fleet_failure + 'a) option" where
  "died ev r = Some (map_sum (\<lambda>e. (Died e, ev)) id r)"

text \<open>A card that cannot be read ends the command with the node up, whatever \<open>--keep-node\<close> says.\<close>

definition cmdFleet :: "fleet_args \<Rightarrow> fleet_world \<Rightarrow> (fleet_failure + fleet_out) option" where
  "cmdFleet a w =
     (let down = NodeStarted # stop_node a in
      run_then (died [] (fleet_start a w)) (\<lambda>(sc, config, s).
      run_then (case waitHealthy (fwHealthClock w) (fwHealth w) (fwHealthDeadline w) of
                  None \<Rightarrow> None | Some e \<Rightarrow> died down (dies e)) (\<lambda>_.
      run_then (fleet_provision a w sc s) (\<lambda>(made, s').
      run_then (fleet_phases a w sc s') (\<lambda>(phases, idle).
      run_then (died [NodeStarted] (fleet_cost a w sc (State_Count s') idle)) (\<lambda>cost1.
      run_then (died down (and_then (dies (fwMkdir w)) (\<lambda>_. dies (fwWrite w)))) (\<lambda>_.
      let doc = fleet_head a w sc config @ made @ phases @ fleet_totals a w (State_Count s') @ cost1 in
      Some (Inr \<lparr>foDoc = doc, foWritten = jsonable (doc_gov doc) [] [],
                 foPath = path_Join (faOutdir a) (result_name (sc_Name sc) (faLabel a) (fwDate w)),
                 foNode = down, foReady = Ready s'\<rparr>))))))))"

section \<open>The pool that was run is one that can be\<close>

lemma prov_do_step: "prov_do schema e p = Some q \<longleftrightarrow> prov_step schema e p q"
proof (cases e)
  case (Handed i)
  show ?thesis unfolding Handed
    by (auto elim!: handedE intro: prov_step.hand split: list.splits if_splits)
next
  case (Tried i a io c t)
  show ?thesis
  proof
    assume "prov_do schema e p = Some q"
    then obtain ref where i: "i < length (pvWorkers p)" "pvWorkers p ! i = Busy ref"
      by (auto simp: Tried split: if_splits worker.splits)
    obtain r s fs where add: "State_Add io ref (pvState p, pvFiles p) = (r, s, fs)" by (cases "State_Add io ref (pvState p, pvFiles p)")
    show "prov_step schema e p q"
      using \<open>prov_do schema e p = Some q\<close> i add prov_step.broke[OF i, of schema a _ io c t] prov_step.made[OF i _ add, of schema a c t]
      by (cases "tenant_err schema a") (auto simp: Tried)
  qed (auto simp: Tried elim!: triedE)
qed

lemma prov_events_reach:
  "prov_events (paSetup a) es p = Some q \<Longrightarrow> prov_reach a s fs p \<Longrightarrow> prov_reach a s fs q"
proof (induction es arbitrary: p)
  case (Cons e es)
  then obtain p1 where "prov_do (paSetup a) e p = Some p1" "prov_events (paSetup a) es p1 = Some q"
    by (auto split: option.splits)
  then show ?case using Cons prov_reach.moved prov_do_step by blast
qed simp

lemma prov_reach_state_ok: "prov_reach a s fs p \<Longrightarrow> state_ok s \<Longrightarrow> state_ok (pvState p)"
proof (induction rule: prov_reach.induct)
  case begun
  then show ?case by (simp add: prov_start_def)
next
  case (moved p e q)
  have "state_ok s'" if "State_Add io ref (r, fs) = (e, s', fs')" "state_ok r" for io ref r fs e s' fs'
    using that by (auto simp: State_Add_def state_ok_def Let_def split: if_splits prod.splits)
  then show ?case using moved(2,3) moved.prems by (auto elim!: prov_step.cases)
qed

lemma provision_run_ready:
  assumes "provision_run a s fs es took = Some (doc, None, s')" and "state_ok s"
  shows "state_ok s' \<and> set (paRefs a) \<subseteq> set (Ready s')"
proof -
  obtain p where p: "prov_events (paSetup a) es (prov_start a s fs) = Some p" "pvQueue p = []" "filter is_busy (pvWorkers p) = []"
    "prov_result a s took p = (doc, None)" "s' = pvState p"
    using assms(1) by (auto simp: provision_run_def split: option.splits prod.splits if_splits)
  have r: "prov_reach a s fs p" using prov_events_reach[OF p(1) prov_reach.begun] .
  note inv = prov_reach_inv[OF r, unfolded prov_inv_def on_the_way_def]
  have "pvFailed p = []" using p(4) by (auto simp: prov_result_def Let_def split: list.splits)
  moreover have "Busy ref \<notin> set (pvWorkers p)" for ref using p(3) by (auto simp: filter_empty_conv)
  ultimately have "\<forall>ref \<in> set (paRefs a). State_Has (pvState p) ref" using inv p(2) by auto
  moreover have "state_ok (pvState p)" using prov_reach_state_ok[OF r assms(2)] .
  ultimately show ?thesis by (auto simp: p(5) State_Has_def state_ok_def)
qed

section \<open>What is left of the node\<close>

fun fleet_events :: "fleet_failure + fleet_out \<Rightarrow> node_event list" where
  "fleet_events (Inl (e, ev)) = ev"
| "fleet_events (Inr out) = foNode out"

definition left_up :: "node_event list \<Rightarrow> bool" where
  "left_up ev \<longleftrightarrow> NodeStarted \<in> set ev \<and> NodeStopped \<notin> set ev"

lemma left_up_simps: "\<not> left_up []" "left_up [NodeStarted]" "left_up (NodeStarted # stop_node a) \<longleftrightarrow> faKeep a"
  by (auto simp: left_up_def stop_node_def)

lemma died_Some: "died ev r = Some (Inl f) \<longleftrightarrow> (\<exists>e. r = Inl e \<and> f = (Died e, ev))" "died ev r \<noteq> None"
  "died ev r = Some (Inr x) \<longleftrightarrow> r = Inr x"
  by (cases r; auto simp: died_def)+

lemma priced_blocks_dies:
  "priced_blocks find1 t saw ns = Inl e \<Longrightarrow> \<exists>n \<in> set ns. find1 n = Inl e"
  by (induction ns) (auto simp: and_then_def map_sum_def split: sum.splits)

lemma fleet_cost_dies: "fleet_cost a w sc n idle = Inl e \<Longrightarrow> \<exists>name \<in> set (card_names a). cost_Find (fwCards w) (faCardsdir a) name = Inl e"
  using priced_blocks_dies[of "cost_Find (fwCards w) (faCardsdir a)" "fleet_tail a sc n (fpBytes (Measure (fwPriceWalk w))) idle"
      "SawDormant idle" "card_names a"]
  by (cases "priced_blocks (cost_Find (fwCards w) (faCardsdir a)) (fleet_tail a sc n (fpBytes (Measure (fwPriceWalk w))) idle)
      (SawDormant idle) (card_names a)") (simp_all add: fleet_cost_def Let_def split: if_splits)

lemma phase_ends: "phase a w sc name draw ph = Inl (e, ev) \<Longrightarrow> e = Panicked \<or> ev = NodeStarted # stop_node a"
  by (auto simp: phase_def split: outcome.splits)

lemma fleet_phases_ends:
  "fleet_phases a w sc s = Some (Inl (e, ev)) \<Longrightarrow> e = Panicked \<and> ev = [NodeStarted] \<or> ev = NodeStarted # stop_node a"
proof -
  assume "fleet_phases a w sc s = Some (Inl (e, ev))"
  then have "phase a w sc ''steady'' (take (steady_width sc (Ready s)) (Ready s)) (fwSteady w) = Inl (e, ev)
      \<or> phase a w sc ''churn'' (Ready s) (fwChurn w) = Inl (e, ev)"
    by (auto simp: fleet_phases_def run_then_Inl split: if_splits)
  then show ?thesis by (auto simp: phase_def split: outcome.splits)
qed

lemma fleet_provision_ends: "fleet_provision a w sc s = Some (Inl (e, ev)) \<Longrightarrow> ev = NodeStarted # stop_node a"
  by (auto simp: fleet_provision_def split: if_splits option.splits prod.splits)

text \<open>
  C10: whatever ends a fleet run, the node it started is stopped, or was to be kept. But for two
  endings: a client that panics, and a price card that cannot be read, which ends the command after
  everything was measured, with the node up and nothing saved. A node to be kept is never stopped.
\<close>

theorem fleet_node_left:
  assumes "cmdFleet a w = Some r"
  shows "(faKeep a \<longrightarrow> NodeStopped \<notin> set (fleet_events r))
    \<and> (left_up (fleet_events r) \<and> \<not> faKeep a \<longrightarrow>
        r = Inl (Panicked, [NodeStarted])
        \<or> (\<exists>e. r = Inl (Died e, [NodeStarted])
            \<and> (\<exists>name \<in> set (card_names a). cost_Find (fwCards w) (faCardsdir a) name = Inl e)))"
proof -
  have "fleet_events r \<in> {[], NodeStarted # stop_node a} \<or> r = Inl (Panicked, [NodeStarted])
      \<or> (\<exists>e. r = Inl (Died e, [NodeStarted])
            \<and> (\<exists>name \<in> set (card_names a). cost_Find (fwCards w) (faCardsdir a) name = Inl e))"
  proof (cases r)
    case (Inr out)
    then show ?thesis using assms by (auto simp: cmdFleet_def Let_def run_then_Inr)
  next
    case (Inl f)
    obtain e ev where f: "f = (e, ev)" by (cases f)
    show ?thesis using assms unfolding Inl f
      by (auto simp: cmdFleet_def Let_def run_then_Inl died_Some dest!: fleet_phases_ends fleet_provision_ends fleet_cost_dies
          split: option.splits)
  qed
  then show ?thesis by (auto simp: left_up_simps) (auto simp: stop_node_def)
qed

section \<open>What the document says\<close>

text \<open>The books of a phase drawn from \<open>n\<close> tenants.\<close>

definition phase_books :: "nat \<Rightarrow> any \<Rightarrow> bool" where
  "phase_books n block \<longleftrightarrow>
     (\<exists>m touched requests errors. block = AMap m \<and> 0 < n
        \<and> map_get m ''tenants_drawn_from'' = AInt (int n) \<and> map_get m ''tenants_touched'' = AInt (int touched)
        \<and> map_get m ''requests'' = AInt (int requests) \<and> map_get m ''errors'' = AInt (int errors)
        \<and> touched \<le> n \<and> touched \<le> requests \<and> errors \<le> requests \<and> (touched = 0 \<longleftrightarrow> requests = 0))"

lemma phase_books_of:
  assumes "phase a w sc name draw ph = Inr d"
  shows "\<exists>block. d = [(name, block)] \<and> phase_books (length draw) block"
proof -
  obtain out where out: "phase_drive a w sc draw ph = Ok out" "d = [(name, AMap (phase_block a draw ph out))]"
    using assms by (auto simp: phase_def split: outcome.splits)
  have refs: "f_Refs (fleet_phase_options a sc draw) = draw" by (simp add: fleet_phase_options_def)
  have some: "draw \<noteq> []" using out(1) by (auto simp: phase_drive_def fleet_Drive_def refs split: if_splits)
  note acc = fleet_Drive_accounts[OF out(1)[unfolded phase_drive_def], unfolded refs]
  have "Touched out \<le> length draw" using acc card_length[of draw] by linarith
  moreover have "out_Errors out \<le> out_Requests out" using acc by (simp add: outcome_accounted_def http_outcome.truncate_def)
  ultimately show ?thesis
    using acc some by (auto simp: out(2) phase_books_def phase_block_def phase_figures_def)
qed

definition asked :: "bool \<Rightarrow> nat \<Rightarrow> any \<Rightarrow> bool" where
  "asked yes n block \<longleftrightarrow> (if yes then phase_books n block else block = ANil)"

lemma fleet_hold_keys: "fleet_hold a w sc = Some (held, idle) \<Longrightarrow> fst ` set held \<subseteq> {''hold''}"
  by (auto simp: fleet_hold_def split: if_splits)

lemma fleet_phases_books:
  assumes "fleet_phases a w sc s = Some (Inr (d, idle))"
  shows "asked (''steady'' \<in> set (wanted_phases a)) (length (take (steady_width sc (Ready s)) (Ready s))) (map_get d ''steady'')"
    and "asked (''churn'' \<in> set (wanted_phases a)) (length (Ready s)) (map_get d ''churn'')"
    and "fst ` set d \<subseteq> {''steady'', ''hold'', ''churn''}"
proof -
  obtain steady held churn where d: "d = steady @ held @ churn"
    and st: "(if ''steady'' \<in> set (wanted_phases a)
       then phase a w sc ''steady'' (take (steady_width sc (Ready s)) (Ready s)) (fwSteady w) else Inr []) = Inr steady"
    and h: "fleet_hold a w sc = Some (held, idle)"
    and ch: "(if ''churn'' \<in> set (wanted_phases a)
       then phase a w sc ''churn'' (Ready s) (fwChurn w) else Inr []) = Inr churn"
    using assms by (auto simp: fleet_phases_def run_then_Inr split: if_splits)
  note hk = fleet_hold_keys[OF h]
  have s: "asked (''steady'' \<in> set (wanted_phases a)) (length (take (steady_width sc (Ready s)) (Ready s))) (map_get steady ''steady'')"
    "fst ` set steady \<subseteq> {''steady''}" "''steady'' \<in> set (wanted_phases a) \<longleftrightarrow> ''steady'' \<in> fst ` set steady"
    using st phase_books_of by (fastforce simp: asked_def split: if_splits)+
  have c: "asked (''churn'' \<in> set (wanted_phases a)) (length (Ready s)) (map_get churn ''churn'')"
    "fst ` set churn \<subseteq> {''churn''}"
    using ch phase_books_of by (fastforce simp: asked_def split: if_splits)+
  show "fst ` set d \<subseteq> {''steady'', ''hold'', ''churn''}" using s(2) c(2) hk by (auto simp: d)
  have "''steady'' \<notin> fst ` set (held @ churn)" "''churn'' \<notin> fst ` set (steady @ held)" using s(2) c(2) hk by auto
  then have "map_get d ''steady'' = map_get steady ''steady''" "map_get d ''churn'' = map_get churn ''churn''"
    by (auto simp: d map_get_append map_get_none image_Un)
  then show "asked (''steady'' \<in> set (wanted_phases a)) (length (take (steady_width sc (Ready s)) (Ready s))) (map_get d ''steady'')"
    "asked (''churn'' \<in> set (wanted_phases a)) (length (Ready s)) (map_get d ''churn'')" using s(1) c(1) by simp_all
qed

lemma fleet_head_keys:
  "fst ` set (fleet_head a w sc config) \<subseteq> {''scenario'', ''label'', ''date'', ''config'', ''env'', ''node'', ''simulated''}"
  by (auto simp: fleet_head_def Let_def)

lemma fleet_totals_keys:
  "fst ` set (fleet_totals a w n) \<subseteq> {''process'', ''system'', ''store_ops'', ''store'', ''runtime'', ''tenants_ready''}"
  by (auto simp: fleet_totals_def Let_def split: sum.splits)

lemma fleet_totals_ready: "map_get (fleet_totals a w n) ''tenants_ready'' = AInt (int n)"
  by (simp add: fleet_totals_def Let_def map_get_append split: sum.split)

lemma fleet_provision_ready:
  assumes "fleet_provision a w sc s = Some (Inr (made, s'))" and "state_ok s"
  shows "fst ` set made \<subseteq> {''provision''}"
    and "''provision'' \<in> set (wanted_phases a) \<Longrightarrow> set (fleet_Refs (faPrefix a) (nat (sc_Tenants sc))) \<subseteq> set (Ready s')"
  using assms provision_run_ready
  by (auto simp: fleet_provision_def split: if_splits option.splits prod.splits) fastforce

lemma fleet_cost_keys:
  "fleet_cost a w sc n idle = Inr cost1 \<Longrightarrow> fst ` set cost1 \<subseteq> {''cost''} \<and> (cost1 \<noteq> [] \<longrightarrow> 0 < Samples idle)"
  by (cases "priced_blocks (cost_Find (fwCards w) (faCardsdir a)) (fleet_tail a sc n (fpBytes (Measure (fwPriceWalk w))) idle)
      (SawDormant idle) (card_names a)") (auto simp: fleet_cost_def Let_def split: if_splits)

lemma fleet_phases_idle:
  "fleet_phases a w sc s = Some (Inr (d, idle)) \<Longrightarrow> 0 < Samples idle \<Longrightarrow> ''hold'' \<in> set (wanted_phases a) \<and> 0 < sc_Hold sc"
  by (auto simp: fleet_phases_def run_then_Inr fleet_hold_def idle_zero_def idle_start_def split: if_splits)

lemma fleet_start_Inr:
  assumes "fleet_start a w = Inr (sc, config, s)"
  shows "scenario_Load (faScenario a) (fwFile w) = Inr (sc, config)" and "IsFleet sc" and "state_ok s"
  using assms
  by (auto simp: fleet_start_def and_then_def split: sum.splits prod.splits if_splits dest: State_Load_ok)

lemma steady_width_le: "steady_width sc xs \<le> length xs"
  by (auto simp: steady_width_def)

lemma cmdFleet_Inr:
  assumes "cmdFleet a w = Some (Inr out)"
  obtains sc config s made s' phases idle cost1 where "fleet_start a w = Inr (sc, config, s)"
    "fleet_provision a w sc s = Some (Inr (made, s'))" "fleet_phases a w sc s' = Some (Inr (phases, idle))"
    "fleet_cost a w sc (State_Count s') idle = Inr cost1" "foReady out = Ready s'"
    "foDoc out = fleet_head a w sc config @ made @ phases @ fleet_totals a w (State_Count s') @ cost1"
  using assms by (auto simp: cmdFleet_def Let_def run_then_Inr died_Some)

text \<open>No number of the document is one the encoder refuses, so it is written as it is.\<close>

lemma fleet_written: "cmdFleet a w = Some (Inr out) \<Longrightarrow> foWritten out = (doc_gov (foDoc out), [])"
  by (auto simp: cmdFleet_def Let_def run_then_Inr doc_gov_def list_all_iff)

text \<open>
  C5: what a fleet run saves is what was asked of it. The tenants ready are counted; asked to
  provision, it saves nothing unless every tenant of the scenario is ready. The steady phase is there
  exactly when it was asked for, drawn from as many ready tenants as the working set, and the churn
  phase from all of them; neither touched more tenants than it was drawn from or made requests, nor
  had more errors than requests. There is no price without a hold to take the rates from.
\<close>

theorem fleet_document:
  assumes "cmdFleet a w = Some (Inr out)"
  shows "\<exists>sc config. scenario_Load (faScenario a) (fwFile w) = Inr (sc, config) \<and> IsFleet sc
    \<and> map_get (foDoc out) ''tenants_ready'' = AInt (int (length (foReady out)))
    \<and> asked (''steady'' \<in> set (wanted_phases a)) (steady_width sc (foReady out)) (map_get (foDoc out) ''steady'')
    \<and> asked (''churn'' \<in> set (wanted_phases a)) (length (foReady out)) (map_get (foDoc out) ''churn'')
    \<and> (''provision'' \<in> set (wanted_phases a) \<longrightarrow> set (fleet_Refs (faPrefix a) (nat (sc_Tenants sc))) \<subseteq> set (foReady out))
    \<and> (map_get (foDoc out) ''cost'' \<noteq> ANil \<longrightarrow> ''hold'' \<in> set (wanted_phases a) \<and> 0 < sc_Hold sc)"
proof -
  obtain sc config s made s' phases idle cost1 where
    start: "fleet_start a w = Inr (sc, config, s)" and prov: "fleet_provision a w sc s = Some (Inr (made, s'))"
    and ph: "fleet_phases a w sc s' = Some (Inr (phases, idle))" and cost: "fleet_cost a w sc (State_Count s') idle = Inr cost1"
    and ready: "foReady out = Ready s'"
    and doc: "foDoc out = fleet_head a w sc config @ made @ phases @ fleet_totals a w (State_Count s') @ cost1"
    by (rule cmdFleet_Inr[OF assms])
  note books = fleet_phases_books[OF ph] and made = fleet_provision_ready[OF prov fleet_start_Inr(3)[OF start]]
  note keys = fleet_head_keys[of a w sc config] made(1) books(3) fleet_totals_keys[of a w "State_Count s'"]
    fleet_cost_keys[OF cost, THEN conjunct1]
  have "map_get (foDoc out) k = map_get phases k" if "k \<in> {''steady'', ''churn''}" for k
  proof -
    have "k \<notin> fst ` set (fleet_head a w sc config)" "k \<notin> fst ` set made" "k \<notin> fst ` set (fleet_totals a w (State_Count s'))"
      "k \<notin> fst ` set cost1"
      using that keys by auto
    then show ?thesis by (simp add: doc map_get_append map_get_none)
  qed
  moreover have "map_get (foDoc out) ''tenants_ready'' = AInt (int (length (Ready s')))"
  proof -
    have "''tenants_ready'' \<notin> fst ` set (fleet_head a w sc config)" "''tenants_ready'' \<notin> fst ` set made"
      "''tenants_ready'' \<notin> fst ` set phases" "''tenants_ready'' \<notin> fst ` set cost1" using keys by auto
    moreover have "''tenants_ready'' \<in> fst ` set (fleet_totals a w (State_Count s'))"
      using map_get_none[of "''tenants_ready''" "fleet_totals a w (State_Count s')"] fleet_totals_ready[of a w "State_Count s'"] by force
    ultimately show ?thesis using fleet_totals_ready[of a w "State_Count s'"] by (simp add: doc map_get_append State_Count_def)
  qed
  moreover have "map_get (foDoc out) ''cost'' = map_get cost1 ''cost''"
  proof -
    have "''cost'' \<notin> fst ` set (fleet_head a w sc config)" "''cost'' \<notin> fst ` set made"
      "''cost'' \<notin> fst ` set phases" "''cost'' \<notin> fst ` set (fleet_totals a w (State_Count s'))" using keys by auto
    then show ?thesis by (simp add: doc map_get_append)
  qed
  moreover have "map_get cost1 ''cost'' \<noteq> ANil \<longrightarrow> ''hold'' \<in> set (wanted_phases a) \<and> 0 < sc_Hold sc"
    using fleet_cost_keys[OF cost] fleet_phases_idle[OF ph] by (cases cost1) auto
  moreover have "length (take (steady_width sc (Ready s')) (Ready s')) = steady_width sc (Ready s')"
    using steady_width_le[of sc "Ready s'"] by simp
  ultimately show ?thesis
    using fleet_start_Inr(1,2)[OF start] books(1,2) made(2) unfolding ready
    by (intro exI[of _ sc] exI[of _ config]) (simp del: length_take)
qed

section \<open>A run returns\<close>

text \<open>Both waits of the command end once their clocks pass; provisioning alone may hang.\<close>

lemma healthy_returns: "i \<le> k \<Longrightarrow> deadline \<le> clock k \<Longrightarrow> healthy_from clock answer deadline i \<noteq> None"
proof (induction "k - i" arbitrary: i)
  case 0
  then show ?case by (subst healthy_from.simps) simp
next
  case (Suc n)
  then have "healthy_from clock answer deadline (i + 1) \<noteq> None" by (intro Suc.hyps(1)) auto
  then show ?case by (subst healthy_from.simps) simp
qed

lemma hold_returns: "i \<le> k \<Longrightarrow> until1 \<le> clock k \<Longrightarrow> hold_from clock takes until1 i samples \<noteq> None"
proof (induction "k - i" arbitrary: i samples)
  case 0
  then show ?case by (subst hold_from.simps) simp
next
  case (Suc n)
  then have "hold_from clock takes until1 (i + 1) (samples @ takes (i + 1)) \<noteq> None" by (intro Suc.hyps(1)) auto
  then show ?case by (subst hold_from.simps) simp
qed

lemma run_then_None: "run_then r f = None \<longleftrightarrow> r = None \<or> (\<exists>x. r = Some (Inr x) \<and> f x = None)"
  by (auto simp: run_then_def split: option.splits sum.splits)

lemma cmdFleet_returns:
  assumes "fwHealthDeadline w \<le> fwHealthClock w k" and "\<And>t. \<exists>j. t \<le> fwHoldClock w j"
    and "\<And>sc s. fleet_provision a w sc s \<noteq> None"
  shows "cmdFleet a w \<noteq> None"
proof -
  have "waitHealthy (fwHealthClock w) (fwHealth w) (fwHealthDeadline w) \<noteq> None"
    unfolding waitHealthy_def using assms(1) by (rule healthy_returns[OF le0])
  moreover have "fleet_hold a w sc \<noteq> None" for sc
  proof -
    obtain j where "sc_Hold sc * GoTime.Second \<le> fwHoldClock w j" using assms(2) by blast
    then have "hold_samples a w sc \<noteq> None" unfolding hold_samples_def by (intro hold_returns[of 0 j]) auto
    then show ?thesis by (simp add: fleet_hold_def)
  qed
  then have "fleet_phases a w sc s \<noteq> None" for sc s
    unfolding fleet_phases_def
    by (auto simp: run_then_None split: if_splits prod.splits)
  ultimately show ?thesis
    unfolding cmdFleet_def Let_def using assms(3)
    by (auto simp: run_then_None died_Some(2)[simplified] split: prod.splits option.splits)
qed

section \<open>A fleet as an example\<close>

lemma rates_Samples: "Samples (fleet_Rates xs d) = length xs"
proof -
  have "Samples (rates_step d h out pc) = Samples out" for h out pc
    by (simp add: rates_step_def Let_def split: prod.split pile.split)
  then have "Samples (foldl (rates_step d h) out ivs) = Samples out" for h out ivs by (induction ivs arbitrary: out) simp_all
  then show ?thesis
    by (simp add: fleet_Rates_def rates_sums_def idle_start_def attached_rate_def dormant_rate_def Let_def)
qed

text \<open>Two tenants that a former run made ready, a working set of one, and a hold of one second.\<close>

definition lull_load :: json where
  "lull_load = JObj [(''name'', JStr ''l''), (''kind'', JStr ''fleet''), (''tenants'', JNum ''2''), (''working_set'', JNum ''1''),
     (''clients'', JNum ''1''), (''hold'', JNum ''1''), (''requests'', JArr [JObj [(''name'', JStr ''read''), (''path'', JStr ''/t'')]])]"

definition lull_args :: "string \<Rightarrow> string \<Rightarrow> fleet_args" where
  "lull_args which cards = \<lparr>faScenario = ''l.json'', faZoubin = ''zou'', faPgbin = ''pg'', faStore = ''s'', faWorkdir = ''w'',
     faLabel = ''x'', faOutdir = ''results'', faPhases = which, faJobs = 1, faCpus = ''0-7'', faHttp = 1, faPg = 2, faOps = 3,
     faPrefix = ''t'', faKeep = False, faCardsdir = ''cards'', faPricecard = cards, faBoxUSD = 0, faBoxSource = []\<rparr>"

definition lull_state :: fleet_state where
  "lull_state = \<lparr>Store = ''s'', Secret = ''k'', Ready = [''t0001'', ''t0002''], state_path = path_Join ''w'' ''fleet-state.json'',
     ready_set = {''t0001'', ''t0002''}\<rparr>"

definition lull_counters :: counters where "lull_counters = zmagic # zformat # replicate (slots - 2) 7"

definition lull_phase :: phase_world where
  "lull_phase = \<lparr>phStatsBefore = Inl ''none'', phBefore = Inl ''none'', phWarm = (\<lambda>_. []),
     phTraffic = (\<lambda>_. [\<lparr>fe_reply = \<lambda>_. Inr (5, 503, ''busy''), fe_ended = False, fe_epoch = 7\<rparr>]), phSeed = (\<lambda>_. [0, 0]),
     phElapsed = GoTime.Second, phAfter = Inl ''none'', phRuntime = [], phStatsAfter = Inl ''none''\<rparr>"

definition lull_world :: fleet_world where
  "lull_world = \<lparr>fwFile = Inr (MarshalIndent lull_load), fwMkdirWork = None, fwSecret = ''k'',
     fwState = Contents (MarshalIndent (state_doc lull_state)), fwDisk = Map.empty, fwDate = ''2026-01-02T03:04:05Z'', fwEnv = [],
     fwSim = [], fwDelay = [], fwLog = None, fwStart = (\<lambda>_. None), fwHealthClock = int,
     fwHealth = (\<lambda>_. Inr \<lparr>StatusCode = 200, Status = ''200 OK'', Body = []\<rparr>), fwHealthDeadline = 1, fwHmac = (\<lambda>_ t. t), fwNow = 0,
     fwOpsBefore = Inl ''none'', fwPool = [], fwPoolTook = 1, fwSteady = lull_phase,
     fwHoldClock = (\<lambda>i. int i * (2 * GoTime.Second)),
     fwLooks = (\<lambda>_. \<lparr>hlMetrics = Inr \<lparr>StatusCode = 200, Status = ''200 OK'', Body = []\<rparr>,
        hlStats = Inr (zoustats_file lull_counters @ []), hlSince = 0\<rparr>),
     fwHoldRuntime = [], fwChurn = lull_phase, fwTree = [], fwSystem = [], fwOpsAfter = Inl ''none'', fwStoreWalk = [],
     fwRuntimeWalk = [], fwPriceWalk = [File (Some 1)], fwCards = (\<lambda>_. Inl ''no such card''), fwMkdir = None, fwWrite = None\<rparr>"

lemma lull_parse: "json_parse (MarshalIndent lull_load) = Some lull_load"
  unfolding lull_load_def
  by (rule json_parse_Marshal; simp add: ascii_def scan_number_def scan_whole_def scan_digits_def scan_frac_def
      scan_exp_def is_digit_def)

lemma lull_loads: "\<exists>sc config. scenario_Load ''l.json'' (fwFile lull_world) = Inr (sc, config) \<and> IsFleet sc
    \<and> sc_Tenants sc = 2 \<and> sc_WorkingSet sc = 1 \<and> sc_Hold sc = 1 \<and> sc_SettleSecs sc = 0 \<and> sc_Clients sc = 1 \<and> sc_Warmup sc = 0
    \<and> sc_Setup sc = [] \<and> sc_Requests sc = [request_zero\<lparr>rq_Name := ''read'', rq_Path := ''/t''\<rparr>]"
proof -
  let ?sc = "scenario_zero\<lparr>sc_Name := ''l'', sc_Kind := ''fleet'', sc_Tenants := 2, sc_WorkingSet := 1, sc_Clients := 1,
      sc_Hold := 1, sc_Requests := [request_zero\<lparr>rq_Name := ''read'', rq_Path := ''/t''\<rparr>]\<rparr>"
  have "json_Unmarshal (dec_struct False scenario_fields) (MarshalIndent lull_load) scenario_zero = Some ?sc"
    unfolding json_Unmarshal_def lull_parse unfolding lull_load_def by code_simp
  moreover obtain sc where "run_sections (scenario_sections ''l.json'') ?sc = Inr sc" "IsFleet sc" "sc_Tenants sc = 2"
      "sc_WorkingSet sc = 1" "sc_Hold sc = 1" "sc_SettleSecs sc = 0" "sc_Clients sc = 1" "sc_Warmup sc = 0" "sc_Setup sc = []"
      "sc_Requests sc = [request_zero\<lparr>rq_Name := ''read'', rq_Path := ''/t''\<rparr>]"
    by (simp add: scenario_sections_def named_section_def attach_section_def fleet_section_def sockets_section_def
        sustain_section_def driver_section_def load_section_def kinds_of scenario_zero_def)
  ultimately show ?thesis
    using lull_parse by (simp add: scenario_Load_def lull_world_def) (simp add: lull_load_def)
qed

lemma lull_starts: "\<exists>sc config. fleet_start (lull_args which cards) lull_world = Inr (sc, config, lull_state) \<and> IsFleet sc
    \<and> scenario_Load ''l.json'' (fwFile lull_world) = Inr (sc, config)
    \<and> sc_Tenants sc = 2 \<and> sc_WorkingSet sc = 1 \<and> sc_Hold sc = 1 \<and> sc_SettleSecs sc = 0 \<and> sc_Clients sc = 1 \<and> sc_Warmup sc = 0
    \<and> sc_Setup sc = [] \<and> sc_Requests sc = [request_zero\<lparr>rq_Name := ''read'', rq_Path := ''/t''\<rparr>]"
proof -
  have "state_ok lull_state" "state_ascii lull_state" by (auto simp: state_ok_def lull_state_def state_ascii_def ascii_def)
  from State_Load_saved[OF this] have st: "State_Load (path_Join ''w'' ''fleet-state.json'') ''s'' ''k'' (fwState lull_world) = Inr lull_state"
    by (simp add: lull_world_def) (simp add: lull_state_def)
  have "fleet_secret lull_world = ''k''" by (simp add: fleet_secret_def lull_world_def)
  moreover have "startServe (lull_args which cards) lull_world sc = Inr ()" "fwMkdirWork lull_world = None" for sc
    by (simp_all add: startServe_def dies_def and_then_def lull_world_def)
  ultimately show ?thesis using lull_loads st
    by (auto simp: fleet_start_def and_then_def dies_def lull_args_def)
qed

lemma lull_healthy: "waitHealthy (fwHealthClock lull_world) (fwHealth lull_world) (fwHealthDeadline lull_world) = Some None"
  unfolding waitHealthy_def by (subst healthy_from.simps) (simp add: lull_world_def)

lemma lull_holds:
  assumes "sc_Hold sc = 1" and "sc_SettleSecs sc = 0" and "''hold'' \<in> set (wanted_phases a)"
  shows "\<exists>held idle. fleet_hold a lull_world sc = Some (held, idle) \<and> 0 < Samples idle"
proof -
  have read: "zoustats_Read (stats_path a) (hlStats (fwLooks lull_world i)) = Inr lull_counters" for i
    using zoustats_Read_file[of lull_counters "stats_path a" "[]"] by (simp add: lull_world_def lull_counters_def layout)
  have "scanner_lines [] = ([], False)" by code_simp
  then have seen: "scraped url (hlMetrics (fwLooks lull_world i)) = Some []" for url i
    by (simp add: scraped_def lull_world_def fleet_Scrape_def)
  have "cmd_round2 (Seconds (hlSince (fwLooks lull_world i))) = 0" for i
    by (simp add: lull_world_def) code_simp
  then have one: "\<exists>s. hold_take a (fwLooks lull_world i) = [s] \<and> Elapsed s = 0" for i
    by (simp add: hold_take_def read seen Let_def)
  obtain s0 s1 where looks: "hold_take a (fwLooks lull_world 0) = [s0]" "Elapsed s0 = 0" "hold_take a (fwLooks lull_world 1) = [s1]" "Elapsed s1 = 0"
    using one[of 0] one[of 1] by blast
  have clock: "fwHoldClock lull_world i = int i * (2 * GoTime.Second)" for i by (simp add: lull_world_def)
  have "hold_samples a lull_world sc = Some [s0, s1]"
    unfolding hold_samples_def
    by (subst hold_from.simps, subst hold_from.simps) (simp add: clock looks[simplified] assms GoTime.Second_def)
  moreover have "Samples (hold_rates sc [s0, s1]) = 2"
    by (simp add: hold_rates_def rates_Samples fleet_After_def looks assms f64_of_int_def)
  ultimately show ?thesis using assms by (simp add: fleet_hold_def)
qed

text \<open>A hold priced against a card that is not there: everything is measured, nothing saved, and the node stays up.\<close>

lemma lull_unpriced:
  "\<exists>r. cmdFleet (lull_args ''hold'' ''gone'') lull_world = Some r \<and> left_up (fleet_events r)"
proof -
  let ?a = "lull_args ''hold'' ''gone''"
  obtain sc config where st: "fleet_start ?a lull_world = Inr (sc, config, lull_state)" "sc_Hold sc = 1" "sc_SettleSecs sc = 0"
    using lull_starts by blast
  have names: "wanted_phases ?a = [''hold'']" "card_names ?a = [''gone'']" "stop_node ?a = [NodeStopped]"
    unfolding wanted_phases_def card_names_def stop_node_def lull_args_def by code_simp+
  obtain held idle where h: "fleet_hold ?a lull_world sc = Some (held, idle)" "0 < Samples idle"
    using lull_holds[OF st(2,3), of ?a] names by auto
  have ph: "fleet_phases ?a lull_world sc lull_state = Some (Inr (held, idle))"
    by (simp add: fleet_phases_def names h)
  have pr: "fleet_provision ?a lull_world sc lull_state = Some (Inr ([], lull_state))"
    by (simp add: fleet_provision_def names)
  have "fleet_cost ?a lull_world sc n idle = Inl ''no such card''" for n
    using h(2) names
    by (simp add: fleet_cost_def and_then_def cost_Find_def cost_Load_def Measure_def lull_world_def)
      (simp add: lull_args_def)
  then show ?thesis
    by (simp add: cmdFleet_def st lull_healthy dies_def ph pr died_def left_up_simps)
qed

theorem fleet_node_left_witness:
  "\<exists>r name. cmdFleet (lull_args ''hold'' ''gone'') lull_world = Some r \<and> left_up (fleet_events r)
     \<and> (r = Inl (Panicked, [NodeStarted]) \<or> (\<exists>e. r = Inl (Died e, [NodeStarted]) \<and> cost_Find (fwCards lull_world) ''cards'' name = Inl e))"
proof -
  obtain r where r: "cmdFleet (lull_args ''hold'' ''gone'') lull_world = Some r" "left_up (fleet_events r)" using lull_unpriced by blast
  moreover have "\<not> faKeep (lull_args ''hold'' ''gone'')" "faCardsdir (lull_args ''hold'' ''gone'') = ''cards''"
    by (simp_all add: lull_args_def)
  ultimately show ?thesis using fleet_node_left[OF r(1)] by auto
qed

lemma lull_steady:
  assumes "sc_Clients sc = 1" and "sc_Warmup sc = 0" and "sc_Requests sc = [request_zero\<lparr>rq_Name := ''read'', rq_Path := ''/t''\<rparr>]"
  shows "\<exists>d. phase a lull_world sc name [''t0001''] lull_phase = Inr d"
  using assms
  by (simp add: phase_def phase_drive_def fleet_phase_options_def lull_phase_def fleet_Drive_def fleet_drive_def upt_rec IntN_def
      rng_next_def fleet_wire_def request_text_def request_zero_def Expand_plain Let_def weighted_def)

theorem fleet_document_witness:
  "\<exists>out block. cmdFleet (lull_args ''provision, steady'' []) lull_world = Some (Inr out)
     \<and> map_get (foDoc out) ''steady'' = block \<and> phase_books 1 block \<and> map_get (foDoc out) ''churn'' = ANil
     \<and> {''t0001'', ''t0002''} \<subseteq> set (foReady out)"
proof -
  let ?a = "lull_args ''provision, steady'' []"
  have disk: "fwDisk lull_world = Map.empty" "fwPool lull_world = []" "fwPoolTook lull_world = 1" "fwSteady lull_world = lull_phase"
    "fwMkdir lull_world = None" "fwWrite lull_world = None"
    by (simp_all add: lull_world_def)
  obtain sc config where st: "fleet_start ?a lull_world = Inr (sc, config, lull_state)" "IsFleet sc"
    "scenario_Load ''l.json'' (fwFile lull_world) = Inr (sc, config)" "sc_Tenants sc = 2" "sc_WorkingSet sc = 1" "sc_Clients sc = 1"
    "sc_Warmup sc = 0" "sc_Setup sc = []" "sc_Requests sc = [request_zero\<lparr>rq_Name := ''read'', rq_Path := ''/t''\<rparr>]"
    using lull_starts by blast
  have names: "wanted_phases ?a = [''provision'', ''steady'']" "faPrefix ?a = ''t''" "faPricecard ?a = []" "faScenario ?a = ''l.json''" "faJobs ?a = 1"
    unfolding wanted_phases_def lull_args_def by code_simp+
  have refs: "fleet_Refs ''t'' 2 = [''t0001'', ''t0002'']" by code_simp
  have "\<exists>doc. provision_run \<lparr>paSetup = [], paRefs = [''t0001'', ''t0002''], paJobs = 1\<rparr> lull_state Map.empty [] 1 = Some (doc, None, lull_state)"
    by (simp add: provision_run_def prov_start_def prov_todo_def State_Has_def lull_state_def prov_result_def prov_jobs_def Let_def)
  then obtain made where pr: "fleet_provision ?a lull_world sc lull_state = Some (Inr (made, lull_state))"
    by (auto simp: fleet_provision_def names st refs setupPath_def disk)
  have ready: "Ready lull_state = [''t0001'', ''t0002'']" by (simp add: lull_state_def)
  have w: "steady_width sc (Ready lull_state) = 1"
    by (simp add: steady_width_def st lull_state_def)
  obtain steady where ph: "fleet_phases ?a lull_world sc lull_state = Some (Inr (steady, idle_zero))"
    using lull_steady[of sc ?a "''steady''"] st names
    by (auto simp: fleet_phases_def fleet_hold_def w[unfolded ready] disk ready)
  have "fleet_cost ?a lull_world sc n idle_zero = Inr []" for n by (simp add: fleet_cost_def names Let_def)
  then obtain out where out: "cmdFleet ?a lull_world = Some (Inr out)" "foReady out = Ready lull_state"
    by (simp add: cmdFleet_def st lull_healthy dies_def ph pr died_def and_then_def disk Let_def)
  then show ?thesis
    using fleet_document[OF out(1)] st names refs w by (auto simp: asked_def)
qed

end
