(* ===== verification/CmdCost.thy ===== *)
theory CmdCost
  imports CmdReport Cost Zoustats GoFiles
begin

text \<open>
  \<open>zoubench cost\<close> (src/cmd/zoubench/cost.go): the usage of a run and the tail of a fleet read back
  out of a result document, the cards they are priced against, and the tables. The last section
  ties it to the counters: what is billed from a document is what \<open>zoustats\<close> counted.
\<close>

section \<open>Cards\<close>

record dir_entry =
  de_name :: string
  de_dir :: bool

definition cards_named :: "string \<Rightarrow> dir_entry list go_result \<Rightarrow> string list go_result" where
  "cards_named only entries =
     (if TrimSpace only \<noteq> [] then
        Inr (filter (\<lambda>n. n \<noteq> []) (map TrimSpace (strings_Split only (CHR '',''))))
      else case entries of Inl e \<Rightarrow> Inl e
      | Inr es \<Rightarrow> Inr (map (\<lambda>e. TrimSuffix (de_name e) ''.json'')
                     (filter (\<lambda>e. \<not> de_dir e \<and> HasSuffix (de_name e) ''.json'') es)))"

text \<open>A card that does not load is skipped with a line on standard error, not modelled here.\<close>

definition cardsIn :: "(string \<Rightarrow> string go_result) \<Rightarrow> dir_entry list go_result \<Rightarrow> string \<Rightarrow> string \<Rightarrow> Card list go_result" where
  "cardsIn read entries dir only =
     (case cards_named only entries of Inl e \<Rightarrow> Inl e
      | Inr names \<Rightarrow> Inr (List.map_filter
          (\<lambda>n. case cost_Find read dir n of Inl _ \<Rightarrow> None | Inr c \<Rightarrow> Some c) (sort names)))"

section \<open>Usage out of a document\<close>

definition op_kind :: "doc \<Rightarrow> string \<Rightarrow> int \<times> int" where
  "op_kind ops name =
     (case mapOf ops name of None \<Rightarrow> (0, 0)
      | Some m \<Rightarrow> (intOf (map_get m ''count''), intOf (map_get m ''bytes'')))"

definition usage_zero :: "bool \<Rightarrow> Usage" where
  "usage_zero egress = \<lparr>uStorageBytes = 0, uPuts = 0, uGets = 0, uLists = 0, uDeletes = 0, uUploadBytes = 0,
     uDownloadBytes = 0, uMeasured = False, uEgress = egress, uTxns = 0, uCommits = 0, uIngestedBytes = 0\<rparr>"

definition runUsage :: "doc \<Rightarrow> bool \<Rightarrow> Usage \<times> bool" where
  "runUsage r egress =
     (let u = usage_zero egress in
      case mapOf (mapAt r ''store_ops'') ''ops'' of None \<Rightarrow> (u, False)
      | Some ops \<Rightarrow>
        let (gt, getBytes) = op_kind ops ''get''; (rng, rngBytes) = op_kind ops ''get_range'';
            (pt, putBytes) = op_kind ops ''put''; (cas, casBytes) = op_kind ops ''put_if_match'';
            (del, _) = op_kind ops ''delete''; (ls, _) = op_kind ops ''list'';
            u = u\<lparr>uGets := gt + rng, uDownloadBytes := getBytes + rngBytes, uPuts := pt + cas,
                  uUploadBytes := putBytes + casBytes, uDeletes := del, uLists := ls\<rparr>;
            u = u\<lparr>uMeasured := 0 < uGets u + uPuts u + uDeletes u + uLists u\<rparr>;
            u = (case mapOf r ''store'' of None \<Rightarrow> u
                 | Some store \<Rightarrow>
                     let u = u\<lparr>uStorageBytes := intOf (map_get store ''bytes_after'')\<rparr>;
                         grew = intOf (map_get store ''bytes_delta'')
                     in if 0 < grew then u\<lparr>uIngestedBytes := grew\<rparr> else u);
            u = u\<lparr>uTxns := intOf (map_get r ''transactions'')\<rparr>;
            u = (case mapOf (mapAt r ''pg_delta'') ''database'' of None \<Rightarrow> u
                 | Some db \<Rightarrow> u\<lparr>uCommits := intOf (map_get db ''xact_commit'')\<rparr>)
        in (u, uMeasured u))"

definition opsRate :: "doc \<Rightarrow> string \<Rightarrow> Ops" where
  "opsRate rates key =
     (case mapOf rates key of None \<Rightarrow> \<lparr>oPuts = 0, oGets = 0, oLists = 0, oDeletes = 0\<rparr>
      | Some m \<Rightarrow>
        let f = (\<lambda>name. case as_float (map_get m name) of None \<Rightarrow> 0 | Some v \<Rightarrow> v)
        in \<lparr>oPuts = f ''puts'', oGets = f ''gets'', oLists = f ''lists'', oDeletes = f ''deletes''\<rparr>)"

definition fleetTail :: "doc \<Rightarrow> f64 \<Rightarrow> string \<Rightarrow> Tail option" where
  "fleetTail r boxUSD boxSource =
     (case mapOf (mapAt r ''hold'') ''rates'' of None \<Rightarrow> None
      | Some rates \<Rightarrow>
        let t = \<lparr>Projects = intOf (map_get r ''tenants_ready''),
                 AttachedAtOnce = (case mapOf r ''node'' of None \<Rightarrow> 0 | Some node \<Rightarrow> intOf (map_get node ''max_attached'')),
                 tStorageBytes = (case mapOf r ''store'' of None \<Rightarrow> 0 | Some store \<Rightarrow> intOf (map_get store ''bytes'')),
                 DormantPerHour = opsRate rates ''dormant_ops_per_hour'',
                 AttachedPerProjectHour = opsRate rates ''attached_ops_per_project_hour'',
                 BoxUSDMonth = boxUSD, BoxSource = boxSource\<rparr>
        in if 0 < Projects t \<and> 0 < tStorageBytes t then Some t else None)"

section \<open>Output\<close>

definition price_head :: "string \<Rightarrow> doc \<Rightarrow> string" where
  "price_head base r =
     (let head = TrimSpace (str (map_get r ''scenario'') @ '' '' @ str (map_get r ''label''));
          head = (if head = [] then base else head);
          d = str (map_get r ''date'');
          head = (if 10 \<le> length d then head @ '', '' @ take 10 d else head)
      in if map_get r ''simulated'' \<noteq> ANil then head @ '' (sim)'' else head)"

definition fleet_table :: "Card list \<Rightarrow> Tail \<Rightarrow> string" where
  "fleet_table cards t =
     itoa (Projects t) @ '' projects, '' @ itoa (AttachedAtOnce t) @ '' held at once, '' @ gib (tStorageBytes t)
     @ '' in the store, priced from the hold window''
     @ [CHR 0x27] @ ''s idle rates.'' @ newline @ newline
     @ (let cols = [''card'', ''dated'', ''storage'', ''requests'', ''compute'', ''total a month'', ''per project'']
        in row cols @ rule (length cols))
     @ concat (map (\<lambda>c. let b = Monthly c t in
         row ([Name c, AsOf c] @ map (\<lambda>k. usd (map_get b k))
           [''storage_usd_month'', ''ops_usd_month'', ''compute_usd_month'', ''total_usd_month'', ''usd_per_project_month''])) cards)"

definition run_table :: "Card list \<Rightarrow> Usage \<Rightarrow> string" where
  "run_table cards u =
     itoa (uGets u) @ '' gets, '' @ itoa (uPuts u) @ '' puts, '' @ itoa (uLists u) @ '' lists and ''
     @ itoa (uDeletes u) @ '' deletes measured, '' @ gib (uUploadBytes u) @ '' up and '' @ gib (uDownloadBytes u)
     @ '' down.'' @ newline @ newline
     @ (let cols = [''card'', ''dated'', ''requests'', ''transfer'', ''workload'', ''$/M txns'', ''$/M commits'',
              ''$/GB in'', ''storage a month'']
        in row cols @ rule (length cols))
     @ concat (map (\<lambda>c. let b = Compute c u in
         row ([Name c, AsOf c] @ map (\<lambda>k. usd (map_get b k))
           [''ops_usd'', ''transfer_usd'', ''workload_usd'', ''usd_per_million_txns'', ''usd_per_million_commits'',
            ''usd_per_gb_ingested'', ''storage_usd_month''])) cards)"

definition priceMarkdown ::
    "string \<Rightarrow> string \<Rightarrow> doc \<Rightarrow> Card list \<Rightarrow> bool \<Rightarrow> f64 \<Rightarrow> string \<Rightarrow> printed" where
  "priceMarkdown path base r cards egress boxUSD boxSource =
     (let tail = fleetTail r boxUSD boxSource; (usage, isRun) = runUsage r egress in
      if tail = None \<and> \<not> isRun
      then ([], Some (path @ '': no store op counts in it, so there is nothing here to price''))
      else (newline @ ''## '' @ price_head base r @ newline @ newline
        @ (case tail of Some t \<Rightarrow> fleet_table cards t | None \<Rightarrow> run_table cards usage), None))"

definition priceJSON :: "doc \<Rightarrow> Card list \<Rightarrow> bool \<Rightarrow> f64 \<Rightarrow> string \<Rightarrow> any go_result" where
  "priceJSON r cards egress boxUSD boxSource =
     (let out = [(''scenario'', map_get r ''scenario''), (''label'', map_get r ''label''), (''date'', map_get r ''date'')] in
      case fleetTail r boxUSD boxSource of
        Some t \<Rightarrow> Inr (AMap (out @ [(''shape'', AStr ''fleet''), (''cost'', AList (map (\<lambda>c. AMap (Monthly c t)) cards))]))
      | None \<Rightarrow>
        let (usage, ok) = runUsage r egress in
        if \<not> ok then Inl (str (map_get r ''label'') @ '': no store op counts in it, so there is nothing here to price'')
        else Inr (AMap (out @ [(''shape'', AStr ''run''), (''cost'', AList (map (\<lambda>c. AMap (Compute c usage)) cards))])))"

text \<open>The files priced in turn, in markdown: what is printed up to the first error.\<close>

fun price_files :: "(string \<Rightarrow> string go_result) \<Rightarrow> Card list \<Rightarrow> bool \<Rightarrow> f64 \<Rightarrow> string \<Rightarrow> string list \<Rightarrow> printed" where
  "price_files read cards egress boxUSD boxSource [] = ([], None)"
| "price_files read cards egress boxUSD boxSource (p # ps) =
     (case read_doc (read p) of Inl e \<Rightarrow> ([], Some e)
      | Inr r \<Rightarrow>
        (case priceMarkdown p (path_Base p) r cards egress boxUSD boxSource of
           (out, Some e) \<Rightarrow> (out, Some e)
         | (out, None) \<Rightarrow> apfst (\<lambda>rest. out @ rest) (price_files read cards egress boxUSD boxSource ps)))"

definition cost_files :: "string list \<Rightarrow> string list" where
  "cost_files argv = filter (\<lambda>a. \<not> HasPrefix a ''-'' \<and> HasSuffix a ''.json'') argv"

definition cmdCost :: "(string \<Rightarrow> string go_result) \<Rightarrow> dir_entry list go_result \<Rightarrow> string \<Rightarrow> string \<Rightarrow> bool
    \<Rightarrow> f64 \<Rightarrow> string \<Rightarrow> string list \<Rightarrow> printed" where
  "cmdCost read entries cardsdir only egress boxUSD boxSource argv =
     (if cost_files argv = [] then ([], Some ''usage'')
      else case cardsIn read entries cardsdir only of Inl e \<Rightarrow> ([], Some e)
      | Inr cards \<Rightarrow>
        if cards = [] then ([], Some (cardsdir @ '': no price cards with prices in them''))
        else price_files read cards egress boxUSD boxSource (cost_files argv))"

section \<open>A document bills what was counted\<close>

text \<open>A document read back: every number is a float64.\<close>

fun reread :: "any \<Rightarrow> any" where
  "reread (AInt n) = AFloat (f64_of_int n)"
| "reread (AList l) = AList (map reread l)"
| "reread (AMap m) = AMap (map (\<lambda>(k, v). (k, reread v)) m)"
| "reread v = v"

text \<open>
  Counters as the store keeps them: no bytes without an operation, and no kind's totals past the
  whole numbers a float64 holds.
\<close>

definition kind_ops :: "counters \<Rightarrow> nat \<Rightarrow> nat" where
  "kind_ops c kind = sum_list (map (\<lambda>cls. unat (c ! countSlot kind cls)) [0..<classes])"

definition kind_bytes :: "counters \<Rightarrow> nat \<Rightarrow> nat" where
  "kind_bytes c kind = sum_list (map (\<lambda>cls. unat (c ! (countSlot kind cls + 1))) [0..<classes])"

definition counters_ok :: "counters \<Rightarrow> bool" where
  "counters_ok c \<longleftrightarrow> (\<forall>kind < kinds. kind_ops c kind \<le> 2 ^ 53 \<and> kind_bytes c kind \<le> 2 ^ 53
     \<and> (\<forall>cls < classes. c ! countSlot kind cls = 0 \<longrightarrow> c ! (countSlot kind cls + 1) = 0))"

lemma unat_sum_words:
  "sum_list (map unat ws) < 2 ^ 64 \<Longrightarrow> unat (sum_list (ws :: u64 list)) = sum_list (map unat ws)"
proof (induction ws)
  case (Cons w ws)
  then show ?case using unat_add_lem[of w "sum_list ws"] by simp
qed simp

lemma foldl_add_sum: "foldl (\<lambda>n x. n + f x) a xs = a + (sum_list (map f xs) :: u64)"
  by (induction xs arbitrary: a) (simp_all add: add.assoc)

lemma sum_list_filter_zero: "(\<And>x. x \<in> set xs \<Longrightarrow> \<not> P x \<Longrightarrow> f x = 0) \<Longrightarrow> sum_list (map f (filter P xs)) = (sum_list (map f xs) :: u64)"
  by (induction xs) auto

lemma indexed_classes: "map fst (indexed classNames) = [0..<classes]"
  by (simp add: indexed_def classNames_def classes_def upt_rec)

lemma sint_small: "uint (w :: u64) < 2 ^ 63 \<Longrightarrow> sint w = uint w"
proof -
  assume w: "uint w < 2 ^ 63"
  have "- (2 ^ 63) \<le> uint w" by (rule order_trans[of _ 0]) simp_all
  then have "signed_take_bit 63 (uint w) = uint w" using w by (rule signed_take_bit_int_eq_self)
  then show "sint w = uint w" by (simp add: sint_uint)
qed

lemma uint_le_of_unat:
  assumes "unat (w :: u64) \<le> n"
  shows "uint w \<le> int n"
proof -
  have "uint w = int (unat w)" by simp
  then show ?thesis using assms by linarith
qed

lemma uint_add_small: "uint v + uint w < 2 ^ 64 \<Longrightarrow> uint (v + w :: u64) = uint v + uint w"
  by (simp add: uint_word_ariths)

lemma indexed_sum:
  "sum_list (map (\<lambda>x. f (fst x)) (indexed classNames)) = sum_list (map f [0..<classes])"
  unfolding indexed_classes[symmetric] by (simp add: comp_def)

lemma kindCount_unat:
  assumes "counters_ok c" and "kind < kinds"
  shows "unat (fst (kindCount c kind)) = kind_ops c kind" and "kind_ops c kind \<le> 2 ^ 53"
    and "unat (snd (kindCount c kind)) = kind_bytes c kind" and "kind_bytes c kind \<le> 2 ^ 53"
proof -
  show le: "kind_ops c kind \<le> 2 ^ 53" "kind_bytes c kind \<le> 2 ^ 53"
    using assms by (simp_all add: counters_ok_def)
  show "unat (fst (kindCount c kind)) = kind_ops c kind"
    "unat (snd (kindCount c kind)) = kind_bytes c kind"
    using le unfolding kindCount_sum fst_conv snd_conv kind_ops_def kind_bytes_def
    by (subst unat_sum_words; simp add: comp_def)+
qed

lemma Report_op_block:
  assumes "counters_ok c" and "kind < kinds"
  shows "\<exists>m. Report_op c (kind, name) =
    (if fst (kindCount c kind) = 0 then []
     else [(name, AMap ((''count'', auint (fst (kindCount c kind)))
        # (''bytes'', auint (snd (kindCount c kind))) # m))])"
proof -
  let ?used = "filter (\<lambda>(cls, cname). c ! countSlot kind cls \<noteq> 0) (indexed classNames)"
  have "foldl (\<lambda>n (cls, cname). n + c ! countSlot kind cls) 0 ?used = fst (kindCount c kind)"
    unfolding kindCount_sum fst_conv indexed_sum[symmetric] case_prod_unfold
    by (subst foldl_add_sum, subst sum_list_filter_zero) auto
  moreover have "foldl (\<lambda>b (cls, cname). b + c ! (countSlot kind cls + 1)) 0 ?used = snd (kindCount c kind)"
  proof -
    have "c ! (countSlot kind (fst x) + 1) = 0" if "x \<in> set (indexed classNames)" "c ! countSlot kind (fst x) = 0" for x
    proof -
      have "fst x \<in> set (map fst (indexed classNames))" using that(1) by auto
      then have "fst x < classes" unfolding indexed_classes by simp
      then show ?thesis using assms that(2) by (simp add: counters_ok_def)
    qed
    then show ?thesis
      unfolding kindCount_sum snd_conv indexed_sum[symmetric] case_prod_unfold
      by (subst foldl_add_sum, subst sum_list_filter_zero) auto
  qed
  ultimately show ?thesis by (simp add: Report_op_def Let_def)
qed

lemma intOf_reread:
  assumes "unat (w :: u64) \<le> 2 ^ 53"
  shows "intOf (reread (auint w)) = uint w"
proof -
  define i where "i = uint w"
  have "\<bar>i\<bar> \<le> 2 ^ 53" using uint_le_of_unat[OF assms] by (simp add: i_def)
  then have "trunc (f64_of_int i) = i" by (simp add: f64_of_int_exact trunc_def)
  then show ?thesis unfolding auint_def i_def[symmetric] by simp
qed

abbreviation reread_all :: "(string \<times> any) list \<Rightarrow> (string \<times> any) list" where
  "reread_all m \<equiv> map (\<lambda>(k, v). (k, reread v)) m"

lemma op_kind_block:
  assumes "counters_ok c" and "kind < kinds"
  shows "op_kind (reread_all (Report_op c (kind, name)) @ rest) n =
    (if name = n \<and> fst (kindCount c kind) \<noteq> 0
     then (uint (fst (kindCount c kind)), uint (snd (kindCount c kind))) else op_kind rest n)"
proof -
  obtain m where m: "Report_op c (kind, name) =
    (if fst (kindCount c kind) = 0 then []
     else [(name, AMap ((''count'', auint (fst (kindCount c kind)))
        # (''bytes'', auint (snd (kindCount c kind))) # m))])"
    using Report_op_block[OF assms] by blast
  note le = kindCount_unat[OF assms]
  have "intOf (reread (auint (fst (kindCount c kind)))) = uint (fst (kindCount c kind))"
    "intOf (reread (auint (snd (kindCount c kind)))) = uint (snd (kindCount c kind))"
    using le by (auto intro: intOf_reread)
  then show ?thesis unfolding m by (simp add: op_kind_def)
qed

lemma kindCount_none:
  assumes "counters_ok c" and "kind < kinds" and "fst (kindCount c kind) = 0"
  shows "kindCount c kind = (0, 0)"
proof -
  have "kind_ops c kind = 0" using kindCount_unat(1)[OF assms(1,2)] assms(3) by simp
  then have "c ! countSlot kind cls = 0" if "cls < classes" for cls
    using that by (auto simp: kind_ops_def sum_list_eq_0_iff unat_eq_0)
  then have "kind_bytes c kind = 0"
    using assms(1,2) by (auto simp: kind_bytes_def counters_ok_def sum_list_eq_0_iff)
  then have "snd (kindCount c kind) = 0" using kindCount_unat(3)[OF assms(1,2)] by (simp add: unat_eq_0)
  then show ?thesis using assms(3) by (simp add: prod_eq_iff)
qed

lemma op_kind_Report:
  assumes "counters_ok c" and "kind < kinds"
  shows "op_kind (reread_all (concat (map (Report_op c) (indexed opNames)))) (opNames ! kind)
    = (uint (fst (kindCount c kind)), uint (snd (kindCount c kind)))"
proof -
  have ix: "indexed opNames = [(0, ''get''), (1, ''get_range''), (2, ''put_if_match''), (3, ''put''),
      (4, ''delete''), (5, ''list'')]"
    by (simp add: indexed_def opNames_def upt_rec)
  have k: "(0 :: nat) < kinds" "(1 :: nat) < kinds" "(2 :: nat) < kinds" "(3 :: nat) < kinds"
    "(4 :: nat) < kinds" "(5 :: nat) < kinds"
    by (simp_all add: kinds_def)
  have none: "op_kind [] n = (0, 0)" for n by (simp add: op_kind_def)
  note blocks = op_kind_block[OF assms(1) k(1)] op_kind_block[OF assms(1) k(2), unfolded One_nat_def] op_kind_block[OF assms(1) k(3)]
    op_kind_block[OF assms(1) k(4)] op_kind_block[OF assms(1) k(5)] op_kind_block[OF assms(1) k(6)]
    op_kind_block[OF assms(1) k(6), where rest = "[]", simplified]
  have "kind \<in> {0, 1, 2, 3, 4, 5}" using assms(2) by (auto simp: kinds_def)
  moreover have "op_kind (reread_all (concat (map (Report_op c) (indexed opNames)))) (opNames ! kind)
      = (if fst (kindCount c kind) \<noteq> 0
         then (uint (fst (kindCount c kind)), uint (snd (kindCount c kind))) else (0, 0))"
    if "kind \<in> {0, 1, 2, 3, 4, 5}"
    using that unfolding ix by (elim insertE emptyE; simp add: blocks none opNames_def)
  ultimately show ?thesis using kindCount_none[OF assms] by (cases "fst (kindCount c kind) = 0") simp_all
qed

text \<open>
  A run is billed for what the store counted: the usage read out of a result document whose
  store block is the report of the counters, written and read back, has the operations and bytes
  of the counters' totals in every class, and counts as measured exactly when there was traffic.
\<close>

lemma runUsage_bills_counters:
  assumes "counters_ok c" and "map_get r ''store_ops'' = reread (AMap (zoustats_Report c))"
  shows "let (u, ok) = runUsage r egress; t = zoustats_Sum c in
    uGets u = uint (Gets t) \<and> uPuts u = uint (Puts t) \<and> uLists u = uint (Lists t)
    \<and> uDeletes u = uint (Deletes t) \<and> uDownloadBytes u = uint (GetBytes t)
    \<and> uUploadBytes u = uint (PutBytes t) \<and> ok = AnyTraffic t"
proof -
  let ?ops = "reread_all (concat (map (Report_op c) (indexed opNames)))"
  let ?n = "\<lambda>k. fst (kindCount c k)" and ?b = "\<lambda>k. snd (kindCount c k)"
  have "mapAt r ''store_ops'' = reread_all (zoustats_Report c)"
    using assms(2) by (simp add: mapAt_def mapOf_def)
  then have ops: "mapOf (mapAt r ''store_ops'') ''ops'' = Some ?ops"
    by (simp add: zoustats_Report_def)
  have k: "op_kind ?ops (opNames ! k) = (uint (?n k), uint (?b k))" if "k < 6" for k
    using op_kind_Report[OF assms(1), of k] that by (simp add: kinds_def)
  have names: "op_kind ?ops ''get'' = (uint (?n 0), uint (?b 0))" "op_kind ?ops ''get_range'' = (uint (?n 1), uint (?b 1))"
    "op_kind ?ops ''put_if_match'' = (uint (?n 2), uint (?b 2))" "op_kind ?ops ''put'' = (uint (?n 3), uint (?b 3))"
    "op_kind ?ops ''delete'' = (uint (?n 4), uint (?b 4))" "op_kind ?ops ''list'' = (uint (?n 5), uint (?b 5))"
    using k[of 0] k[of 1] k[of 2] k[of 3] k[of 4] k[of 5] by (simp_all add: opNames_def)
  have small: "0 \<le> uint (?n k) \<and> uint (?n k) \<le> 2 ^ 53" "0 \<le> uint (?b k) \<and> uint (?b k) \<le> 2 ^ 53"
    if "k < 6" for k
    using kindCount_unat[OF assms(1), of k] that uint_le_of_unat[of "?n k" "2 ^ 53"]
      uint_le_of_unat[of "?b k" "2 ^ 53"]
    by (simp_all add: kinds_def)
  note s = small[of 0, simplified] small[of 1, simplified] small[of 2, simplified]
    small[of 3, simplified] small[of 4, simplified] small[of 5, simplified]
  have g: "uint (?n 0 + ?n 1) = uint (?n 0) + uint (?n 1)" using s by (intro uint_add_small) simp
  have p: "uint (?n 2 + ?n 3) = uint (?n 2) + uint (?n 3)" using s by (intro uint_add_small) simp
  have gb: "uint (?b 0 + ?b 1) = uint (?b 0) + uint (?b 1)" using s by (intro uint_add_small) simp
  have pb: "uint (?b 2 + ?b 3) = uint (?b 2) + uint (?b 3)" using s by (intro uint_add_small) simp
  have gp: "uint (?n 0 + ?n 1 + (?n 2 + ?n 3)) = uint (?n 0) + uint (?n 1) + (uint (?n 2) + uint (?n 3))"
    using s g p by (subst uint_add_small) simp_all
  have d: "uint (?n 0 + ?n 1 + (?n 2 + ?n 3) + ?n 4) = uint (?n 0) + uint (?n 1) + (uint (?n 2) + uint (?n 3)) + uint (?n 4)"
    using s gp by (subst uint_add_small) simp_all
  have l: "uint (?n 0 + ?n 1 + (?n 2 + ?n 3) + ?n 4 + ?n 5)
      = uint (?n 0) + uint (?n 1) + (uint (?n 2) + uint (?n 3)) + uint (?n 4) + uint (?n 5)"
    using s d by (subst uint_add_small) simp_all
  have any: "sint (?n 0 + ?n 1 + (?n 2 + ?n 3) + ?n 4 + ?n 5)
      = uint (?n 0) + uint (?n 1) + (uint (?n 2) + uint (?n 3)) + uint (?n 4) + uint (?n 5)"
    using s l by (subst sint_small) simp_all
  obtain u ok where u: "runUsage r egress = (u, ok)" by fastforce
  have "uGets u = uint (?n 0) + uint (?n 1) \<and> uPuts u = uint (?n 3) + uint (?n 2) \<and> uLists u = uint (?n 5)
    \<and> uDeletes u = uint (?n 4) \<and> uDownloadBytes u = uint (?b 0) + uint (?b 1)
    \<and> uUploadBytes u = uint (?b 3) + uint (?b 2)
    \<and> ok = (0 < uint (?n 0) + uint (?n 1) + (uint (?n 3) + uint (?n 2)) + uint (?n 4) + uint (?n 5))"
    using u unfolding runUsage_def ops option.case names Let_def prod.case
    by (auto split: option.splits if_splits)
  moreover have "Gets (zoustats_Sum c) = ?n 0 + ?n 1" "Puts (zoustats_Sum c) = ?n 2 + ?n 3"
    "Lists (zoustats_Sum c) = ?n 5" "Deletes (zoustats_Sum c) = ?n 4"
    "GetBytes (zoustats_Sum c) = ?b 0 + ?b 1" "PutBytes (zoustats_Sum c) = ?b 2 + ?b 3"
    "AnyTraffic (zoustats_Sum c) = (0 < sint (?n 0 + ?n 1 + (?n 2 + ?n 3) + ?n 4 + ?n 5))"
    by (simp_all add: zoustats_Sum_def Let_def split_beta)
  ultimately show ?thesis
    unfolding u Let_def prod.case by (simp only: g p gb pb any) auto
qed

text \<open>Counters that are all one past the header, as an example.\<close>

lemma countSlot_slots: "kind < kinds \<Longrightarrow> cls < classes \<Longrightarrow> header \<le> countSlot kind cls \<and> countSlot kind cls + 1 < slots"
  using countSlot_range[of kind cls] by (auto simp: layout)

lemma kindCount_ones:
  assumes "\<forall>i. header \<le> i \<and> i < slots \<longrightarrow> c ! i = 1" and "kind < kinds"
  shows "kindCount c kind = (7, 7)"
proof -
  have one: "c ! countSlot kind cls = 1" "c ! (countSlot kind cls + 1) = 1" if "cls < classes" for cls
    using assms countSlot_slots[OF assms(2) that] by auto
  have "map (\<lambda>cls. c ! countSlot kind cls) [0..<classes] = map (\<lambda>_. 1) [0..<classes]"
    "map (\<lambda>cls. c ! (countSlot kind cls + 1)) [0..<classes] = map (\<lambda>_. 1) [0..<classes]"
    using one by (intro map_cong refl; simp)+
  then show ?thesis unfolding kindCount_sum by (simp add: classes_def upt_rec)
qed

lemma counters_ok_ones:
  assumes "\<forall>i. header \<le> i \<and> i < slots \<longrightarrow> c ! i = 1"
  shows "counters_ok c" and "AnyTraffic (zoustats_Sum c)"
proof -
  have one: "c ! countSlot kind cls = 1" "c ! (countSlot kind cls + 1) = 1" if "kind < kinds" "cls < classes" for kind cls
    using assms countSlot_slots[OF that] by auto
  have "kind_ops c kind = classes \<and> kind_bytes c kind = classes" if "kind < kinds" for kind
  proof -
    have "map (\<lambda>cls. unat (c ! countSlot kind cls)) [0..<classes] = map (\<lambda>_. 1) [0..<classes]"
      "map (\<lambda>cls. unat (c ! (countSlot kind cls + 1))) [0..<classes] = map (\<lambda>_. 1) [0..<classes]"
      using one[OF that] by (intro map_cong refl; simp)+
    then show ?thesis unfolding kind_ops_def kind_bytes_def by (simp only: sum_list_triv) simp
  qed
  then show "counters_ok c" using one by (simp add: counters_ok_def classes_def)
  show "AnyTraffic (zoustats_Sum c)"
    using kindCount_ones[OF assms] by (simp add: zoustats_Sum_def Let_def split_beta kinds_def)
qed

end
