(* ===== verification/CmdSockets.thy ===== *)
theory CmdSockets
  imports Command CmdCost CmdRest SocketsRamp
begin

text \<open>
  \<open>zoubench sockets\<close> (src/cmd/zoubench/sockets.go): the lists its flags carry, the key and the password
  it mints, the options it hands to the socket run, and the document the run's result becomes, through
  JSON and back. The run is \<open>sockets_Run\<close>; a URL's port, the file limit and the files are arguments.
\<close>

section \<open>Lists in flags\<close>

definition split_list :: "string \<Rightarrow> string list" where
  "split_list l = filter (\<lambda>p. p \<noteq> []) (map TrimSpace (strings_Split l (CHR '','')))"

fun atoi_all :: "string list \<Rightarrow> int list go_result" where
  "atoi_all [] = Inr []"
| "atoi_all (p # ps) =
     (case Atoi p of None \<Rightarrow> Inl (''strconv.Atoi: parsing '' @ Quote p)
      | Some n \<Rightarrow> map_sum id (Cons n) (atoi_all ps))"

definition numbers :: "string \<Rightarrow> int list go_result" where
  "numbers l = atoi_all (split_list l)"

definition doors :: "(string \<Rightarrow> go_url go_result) \<Rightarrow> string \<Rightarrow> string \<Rightarrow> int list go_result" where
  "doors parse base l =
     and_then (numbers l) (\<lambda>ports.
     if ports \<noteq> [] then Inr ports
     else case parse base of Inl e \<Rightarrow> Inr []
        | Inr u \<Rightarrow> if urlPort u = [] then Inr [] else numbers (urlPort u))"

section \<open>Open files\<close>

record rlimit =
  rlCur :: nat
  rlMax :: nat

definition RaiseFiles :: "rlimit go_result \<Rightarrow> (rlimit \<Rightarrow> go_error option) \<Rightarrow> nat \<Rightarrow> nat \<times> go_error option" where
  "RaiseFiles get set1 want =
     (case get of Inl e \<Rightarrow> (0, Some e)
      | Inr cur1 \<Rightarrow>
        if want \<le> rlCur cur1 then (rlCur cur1, None)
        else let raised = (if rlMax cur1 \<noteq> 0 \<and> rlMax cur1 < want then cur1\<lparr>rlCur := rlMax cur1\<rparr> else cur1\<lparr>rlCur := want\<rparr>)
             in case set1 raised of Some e \<Rightarrow> (rlCur cur1, Some e) | None \<Rightarrow> (rlCur raised, None))"

section \<open>The command's arguments and world\<close>

record sockets_args =
  kaScenario :: string
  kaUrl :: string
  kaLabel :: string
  kaSecret :: string
  kaAnonKey :: string
  kaDsn :: string
  kaWriteDSN :: string
  kaWritePassword :: string
  kaOps :: string
  kaLocal :: string
  kaPorts :: string
  kaDialers :: int
  kaReadBuf :: int
  kaDatadir :: string
  kaNodeNote :: string
  kaOutdir :: string

record sockets_world =
  kwFile :: "string go_result"
  kwHmac :: "string \<Rightarrow> string \<Rightarrow> string"
  kwNow :: int
  kwSetup :: "string \<Rightarrow> string list \<Rightarrow> go_error option"
  kwLimit :: "rlimit go_result"
  kwSetLimit :: "rlimit \<Rightarrow> go_error option"
  kwUrl :: "string \<Rightarrow> go_url go_result"
  kwUrlText :: "go_url \<Rightarrow> string"
  kwResolve :: "string \<Rightarrow> string go_result"
  kwDate :: string
  kwEnv :: doc
  kwPidfile :: "string go_result"
  kwTree :: doc
  kwSystem :: doc
  kwRun :: sock_inputs
  kwMkdir :: "go_error option"
  kwWrite :: "go_error option"

definition sockets_key :: "sockets_args \<Rightarrow> sockets_world \<Rightarrow> string" where
  "sockets_key a w =
     (if kaAnonKey a = [] \<and> kaSecret a \<noteq> [] then KeyToken (kwHmac w) (kwNow w) (kaSecret a) ''anon'' else kaAnonKey a)"

definition sockets_password :: "sockets_args \<Rightarrow> sockets_world \<Rightarrow> string" where
  "sockets_password a w =
     (if kaWritePassword a = [] \<and> kaSecret a \<noteq> [] then KeyToken (kwHmac w) (kwNow w) (kaSecret a) ''postgres''
      else kaWritePassword a)"

definition sockets_options :: "sockets_args \<Rightarrow> scenario \<Rightarrow> sock_options" where
  "sockets_options a sc =
     \<lparr>soToken = [], soSockets = sc_Sockets sc, soShards = sc_Shards sc, soConnectRate = sc_ConnectRate sc,
      soDialers = kaDialers a, soReadBuf = kaReadBuf a, soSchema = [], soTable = sc_Table sc,
      soWriteDSN = kaWriteDSN a, soWriters = sc_Writers sc, soRows = sc_Rows sc, soBatch = sc_Batch sc,
      soWarmup = sc_Warmup sc * GoTime.Second, soDuration = sc_Duration sc * GoTime.Second,
      soDrain = sc_DrainSecs sc * GoTime.Second, soHeartbeat = sc_HeartbeatSecs sc * GoTime.Second,
      soOpsURL = kaOps a\<rparr>"

section \<open>The document\<close>

definition int_list_any :: "int list \<Rightarrow> any" where
  "int_list_any ns = (if ns = [] then ANil else AList (map AInt ns))"

definition sockets_head :: "sockets_args \<Rightarrow> sockets_world \<Rightarrow> scenario \<Rightarrow> any \<Rightarrow> nat \<Rightarrow> int list \<Rightarrow> doc" where
  "sockets_head a w sc config files1 ports =
     [(''scenario'', AStr (sc_Name sc)), (''label'', AStr (kaLabel a)), (''date'', AStr (kwDate w)),
      (''config'', config), (''env'', AMap (kwEnv w)), (''base_url'', AStr (kaUrl a)),
      (''file_limit'', AInt (int files1)), (''ports'', int_list_any ports)]
     @ (if kaNodeNote a \<noteq> [] then [(''node_note'', AStr (kaNodeNote a))] else [])"

definition second_any :: "second \<Rightarrow> any" where
  "second_any s = AMap [(''t'', AInt (sT s)), (''n'', AInt (int (sN s))), (''mean_ms'', AFloat (sMeanMS s)),
     (''worst_ms'', AFloat (sWorstMS s))]"

definition spread_any :: "shard_spread \<Rightarrow> any" where
  "spread_any s = AMap [(''shards'', AInt (int (spShards s))), (''sockets_per_shard'', AInt (int (spSockets s))),
     (''min_seen'', AInt (spMinSeen s)), (''max_seen'', AInt (spMaxSeen s)), (''mean_seen'', AFloat (spMeanSeen s)),
     (''shards_with_no_delivery'', AInt (int (spEmpty s)))]"

definition result_fields :: "sock_result \<Rightarrow> doc" where
  "result_fields r =
     [(''held'', AInt (srHeld r)), (''wanted'', AInt (srWanted r)), (''refused'', AInt (srRefused r)), (''lost'', AInt (srLost r))]
     @ (if srFailures r \<noteq> [] then [(''failures'', AList (map AStr (srFailures r)))] else [])
     @ [(''ramp_secs'', AFloat (srRampSecs r)), (''elapsed_secs'', AFloat (srElapsed r)),
        (''connect_ms'', pct_any (srConnectMS r)), (''join_ms'', pct_any (srJoinMS r)),
        (''rows_committed'', AInt (int (srRows r))), (''deliveries_expected'', AInt (int (srExpected r))),
        (''deliveries_seen'', AInt (srDelivered r)), (''deliveries_missing'', AInt (srMissing r)),
        (''deliveries_outside_window'', AInt (int (srStray r))), (''delivery_ms'', pct_any (srDeliveryMS r)),
        (''commit_ms'', pct_any (srCommitMS r)), (''timeline'', AList (map second_any (srTimeline r))),
        (''per_shard'', spread_any (srPerShard r))]
     @ (case srNode r of None \<Rightarrow> [] | Some m \<Rightarrow> unless_empty ''node'' m)"

record sockets_out =
  koDoc :: doc
  koPath :: string
  koResult :: sock_result

text \<open>The lines a run ends on when its figures are not over everything it wanted.\<close>

definition sockets_warnings :: "sock_result \<Rightarrow> string list" where
  "sockets_warnings r =
     (if srMissing r \<noteq> 0
      then [itoa (srMissing r) @ '' of '' @ itoa (int (srExpected r))
        @ '' deliveries never arrived, so the percentiles are over what did''] else [])
     @ (if srRefused r \<noteq> 0 \<or> srLost r \<noteq> 0
      then [itoa (srRefused r) @ '' sockets refused and '' @ itoa (srLost r) @ '' lost mid run: ''
        @ strings_Join (srFailures r) ''; ''] else [])"

definition sockets_brief :: "doc \<Rightarrow> doc" where
  "sockets_brief r = filter (\<lambda>(k, v). k \<notin> {''config'', ''env'', ''system'', ''server'', ''timeline''}) r"

section \<open>The command\<close>

text \<open>Everything up to the run: the scenario, the setup, the file limit, the doors and the server's pid.\<close>

definition sockets_start :: "sockets_args \<Rightarrow> sockets_world \<Rightarrow> (scenario \<times> doc) go_result" where
  "sockets_start a w =
     and_then (scenario_Load (kaScenario a) (kwFile w)) (\<lambda>(sc, config).
     if \<not> IsSockets sc then Inl (kaScenario a @ '' is not a sockets scenario'')
     else and_then (apply_setup (kaScenario a) (sc_Setup sc) (kaDsn a) (kwSetup w (sockets_password a w))) (\<lambda>_.
       let files1 = fst (RaiseFiles (kwLimit w) (kwSetLimit w) (nat (sc_Sockets sc) + 4096)) in
       and_then (doors (kwUrl w) (kaUrl a) (kaPorts a)) (\<lambda>ports.
       and_then (if kaDatadir a = [] then Inr 0 else serverPid (kwPidfile w)) (\<lambda>_.
       Inr (sc, sockets_head a w sc config files1 ports)))))"

text \<open>A ramp without endpoints or addresses opens nothing; otherwise the events of the run are the world's.\<close>

definition ramp_inputs :: "sockets_args \<Rightarrow> sockets_world \<Rightarrow> sock_inputs" where
  "ramp_inputs a w =
     (case and_then (numbers (kaPorts a)) (\<lambda>ports.
        and_then (wsURLs (kwUrl w) (kwUrlText w) (TrimSuffix (kaUrl a) ''/'') (sockets_key a w) ports) (\<lambda>urls.
        localAddrs (kwResolve w) (split_list (kaLocal a)))) of
        Inl e \<Rightarrow> (kwRun w)\<lparr>inRampErr := Some e, inRamp := []\<rparr>
      | Inr locals \<Rightarrow> kwRun w)"

lemma ramp_inputs_err [simp]: "inErr (ramp_inputs a w) = inErr (kwRun w)"
  by (simp add: ramp_inputs_def split: sum.split)

definition cmdSockets :: "sockets_args \<Rightarrow> sockets_world \<Rightarrow> (go_error, sockets_out) outcome" where
  "cmdSockets a w =
     (case sockets_start a w of
        Inl e \<Rightarrow> Fail e
      | Inr (sc, head1) \<Rightarrow>
        (case sockets_Run (sockets_options a sc) (ramp_inputs a w) of
           None \<Rightarrow> Panic
         | Some (out, Some e) \<Rightarrow> Fail e
         | Some (out, None) \<Rightarrow>
           (case and_then (dies (kwMkdir w)) (\<lambda>_. dies (kwWrite w)) of
              Inl e \<Rightarrow> Fail e
            | Inr _ \<Rightarrow> Ok
                \<lparr>koDoc = head1 @ map (\<lambda>(k, v). (k, reread v)) (result_fields out)
                   @ (if kaDatadir a \<noteq> [] then [(''server'', AMap (kwTree w))] else []) @ [(''system'', AMap (kwSystem w))],
                 koPath = path_Join (kaOutdir a) (result_name (sc_Name sc) (kaLabel a) (kwDate w)),
                 koResult = out\<rparr>)))"

section \<open>What the command answers\<close>

lemma RaiseFiles_reached:
  assumes "RaiseFiles (Inr cur) set1 want = (answer, None)"
  shows "want \<le> answer \<or> answer = rlMax cur"
  using assms by (auto simp: RaiseFiles_def Let_def split: if_splits option.splits)

lemma sockets_start_Ok:
  assumes "sockets_start a w = Inr (sc, head1)"
  obtains config files1 ports where "scenario_Load (kaScenario a) (kwFile w) = Inr (sc, config)" "IsSockets sc"
    "head1 = sockets_head a w sc config files1 ports"
  using assms by (auto simp: sockets_start_def and_then_def Let_def split: sum.splits prod.splits if_splits)

lemma cmdSockets_run:
  assumes "cmdSockets a w = Ok r"
  obtains sc head1 where "sockets_start a w = Inr (sc, head1)"
    "sockets_Run (sockets_options a sc) (ramp_inputs a w) = Some (koResult r, None)"
    "koDoc r = head1 @ map (\<lambda>(k, v). (k, reread v)) (result_fields (koResult r))
       @ (if kaDatadir a \<noteq> [] then [(''server'', AMap (kwTree w))] else []) @ [(''system'', AMap (kwSystem w))]"
proof (cases "sockets_start a w")
  case (Inr p)
  obtain sc head1 where p: "p = (sc, head1)" by (cases p)
  show ?thesis
  proof (cases "sockets_Run (sockets_options a sc) (ramp_inputs a w)")
    case None
    then show ?thesis using assms Inr p by (simp add: cmdSockets_def)
  next
    case (Some q)
    obtain out e where q: "q = (out, e)" by (cases q)
    have e: "e = None" using assms Inr p Some q by (cases e) (simp_all add: cmdSockets_def)
    show ?thesis
      using assms Inr p Some q e
      by (cases "and_then (dies (kwMkdir w)) (\<lambda>_. dies (kwWrite w))") (auto simp: cmdSockets_def intro: that)
  qed
qed (use assms in \<open>simp add: cmdSockets_def\<close>)

lemma cmdSockets_Ok:
  assumes "cmdSockets a w = Ok r"
  obtains sc config files1 ports where
    "scenario_Load (kaScenario a) (kwFile w) = Inr (sc, config)" "IsSockets sc"
    "sockets_Run (sockets_options a sc) (ramp_inputs a w) = Some (koResult r, None)"
    "koDoc r = sockets_head a w sc config files1 ports @ map (\<lambda>(k, v). (k, reread v)) (result_fields (koResult r))
       @ (if kaDatadir a \<noteq> [] then [(''server'', AMap (kwTree w))] else []) @ [(''system'', AMap (kwSystem w))]"
  using assms
proof (rule cmdSockets_run)
  fix sc head1
  assume a: "sockets_start a w = Inr (sc, head1)" and b: "sockets_Run (sockets_options a sc) (ramp_inputs a w) = Some (koResult r, None)"
    and c: "koDoc r = head1 @ map (\<lambda>(k, v). (k, reread v)) (result_fields (koResult r))
       @ (if kaDatadir a \<noteq> [] then [(''server'', AMap (kwTree w))] else []) @ [(''system'', AMap (kwSystem w))]"
  show ?thesis using a by (rule sockets_start_Ok) (use b c in \<open>auto intro: that\<close>)
qed

lemma result_get_reread:
  "k \<in> fst ` set xs \<Longrightarrow> map_get (map (\<lambda>(k, v). (k, reread v)) xs @ tail) k = reread (map_get xs k)"
  by (induction xs) (force split: prod.splits)+

lemma result_fields_keys:
  "{''held'', ''wanted'', ''refused'', ''lost'', ''deliveries_expected'', ''deliveries_seen'', ''deliveries_missing''}
    \<subseteq> fst ` set (result_fields r)"
  by (simp add: result_fields_def image_Un)

lemma sockets_doc_get:
  assumes "koDoc r = sockets_head a w sc config files1 ports @ map (\<lambda>(k, v). (k, reread v)) (result_fields (koResult r)) @ tail"
    and "k \<in> {''held'', ''wanted'', ''refused'', ''lost'', ''deliveries_expected'', ''deliveries_seen'', ''deliveries_missing''}"
  shows "map_get (koDoc r) k = reread (map_get (result_fields (koResult r)) k)"
proof -
  have "k \<notin> fst ` set (sockets_head a w sc config files1 ports)" using assms(2) by (auto simp: sockets_head_def)
  then have "map_get (koDoc r) k = map_get (map (\<lambda>(k, v). (k, reread v)) (result_fields (koResult r)) @ tail) k"
    by (simp add: assms(1) map_get_append)
  also have "\<dots> = reread (map_get (result_fields (koResult r)) k)"
    using assms(2) result_fields_keys by (intro result_get_reread) blast
  finally show ?thesis .
qed

lemma sockets_Run_whole:
  assumes "sockets_Run options inp = Some (res, None)"
  shows "inErr inp = None \<and> srWanted res = soSockets options \<and> srRefused res = srWanted res - srHeld res
    \<and> srMissing res = int (srExpected res) - srDelivered res"
proof -
  obtain opt r r' where opt: "run_defaults options = Inr opt" and m: "run_measured opt inp r = Some (res, r')"
    and err: "inErr inp = None"
    using assms by (auto simp: sockets_Run_def split: sum.splits option.splits prod.splits)
  have "soSockets opt = soSockets options" using opt by (auto simp: run_defaults_def Let_def split: if_splits)
  then show ?thesis using err by (simp add: run_measured_end(3)[OF m] run_result_def result_ramped_def Let_def result_zero_def split: prod.split)
qed

lemma sockets_warnings_none:
  "sockets_warnings r = [] \<longleftrightarrow> srMissing r = 0 \<and> srRefused r = 0 \<and> srLost r = 0"
  by (auto simp: sockets_warnings_def)

text \<open>
  C14: a document of a socket run is always of a whole one. An interrupted run returns its result
  with the interruption as an error, which the command dies of before it writes anything. What it
  saves are the run's figures, the sockets refused the scenario's less the held ones, the deliveries
  missing the expected less the seen, and it ends without a warning exactly when every socket was
  held to the end and every delivery came.
\<close>

theorem sockets_saves_whole_runs:
  assumes "cmdSockets a w = Ok r"
  shows "inErr (kwRun w) = None
    \<and> (\<exists>sc config. scenario_Load (kaScenario a) (kwFile w) = Inr (sc, config) \<and> IsSockets sc
        \<and> map_get (koDoc r) ''wanted'' = AFloat (f64_of_int (sc_Sockets sc))
        \<and> map_get (koDoc r) ''held'' = AFloat (f64_of_int (srHeld (koResult r)))
        \<and> map_get (koDoc r) ''refused'' = AFloat (f64_of_int (sc_Sockets sc - srHeld (koResult r)))
        \<and> map_get (koDoc r) ''deliveries_missing'' =
            AFloat (f64_of_int (int (srExpected (koResult r)) - srDelivered (koResult r)))
        \<and> (sockets_warnings (koResult r) = [] \<longleftrightarrow> srHeld (koResult r) = sc_Sockets sc \<and> srLost (koResult r) = 0
            \<and> srDelivered (koResult r) = int (srExpected (koResult r))))"
  using assms
proof (rule cmdSockets_Ok)
  fix sc config files1 ports
  assume sc: "scenario_Load (kaScenario a) (kwFile w) = Inr (sc, config)" "IsSockets sc"
    and run: "sockets_Run (sockets_options a sc) (ramp_inputs a w) = Some (koResult r, None)"
    and doc: "koDoc r = sockets_head a w sc config files1 ports @ map (\<lambda>(k, v). (k, reread v)) (result_fields (koResult r))
       @ (if kaDatadir a \<noteq> [] then [(''server'', AMap (kwTree w))] else []) @ [(''system'', AMap (kwSystem w))]"
  note get = sockets_doc_get[OF doc]
  have whole: "inErr (kwRun w) = None" "srWanted (koResult r) = sc_Sockets sc"
    "srRefused (koResult r) = sc_Sockets sc - srHeld (koResult r)"
    "srMissing (koResult r) = int (srExpected (koResult r)) - srDelivered (koResult r)"
    using sockets_Run_whole[OF run] by (simp_all add: sockets_options_def)
  have "map_get (koDoc r) ''wanted'' = AFloat (f64_of_int (sc_Sockets sc))"
    "map_get (koDoc r) ''held'' = AFloat (f64_of_int (srHeld (koResult r)))"
    "map_get (koDoc r) ''refused'' = AFloat (f64_of_int (sc_Sockets sc - srHeld (koResult r)))"
    "map_get (koDoc r) ''deliveries_missing'' = AFloat (f64_of_int (int (srExpected (koResult r)) - srDelivered (koResult r)))"
    by (simp_all add: get result_fields_def whole map_get_append)
  then show ?thesis using sc whole by (auto simp: sockets_warnings_none)
qed

section \<open>A socket run as an example\<close>

text \<open>Three sockets over two shards, one row each, and the third socket hears nothing.\<close>

definition pulse_load :: json where
  "pulse_load = JObj [(''name'', JStr ''p''), (''kind'', JStr ''sockets''), (''sockets'', JNum ''3''), (''shards'', JNum ''2''),
     (''writers'', JNum ''1''), (''rows'', JNum ''2''), (''batch'', JNum ''2''), (''duration'', JNum ''1'')]"

definition pulse_args :: sockets_args where
  "pulse_args = \<lparr>kaScenario = ''p.json'', kaUrl = ''http://h:1'', kaLabel = ''l'', kaSecret = [], kaAnonKey = ''k'', kaDsn = [],
     kaWriteDSN = ''h'', kaWritePassword = [], kaOps = [], kaLocal = [], kaPorts = ''81, 82'', kaDialers = 64, kaReadBuf = 2048,
     kaDatadir = [], kaNodeNote = [], kaOutdir = ''results''\<rparr>"

definition pulse_world :: sockets_world where
  "pulse_world = \<lparr>kwFile = Inr (MarshalIndent pulse_load), kwHmac = (\<lambda>_ t. t), kwNow = 0, kwSetup = (\<lambda>_ _. None),
     kwLimit = Inr \<lparr>rlCur = 256, rlMax = 0\<rparr>, kwSetLimit = (\<lambda>_. None), kwUrl = parse_example, kwUrlText = urlPort, kwResolve = Inr,
     kwDate = ''2026-01-02T03:04:05Z'', kwEnv = [], kwPidfile = Inl ''none'', kwTree = [], kwSystem = [],
     kwRun = input_example, kwMkdir = None, kwWrite = None\<rparr>"

lemma pulse_parse: "json_parse (MarshalIndent pulse_load) = Some pulse_load"
  unfolding pulse_load_def
  by (rule json_parse_Marshal; simp add: ascii_def scan_number_def scan_whole_def scan_digits_def scan_frac_def
      scan_exp_def is_digit_def)

lemma pulse_loads: "\<exists>sc config. scenario_Load (kaScenario pulse_args) (kwFile pulse_world) = Inr (sc, config) \<and> IsSockets sc
    \<and> sc_Setup sc = [] \<and> sc_Sockets sc = 3 \<and> sc_Shards sc = 2 \<and> sc_Writers sc = 1 \<and> sc_Rows sc = 2 \<and> sc_Batch sc = 2
    \<and> sc_Duration sc = 1 \<and> sc_Warmup sc = 0"
proof -
  let ?sc = "scenario_zero\<lparr>sc_Name := ''p'', sc_Kind := ''sockets'', sc_Sockets := 3, sc_Shards := 2, sc_Writers := 1,
      sc_Rows := 2, sc_Batch := 2, sc_Duration := 1\<rparr>"
  have "json_Unmarshal (dec_struct False scenario_fields) (MarshalIndent pulse_load) scenario_zero = Some ?sc"
    unfolding json_Unmarshal_def pulse_parse unfolding pulse_load_def by code_simp
  moreover obtain sc where "run_sections (scenario_sections (kaScenario pulse_args)) ?sc = Inr sc" "IsSockets sc" "sc_Setup sc = []"
      "sc_Sockets sc = 3" "sc_Shards sc = 2" "sc_Writers sc = 1" "sc_Rows sc = 2" "sc_Batch sc = 2" "sc_Duration sc = 1" "sc_Warmup sc = 0"
    by (simp add: scenario_sections_def named_section_def attach_section_def fleet_section_def sockets_section_def
        sustain_section_def driver_section_def load_section_def kinds_of scenario_zero_def)
  ultimately show ?thesis
    using pulse_parse by (simp add: scenario_Load_def pulse_world_def) (simp add: pulse_load_def)
qed

lemma pulse_starts: "\<exists>sc head1. sockets_start pulse_args pulse_world = Inr (sc, head1) \<and> sc_Sockets sc = 3 \<and> sc_Shards sc = 2
    \<and> sc_Writers sc = 1 \<and> sc_Rows sc = 2 \<and> sc_Batch sc = 2 \<and> sc_Duration sc = 1 \<and> sc_Warmup sc = 0"
proof -
  obtain sc config where sc: "scenario_Load (kaScenario pulse_args) (kwFile pulse_world) = Inr (sc, config)" "IsSockets sc"
    "sc_Setup sc = []" "sc_Sockets sc = 3" "sc_Shards sc = 2" "sc_Writers sc = 1" "sc_Rows sc = 2" "sc_Batch sc = 2"
    "sc_Duration sc = 1" "sc_Warmup sc = 0" using pulse_loads by blast
  have "doors (kwUrl pulse_world) (kaUrl pulse_args) (kaPorts pulse_args) = Inr [81, 82]"
    unfolding pulse_args_def pulse_world_def by code_simp
  then have "\<exists>head1. sockets_start pulse_args pulse_world = Inr (sc, head1)"
    using sc by (simp add: sockets_start_def and_then_def apply_setup_def pulse_args_def)
  then show ?thesis using sc by blast
qed

lemma pulse_measures:
  assumes "soSockets opt = 3" "soShards opt = 2" "soWriters opt = 1" "soRows opt = 2" "soBatch opt = 2" "soWarmup opt = 0"
    "soDuration opt = GoTime.Second" "soWriteDSN opt \<noteq> []"
  shows "\<exists>r res r'. run_ramped opt input_example = Some (Inr r) \<and> run_measured opt input_example r = Some (res, r')"
proof -
  have "\<exists>r. run_ramped opt input_example = Some (Inr r)
     \<and> rWriter r = \<lparr>wConns = 1, wShards = [0, 1], wRows = 0, wSample = [], wShard = [],
            wDeadline = 0, wBatch = [], wNext = [], wLive = []\<rparr>"
    by (simp add: run_ramped_def input_example_def run_step_def run_opened_def conn_example_joins run_start_def
        writer_open_def assms shardsHeld_def Let_def upt_rec)
  then obtain r where r: "run_ramped opt input_example = Some (Inr r)"
    and w: "rWriter r = \<lparr>wConns = 1, wShards = [0, 1], wRows = 0, wSample = [], wShard = [],
            wDeadline = 0, wBatch = [], wNext = [], wLive = []\<rparr>" by blast
  have "\<exists>res r'. run_measured opt input_example r = Some (res, r')"
    using every_example
    by (simp add: run_measured_def run_span_def push_start_def input_example_def run_step_def run_ticked_def
        run_window_def w assms writer_share_def writer_batch_def batch_shards_def run_heard_def
        writer_count_def Let_def upt_rec plus_at_def change_example_stamp GoTime.Second_def split: option.splits)
  then show ?thesis using r by blast
qed

theorem sockets_saves_whole_runs_witness:
  "\<exists>r missing. cmdSockets pulse_args pulse_world = Ok r \<and> map_get (koDoc r) ''wanted'' = AFloat (f64_of_int 3)
     \<and> map_get (koDoc r) ''deliveries_missing'' = AFloat (f64_of_int missing)
     \<and> missing = int (srExpected (koResult r)) - srDelivered (koResult r)"
proof -
  obtain sc head1 where st: "sockets_start pulse_args pulse_world = Inr (sc, head1)" "sc_Sockets sc = 3" "sc_Shards sc = 2"
    "sc_Writers sc = 1" "sc_Rows sc = 2" "sc_Batch sc = 2" "sc_Duration sc = 1" "sc_Warmup sc = 0" using pulse_starts by blast
  obtain opt where opt: "run_defaults (sockets_options pulse_args sc) = Inr opt" "soSockets opt = 3" "soShards opt = 2"
    "soWriters opt = 1" "soRows opt = 2" "soBatch opt = 2" "soWarmup opt = 0" "soDuration opt = GoTime.Second"
    "soWriteDSN opt \<noteq> []"
    by (simp add: run_defaults_def sockets_options_def st pulse_args_def Let_def)
  obtain r res r' where "run_ramped opt input_example = Some (Inr r)" "run_measured opt input_example r = Some (res, r')"
    using pulse_measures[OF opt(2-)] by blast
  moreover have "ramp_inputs pulse_args pulse_world = input_example"
  proof -
    have "numbers (kaPorts pulse_args) = Inr [81, 82]" "split_list (kaLocal pulse_args) = []"
      "wsURLs (kwUrl pulse_world) (kwUrlText pulse_world) (TrimSuffix (kaUrl pulse_args) ''/'') (sockets_key pulse_args pulse_world) [81, 82]
        = Inr [''81'', ''82'']"
      unfolding pulse_args_def pulse_world_def by code_simp+
    then show ?thesis by (simp add: ramp_inputs_def and_then_def) (simp add: pulse_world_def)
  qed
  ultimately have "sockets_Run (sockets_options pulse_args sc) (ramp_inputs pulse_args pulse_world) = Some (res, None)"
    using opt(1) by (simp add: sockets_Run_def) (simp add: input_example_def)
  then have "\<exists>r. cmdSockets pulse_args pulse_world = Ok r"
    by (simp add: cmdSockets_def st and_then_def dies_def) (simp add: pulse_world_def)
  then obtain r where r: "cmdSockets pulse_args pulse_world = Ok r" by blast
  obtain sc1 config where "scenario_Load (kaScenario pulse_args) (kwFile pulse_world) = Inr (sc1, config)" "sc_Sockets sc1 = 3"
    using pulse_loads by blast
  then show ?thesis using sockets_saves_whole_runs[OF r] r by auto
qed

end
