(* ===== verification/Pgwire.thy ===== *)
theory Pgwire
  imports Streams
begin

text \<open>
  The Postgres wire client (src/pgwire/pgwire.go): the startup handshake with cleartext passwords,
  one simple query, error responses, and the readiness poll. A connection is its unread input, what
  was written, its password and whether the peer is gone. Slices past the end of a payload are
  \<open>Panic\<close>, as in the source.
\<close>

section \<open>Messages\<close>

datatype pg_error = PgErr string string | IoErr string

record pg =
  pg_in :: bytes
  pg_out :: bytes
  pg_password :: string
  pg_gone :: bool

type_synonym pg_message = "u8 \<times> bytes"

definition kind_of :: "char \<Rightarrow> u8" where "kind_of c = of_nat (of_char c)"

definition pg_read :: "bytes \<Rightarrow> (pg_error, pg_message \<times> bytes) outcome" where
  "pg_read s =
     (case read_full 5 s of None \<Rightarrow> Fail (IoErr io_EOF)
      | Some (head, s) \<Rightarrow>
        let n = unat (of_nat (be_value (drop 1 head)) - 4 :: u32) in
        (case read_full n s of None \<Rightarrow> Fail (IoErr io_EOF)
         | Some (payload, s) \<Rightarrow> Ok ((hd head, payload), s)))"

definition pg_send :: "bytes \<Rightarrow> pg \<Rightarrow> go_error option \<times> pg" where
  "pg_send b c = (if pg_gone c then (Some ''write: broken pipe'', c) else (None, c\<lparr>pg_out := pg_out c @ b\<rparr>))"

text \<open>The front of a slice as a big endian integer, and the panic of a short slice.\<close>

definition be_uint :: "nat \<Rightarrow> bytes \<Rightarrow> nat option" where
  "be_uint n p = (if n \<le> length p then Some (be_value (take n p)) else None)"

function error_fields :: "bytes \<Rightarrow> string \<times> string \<Rightarrow> (string \<times> string) option" where
  "error_fields p (code, message) =
     (if p = [] \<or> hd p = 0 then Some (code, message)
      else let body = takeWhile (\<lambda>b. b \<noteq> 0) (tl p); last = 1 + length body;
               cm = (if hd p = kind_of (CHR ''C'') then (text_u8 body, message)
                     else if hd p = kind_of (CHR ''M'') then (code, text_u8 body) else (code, message))
           in if last < length p then error_fields (drop (last + 1) p) cm else None)"
  by pat_completeness auto
termination by (relation "measure (\<lambda>(p, cm). length p)") auto

declare error_fields.simps [simp del]

definition errorResponse :: "bytes \<Rightarrow> pg_error option" where
  "errorResponse payload = map_option (\<lambda>(code, message). PgErr code message) (error_fields payload ([], []))"

definition Starting :: "pg_error \<Rightarrow> bool" where
  "Starting err = (case err of PgErr code _ \<Rightarrow> code = ''57P03'' | IoErr _ \<Rightarrow> False)"

lemma pg_read_shorter: "pg_read s = Ok (m, r) \<Longrightarrow> length r < length s"
  by (auto simp: pg_read_def Let_def dest!: read_full_length split: option.splits)

text \<open>
  Both loops of the client read a message and switch on its kind: \<open>on\<close> is the switch, which goes on
  with a new state or ends the call.
\<close>

function pg_loop :: "('s \<Rightarrow> pg_message \<Rightarrow> 's + (pg_error, 'a) outcome \<times> 's) \<Rightarrow> bytes \<Rightarrow> 's
    \<Rightarrow> ((pg_error, 'a) outcome \<times> 's) \<times> bytes" where
  "pg_loop on s st =
     (case pg_read s of Fail e \<Rightarrow> ((Fail e, st), s) | Panic \<Rightarrow> ((Panic, st), s)
      | Ok (m, rest) \<Rightarrow> (case on st m of Inl st' \<Rightarrow> pg_loop on rest st' | Inr r \<Rightarrow> (r, rest)))"
  by pat_completeness auto
termination by (relation "measure (\<lambda>(on, s, st). length s)") (auto dest: pg_read_shorter)

declare pg_loop.simps [simp del]

section \<open>Startup\<close>

definition startup_message :: "string \<Rightarrow> string \<Rightarrow> bytes" where
  "startup_message user database =
     (let body = [0, 3, 0, 0] @ u8_text ''user'' @ [0] @ u8_text user @ [0]
            @ u8_text ''database'' @ [0] @ u8_text database @ [0] @ [0]
      in be_bytes 4 (4 + length body) @ body)"

definition sendPassword :: "pg \<Rightarrow> go_error option \<times> pg" where
  "sendPassword c =
     (let msg = u8_text (pg_password c) @ [0]
      in pg_send (kind_of (CHR ''p'') # be_bytes 4 (4 + length msg) @ msg) c)"

definition error_or_panic :: "bytes \<Rightarrow> (pg_error, 'a) outcome" where
  "error_or_panic payload = (case errorResponse payload of None \<Rightarrow> Panic | Some e \<Rightarrow> Fail e)"

definition startup_on :: "pg \<Rightarrow> pg_message \<Rightarrow> pg + (pg_error, unit) outcome \<times> pg" where
  "startup_on c = (\<lambda>(kind, payload).
     if kind = kind_of (CHR ''R'') then
       (case be_uint 4 payload of
          None \<Rightarrow> Inr (Panic, c)
        | Some code \<Rightarrow>
            if code = 0 then Inl c
            else if code = 3 then
              (if pg_password c = [] then Inr (Fail (IoErr ''server wants a password and none was given''), c)
               else case sendPassword c of (Some e, c) \<Rightarrow> Inr (Fail (IoErr e), c) | (None, c) \<Rightarrow> Inl c)
            else Inr (Fail (IoErr (''server wants auth method '' @ itoa (int code)
              @ '', pgwire does trust and cleartext'')), c))
     else if kind = kind_of (CHR ''E'') then Inr (error_or_panic payload, c)
     else if kind = kind_of (CHR ''Z'') then Inr (Ok (), c)
     else if kind \<in> {kind_of (CHR ''S''), kind_of (CHR ''K''), kind_of (CHR ''N'')} then Inl c
     else Inr (Fail (IoErr (''unexpected '' @ text_u8 [kind] @ '' during startup'')), c))"

definition pg_startup :: "string \<Rightarrow> string \<Rightarrow> pg \<Rightarrow> (pg_error, unit) outcome \<times> pg" where
  "pg_startup user database c =
     (case pg_send (startup_message user database) c of
        (Some e, c) \<Rightarrow> (Fail (IoErr e), c)
      | (None, c) \<Rightarrow>
        let ((r, c), rest) = pg_loop startup_on (pg_in c) c in (r, c\<lparr>pg_in := rest\<rparr>))"

text \<open>Whether an address names a socket file, which is what picks the network.\<close>

definition dial_network :: "string \<Rightarrow> string" where
  "dial_network addr = (if CHR ''/'' \<in> set addr \<or> CHR 0x5C \<in> set addr then ''unix'' else ''tcp'')"

section \<open>Queries\<close>

definition query_message :: "string \<Rightarrow> bytes" where
  "query_message sql =
     (let msg = u8_text sql @ [0] in kind_of (CHR ''Q'') # be_bytes 4 (4 + length msg) @ msg)"

text \<open>The value held so far and the error seen so far.\<close>

type_synonym query_state = "string \<times> pg_error option"

definition data_row :: "string \<Rightarrow> bytes \<Rightarrow> string option" where
  "data_row val payload =
     (if val \<noteq> [] then Some val else
      case be_uint 2 payload of None \<Rightarrow> None | Some cols \<Rightarrow>
      if cols = 0 then Some val else
      case be_uint 4 (drop 2 payload) of None \<Rightarrow> None | Some n \<Rightarrow>
      if n = 0xFFFFFFFF then Some val else
      let hi = unat (6 + of_nat n :: u32) in
      if 6 \<le> hi \<and> hi \<le> length payload then Some (text_u8 (take (hi - 6) (drop 6 payload))) else None)"

definition query_on :: "query_state \<Rightarrow> pg_message
    \<Rightarrow> query_state + (pg_error, string \<times> pg_error option) outcome \<times> query_state" where
  "query_on st = (\<lambda>(kind, payload).
     if kind = kind_of (CHR ''D'') then
       (case data_row (fst st) payload of None \<Rightarrow> Inr (Panic, st) | Some v \<Rightarrow> Inl (v, snd st))
     else if kind = kind_of (CHR ''E'') then
       (case errorResponse payload of None \<Rightarrow> Inr (Panic, st) | Some e \<Rightarrow> Inl (fst st, Some e))
     else if kind = kind_of (CHR ''Z'') then Inr (Ok st, st)
     else if kind \<in> {kind_of (CHR ''T''), kind_of (CHR ''C''), kind_of (CHR ''I''), kind_of (CHR ''N''), kind_of (CHR ''S'')}
       then Inl st
     else Inr (Fail (IoErr (''unexpected '' @ text_u8 [kind] @ '' in query response'')), st))"

definition pg_Query :: "string \<Rightarrow> pg \<Rightarrow> (pg_error, string \<times> pg_error option) outcome \<times> pg" where
  "pg_Query sql c =
     (case pg_send (query_message sql) c of
        (Some e, c) \<Rightarrow> (Fail (IoErr e), c)
      | (None, c) \<Rightarrow>
        let ((r, _), rest) = pg_loop query_on (pg_in c) ([], None) in (r, c\<lparr>pg_in := rest\<rparr>))"

section \<open>Readiness\<close>

text \<open>
  \<open>attempt i\<close> is what dialing and running \<open>select 1\<close> came to: nothing when both worked.
\<close>

partial_function (option) WaitReady_from ::
    "string \<Rightarrow> (nat \<Rightarrow> int) \<Rightarrow> (nat \<Rightarrow> pg_error option) \<Rightarrow> int \<Rightarrow> nat \<Rightarrow> (pg_error + nat) option" where
  "WaitReady_from addr clock attempt deadline i =
     (if clock i < deadline then
        (case attempt i of
           None \<Rightarrow> Some (Inr i)
         | Some err \<Rightarrow>
             if (case err of PgErr _ _ \<Rightarrow> \<not> Starting err | IoErr _ \<Rightarrow> False) then Some (Inl err)
             else WaitReady_from addr clock attempt deadline (i + 1))
      else Some (Inl (IoErr (''server never came up at '' @ addr))))"

definition WaitReady :: "string \<Rightarrow> (nat \<Rightarrow> int) \<Rightarrow> (nat \<Rightarrow> pg_error option) \<Rightarrow> int \<Rightarrow> (pg_error + nat) option" where
  "WaitReady addr clock attempt deadline = WaitReady_from addr clock attempt deadline 0"

section \<open>Reading what a server sends\<close>

definition message_bytes :: "pg_message \<Rightarrow> bytes" where
  "message_bytes m = fst m # be_bytes 4 (length (snd m) + 4) @ snd m"

definition message_wf :: "pg_message \<Rightarrow> bool" where
  "message_wf m \<longleftrightarrow> length (snd m) + 4 < 2 ^ 32"

lemma pg_read_message:
  assumes "message_wf m"
  shows "pg_read (message_bytes m @ rest) = Ok (m, rest)"
proof -
  have lt: "length (snd m) + 4 < 256 ^ 4" using assms by (simp add: message_wf_def)
  have "read_full 5 (message_bytes m @ rest) = Some (fst m # be_bytes 4 (length (snd m) + 4), snd m @ rest)"
    by (simp add: message_bytes_def read_full_def)
  moreover have "unat (of_nat (length (snd m) + 4) - 4 :: u32) = length (snd m)"
  proof -
    have "(of_nat (length (snd m) + 4) - 4 :: u32) = of_nat (length (snd m))" by simp
    moreover have "length (snd m) < 2 ^ 32" using assms by (simp add: message_wf_def)
    ultimately show ?thesis by (simp add: unat_of_nat)
  qed
  ultimately show ?thesis
    using lt by (simp add: pg_read_def be_value_bytes Let_def)
qed

interpretation backend: message_codec message_bytes pg_read message_wf
  by unfold_locales (rule pg_read_message)

lemma pg_loop_runs: "backend.runs on (\<lambda>r rest. (r, rest)) (pg_loop on)"
  unfolding backend.runs_def
  by (intro allI impI, subst pg_loop.simps) (simp add: pg_read_message)

text \<open>What a server answers a simple query with, and its wire form.\<close>

datatype answer = Row "bytes option list" | Failure "(char \<times> string) list" | Note u8 bytes

definition col_bytes :: "bytes option \<Rightarrow> bytes" where
  "col_bytes col = (case col of None \<Rightarrow> be_bytes 4 0xFFFFFFFF | Some b \<Rightarrow> be_bytes 4 (length b) @ b)"

definition row_payload :: "bytes option list \<Rightarrow> bytes" where
  "row_payload cols = be_bytes 2 (length cols) @ concat (map col_bytes cols)"

definition error_payload :: "(char \<times> string) list \<Rightarrow> bytes" where
  "error_payload fs = concat (map (\<lambda>(f, t). kind_of f # u8_text t @ [0]) fs) @ [0]"

definition wire :: "answer \<Rightarrow> pg_message" where
  "wire a = (case a of Row cols \<Rightarrow> (kind_of (CHR ''D''), row_payload cols)
     | Failure fs \<Rightarrow> (kind_of (CHR ''E''), error_payload fs) | Note k p \<Rightarrow> (k, p))"

definition answer_wf :: "answer \<Rightarrow> bool" where
  "answer_wf a \<longleftrightarrow> message_wf (wire a) \<and>
     (case a of
        Row cols \<Rightarrow> length cols < 2 ^ 16
      | Failure fs \<Rightarrow> \<forall>(f, t) \<in> set fs. f \<noteq> CHR 0x00 \<and> CHR 0x00 \<notin> set t
      | Note k p \<Rightarrow> k \<in> kind_of ` set ''TCINS'')"

lemma kind_of_eq [simp]: "kind_of a = kind_of b \<longleftrightarrow> a = b"
proof
  assume "kind_of a = kind_of b"
  then have "text_u8 [kind_of a] = text_u8 [kind_of b]" by simp
  then show "a = b" using text_u8_text[of "[a]"] text_u8_text[of "[b]"]
    by (simp add: u8_text_def kind_of_def)
qed simp

lemma kind_of_zero [simp]: "kind_of a = 0 \<longleftrightarrow> a = CHR 0x00"
  using kind_of_eq[of a "CHR 0x00"] by (simp add: kind_of_def)

lemma zero_kind: "0 \<in> set (u8_text t) \<longleftrightarrow> CHR 0x00 \<in> set t"
proof -
  have "u8_text t = map kind_of t" by (simp add: u8_text_def kind_of_def)
  then show ?thesis by (force simp: image_iff)
qed

lemma be_uint_append: "v < 256 ^ n \<Longrightarrow> be_uint n (be_bytes n v @ s) = Some v"
  by (simp add: be_uint_def be_value_bytes)

definition first_column :: "bytes option list \<Rightarrow> string" where
  "first_column cols = (case cols of Some b # _ \<Rightarrow> text_u8 b | _ \<Rightarrow> [])"

lemma data_row_payload:
  assumes "message_wf (k, row_payload cols)" and "length cols < 2 ^ 16"
  shows "data_row val (row_payload cols) = Some (if val \<noteq> [] then val else first_column cols)"
proof (cases cols)
  case Nil
  then show ?thesis
    using be_uint_append[of 0 2 "[]"] by (simp add: data_row_def row_payload_def first_column_def)
next
  case (Cons col cs)
  have n: "be_uint 2 (row_payload cols) = Some (length cols)"
    unfolding row_payload_def using assms(2) by (intro be_uint_append) simp
  have d: "drop 2 (row_payload cols) = col_bytes col @ concat (map col_bytes cs)"
    by (simp add: row_payload_def Cons)
  show ?thesis
  proof (cases col)
    case None
    have "be_uint 4 (drop 2 (row_payload cols)) = Some 0xFFFFFFFF"
      unfolding d None col_bytes_def option.case by (rule be_uint_append) simp
    then show ?thesis using n Cons None by (simp add: data_row_def first_column_def)
  next
    case (Some b)
    have len: "length b + 6 \<le> length (row_payload cols)"
      by (simp add: row_payload_def Cons Some col_bytes_def)
    then have b32: "length b + 6 < 2 ^ 32 - 1" using assms(1) by (simp add: message_wf_def)
    have "be_uint 4 (drop 2 (row_payload cols)) = Some (length b)"
      unfolding d Some col_bytes_def option.case append_assoc by (rule be_uint_append) (use b32 in simp)
    moreover have "unat (6 + of_nat (length b) :: u32) = length b + 6"
    proof -
      have "(6 + of_nat (length b) :: u32) = of_nat (length b + 6)" by simp
      then show ?thesis using b32 by (simp only: unat_of_nat) simp
    qed
    moreover have "take (length b) (drop 6 (row_payload cols)) = b"
      by (simp add: row_payload_def Cons Some col_bytes_def)
    ultimately show ?thesis using n Cons Some len b32
      by (simp add: data_row_def first_column_def)
  qed
qed

text \<open>What the fields of an error say: the last of each kind.\<close>

fun error_says :: "string \<times> string \<Rightarrow> (char \<times> string) list \<Rightarrow> string \<times> string" where
  "error_says cm [] = cm"
| "error_says (code, message) ((f, t) # fs) = error_says
     (if f = CHR ''C'' then (t, message) else if f = CHR ''M'' then (code, t) else (code, message)) fs"

lemma error_fields_payload:
  assumes "\<forall>(f, t) \<in> set fs. f \<noteq> CHR 0x00 \<and> CHR 0x00 \<notin> set t"
  shows "error_fields (error_payload fs) cm = Some (error_says cm fs)"
  using assms
proof (induction cm fs rule: error_says.induct)
  case (1 cm)
  obtain c m where "cm = (c, m)" by fastforce
  then show ?case by (simp add: error_payload_def error_fields.simps[of "[0]"])
next
  case (2 code message f t fs)
  have "\<forall>b \<in> set (u8_text t). b \<noteq> 0" using "2.prems" zero_kind[of t] by auto
  then have tw: "takeWhile (\<lambda>b. b \<noteq> 0) (u8_text t @ 0 # error_payload fs) = u8_text t"
    by (simp add: takeWhile_append2)
  have p: "error_payload ((f, t) # fs) = kind_of f # u8_text t @ 0 # error_payload fs"
    by (simp add: error_payload_def)
  show ?case
    unfolding p using "2.prems" 2
    by (subst error_fields.simps) (auto simp add: tw Let_def split: if_splits)
qed

lemma errorResponse_payload:
  assumes "\<forall>(f, t) \<in> set fs. f \<noteq> CHR 0x00 \<and> CHR 0x00 \<notin> set t"
  shows "errorResponse (error_payload fs) = Some (case error_says ([], []) fs of (c, m) \<Rightarrow> PgErr c m)"
  by (simp add: errorResponse_def error_fields_payload[OF assms])

text \<open>The state of a query after a list of answers.\<close>

fun answered :: "query_state \<Rightarrow> answer list \<Rightarrow> query_state" where
  "answered st [] = st"
| "answered (val, err) (Row cols # as) = answered (if val \<noteq> [] then val else first_column cols, err) as"
| "answered (val, err) (Failure fs # as) =
     answered (val, Some (case error_says ([], []) fs of (c, m) \<Rightarrow> PgErr c m)) as"
| "answered (val, err) (Note k p # as) = answered (val, err) as"

lemma query_over:
  assumes "\<forall>a \<in> set as. answer_wf a"
  shows "backend.over query_on st (map wire as) = Inl (answered st as)"
  using assms
proof (induction st as rule: answered.induct)
  case (2 val err cols as)
  then have "data_row val (row_payload cols) = Some (if val \<noteq> [] then val else first_column cols)"
    by (intro data_row_payload) (auto simp: answer_wf_def wire_def)
  then show ?case using 2 by (simp add: wire_def query_on_def)
next
  case (3 val err fs as)
  then have "errorResponse (error_payload fs) = Some (case error_says ([], []) fs of (c, m) \<Rightarrow> PgErr c m)"
    by (intro errorResponse_payload) (auto simp: answer_wf_def)
  then show ?case using 3 by (simp add: wire_def query_on_def)
next
  case (4 val err k p as)
  then have "k \<in> {kind_of (CHR ''T''), kind_of (CHR ''C''), kind_of (CHR ''I''), kind_of (CHR ''N''), kind_of (CHR ''S'')}"
    by (auto simp: answer_wf_def)
  then show ?case using 4 by (auto simp: wire_def query_on_def)
qed simp

lemma answered_value:
  "fst (answered (val, err) as) =
     hd (filter (\<lambda>v. v \<noteq> []) (val # List.map_filter (\<lambda>a. case a of Row cols \<Rightarrow> Some (first_column cols) | _ \<Rightarrow> None) as) @ [[]])"
  by (induction "(val, err)" as arbitrary: val err rule: answered.induct)
    (auto simp: map_filter_simps split: if_splits)

text \<open>
  C29: against a server that answers with rows, errors and notices and ends with ready, a query
  never panics; it returns the first non-empty first column of all the rows, not only the first
  row's, with the last error, and leaves the input at the byte after ready.
\<close>

theorem pg_Query_answers:
  assumes "\<forall>a \<in> set as. answer_wf a" and "\<not> pg_gone c"
    and "pg_in c = concat (map message_bytes (map wire as @ [(kind_of (CHR ''Z''), state)])) @ rest"
    and "length state < 100"
  shows "pg_Query sql c = (Ok (answered ([], None) as),
      c\<lparr>pg_in := rest, pg_out := pg_out c @ query_message sql\<rparr>)
    \<and> fst (answered ([], None) as) = hd (filter (\<lambda>v. v \<noteq> [])
        (List.map_filter (\<lambda>a. case a of Row cols \<Rightarrow> Some (first_column cols) | _ \<Rightarrow> None) as) @ [[]])"
proof -
  have wf: "\<forall>m \<in> set (map wire as @ [(kind_of (CHR ''Z''), state)]). message_wf m"
    using assms(1,4) by (auto simp: answer_wf_def message_wf_def)
  have "backend.over query_on ([], None) (map wire as @ [(kind_of (CHR ''Z''), state)])
      = Inr ((Ok (answered ([], None) as), answered ([], None) as), [])"
    using assms(1) by (simp add: backend.over_append query_over query_on_def)
  then have "pg_loop query_on (pg_in c) ([], None) = ((Ok (answered ([], None) as), answered ([], None) as), rest)"
    unfolding assms(3) by (subst backend.loop_over[OF pg_loop_runs wf]) simp
  then show ?thesis
    using assms(2) answered_value[of "[]" None as] by (simp add: pg_Query_def pg_send_def)
qed

theorem pg_Query_answers_witness:
  "fst (pg_Query ''select 1'' \<lparr>pg_in = concat (map message_bytes
       (map wire [Row [Some []], Row [Some (u8_text ''1'')]] @ [(kind_of (CHR ''Z''), [73])])) @ [],
     pg_out = [], pg_password = [], pg_gone = False\<rparr>) = Ok (''1'', None)"
  using pg_Query_answers[of "[Row [Some []], Row [Some (u8_text ''1'')]]"
      "\<lparr>pg_in = concat (map message_bytes
         (map wire [Row [Some []], Row [Some (u8_text ''1'')]] @ [(kind_of (CHR ''Z''), [73])])) @ [],
       pg_out = [], pg_password = [], pg_gone = False\<rparr>" "[73]" "[]" "''select 1''"]
  by (simp add: answer_wf_def wire_def message_wf_def row_payload_def col_bytes_def first_column_def)



lemma WaitReady_from_retries:
  assumes "i \<le> k" and "\<forall>j. i \<le> j \<and> j < k \<longrightarrow> clock j < deadline \<and>
      (\<exists>e. attempt j = Some e \<and> (\<forall>c m. e = PgErr c m \<longrightarrow> c = ''57P03''))"
  shows "WaitReady_from addr clock attempt deadline i = WaitReady_from addr clock attempt deadline k"
  using assms
proof (induction "k - i" arbitrary: i)
  case (Suc n)
  have "i < k" using Suc.hyps(2) by simp
  with Suc.prems(2) obtain e where e: "clock i < deadline" "attempt i = Some e"
    "\<forall>c m. e = PgErr c m \<longrightarrow> c = ''57P03''"
    by blast
  then have "WaitReady_from addr clock attempt deadline i = WaitReady_from addr clock attempt deadline (i + 1)"
    by (subst WaitReady_from.simps) (simp add: Starting_def split: pg_error.splits)
  moreover have "WaitReady_from addr clock attempt deadline (i + 1) = WaitReady_from addr clock attempt deadline k"
    using Suc.hyps(2) Suc.prems by (intro Suc.hyps(1)) auto
  ultimately show ?case by simp
qed simp

lemma WaitReady_body:
  assumes "(if clock i < deadline then
        (case attempt i of None \<Rightarrow> Some (Inr i)
         | Some err \<Rightarrow> if (case err of PgErr _ _ \<Rightarrow> \<not> Starting err | IoErr _ \<Rightarrow> False) then Some (Inl err)
             else next1)
      else Some (Inl e)) = Some r"
  obtains (ready) "clock i < deadline" "attempt i = None" "r = Inr i" | (failed) err where "r = Inl err"
    | (again) "clock i < deadline" "next1 = Some r"
proof (cases "clock i < deadline")
  case now: True
  show ?thesis
  proof (cases "attempt i")
    case None
    then have "r = Inr i" using assms now by simp
    then show ?thesis by (rule ready[OF now None])
  next
    case (Some err)
    show ?thesis
    proof (cases "(case err of PgErr _ _ \<Rightarrow> \<not> Starting err | IoErr _ \<Rightarrow> False)")
      case True
      then have "r = Inl err" using assms now Some by simp
      then show ?thesis by (rule failed)
    next
      case False
      then have "next1 = Some r" using assms now Some by simp
      then show ?thesis by (rule again[OF now])
    qed
  qed
next
  case False
  then have "r = Inl e" using assms by simp
  then show ?thesis by (rule failed)
qed

text \<open>A server is taken for ready only at an attempt that got through before the deadline.\<close>

lemma WaitReady_from_Inr:
  assumes "WaitReady_from addr clock attempt deadline i = Some r"
  shows "\<forall>k. r = Inr k \<longrightarrow> attempt k = None \<and> i \<le> k \<and> (\<forall>j. i \<le> j \<and> j \<le> k \<longrightarrow> clock j < deadline)"
proof (rule WaitReady_from.raw_induct[where P = "\<lambda>addr clock attempt deadline i r.
    \<forall>k. r = Inr k \<longrightarrow> attempt k = None \<and> i \<le> k \<and> (\<forall>j. i \<le> j \<and> j \<le> k \<longrightarrow> clock j < deadline)", OF _ assms], goal_cases)
  case (1 WR addr clock attempt deadline i r)
  from 1(2) show ?case
  proof (cases rule: WaitReady_body)
    case ready
    then show ?thesis by (metis le_antisym le_refl sum.inject(2))
  next
    case (failed err)
    then show ?thesis by simp
  next
    case again
    show ?thesis
    proof (intro allI impI)
      fix k assume "r = Inr k"
      then have k: "attempt k = None" "i + 1 \<le> k" "\<forall>j. i + 1 \<le> j \<and> j \<le> k \<longrightarrow> clock j < deadline"
        using 1(1)[OF again(2)] by blast+
      have "clock j < deadline" if "i \<le> j" "j \<le> k" for j
        using k(3) again(1) that by (cases "j = i") simp_all
      then show "attempt k = None \<and> i \<le> k \<and> (\<forall>j. i \<le> j \<and> j \<le> k \<longrightarrow> clock j < deadline)" using k by simp
    qed
  qed
qed

end
