(* ===== verification/CmdAttach.thy ===== *)
theory CmdAttach
  imports Command Pgwire GoTime Scenario
begin

text \<open>
  \<open>zoubench attach\<close> (src/cmd/zoubench/attach.go): cycles of spawning a postmaster, waiting until it
  answers one query, and stopping it, and the quantiles of what they took. What a program, the clock
  and the server came to is in \<open>cycle_world\<close> and \<open>attach_world\<close>; an error the command dies of comes
  with what was done to the server until then.
\<close>

section \<open>Quantiles\<close>

definition quantile :: "f64 list \<Rightarrow> f64 \<Rightarrow> f64" where
  "quantile vals q =
     (if vals = [] then 0
      else let sorted1 = sort vals in sorted1 ! nat (trunc (fmul (f64_of_int (int (length sorted1) - 1)) q)))"

section \<open>Cycles\<close>

record attach_args =
  aaScenario :: string
  aaPgbin :: string
  aaDatadir :: string
  aaLabel :: string
  aaSockdir :: string
  aaDbname :: string
  aaUser :: string
  aaStats :: string
  aaOutdir :: string

record cycle_world =
  cyStart :: "string list \<Rightarrow> go_error option"
  cyT0 :: int
  cyClock :: "nat \<Rightarrow> int"
  cyAttempt :: "nat \<Rightarrow> pg_error option"
  cyConnected :: int
  cyQuery :: "string \<Rightarrow> pg_error option"
  cyAnswered :: int
  cyStop :: int
  cySignal :: "go_error option"
  cyWait :: "go_error option"
  cyStopped :: int

datatype server_event = Spawned | ServerKilled | Interrupted

type_synonym attach_error = "go_error \<times> server_event list"

record cycle =
  connect_ms :: f64
  first_row_ms :: f64
  stop_ms :: f64

record attach_state =
  atEvents :: "server_event list"
  atCycles :: "cycle list"

definition pg_error_text :: "pg_error \<Rightarrow> string" where
  "pg_error_text e = (case e of PgErr code message \<Rightarrow> code @ '': '' @ message | IoErr s \<Rightarrow> s)"

definition server_argv :: "attach_args \<Rightarrow> scenario \<Rightarrow> string list" where
  "server_argv a sc =
     [path_Join (aaPgbin a) ''postgres'', ''-D'', aaDatadir a, ''-p'', itoa (sc_Port sc), ''-k'', aaSockdir a]"

definition attach_addr :: "attach_args \<Rightarrow> scenario \<Rightarrow> string" where
  "attach_addr a sc = path_Join (aaSockdir a) (''.s.PGSQL.'' @ itoa (sc_Port sc))"

definition attach_cycle :: "attach_args \<Rightarrow> scenario \<Rightarrow> nat \<Rightarrow> cycle_world \<Rightarrow> attach_state
    \<Rightarrow> (attach_error + attach_state) option" where
  "attach_cycle a sc k y st =
     (let fail = (\<lambda>ev e. Some (Inl (e, atEvents st @ ev)));
          nth1 = (\<lambda>what e. ''cycle '' @ itoa (int k) @ what @ pg_error_text e)
      in case cyStart y (server_argv a sc) of Some e \<Rightarrow> fail [] e
      | None \<Rightarrow>
        (case WaitReady (attach_addr a sc) (cyClock y) (cyAttempt y) (cyT0 y + 60 * GoTime.Second) of
           None \<Rightarrow> None
         | Some (Inl e) \<Rightarrow> fail [Spawned, ServerKilled] (nth1 '' never became ready: '' e)
         | Some (Inr _) \<Rightarrow>
           (case cyQuery y (sc_Query sc) of Some e \<Rightarrow> fail [Spawned, ServerKilled] (nth1 '' query: '' e)
            | None \<Rightarrow>
              (case cySignal y of Some e \<Rightarrow> fail [Spawned] e
               | None \<Rightarrow>
                 (case cyWait y of Some e \<Rightarrow> fail [Spawned, Interrupted] e
                  | None \<Rightarrow> Some (Inr \<lparr>atEvents = atEvents st @ [Spawned, Interrupted],
                      atCycles = atCycles st @ [\<lparr>connect_ms = ms (cyConnected y - cyT0 y),
                        first_row_ms = ms (cyAnswered y - cyT0 y), stop_ms = ms (cyStopped y - cyStop y)\<rparr>]\<rparr>))))))"

fun attach_loop :: "attach_args \<Rightarrow> scenario \<Rightarrow> (nat \<Rightarrow> cycle_world) \<Rightarrow> nat list \<Rightarrow> attach_state
    \<Rightarrow> (attach_error + attach_state) option" where
  "attach_loop a sc world [] st = Some (Inr st)"
| "attach_loop a sc world (k # ks) st =
     run_then (attach_cycle a sc k (world k) st) (\<lambda>st. attach_loop a sc world ks st)"

section \<open>The command\<close>

record attach_world =
  awFile :: "string go_result"
  awUser :: "string go_result"
  awDate :: string
  awEnv :: doc
  awSim :: string
  awDelay :: string
  awOpsBefore :: "bytes go_result"
  awCycles :: "nat \<Rightarrow> cycle_world"
  awOpsAfter :: "bytes go_result"
  awMkdir :: "go_error option"
  awWrite :: "go_error option"

definition cycle_any :: "cycle \<Rightarrow> any" where
  "cycle_any c = AMap [(''connect_ms'', AFloat (connect_ms c)), (''first_row_ms'', AFloat (first_row_ms c)),
     (''stop_ms'', AFloat (stop_ms c))]"

definition attach_ms :: "cycle list \<Rightarrow> doc" where
  "attach_ms cycles =
     (let firstRows = map first_row_ms cycles; connects = map connect_ms cycles in
      [(''p50'', AFloat (quantile firstRows (fl (1 / 2)))), (''p95'', AFloat (quantile firstRows (fl (95 / 100)))),
       (''max'', AFloat (quantile firstRows 1)), (''connect_p50'', AFloat (quantile connects (fl (1 / 2))))])"

definition attach_head :: "attach_args \<Rightarrow> attach_world \<Rightarrow> scenario \<Rightarrow> any \<Rightarrow> doc" where
  "attach_head a w sc config =
     (let spec = sim_spec [] (awSim w) (awDelay w) in
      [(''scenario'', AStr (sc_Name sc)), (''label'', AStr (aaLabel a)), (''date'', AStr (awDate w)),
       (''config'', config), (''env'', AMap (awEnv w))]
      @ (if spec \<noteq> [] then [(''simulated'', AStr spec)] else []))"

record attach_out =
  atDoc :: doc
  atPath :: string
  atState :: attach_state

definition cmdAttach :: "attach_args \<Rightarrow> attach_world \<Rightarrow> (attach_error + attach_out) option" where
  "cmdAttach a w =
     (let or_die = (\<lambda>ev r. Some (map_sum (\<lambda>e. (e, ev)) id r)) in
      run_then (or_die [] (and_then (scenario_Load (aaScenario a) (awFile w)) (\<lambda>(sc, config).
        if \<not> IsAttach sc then Inl (aaScenario a @ '' is not an attach scenario'')
        else and_then (if aaUser a = [] then awUser w else Inr (aaUser a)) (\<lambda>_.
          map_sum id (\<lambda>opsBefore. (sc, config, opsBefore)) (stats_mark (aaStats a) (awOpsBefore w))))))
      (\<lambda>(sc, config, opsBefore).
      run_then (attach_loop a sc (awCycles w) [0..<nat (sc_Cycles sc)] \<lparr>atEvents = [], atCycles = []\<rparr>) (\<lambda>st.
      let die_after = (\<lambda>r. Some (map_sum (\<lambda>e. (e, atEvents st)) id r)) in
      run_then (die_after (and_then (stats_mark (aaStats a) (awOpsAfter w)) (\<lambda>opsAfter.
        and_then (ops_delta opsBefore opsAfter) (\<lambda>window.
        and_then (dies (awMkdir w)) (\<lambda>_. and_then (dies (awWrite w)) (\<lambda>_. Inr window)))))) (\<lambda>window.
      Some (Inr \<lparr>atDoc = attach_head a w sc config @ [(''cycles'', AList (map cycle_any (atCycles st))),
                    (''attach_ms'', AMap (attach_ms (atCycles st)))] @ ops_block window,
                 atPath = path_Join (aaOutdir a) (result_name (sc_Name sc) (aaLabel a) (awDate w)),
                 atState = st\<rparr>)))))"

section \<open>What is measured\<close>

lemma trunc_of_int: "0 \<le> i \<Longrightarrow> trunc (of_int i) = i"
  by (simp add: trunc_def)

lemma quantile_index:
  assumes "vals \<noteq> []" and "length vals \<le> 2 ^ 53" and "0 \<le> q" and "q \<le> 1"
  shows "nat (trunc (fmul (f64_of_int (int (length vals) - 1)) q)) < length vals"
proof -
  let ?n = "int (length vals) - 1"
  have n: "0 \<le> ?n" "\<bar>?n\<bar> \<le> 2 ^ 53" using assms(1,2) by (cases vals; simp)+
  have "fmul (f64_of_int ?n) q \<le> fmul (f64_of_int ?n) 1"
    using assms(3,4) n by (intro fmul_mono f64_of_int_nonneg) simp_all
  also have "\<dots> = of_int ?n" using n by (simp only: fmul_def mult_1_right f64_of_int_exact fl_of_int)
  finally have "trunc (fmul (f64_of_int ?n) q) \<le> trunc (of_int ?n)" by (rule trunc_mono)
  also have "\<dots> = ?n" using n(1) by (rule trunc_of_int)
  finally show ?thesis using n(1) assms(1) by (cases vals) auto
qed

lemma quantile_mem: "vals \<noteq> [] \<Longrightarrow> length vals \<le> 2 ^ 53 \<Longrightarrow> 0 \<le> q \<Longrightarrow> q \<le> 1 \<Longrightarrow> quantile vals q \<in> set vals"
  using quantile_index[of vals q] by (simp add: quantile_def Let_def) (metis length_sort nth_mem set_sort)

lemma quantile_mono:
  assumes "vals \<noteq> []" and "length vals \<le> 2 ^ 53" and "0 \<le> p" and "p \<le> q" and "q \<le> 1"
  shows "quantile vals p \<le> quantile vals q"
proof -
  have "0 \<le> int (length vals) - 1" using assms(1) by (cases vals) simp_all
  then have "fmul (f64_of_int (int (length vals) - 1)) p \<le> fmul (f64_of_int (int (length vals) - 1)) q"
    using assms(3,4) by (intro fmul_mono f64_of_int_nonneg) simp_all
  then have "nat (trunc (fmul (f64_of_int (int (length vals) - 1)) p)) \<le> nat (trunc (fmul (f64_of_int (int (length vals) - 1)) q))"
    by (intro nat_mono trunc_mono)
  moreover have "nat (trunc (fmul (f64_of_int (int (length vals) - 1)) q)) < length (sort vals)"
    using quantile_index[of vals q] assms by simp
  ultimately show ?thesis using assms(1) by (simp add: quantile_def Let_def sorted_nth_mono)
qed

lemma quantile_below:
  assumes "list_all2 (\<le>) xs ys" and "xs \<noteq> []" and "length xs \<le> 2 ^ 53" and "0 \<le> q" and "q \<le> 1"
  shows "quantile xs q \<le> quantile ys q"
proof -
  have len: "length xs = length ys" "ys \<noteq> []" using assms(1,2) by (auto dest: list_all2_lengthD)
  have "nat (trunc (fmul (f64_of_int (int (length xs) - 1)) q)) < length (sort xs)"
    using quantile_index[of xs q] assms by simp
  from list_all2_nthD[OF sort_below[OF assms(1)] this] show ?thesis
    using assms(2) len by (simp add: quantile_def Let_def)
qed

text \<open>The index is rounded down: of two values, the one published as their p95 is the smaller.\<close>

lemma quantile_two: "quantile [2, 1] (fl (95 / 100)) = 1"
  by code_simp

text \<open>Servers spawned and neither killed nor asked to stop.\<close>

definition servers_left :: "server_event list \<Rightarrow> int" where
  "servers_left ev = int (length (filter (\<lambda>e. e = Spawned) ev)) - int (length (filter (\<lambda>e. e \<noteq> Spawned) ev))"

lemma servers_left_append: "servers_left (xs @ ys) = servers_left xs + servers_left ys"
  by (simp add: servers_left_def)

lemma servers_left_simps: "servers_left [] = 0" "servers_left [Spawned] = 1" "servers_left [Spawned, Interrupted] = 0"
  "servers_left [Spawned, ServerKilled] = 0"
  by (simp_all add: servers_left_def)

definition cycle_of :: "cycle_world \<Rightarrow> cycle \<Rightarrow> bool" where
  "cycle_of y c \<longleftrightarrow> connect_ms c = ms (cyConnected y - cyT0 y) \<and> first_row_ms c = ms (cyAnswered y - cyT0 y)
     \<and> (\<exists>i. cyAttempt y i = None \<and> (\<forall>j \<le> i. cyClock y j < cyT0 y + 60 * GoTime.Second)) \<and> cySignal y = None \<and> cyWait y = None"

lemma attach_cycle_Inr:
  assumes "attach_cycle a sc k y st = Some (Inr st')"
  obtains c where "atCycles st' = atCycles st @ [c]" "atEvents st' = atEvents st @ [Spawned, Interrupted]" "cycle_of y c"
proof -
  obtain i where "WaitReady (attach_addr a sc) (cyClock y) (cyAttempt y) (cyT0 y + 60 * GoTime.Second) = Some (Inr i)"
    and st': "st' = \<lparr>atEvents = atEvents st @ [Spawned, Interrupted],
                      atCycles = atCycles st @ [\<lparr>connect_ms = ms (cyConnected y - cyT0 y),
                        first_row_ms = ms (cyAnswered y - cyT0 y), stop_ms = ms (cyStopped y - cyStop y)\<rparr>]\<rparr>"
    and ok: "cySignal y = None" "cyWait y = None"
    using assms by (auto simp: attach_cycle_def Let_def split: option.splits sum.splits)
  then have "cyAttempt y i = None \<and> (\<forall>j \<le> i. cyClock y j < cyT0 y + 60 * GoTime.Second)"
    using WaitReady_from_Inr[of "attach_addr a sc" "cyClock y" "cyAttempt y" "cyT0 y + 60 * GoTime.Second" 0 "Inr i"]
    by (simp add: WaitReady_def)
  then have "cycle_of y \<lparr>connect_ms = ms (cyConnected y - cyT0 y), first_row_ms = ms (cyAnswered y - cyT0 y),
      stop_ms = ms (cyStopped y - cyStop y)\<rparr>"
    using ok unfolding cycle_of_def by (intro conjI exI[of _ i]) simp_all
  then show ?thesis by (intro that) (simp_all add: st')
qed

lemma attach_cycle_Inl:
  assumes "attach_cycle a sc k y st = Some (Inl (e, ev))"
  shows "servers_left ev = servers_left (atEvents st) \<or> servers_left ev = servers_left (atEvents st) + 1 \<and> cySignal y = Some e"
  using assms by (auto simp: attach_cycle_def Let_def servers_left_append servers_left_simps split: option.splits sum.splits)

lemma attach_loop_log:
  assumes "attach_loop a sc world [j..<n] st = Some r" and "servers_left (atEvents st) = 0"
    and "length (atCycles st) = j" and "\<forall>k < j. cycle_of (world k) (atCycles st ! k)" and "j \<le> n"
  shows "case r of Inl (e, ev) \<Rightarrow> servers_left ev = 0 \<or> servers_left ev = 1 \<and> (\<exists>k. cySignal (world k) = Some e)
    | Inr st' \<Rightarrow> servers_left (atEvents st') = 0 \<and> length (atCycles st') = n \<and> (\<forall>k < n. cycle_of (world k) (atCycles st' ! k))"
  using assms
proof (induction "n - j" arbitrary: j st)
  case 0
  then show ?case by auto
next
  case (Suc i)
  then have j: "j < n" "[j..<n] = j # [Suc j..<n]" by (auto simp: upt_conv_Cons)
  show ?case
  proof (cases "attach_cycle a sc j (world j) st")
    case None
    then show ?thesis using Suc.prems(1) by (simp add: j(2))
  next
    case (Some q)
    show ?thesis
    proof (cases q)
      case (Inl p)
      then have "r = Inl p" using Some Suc.prems(1) by (simp add: j(2))
      moreover obtain e ev where "p = (e, ev)" by (cases p)
      ultimately show ?thesis
        using attach_cycle_Inl[of a sc j "world j" st e ev] Some Inl Suc.prems(2) by auto
    next
      case (Inr st1)
      then obtain c where c: "atCycles st1 = atCycles st @ [c]" "atEvents st1 = atEvents st @ [Spawned, Interrupted]"
        "cycle_of (world j) c" using Some attach_cycle_Inr by metis
      have "attach_loop a sc world [Suc j..<n] st1 = Some r" using Some Inr Suc.prems(1) by (simp add: j(2))
      moreover have "\<forall>k < Suc j. cycle_of (world k) (atCycles st1 ! k)"
        using Suc.prems(3,4) c by (auto simp: less_Suc_eq nth_append)
      ultimately show ?thesis
        using Suc.hyps(1)[of "Suc j" st1] Suc.hyps(2) Suc.prems(2,3) c j(1)
        by (simp add: servers_left_append servers_left_simps)
    qed
  qed
qed

definition attach_events :: "attach_error + attach_out \<Rightarrow> server_event list" where
  "attach_events r = (case r of Inl (e, ev) \<Rightarrow> ev | Inr out \<Rightarrow> atEvents (atState out))"

definition clocks_ordered :: "(nat \<Rightarrow> cycle_world) \<Rightarrow> bool" where
  "clocks_ordered world \<longleftrightarrow> (\<forall>k. cyT0 (world k) \<le> cyConnected (world k) \<and> cyConnected (world k) \<le> cyAnswered (world k))"

text \<open>The figures of an attach run, against its cycles.\<close>

definition attach_figures :: "cycle list \<Rightarrow> doc \<Rightarrow> bool" where
  "attach_figures cycles d \<longleftrightarrow> (\<exists>p50 p95 mx c50. map_get d ''attach_ms'' = AMap [(''p50'', AFloat p50), (''p95'', AFloat p95),
       (''max'', AFloat mx), (''connect_p50'', AFloat c50)]
     \<and> p50 \<le> p95 \<and> p95 \<le> mx \<and> c50 \<le> p50 \<and> {p50, p95, mx} \<subseteq> first_row_ms ` set cycles \<and> c50 \<in> connect_ms ` set cycles)"

lemma quantiles_of_cycles:
  assumes "cycles \<noteq> []" and "length cycles \<le> 2 ^ 53" and "\<forall>c \<in> set cycles. connect_ms c \<le> first_row_ms c"
  shows "attach_figures cycles (xs @ [(''attach_ms'', AMap (attach_ms cycles))] @ ys) \<or> ''attach_ms'' \<in> fst ` set xs"
proof -
  have one: "fl 1 = 1" using fl_of_int[of 1] by simp
  have "fl (1 / 2) \<le> fl (95 / 100)" "fl (95 / 100) \<le> fl 1" "fl (1 / 2) \<le> fl 1" "0 \<le> fl (1 / 2)" "0 \<le> fl (95 / 100)"
    by (rule fl_mono, simp)+ (rule fl_nonneg, simp)+
  note qs = this[unfolded one]
  let ?f = "map first_row_ms cycles" and ?c = "map connect_ms cycles"
  have ne: "?f \<noteq> []" "?c \<noteq> []" "length ?f \<le> 2 ^ 53" "length ?c \<le> 2 ^ 53" using assms(1,2) by simp_all
  have "list_all2 (\<le>) ?c ?f" using assms(3) by (simp add: list_all2_map1 list_all2_map2 list_all2_same)
  then have "quantile ?c (fl (1 / 2)) \<le> quantile ?f (fl (1 / 2))"
    using ne qs by (intro quantile_below) (simp_all del: fl_half)
  moreover have "quantile ?f (fl (1 / 2)) \<le> quantile ?f (fl (95 / 100))" "quantile ?f (fl (95 / 100)) \<le> quantile ?f 1"
    using ne qs by (intro quantile_mono; simp del: fl_half)+
  moreover have "quantile ?f (fl (1 / 2)) \<in> set ?f" "quantile ?f (fl (95 / 100)) \<in> set ?f" "quantile ?f 1 \<in> set ?f"
    "quantile ?c (fl (1 / 2)) \<in> set ?c"
    using ne qs by (intro quantile_mem; simp del: fl_half)+
  ultimately show ?thesis by (auto simp: attach_figures_def attach_ms_def Let_def map_get_append simp del: fl_half)
qed

lemma attach_head_keys: "''attach_ms'' \<notin> fst ` set (attach_head a w sc config @ [(''cycles'', v)])"
  by (auto simp: attach_head_def Let_def)

lemma cmdAttach_ends:
  assumes "cmdAttach a w = Some r"
  obtains (begun) e where "r = Inl (e, [])"
  | (cycled) sc e ev where "attach_loop a sc (awCycles w) [0..<nat (sc_Cycles sc)] \<lparr>atEvents = [], atCycles = []\<rparr> = Some (Inl (e, ev))"
      "r = Inl (e, ev)"
  | (unsaved) sc st e where "attach_loop a sc (awCycles w) [0..<nat (sc_Cycles sc)] \<lparr>atEvents = [], atCycles = []\<rparr> = Some (Inr st)"
      "r = Inl (e, atEvents st)"
  | (saved) sc config st window where
      "attach_loop a sc (awCycles w) [0..<nat (sc_Cycles sc)] \<lparr>atEvents = [], atCycles = []\<rparr> = Some (Inr st)"
      "r = Inr \<lparr>atDoc = attach_head a w sc config @ [(''cycles'', AList (map cycle_any (atCycles st))),
                    (''attach_ms'', AMap (attach_ms (atCycles st)))] @ ops_block window,
                 atPath = path_Join (aaOutdir a) (result_name (sc_Name sc) (aaLabel a) (awDate w)), atState = st\<rparr>"
proof (cases "and_then (scenario_Load (aaScenario a) (awFile w)) (\<lambda>(sc, config).
        if \<not> IsAttach sc then Inl (aaScenario a @ '' is not an attach scenario'')
        else and_then (if aaUser a = [] then awUser w else Inr (aaUser a)) (\<lambda>_.
          map_sum id (\<lambda>opsBefore. (sc, config, opsBefore)) (stats_mark (aaStats a) (awOpsBefore w))))")
  case (Inl e)
  then have "r = Inl (e, [])" using assms by (simp add: cmdAttach_def)
  then show thesis by (rule begun)
next
  case (Inr p)
  obtain sc config opsBefore where p: "p = (sc, config, opsBefore)" by (cases p)
  let ?l = "attach_loop a sc (awCycles w) [0..<nat (sc_Cycles sc)] \<lparr>atEvents = [], atCycles = []\<rparr>"
  obtain l where l: "?l = Some l" using assms Inr p by (cases ?l) (simp_all add: cmdAttach_def)
  show thesis
  proof (cases l)
    case (Inl q)
    obtain e ev where "q = (e, ev)" by (cases q)
    then show thesis using assms Inr p l Inl cycled[of sc e ev] by (simp add: cmdAttach_def)
  next
    case st: (Inr st)
    show thesis
      using assms Inr p l st unfolding cmdAttach_def Let_def
      by (auto simp: run_then_def map_sum_def split: sum.splits intro: unsaved saved)
  qed
qed


section \<open>An attach run as an example\<close>

definition one_cycle :: json where
  "one_cycle = JObj [(''name'', JStr ''a''), (''kind'', JStr ''attach''), (''cycles'', JNum ''1''), (''query'', JStr ''select'')]"

definition one_args :: attach_args where
  "one_args = \<lparr>aaScenario = ''a.json'', aaPgbin = ''pg'', aaDatadir = ''d'', aaLabel = ''l'', aaSockdir = ''/tmp'',
     aaDbname = ''postgres'', aaUser = ''me'', aaStats = [], aaOutdir = ''results''\<rparr>"

definition one_world :: attach_world where
  "one_world = \<lparr>awFile = Inr (MarshalIndent one_cycle), awUser = Inr ''me'', awDate = ''2026-01-02T03:04:05Z'', awEnv = [],
     awSim = [], awDelay = [], awOpsBefore = Inl ''none'',
     awCycles = (\<lambda>_. \<lparr>cyStart = (\<lambda>_. None), cyT0 = 0, cyClock = int, cyAttempt = (\<lambda>_. None), cyConnected = 2000000,
       cyQuery = (\<lambda>_. None), cyAnswered = 3000000, cyStop = 4000000, cySignal = None, cyWait = None, cyStopped = 5000000\<rparr>),
     awOpsAfter = Inl ''none'', awMkdir = None, awWrite = None\<rparr>"

lemma one_parse: "json_parse (MarshalIndent one_cycle) = Some one_cycle"
  unfolding one_cycle_def
  by (rule json_parse_Marshal; simp add: ascii_def scan_number_def scan_whole_def scan_digits_def scan_frac_def
      scan_exp_def is_digit_def)

lemma one_loads: "\<exists>sc config. scenario_Load (aaScenario one_args) (awFile one_world) = Inr (sc, config) \<and> IsAttach sc \<and> sc_Cycles sc = 1"
proof -
  let ?sc = "scenario_zero\<lparr>sc_Name := ''a'', sc_Kind := ''attach'', sc_Cycles := 1, sc_Query := ''select''\<rparr>"
  have "json_Unmarshal (dec_struct False scenario_fields) (MarshalIndent one_cycle) scenario_zero = Some ?sc"
    unfolding json_Unmarshal_def one_parse unfolding one_cycle_def by code_simp
  moreover obtain sc where "run_sections (scenario_sections (aaScenario one_args)) ?sc = Inr sc"
      "sc_Cycles sc = 1" "IsAttach sc"
    by (simp add: scenario_sections_def named_section_def attach_section_def fleet_section_def sockets_section_def
        sustain_section_def driver_section_def load_section_def kinds_of scenario_zero_def)
  ultimately show ?thesis
    using one_parse by (simp add: scenario_Load_def one_world_def) (simp add: one_cycle_def)
qed


end
