(* ===== verification/CmdSustain.thy ===== *)
theory CmdSustain
  imports Command SoakOps Scenario Zoustats Pgbench
begin

text \<open>
  \<open>zoubench sustain\<close> (src/cmd/zoubench/sustain.go, with src/cmd/zoubench/lock_unix.go): a soak from
  the lock of its work directory over the load and the segments, each with one kill drill and the
  checks after it, to the document it saves. What the world answers is in records: \<open>seg_world\<close> for
  one segment, \<open>soak_world\<close> for the rest. The state of the loop is \<open>soak_state\<close>, whose events say
  what the soak did to nodes and processes, in order. A command that dies is \<open>Some (Inl _)\<close>, with the
  events so far; one that never returns is \<open>None\<close>.
\<close>

section \<open>The work directory\<close>

record lock_world =
  lkOpen :: "go_error option"
  lkFlock :: "go_error option"
  lkHeld :: string
  lkTruncate :: "go_error option"
  lkSeek :: "go_error option"

definition lockWorkdir :: "string \<Rightarrow> lock_world \<Rightarrow> unit go_result" where
  "lockWorkdir dir l =
     and_then (dies (lkOpen l)) (\<lambda>_.
     if lkFlock l \<noteq> None then
       (let who = TrimSpace (lkHeld l); who = (if who = [] then ''unknown'' else who) in
        Inl (''workdir '' @ dir @ '' is already being soaked by pid '' @ who
          @ '', pick another workdir or stop that run first''))
     else and_then (dies (lkTruncate l)) (\<lambda>_. dies (lkSeek l)))"

section \<open>Nodes\<close>

record sustain_args =
  suScenario :: string
  suPgbin :: string
  suZoubin :: string
  suStore :: string
  suWorkdir :: string
  suLabel :: string
  suOutdir :: string
  suSimulated :: string

text \<open>What the soak does to nodes and processes.\<close>

datatype soak_event =
    NodeStarted string bool
  | NodeKilled string
  | SigKill int
  | ShmRemoved string

record dev_cmd =
  dvArgs :: "string list"
  dvEnv :: "string list"

definition startDev_cmd :: "string \<Rightarrow> string \<Rightarrow> string \<Rightarrow> int \<Rightarrow> string \<Rightarrow> string \<Rightarrow> bool \<Rightarrow> dev_cmd" where
  "startDev_cmd zoubin store pgbin port rtdir statsPath stealLease =
     \<lparr>dvArgs = [zoubin, ''dev'', store, ''--pg-bin'', pgbin, ''--port'', itoa port, ''--runtime'', rtdir],
      dvEnv = [''ZOU_STORE_STATS='' @ statsPath] @ (if stealLease then [''ZOU_LEASE_STEAL=1''] else [])\<rparr>"

text \<open>Opening the log and starting the supervisor, each with what it came to; the node is its runtime directory.\<close>

record node_start =
  nsLog :: "go_error option"
  nsCmd :: "dev_cmd \<Rightarrow> go_error option"

definition startDev :: "node_start \<Rightarrow> sustain_args \<Rightarrow> int \<Rightarrow> nat \<Rightarrow> bool \<Rightarrow> (string \<times> soak_event list) go_result" where
  "startDev n a port rtSeq stealLease =
     (let rtdir = path_Join (suWorkdir a) (''rt-'' @ itoa (int rtSeq)) in
      and_then (dies (nsLog n)) (\<lambda>_.
      and_then (dies (nsCmd n (startDev_cmd (suZoubin a) (suStore a) (suPgbin a) port rtdir
                  (path_Join (suWorkdir a) ''store-stats'') stealLease))) (\<lambda>_.
      Inr (rtdir, [NodeStarted rtdir stealLease]))))"

text \<open>The shared memory segments of \<open>reapSHM\<close>, by what the platform and \<open>ipcs\<close> said.\<close>

record shm_world =
  shDarwin :: bool
  shMe :: string
  shIpcs :: "string go_result"

definition reap_events :: "shm_world \<Rightarrow> soak_event list" where
  "reap_events s = map ShmRemoved (reapSHM (shDarwin s) (shMe s) (shIpcs s))"

definition killNode :: "shm_world \<Rightarrow> string \<Rightarrow> soak_event list" where
  "killNode s rtdir = NodeKilled rtdir # reap_events s"

section \<open>One segment\<close>

record write_probe =
  wpClock :: "nat \<Rightarrow> int"
  wpAttempt :: "nat \<Rightarrow> string go_result"
  wpDone :: "nat \<Rightarrow> int"

definition probe_write :: "write_probe \<Rightarrow> int \<Rightarrow> int \<Rightarrow> f64 option option" where
  "probe_write p start deadline = waitWrite (wpClock p) (wpAttempt p) (wpDone p) start deadline"

text \<open>
  The world of a segment. A sample of the compact loop carries whether the loop is this segment's
  own: one that was still sweeping when its segment ended records later. \<open>gwTicks\<close> are the rounds
  of the ledger's writer between the check of the segment before and the one of this.
\<close>

record seg_world =
  gwOpsBefore :: "bytes go_result"
  gwOpsAfter :: "bytes go_result"
  gwTreePid :: "string go_result"
  gwTree :: doc
  gwAmp :: "(bool \<times> string go_result \<times> int) list"
  gwSweeps :: "(string go_result \<times> int \<times> int) list"
  gwFolds :: "((exec_error + string) \<times> int \<times> int) list"
  gwBenchStart :: "string list \<Rightarrow> go_error option"
  gwBenchWait :: "go_error option"
  gwBenchOut :: string
  gwKillAt :: int
  gwPidfile :: "string go_result"
  gwPusher :: "nat \<Rightarrow> int go_result"
  gwPusherNow :: int
  gwPusherClock :: "nat \<Rightarrow> int"
  gwSignal :: "int \<Rightarrow> go_error option"
  gwShmKill :: shm_world
  gwStart :: node_start
  gwShm :: shm_world
  gwProbe :: write_probe
  gwTicks :: "tick list"
  gwQuery :: "string \<Rightarrow> nat \<Rightarrow> string go_result"
  gwBalance :: "string \<Rightarrow> nat \<Rightarrow> string go_result"
  gwIsDir :: bool
  gwStore :: "walk_entry list"
  gwAlive :: bool

record soak_state =
  stRtSeq :: nat
  stNode :: string
  stEvents :: "soak_event list"
  stWriter :: writer_state
  stSegments :: "doc list"
  stDrills :: "Drill list"
  stOvers :: "bool list"
  stFolds :: "fold_sample list"
  stSweeps :: "gc_sample list"
  stViolations :: int
  stTps :: "f64 list"

type_synonym soak_error = "go_error \<times> soak_event list"

text \<open>How long the driver waits before its drill, in whole seconds, by a draw from [0, 1).\<close>

definition drill_wait :: "int \<Rightarrow> f64 \<Rightarrow> int" where
  "drill_wait segment draw =
     trunc (fmul (f64_of_int segment) (fadd (fl (1 / 4)) (fmul draw (fl (1 / 2)))))"

definition conn_args :: "scenario \<Rightarrow> string list" where
  "conn_args sc = [''-h'', ''127.0.0.1'', ''-p'', itoa (sc_Port sc), ''-U'', ''postgres'', ''postgres'']"

definition bench_args :: "scenario \<Rightarrow> string list" where
  "bench_args sc =
     [''-n'', ''-c'', itoa (sc_Clients sc), ''-j'', itoa (sc_Threads sc), ''-T'', itoa (sc_Segment sc)]
     @ (if 0 < sc_Rate sc then [''-R'', itoa (sc_Rate sc)] else [])
     @ (if sc_Builtin sc \<noteq> [] \<and> sc_Builtin sc \<noteq> ''tpcb-like'' then [''-b'', sc_Builtin sc] else []) @ conn_args sc"

definition init_args :: "scenario \<Rightarrow> string list" where
  "init_args sc =
     (if sc_ServerSideInit sc then [''-i'', ''-I'', ''dtGvp'', ''-s'', itoa (sc_Scale sc)]
      else [''-i'', ''-q'', ''-s'', itoa (sc_Scale sc)]) @ conn_args sc"

definition is_tpcb :: "scenario \<Rightarrow> bool" where
  "is_tpcb sc \<longleftrightarrow> sc_Builtin sc = [] \<or> sc_Builtin sc = ''tpcb-like''"

definition drill_mode :: "scenario \<Rightarrow> nat \<Rightarrow> string" where
  "drill_mode sc k = sc_Drills sc ! (k mod length (sc_Drills sc))"

text \<open>Killing one process that was looked up: its lookup or the signal may fail, which the soak survives.\<close>

definition kill_pid :: "seg_world \<Rightarrow> int go_result \<Rightarrow> soak_state \<Rightarrow> go_error option \<times> soak_state" where
  "kill_pid g found st =
     (case found of Inl e \<Rightarrow> (Some e, st)
      | Inr pid1 \<Rightarrow> (gwSignal g pid1, st\<lparr>stEvents := stEvents st @ [SigKill pid1]\<rparr>))"

definition kill_node :: "sustain_args \<Rightarrow> scenario \<Rightarrow> nat \<Rightarrow> seg_world \<Rightarrow> soak_state \<Rightarrow> soak_error + soak_state" where
  "kill_node a sc k g st =
     (let ev = stEvents st @ killNode (gwShmKill g) (stNode st) in
      case startDev (gwStart g) a (sc_Port sc) (stRtSeq st + 1) True of
        Inl e \<Rightarrow> Inl (''segment '' @ itoa (int k) @ '': no node after the death drill: '' @ e, ev)
      | Inr (rtdir, started) \<Rightarrow>
          Inr (st\<lparr>stRtSeq := stRtSeq st + 1, stNode := rtdir, stEvents := ev @ started\<rparr>))"

definition seg_kill :: "sustain_args \<Rightarrow> scenario \<Rightarrow> nat \<Rightarrow> seg_world \<Rightarrow> soak_state
    \<Rightarrow> (soak_error + (go_error option \<times> soak_state)) option" where
  "seg_kill a sc k g st =
     (let mode = drill_mode sc k in
      if mode = ''pusher'' then
        map_option (\<lambda>found. Inr (kill_pid g found st))
          (waitPusherPid (gwPusher g) (gwPusherClock g) (gwPusherNow g) (2 * Minute))
      else if mode = ''crash'' then Some (Inr (kill_pid g (serverPid (gwPidfile g)) st))
      else if mode = ''death'' then Some (map_sum id (Pair None) (kill_node a sc k g st))
      else Some (Inr (None, st)))"

text \<open>The recovery clock, started at the kill and not read when nothing was killed.\<close>

definition seg_rto :: "seg_world \<Rightarrow> go_error option \<Rightarrow> f64 option option" where
  "seg_rto g killErr =
     (if killErr \<noteq> None then Some None else probe_write (gwProbe g) (gwKillAt g) (gwKillAt g + Hour))"

text \<open>Both identities: what they said, how many of them did not hold, and the first that could not be checked.\<close>

definition seg_checks :: "scenario \<Rightarrow> seg_world \<Rightarrow> Ledger
    \<Rightarrow> (bool \<times> bool option \<times> go_error option) option" where
  "seg_checks sc g l =
     map_option (\<lambda>(ledgerOK, checkErr).
       if \<not> is_tpcb sc then (ledgerOK, None, checkErr)
       else let (ok, err) = verifyBalance (gwBalance g)
            in (ledgerOK, Some ok, if checkErr = None then err else checkErr))
       (verifyLedger (gwQuery g) l)"

definition check_violations :: "bool \<Rightarrow> bool option \<Rightarrow> int" where
  "check_violations ledgerOK balanceOK =
     (if ledgerOK then 0 else 1) + (if balanceOK = Some False then 1 else 0)"

definition error_text :: "go_error option \<Rightarrow> string" where
  "error_text e = (case e of None \<Rightarrow> [] | Some s \<Rightarrow> s)"

definition seg_drill :: "sustain_args \<Rightarrow> scenario \<Rightarrow> int \<Rightarrow> nat \<Rightarrow> seg_world \<Rightarrow> soak_state
    \<Rightarrow> (soak_error + soak_state) option" where
  "seg_drill a sc runStart k g st =
     run_then (seg_kill a sc k g st) (\<lambda>(killErr, st).
     let st = st\<lparr>stEvents := stEvents st @ reap_events (gwShm g)\<rparr> in
     run_then (map_option Inr (seg_rto g killErr)) (\<lambda>rto.
     let st = st\<lparr>stWriter := foldl (\<lambda>w t. ledger_tick t w) (stWriter st) (gwTicks g)\<rparr> in
     run_then (map_option Inr (seg_checks sc g (led (stWriter st)))) (\<lambda>(ledgerOK, balanceOK, checkErr).
     let drill = \<lparr>drill_Seq = int k, drill_Mode = drill_mode sc k,
                  drill_T = round1 (Seconds (gwKillAt g - runStart)), RTOms = rto, LedgerOK = ledgerOK,
                  BalanceOK = balanceOK, KillError = error_text killErr, CheckError = error_text checkErr\<rparr>
     in Some (Inr (st\<lparr>stDrills := stDrills st @ [drill],
                      stViolations := stViolations st + check_violations ledgerOK balanceOK\<rparr>)))))"

definition amp_samples_of :: "(bool \<times> string go_result \<times> int) list \<Rightarrow> (bool \<times> compact_sample) list" where
  "amp_samples_of xs = List.map_filter (\<lambda>(own, status, elapsed). map_option (Pair own) (compact_tick status elapsed)) xs"

abbreviation amp_samples :: "seg_world \<Rightarrow> (bool \<times> compact_sample) list" where
  "amp_samples g \<equiv> amp_samples_of (gwAmp g)"

definition amp_any :: "compact_sample \<Rightarrow> any" where
  "amp_any s = AMap [(''t_s'', AFloat (cs_t s)), (''amp_max'', AFloat (cs_amp s))]"

text \<open>The counters of a segment, absent when a restart inside it made one shrink.\<close>

definition seg_ops :: "sustain_args \<Rightarrow> seg_world \<Rightarrow> counters option" where
  "seg_ops a g =
     (let path = path_Join (suWorkdir a) ''store-stats'' in
      case (zoustats_Read path (gwOpsBefore g), zoustats_Read path (gwOpsAfter g)) of
        (Inr before, Inr after) \<Rightarrow> (case zoustats_Diff before after of Inl _ \<Rightarrow> None | Inr d \<Rightarrow> Some d)
      | _ \<Rightarrow> None)"

definition seg_tps :: "seg_world \<Rightarrow> f64 option" where
  "seg_tps g = as_float (map_get (ParseSummary (gwBenchOut g) []) ''tps'')"

definition doc_value :: "doc \<Rightarrow> string \<Rightarrow> any option" where
  "doc_value d key = map_of d key"

definition seg_doc :: "sustain_args \<Rightarrow> scenario \<Rightarrow> nat \<Rightarrow> seg_world \<Rightarrow> doc" where
  "seg_doc a sc k g =
     (let own = map snd (filter fst (amp_samples g));
          measured = (case serverPid (gwTreePid g) of Inl _ \<Rightarrow> [] | Inr _ \<Rightarrow> gwTree g)
      in [(''seq'', AInt (int k)), (''completed'', ABool (gwBenchStart g (bench_args sc) = None \<and> gwBenchWait g = None))]
         @ when_some ''tps'' (map_option AFloat (seg_tps g))
         @ when_some ''store_ops'' (map_option (\<lambda>d. AMap (zoustats_Report d)) (seg_ops a g))
         @ (if own \<noteq> [] then [(''amp_timeline'', AList (map amp_any own))] else [])
         @ when_some ''rss_peak_kb'' (doc_value measured ''rss_peak_kb'')
         @ when_some ''rss_slope_kb_per_min'' (doc_value measured ''rss_slope_kb_per_min'')
         @ when_some ''store_bytes'' (map_option AInt (storeBytes (gwIsDir g) (gwStore g))))"

definition sweep_samples :: "scenario \<Rightarrow> (string go_result \<times> int \<times> int) list \<Rightarrow> gc_sample list" where
  "sweep_samples sc xs =
     (if 0 < sc_GCSecs sc then List.map_filter (\<lambda>(out, elapsed, took). gc_tick out elapsed took) xs else [])"

definition fold_samples :: "scenario \<Rightarrow> ((exec_error + string) \<times> int \<times> int) list \<Rightarrow> fold_sample list" where
  "fold_samples sc xs =
     (if 0 < sc_FoldSecs sc then map (\<lambda>(out, elapsed, took). fold_tick out elapsed took) xs else [])"

text \<open>What the background loops recorded up to here.\<close>

definition record_loops :: "scenario \<Rightarrow> (bool \<times> compact_sample) list \<Rightarrow> (string go_result \<times> int \<times> int) list
    \<Rightarrow> ((exec_error + string) \<times> int \<times> int) list \<Rightarrow> soak_state \<Rightarrow> soak_state" where
  "record_loops sc amps sweeps folds st =
     st\<lparr>stOvers := stOvers st @ map (cs_over \<circ> snd) amps,
        stSweeps := stSweeps st @ sweep_samples sc sweeps,
        stFolds := stFolds st @ fold_samples sc folds\<rparr>"

definition seg_step :: "sustain_args \<Rightarrow> scenario \<Rightarrow> int \<Rightarrow> nat \<Rightarrow> seg_world \<Rightarrow> soak_state
    \<Rightarrow> (soak_error + soak_state) option" where
  "seg_step a sc runStart k g st =
     run_then (seg_drill a sc runStart k g st) (\<lambda>st.
     let st = record_loops sc (amp_samples g) (gwSweeps g) (gwFolds g) st in
     Some (Inr (st\<lparr>stSegments := stSegments st @ [seg_doc a sc k g],
                   stTps := stTps st @ (case seg_tps g of None \<Rightarrow> [] | Some v \<Rightarrow> [v])\<rparr>)))"

text \<open>The segments in turn, and whether the soak stopped early: a node gone outside a drill ends it.\<close>

fun soak_loop :: "sustain_args \<Rightarrow> scenario \<Rightarrow> int \<Rightarrow> (nat \<Rightarrow> seg_world) \<Rightarrow> nat list \<Rightarrow> soak_state
    \<Rightarrow> (soak_error + (soak_state \<times> bool)) option" where
  "soak_loop a sc runStart world [] st = Some (Inr (st, False))"
| "soak_loop a sc runStart world (k # ks) st =
     run_then (seg_step a sc runStart k (world k) st) (\<lambda>st.
     if \<not> gwAlive (world k) then Some (Inr (st, True)) else soak_loop a sc runStart world ks st)"

section \<open>The document\<close>

definition drill_any :: "Drill \<Rightarrow> any" where
  "drill_any d = AMap ([(''seq'', AInt (drill_Seq d)), (''mode'', AStr (drill_Mode d)), (''t_s'', AFloat (drill_T d))]
     @ when_some ''rto_ms'' (map_option AFloat (RTOms d)) @ [(''ledger_ok'', ABool (LedgerOK d))]
     @ when_some ''balance_ok'' (map_option ABool (BalanceOK d))
     @ (if KillError d \<noteq> [] then [(''kill_error'', AStr (KillError d))] else [])
     @ (if CheckError d \<noteq> [] then [(''check_error'', AStr (CheckError d))] else []))"

definition rto_any :: "rto_stats \<Rightarrow> any" where
  "rto_any r = AMap [(''p50'', AFloat (rto_p50 r)), (''p95'', AFloat (rto_p95 r)), (''max'', AFloat (rto_max r)),
     (''count'', AInt (int (rto_count r)))]"

definition fold_any :: "fold_sample \<Rightarrow> any" where
  "fold_any f = AMap ([(''t'', AFloat (fs_t f)), (''seconds'', AFloat (fs_seconds f))]
     @ (case fs_error f of Some why \<Rightarrow> [(''error'', AStr why)]
        | None \<Rightarrow> [(''horizon'', AStr (fs_horizon f)), (''checksums'', ABool (fs_checksums f)),
            (''shards'', AInt (int (fs_shards f))), (''retired'', AInt (fs_retired f)),
            (''bytes_before'', AInt (fs_before f)), (''bytes_after'', AInt (fs_after f))]))"

definition gc_any :: "gc_sample \<Rightarrow> any" where
  "gc_any s = AMap [(''t'', AFloat (gs_t s)), (''seconds'', AFloat (gs_seconds s)), (''tenants'', AInt (gs_tenants s)),
     (''deleted'', AInt (gs_deleted s)), (''candidates'', AInt (gs_candidates s))]"

definition folds_block :: "fold_sample list \<Rightarrow> doc" where
  "folds_block folds =
     (if folds = [] then []
      else let h = soak_folds folds in
        [(''folds'', AList (map fold_any folds))]
        @ when_some ''fold_bytes_after'' (map_option AInt (bytes_after h))
        @ [(''fold_layers_retired'', AInt (layers_retired h))]
        @ (if 0 < fold_failures h then [(''fold_failures'', AInt (int (fold_failures h)))] else []))"

definition gc_block :: "gc_sample list \<Rightarrow> doc" where
  "gc_block sweeps =
     (if sweeps = [] then []
      else [(''gc'', AList (map gc_any sweeps)), (''gc_deleted'', AInt (soak_gc_deleted sweeps))])"

definition soak_tail :: "int \<Rightarrow> bool \<Rightarrow> soak_state \<Rightarrow> doc" where
  "soak_tail elapsed early st =
     (if early then [(''stopped_early'', AStr ''the zou dev supervisor exited outside a drill'')] else [])
     @ [(''hours'', AFloat (cmd_round3 (Hours elapsed))), (''segments'', AList (map AMap (stSegments st))),
        (''drills'', AList (map drill_any (stDrills st)))]
     @ unless_empty ''rto_ms'' (map (\<lambda>(mode, r). (mode, rto_any r)) (RTOSummary (stDrills st)))
     @ (if stOvers st \<noteq> [] then [(''amp_bound_held'', ABool (BoundHeld (stOvers st)))] else [])
     @ folds_block (stFolds st) @ gc_block (stSweeps st)
     @ [(''violations'', AInt (stViolations st))]
     @ when_some ''tps_mean'' (map_option AFloat (soak_tps_mean (stTps st)))"

section \<open>The command\<close>

record soak_world =
  swFile :: "string go_result"
  swWindows :: bool
  swMkdir :: "go_error option"
  swLock :: lock_world
  swDate :: string
  swEnv :: doc
  swSim :: string
  swDelay :: string
  swStart :: int
  swNode :: node_start
  swShmSetup :: shm_world
  swReady :: write_probe
  swReadyNow :: int
  swCheckpoint :: "nat \<Rightarrow> string go_result"
  swInit :: "string list \<Rightarrow> go_error option \<times> int"
  swLoadSweeps :: "(string go_result \<times> int \<times> int) list"
  swLoadFolds :: "((exec_error + string) \<times> int \<times> int) list"
  swTable :: "nat \<Rightarrow> string go_result"
  swSegs :: "nat \<Rightarrow> seg_world"
  swShmEnd :: shm_world
  swEnd :: int
  swLateAmp :: "(bool \<times> string go_result \<times> int) list"
  swLateSweeps :: "(string go_result \<times> int \<times> int) list"
  swLateFolds :: "((exec_error + string) \<times> int \<times> int) list"
  swTempDir :: string
  swIo :: io
  swIoTemp :: io
  swFiles :: files

record soak_out =
  ouDoc :: doc
  ouState :: soak_state
  ouSaved :: "string go_result"
  ouFiles :: files

definition or_die :: "soak_event list \<Rightarrow> 'a go_result \<Rightarrow> (soak_error + 'a) option" where
  "or_die ev r = Some (map_sum (\<lambda>e. (e, ev)) id r)"

definition nSeg :: "scenario \<Rightarrow> nat" where
  "nSeg sc = nat (max (quot (sc_Duration sc) (sc_Segment sc)) 1)"

definition soak_start :: "scenario \<Rightarrow> soak_world \<Rightarrow> string \<Rightarrow> soak_event list \<Rightarrow> soak_state" where
  "soak_start sc w rtdir ev =
     record_loops sc [] (swLoadSweeps w) (swLoadFolds w)
       \<lparr>stRtSeq = 0, stNode = rtdir, stEvents = ev, stWriter = writer_start, stSegments = [], stDrills = [],
        stOvers = [], stFolds = [], stSweeps = [], stViolations = 0, stTps = []\<rparr>"

definition soak_head :: "sustain_args \<Rightarrow> soak_world \<Rightarrow> scenario \<Rightarrow> any \<Rightarrow> doc" where
  "soak_head a w sc config =
     (let spec = sim_spec (suSimulated a) (swSim w) (swDelay w) in
      [(''scenario'', AStr (sc_Name sc)), (''label'', AStr (suLabel a)), (''date'', AStr (swDate w)),
       (''config'', config), (''env'', AMap (swEnv w))]
      @ (if spec \<noteq> [] then [(''simulated'', AStr spec)] else [])
      @ [(''init_seconds'', AFloat (round1 (Seconds (snd (swInit w (init_args sc))))))])"

text \<open>The scenario and the work directory, before any node runs.\<close>

definition soak_open :: "sustain_args \<Rightarrow> soak_world \<Rightarrow> (scenario \<times> any) go_result" where
  "soak_open a w =
     and_then (scenario_Load (suScenario a) (swFile w)) (\<lambda>(sc, config).
     if \<not> IsSustain sc then Inl (suScenario a @ '' is not a sustain scenario'')
     else if swWindows w
       then Inl ''sustain drills kill processes with unix signals, this command does not run on windows''
     else and_then (dies (swMkdir w)) (\<lambda>_.
       and_then (lockWorkdir (suWorkdir a) (swLock w)) (\<lambda>_. Inr (sc, config))))"

text \<open>The node is ready once it took a write; the load and the ledger's table are part of the setup.\<close>

definition soak_setup :: "sustain_args \<Rightarrow> soak_world \<Rightarrow> scenario \<Rightarrow> f64 option \<Rightarrow> unit go_result" where
  "soak_setup a w sc ready =
     (if ready = None then Inl (''server at 127.0.0.1:'' @ itoa (sc_Port sc)
        @ '' never took a committed write, see the dev log in '' @ suWorkdir a)
      else and_then (soakQuery (swCheckpoint w)) (\<lambda>_.
        and_then (dies (fst (swInit w (init_args sc)))) (\<lambda>_.
        and_then (soakQuery (swTable w)) (\<lambda>_. Inr ()))))"

definition soak_finish :: "sustain_args \<Rightarrow> soak_world \<Rightarrow> scenario \<Rightarrow> any \<Rightarrow> soak_state \<Rightarrow> bool \<Rightarrow> soak_out" where
  "soak_finish a w sc config st early =
     (let st = record_loops sc (amp_samples_of (swLateAmp w)) (swLateSweeps w) (swLateFolds w)
            (st\<lparr>stEvents := stEvents st @ killNode (swShmEnd w) (stNode st)\<rparr>);
          r = soak_head a w sc config @ soak_tail (swEnd w - swStart w) early st;
          (saved, fs) = writeResult (swIo w) (swIoTemp w) (suOutdir a) (swTempDir w)
            (result_name (sc_Name sc) (suLabel a) (swDate w)) (MarshalIndent (any_json (AMap r))) (swFiles w)
      in \<lparr>ouDoc = r, ouState = st, ouSaved = saved, ouFiles = fs\<rparr>)"

definition cmdSustain :: "sustain_args \<Rightarrow> soak_world \<Rightarrow> (soak_error + soak_out) option" where
  "cmdSustain a w =
     run_then (or_die [] (soak_open a w)) (\<lambda>(sc, config).
     run_then (or_die [] (startDev (swNode w) a (sc_Port sc) 0 False)) (\<lambda>(rtdir, ev).
     run_then (map_option Inr (probe_write (swReady w) (swStart w) (swReadyNow w + 15 * Minute))) (\<lambda>ready.
     run_then (or_die (ev @ killNode (swShmSetup w) rtdir) (soak_setup a w sc ready)) (\<lambda>_.
     run_then (soak_loop a sc (swStart w) (swSegs w) [0..<nSeg sc] (soak_start sc w rtdir ev)) (\<lambda>(st, early).
     Some (Inr (soak_finish a w sc config st early)))))))"

definition soak_exit :: "soak_out \<Rightarrow> int" where
  "soak_exit out = (case ouSaved out of Inl _ \<Rightarrow> 1 | Inr _ \<Rightarrow> 0)"

definition soak_brief :: "doc \<Rightarrow> doc" where
  "soak_brief r = filter (\<lambda>(k, v). k \<notin> {''config'', ''env'', ''segments'', ''drills''}) r"

section \<open>One node at a time\<close>

text \<open>
  The node that runs and whether one was ever killed, replayed over the events: a node is started only
  when none runs, and takes the lease of a holder exactly when the holder was killed; only the node
  that runs is killed, and a process is signalled only while one runs.
\<close>

fun node_run :: "string option \<times> bool \<Rightarrow> soak_event list \<Rightarrow> (string option \<times> bool) option" where
  "node_run s [] = Some s"
| "node_run (up, killed) (NodeStarted r steal # es) =
     (if up = None \<and> steal = killed then node_run (Some r, killed) es else None)"
| "node_run (up, killed) (NodeKilled r # es) = (if up = Some r then node_run (None, True) es else None)"
| "node_run (up, killed) (SigKill p # es) = (if up = None then None else node_run (up, killed) es)"
| "node_run s (ShmRemoved i # es) = node_run s es"

definition started_dirs :: "soak_event list \<Rightarrow> string list" where
  "started_dirs es = List.map_filter (\<lambda>e. case e of NodeStarted r _ \<Rightarrow> Some r | _ \<Rightarrow> None) es"

definition rt_dirs :: "sustain_args \<Rightarrow> nat \<Rightarrow> string list" where
  "rt_dirs a n = map (\<lambda>i. path_Join (suWorkdir a) (''rt-'' @ itoa (int i))) [0..<n]"

lemma node_run_append: "node_run s (xs @ ys) = Option.bind (node_run s xs) (\<lambda>s. node_run s ys)"
  by (induction s xs rule: node_run.induct) auto

lemma node_run_reap [simp]: "node_run s (reap_events sh) = Some s"
proof -
  have "node_run s (map ShmRemoved is) = Some s" for "is" by (induction "is") simp_all
  then show ?thesis by (simp add: reap_events_def)
qed

lemma started_append [simp]: "started_dirs (xs @ ys) = started_dirs xs @ started_dirs ys"
  by (simp add: started_dirs_def map_filter_def)

lemma started_simps [simp]:
  "started_dirs [] = []" "started_dirs (NodeStarted r b # es) = r # started_dirs es"
  "started_dirs (NodeKilled r # es) = started_dirs es" "started_dirs (SigKill p # es) = started_dirs es"
  by (simp_all add: started_dirs_def map_filter_simps)

lemma started_reap [simp]: "started_dirs (reap_events sh) = []"
  by (simp add: reap_events_def started_dirs_def map_filter_def)

lemma started_kill [simp]: "started_dirs (killNode sh r) = []"
  by (simp add: killNode_def)

definition node_up :: "sustain_args \<Rightarrow> soak_state \<Rightarrow> bool" where
  "node_up a st \<longleftrightarrow> (\<exists>killed. node_run (None, False) (stEvents st) = Some (Some (stNode st), killed))
     \<and> started_dirs (stEvents st) = rt_dirs a (stRtSeq st + 1)"

definition nodes_down :: "sustain_args \<Rightarrow> soak_event list \<Rightarrow> bool" where
  "nodes_down a es \<longleftrightarrow> (\<exists>killed. node_run (None, False) es = Some (None, killed))
     \<and> (\<exists>n. started_dirs es = rt_dirs a n)"

lemma node_up_kill:
  assumes "node_up a st"
  shows "node_run (None, False) (stEvents st @ killNode sh (stNode st)) = Some (None, True)"
  using assms by (auto simp: node_up_def node_run_append killNode_def)

lemma node_up_down: "node_up a st \<Longrightarrow> nodes_down a (stEvents st @ killNode sh (stNode st))"
  unfolding nodes_down_def using node_up_kill[of a st sh] by (auto simp: node_up_def)

lemma node_up_cong:
  "stEvents st' = stEvents st \<Longrightarrow> stNode st' = stNode st \<Longrightarrow> stRtSeq st' = stRtSeq st \<Longrightarrow> node_up a st' = node_up a st"
  by (simp add: node_up_def)

lemma startDev_Inr:
  "startDev n a port k steal = Inr (r, ev) \<Longrightarrow> r = path_Join (suWorkdir a) (''rt-'' @ itoa (int k)) \<and> ev = [NodeStarted r steal]"
  by (auto simp: startDev_def Let_def and_then_def split: sum.splits)

lemma rt_dirs_Suc: "rt_dirs a (Suc n) = rt_dirs a n @ [path_Join (suWorkdir a) (''rt-'' @ itoa (int n))]"
  by (simp add: rt_dirs_def)

lemma kill_node_up:
  assumes "node_up a st"
  shows "case kill_node a sc k g st of Inl (e, ev) \<Rightarrow> nodes_down a ev | Inr st' \<Rightarrow> node_up a st'"
proof (cases "startDev (gwStart g) a (sc_Port sc) (stRtSeq st + 1) True")
  case (Inl e)
  then show ?thesis using node_up_down[OF assms] by (simp add: kill_node_def)
next
  case (Inr p)
  obtain r ev where q: "p = (r, ev)" by (cases p)
  have p: "p = (r, ev)" "r = path_Join (suWorkdir a) (''rt-'' @ itoa (int (stRtSeq st + 1)))" "ev = [NodeStarted r True]"
    using q startDev_Inr[OF Inr[unfolded q]] by simp_all
  let ?ev = "stEvents st @ killNode (gwShmKill g) (stNode st)"
  have st': "kill_node a sc k g st = Inr (st\<lparr>stRtSeq := stRtSeq st + 1, stNode := r, stEvents := ?ev @ [NodeStarted r True]\<rparr>)"
    using Inr p by (simp add: kill_node_def)
  have "node_run (None, False) (?ev @ [NodeStarted r True]) = Some (Some r, True)"
    by (subst node_run_append) (simp add: node_up_kill[OF assms])
  moreover have "started_dirs (?ev @ [NodeStarted r True]) = rt_dirs a (stRtSeq st + 1 + 1)"
    using assms p(2) rt_dirs_Suc[of a "stRtSeq st + 1"] by (simp only: node_up_def started_append started_kill) simp
  ultimately show ?thesis
    unfolding st' sum.case node_up_def by (intro conjI exI[of _ True]) (simp_all del: started_append)
qed

lemma kill_pid_up: "node_up a st \<Longrightarrow> node_up a (snd (kill_pid g found st))"
  by (cases found) (auto simp: kill_pid_def node_up_def node_run_append)

lemma seg_kill_cases:
  assumes "seg_kill a sc k g st = Some r"
  obtains (pid) found where "r = Inr (kill_pid g found st)"
    | (node) "r = map_sum id (Pair None) (kill_node a sc k g st)" | (none) "r = Inr (None, st)"
proof -
  consider "drill_mode sc k = ''pusher''" | "drill_mode sc k = ''crash''" | "drill_mode sc k = ''death''"
    | "drill_mode sc k \<notin> {''pusher'', ''crash'', ''death''}" by auto
  then show ?thesis
  proof cases
    case 1
    then obtain found where "r = Inr (kill_pid g found st)" using assms unfolding seg_kill_def Let_def by auto
    then show ?thesis by (rule pid)
  next
    case 2
    then have "r = Inr (kill_pid g (serverPid (gwPidfile g)) st)" using assms unfolding seg_kill_def Let_def by auto
    then show ?thesis by (rule pid)
  next
    case 3
    then have "r = map_sum id (Pair None) (kill_node a sc k g st)" using assms unfolding seg_kill_def Let_def by auto
    then show ?thesis by (rule node)
  next
    case 4
    then have "r = Inr (None, st)" using assms unfolding seg_kill_def Let_def by auto
    then show ?thesis by (rule none)
  qed
qed

lemma seg_kill_up:
  assumes "node_up a st" and "seg_kill a sc k g st = Some r"
  shows "case r of Inl (e, ev) \<Rightarrow> nodes_down a ev | Inr (killErr, st') \<Rightarrow> node_up a st'"
  using assms(2)
proof (cases rule: seg_kill_cases)
  case (pid found)
  then show ?thesis using kill_pid_up[OF assms(1), of g found] by (simp add: split_beta)
next
  case node
  then show ?thesis using kill_node_up[OF assms(1), of sc k g] by (cases "kill_node a sc k g st") auto
next
  case none
  then show ?thesis using assms(1) by simp
qed

lemma seg_drill_kill:
  assumes "seg_drill a sc t0 k g st = Some r"
  obtains (dies) e where "seg_kill a sc k g st = Some (Inl e)" "r = Inl e"
  | (drilled) killErr st1 rto ledgerOK balanceOK checkErr w where "seg_kill a sc k g st = Some (Inr (killErr, st1))"
      "seg_rto g killErr = Some rto" "w = foldl (\<lambda>w t. ledger_tick t w) (stWriter st1) (gwTicks g)"
      "seg_checks sc g (led w) = Some (ledgerOK, balanceOK, checkErr)"
      "r = Inr (st1\<lparr>stEvents := stEvents st1 @ reap_events (gwShm g), stWriter := w,
         stDrills := stDrills st1 @ [\<lparr>drill_Seq = int k, drill_Mode = drill_mode sc k,
            drill_T = round1 (Seconds (gwKillAt g - t0)), RTOms = rto, LedgerOK = ledgerOK,
            BalanceOK = balanceOK, KillError = error_text killErr, CheckError = error_text checkErr\<rparr>],
         stViolations := stViolations st1 + check_violations ledgerOK balanceOK\<rparr>)"
proof (cases "seg_kill a sc k g st")
  case None
  then show ?thesis using assms by (simp add: seg_drill_def)
next
  case (Some q)
  show ?thesis
  proof (cases q)
    case (Inl e)
    then show ?thesis using Some assms dies by (simp add: seg_drill_def)
  next
    case (Inr p)
    then show ?thesis using Some assms drilled
      by (cases p) (auto simp: seg_drill_def Let_def run_then_def split: option.splits)
  qed
qed

lemma seg_kill_rest:
  assumes "seg_kill a sc k g st = Some (Inr (e, st'))"
  shows "stWriter st' = stWriter st" "stDrills st' = stDrills st" "stSegments st' = stSegments st"
    "stViolations st' = stViolations st" "stOvers st' = stOvers st" "stFolds st' = stFolds st"
    "stSweeps st' = stSweeps st" "stTps st' = stTps st"
proof -
  have "stWriter st' = stWriter st \<and> stDrills st' = stDrills st \<and> stSegments st' = stSegments st
    \<and> stViolations st' = stViolations st \<and> stOvers st' = stOvers st \<and> stFolds st' = stFolds st
    \<and> stSweeps st' = stSweeps st \<and> stTps st' = stTps st"
    using assms by (cases rule: seg_kill_cases)
      (auto simp: kill_pid_def kill_node_def Let_def split: sum.splits)
  then show "stWriter st' = stWriter st" "stDrills st' = stDrills st" "stSegments st' = stSegments st"
    "stViolations st' = stViolations st" "stOvers st' = stOvers st" "stFolds st' = stFolds st"
    "stSweeps st' = stSweeps st" "stTps st' = stTps st" by blast+
qed

lemma seg_drill_up:
  assumes "node_up a st" and "seg_drill a sc t0 k g st = Some r"
  shows "case r of Inl (e, ev) \<Rightarrow> nodes_down a ev | Inr st' \<Rightarrow> node_up a st'"
  using assms(2)
proof (cases rule: seg_drill_kill)
  case (dies e)
  then show ?thesis using seg_kill_up[OF assms(1)] by fastforce
next
  case (drilled killErr st1 rto ledgerOK balanceOK checkErr w)
  have "node_up a st1" using seg_kill_up[OF assms(1) drilled(1)] by simp
  then show ?thesis unfolding drilled(5) by (auto simp: node_up_def node_run_append)
qed

lemma record_loops_keeps [simp]:
  "stEvents (record_loops sc amps sw fo st) = stEvents st" "stNode (record_loops sc amps sw fo st) = stNode st"
  "stRtSeq (record_loops sc amps sw fo st) = stRtSeq st" "stWriter (record_loops sc amps sw fo st) = stWriter st"
  "stSegments (record_loops sc amps sw fo st) = stSegments st" "stDrills (record_loops sc amps sw fo st) = stDrills st"
  "stViolations (record_loops sc amps sw fo st) = stViolations st" "stTps (record_loops sc amps sw fo st) = stTps st"
  by (simp_all add: record_loops_def)

lemma seg_step_up:
  assumes "node_up a st" and "seg_step a sc t0 k g st = Some r"
  shows "case r of Inl (e, ev) \<Rightarrow> nodes_down a ev | Inr st' \<Rightarrow> node_up a st'"
proof (cases "seg_drill a sc t0 k g st")
  case None
  then show ?thesis using assms(2) by (simp add: seg_step_def)
next
  case (Some q)
  then show ?thesis using seg_drill_up[OF assms(1) Some] assms(2)
    by (cases q) (auto simp: seg_step_def Let_def node_up_def)
qed

lemma soak_loop_up:
  assumes "node_up a st" and "soak_loop a sc t0 world ks st = Some r"
  shows "case r of Inl (e, ev) \<Rightarrow> nodes_down a ev | Inr (st', early) \<Rightarrow> node_up a st'"
  using assms
proof (induction ks arbitrary: st)
  case Nil
  then show ?case by auto
next
  case (Cons k ks)
  show ?case
  proof (cases "seg_step a sc t0 k (world k) st")
    case None
    then show ?thesis using Cons.prems by simp
  next
    case (Some q)
    note up = seg_step_up[OF Cons.prems(1) Some]
    show ?thesis
    proof (cases q)
      case (Inl e)
      then show ?thesis using Some up Cons.prems(2) by auto
    next
      case (Inr st1)
      then have "node_up a st1" using up by simp
      then show ?thesis using Some Inr Cons.prems(2) Cons.IH[of st1] by (auto split: if_splits)
    qed
  qed
qed

definition soak_events :: "soak_error + soak_out \<Rightarrow> soak_event list" where
  "soak_events r = (case r of Inl (e, ev) \<Rightarrow> ev | Inr out \<Rightarrow> stEvents (ouState out))"

lemma soak_finish_events: "stEvents (ouState (soak_finish a w sc config st early))
    = stEvents st @ killNode (swShmEnd w) (stNode st)"
  by (simp add: soak_finish_def Let_def split_beta)

lemma soak_start_up:
  assumes "startDev n a port 0 False = Inr (r, ev)"
  shows "node_up a (soak_start sc w r ev)"
  using startDev_Inr[OF assms] unfolding node_up_def
  by (intro conjI exI[of _ False]) (simp_all add: soak_start_def rt_dirs_def)

lemma or_die_cases:
  assumes "run_then (or_die ev r) f = Some q"
  obtains (dies) e where "r = Inl e" "q = Inl (e, ev)" | (on) x where "r = Inr x" "f x = Some q"
  using assms by (cases r) (auto simp: or_die_def)

text \<open>From the node of the setup on: whatever the rest comes to, the node is taken down.\<close>

lemma soak_rest_down:
  assumes "node_up a (soak_start sc w r0 ev)"
    and "run_then (or_die (ev @ killNode (swShmSetup w) r0) (soak_setup a w sc ready)) (\<lambda>_.
          run_then (soak_loop a sc (swStart w) (swSegs w) [0..<nSeg sc] (soak_start sc w r0 ev)) (\<lambda>(st, early).
          Some (Inr (soak_finish a w sc config st early)))) = Some r"
  shows "nodes_down a (soak_events r)"
  using assms(2)
proof (cases rule: or_die_cases)
  case (dies e)
  have "nodes_down a (ev @ killNode (swShmSetup w) r0)"
    using node_up_down[OF assms(1), of "swShmSetup w"] by (simp add: soak_start_def)
  then show ?thesis using dies by (simp add: soak_events_def)
next
  case (on u)
  then obtain l where l: "soak_loop a sc (swStart w) (swSegs w) [0..<nSeg sc] (soak_start sc w r0 ev) = Some l"
    by (cases "soak_loop a sc (swStart w) (swSegs w) [0..<nSeg sc] (soak_start sc w r0 ev)") simp_all
  note end1 = soak_loop_up[OF assms(1) l]
  show ?thesis
  proof (cases l)
    case (Inl e)
    then show ?thesis using end1 l on(2) by (auto simp: soak_events_def)
  next
    case (Inr m)
    obtain st early where m: "m = (st, early)" by (cases m)
    then have "node_up a st" using end1 Inr by simp
    then show ?thesis using node_up_down l on(2) Inr m by (auto simp: soak_events_def soak_finish_events)
  qed
qed


section \<open>What a soak leaves behind\<close>

definition writer_upto :: "(nat \<Rightarrow> seg_world) \<Rightarrow> nat \<Rightarrow> writer_state" where
  "writer_upto world m = foldl (\<lambda>w t. ledger_tick t w) writer_start (concat (map (gwTicks \<circ> world) [0..<m]))"

text \<open>A drill is the one of its segment, and says what the checks of the ledger as it then stood said.\<close>

definition drill_of :: "scenario \<Rightarrow> (nat \<Rightarrow> seg_world) \<Rightarrow> nat \<Rightarrow> Drill \<Rightarrow> bool" where
  "drill_of sc world k d \<longleftrightarrow> drill_Seq d = int k \<and> drill_Mode d = drill_mode sc k
     \<and> (KillError d \<noteq> [] \<longrightarrow> RTOms d = None)
     \<and> (\<exists>e. seg_checks sc (world k) (led (writer_upto world (k + 1))) = Some (LedgerOK d, BalanceOK d, e)
          \<and> CheckError d = error_text e)"

definition drill_violations :: "Drill list \<Rightarrow> int" where
  "drill_violations ds = sum_list (map (\<lambda>d. check_violations (LedgerOK d) (BalanceOK d)) ds)"

text \<open>The state after \<open>m\<close> segments.\<close>

definition soak_log :: "sustain_args \<Rightarrow> scenario \<Rightarrow> soak_world \<Rightarrow> nat \<Rightarrow> soak_state \<Rightarrow> bool" where
  "soak_log a sc w m st \<longleftrightarrow>
     stSegments st = map (\<lambda>k. seg_doc a sc k (swSegs w k)) [0..<m]
     \<and> length (stDrills st) = m \<and> (\<forall>k < m. drill_of sc (swSegs w) k (stDrills st ! k))
     \<and> stViolations st = drill_violations (stDrills st) \<and> stWriter st = writer_upto (swSegs w) m
     \<and> stFolds st = fold_samples sc (swLoadFolds w) @ concat (map (fold_samples sc \<circ> gwFolds \<circ> swSegs w) [0..<m])
     \<and> stSweeps st = sweep_samples sc (swLoadSweeps w) @ concat (map (sweep_samples sc \<circ> gwSweeps \<circ> swSegs w) [0..<m])
     \<and> stOvers st = concat (map (map (cs_over \<circ> snd) \<circ> amp_samples \<circ> swSegs w) [0..<m])"

lemma soak_log_start: "soak_log a sc w 0 (soak_start sc w r ev)"
  by (simp add: soak_log_def soak_start_def record_loops_def drill_violations_def writer_upto_def)

lemma writer_upto_Suc: "writer_upto world (Suc m) = foldl (\<lambda>w t. ledger_tick t w) (writer_upto world m) (gwTicks (world m))"
  by (simp add: writer_upto_def)

lemma seg_drill_log:
  assumes "soak_log a sc w m st" and "seg_drill a sc t0 m (swSegs w m) st = Some (Inr st')"
  obtains d where "drill_of sc (swSegs w) m d" "stDrills st' = stDrills st @ [d]"
    "stViolations st' = stViolations st + check_violations (LedgerOK d) (BalanceOK d)"
    "stWriter st' = writer_upto (swSegs w) (m + 1)" "stSegments st' = stSegments st" "stFolds st' = stFolds st"
    "stSweeps st' = stSweeps st" "stOvers st' = stOvers st"
  using assms(2)
proof (cases rule: seg_drill_kill)
  case (drilled killErr st1 rto ledgerOK balanceOK checkErr wr)
  note rest = seg_kill_rest[OF drilled(1)]
  have wr: "wr = writer_upto (swSegs w) (m + 1)"
    using drilled(3) rest(1) assms(1) by (simp add: soak_log_def writer_upto_Suc)
  let ?d = "\<lparr>drill_Seq = int m, drill_Mode = drill_mode sc m,
            drill_T = round1 (Seconds (gwKillAt (swSegs w m) - t0)), RTOms = rto, LedgerOK = ledgerOK,
            BalanceOK = balanceOK, KillError = error_text killErr, CheckError = error_text checkErr\<rparr>"
  have rto: "error_text killErr \<noteq> [] \<Longrightarrow> rto = None"
    using drilled(2) by (cases killErr) (auto simp: seg_rto_def error_text_def)
  have "drill_of sc (swSegs w) m ?d" using drilled(4) rto unfolding wr by (simp add: drill_of_def)
  then show ?thesis using drilled(5) rest wr that[of ?d] by simp
qed simp

lemma seg_step_Inr:
  assumes "seg_step a sc t0 m g st = Some (Inr st')"
  obtains st1 where "seg_drill a sc t0 m g st = Some (Inr st1)" "stSegments st' = stSegments st1 @ [seg_doc a sc m g]"
    "stDrills st' = stDrills st1" "stViolations st' = stViolations st1" "stWriter st' = stWriter st1"
    "stFolds st' = stFolds st1 @ fold_samples sc (gwFolds g)" "stSweeps st' = stSweeps st1 @ sweep_samples sc (gwSweeps g)"
    "stOvers st' = stOvers st1 @ map (cs_over \<circ> snd) (amp_samples g)"
  using assms by (auto simp: seg_step_def run_then_Inr Let_def record_loops_def)

lemma seg_step_log:
  assumes "soak_log a sc w m st" and "seg_step a sc t0 m (swSegs w m) st = Some (Inr st')"
  shows "soak_log a sc w (m + 1) st'"
  using assms(2)
proof (cases rule: seg_step_Inr)
  case (1 st1)
  note step = 1
  from seg_drill_log[OF assms(1) 1(1)] show ?thesis
  proof (cases)
    case (1 d)
    note log = assms(1)[unfolded soak_log_def]
    have "drill_of sc (swSegs w) k (stDrills st' ! k)" if "k < m + 1" for k
      using log that 1(1,2) step(3) by (cases "k = m") (auto simp: nth_append)
    moreover have "stViolations st' = drill_violations (stDrills st')"
      using log 1(2,3) step(3,4) by (simp add: drill_violations_def)
    ultimately show ?thesis
      unfolding soak_log_def using log 1(2-) step(2-) by simp
  qed
qed

lemma soak_loop_log:
  assumes "soak_log a sc w j st" and "j \<le> n"
    and "soak_loop a sc t0 (swSegs w) [j..<n] st = Some (Inr (st', early))"
  shows "\<exists>m. j \<le> m \<and> m \<le> n \<and> soak_log a sc w m st' \<and> (\<forall>k. j \<le> k \<and> k + 1 < m \<longrightarrow> gwAlive (swSegs w k))
    \<and> (if early then j < m \<and> \<not> gwAlive (swSegs w (m - 1)) else m = n)"
  using assms
proof (induction "n - j" arbitrary: j st)
  case 0
  then show ?case by auto
next
  case (Suc i)
  then have j: "j < n" "[j..<n] = j # [Suc j..<n]" by (auto simp: upt_conv_Cons)
  obtain st1 where step: "seg_step a sc t0 j (swSegs w j) st = Some (Inr st1)"
    and rest: "(if \<not> gwAlive (swSegs w j) then Some (Inr (st1, True)) else soak_loop a sc t0 (swSegs w) [Suc j..<n] st1)
      = Some (Inr (st', early))"
    using Suc.prems(3) unfolding j(2) by (auto simp: run_then_Inr)
  have log1: "soak_log a sc w (Suc j) st1" using seg_step_log[OF Suc.prems(1) step] by simp
  show ?case
  proof (cases "gwAlive (swSegs w j)")
    case False
    then show ?thesis using rest log1 j(1) by (intro exI[of _ "Suc j"]) auto
  next
    case True
    have "\<exists>m. Suc j \<le> m \<and> m \<le> n \<and> soak_log a sc w m st'
      \<and> (\<forall>k. Suc j \<le> k \<and> k + 1 < m \<longrightarrow> gwAlive (swSegs w k))
      \<and> (if early then Suc j < m \<and> \<not> gwAlive (swSegs w (m - 1)) else m = n)"
      using Suc.hyps(1)[of "Suc j" st1] Suc.hyps(2) log1 j(1) rest True by simp
    then obtain m where m: "Suc j \<le> m" "m \<le> n" "soak_log a sc w m st'"
      "\<forall>k. Suc j \<le> k \<and> k + 1 < m \<longrightarrow> gwAlive (swSegs w k)"
      "if early then Suc j < m \<and> \<not> gwAlive (swSegs w (m - 1)) else m = n"
      by blast
    have "gwAlive (swSegs w k)" if "j \<le> k" "k + 1 < m" for k
      using True m(4) that by (cases "k = j") auto
    then show ?thesis using m j(1) by (intro exI[of _ m]) (auto split: if_splits)
  qed
qed

lemma or_die_Inr: "or_die ev r = Some (Inr x) \<longleftrightarrow> r = Inr x"
  by (cases r) (simp_all add: or_die_def)

lemma nSeg_pos: "0 < nSeg sc"
  by (simp add: nSeg_def)

lemma cmdSustain_Inr:
  assumes "cmdSustain a w = Some (Inr out)"
  obtains sc config r ev st early where "soak_open a w = Inr (sc, config)"
    "startDev (swNode w) a (sc_Port sc) 0 False = Inr (r, ev)"
    "soak_loop a sc (swStart w) (swSegs w) [0..<nSeg sc] (soak_start sc w r ev) = Some (Inr (st, early))"
    "out = soak_finish a w sc config st early"
  using assms unfolding cmdSustain_def by (auto simp: run_then_Inr or_die_Inr)

text \<open>What a soak that returned comes to: how many segments it ran, and the log of them.\<close>

lemma cmdSustain_log:
  assumes "cmdSustain a w = Some (Inr out)" and "soak_open a w = Inr (sc, config)"
  obtains m st early where "0 < m" "m \<le> nSeg sc" "soak_log a sc w m st" "out = soak_finish a w sc config st early"
    "\<forall>k. k + 1 < m \<longrightarrow> gwAlive (swSegs w k)" "if early then \<not> gwAlive (swSegs w (m - 1)) else m = nSeg sc"
proof -
  obtain r ev st early where l: "soak_loop a sc (swStart w) (swSegs w) [0..<nSeg sc] (soak_start sc w r ev) = Some (Inr (st, early))"
    "out = soak_finish a w sc config st early"
    using assms by (auto elim: cmdSustain_Inr)
  obtain m where m: "m \<le> nSeg sc" "soak_log a sc w m st" "\<forall>k. k + 1 < m \<longrightarrow> gwAlive (swSegs w k)"
    "if early then 0 < m \<and> \<not> gwAlive (swSegs w (m - 1)) else m = nSeg sc"
    using soak_loop_log[OF soak_log_start _ l(1)] by auto
  then show ?thesis using that[of m st early] l(2) nSeg_pos[of sc] by (auto split: if_splits)
qed

section \<open>The accounts of a soak\<close>

lemma soak_head_keys: "fst ` set (soak_head a w sc config) \<subseteq>
    {''scenario'', ''label'', ''date'', ''config'', ''env'', ''simulated'', ''init_seconds''}"
  by (auto simp: soak_head_def Let_def)

lemma folds_block_keys: "fst ` set (folds_block fs) \<subseteq>
    {''folds'', ''fold_bytes_after'', ''fold_layers_retired'', ''fold_failures''}"
  by (auto simp: folds_block_def Let_def when_some_def split: option.splits)

lemma gc_block_keys: "fst ` set (gc_block gs) \<subseteq> {''gc'', ''gc_deleted''}"
  by (auto simp: gc_block_def)

lemma soak_tail_violations: "map_get (soak_tail elapsed early st) ''violations'' = AInt (stViolations st)"
proof -
  have "''violations'' \<notin> fst ` set (folds_block fs)" "''violations'' \<notin> fst ` set (gc_block gs)" for fs gs
    using folds_block_keys[of fs] gc_block_keys[of gs] by auto
  then show ?thesis by (simp add: soak_tail_def map_get_append unless_empty_def)
qed

lemma soak_tail_early: "map_get (soak_tail elapsed early st) ''stopped_early'' =
    (if early then AStr ''the zou dev supervisor exited outside a drill'' else ANil)"
proof -
  have "''stopped_early'' \<notin> fst ` set (folds_block fs)" "''stopped_early'' \<notin> fst ` set (gc_block gs)" for fs gs
    using folds_block_keys[of fs] gc_block_keys[of gs] by auto
  then show ?thesis by (simp add: soak_tail_def map_get_append unless_empty_def when_some_def split: option.split)
qed

lemma folds_block_retired: "fs \<noteq> [] \<Longrightarrow> map_get (folds_block fs) ''fold_layers_retired'' = AInt (layers_retired (soak_folds fs))"
  by (simp add: folds_block_def Let_def map_get_append when_some_def split: option.split)

lemma soak_tail_retired:
  assumes "stFolds st \<noteq> []"
  shows "map_get (soak_tail elapsed early st) ''fold_layers_retired'' = AInt (layers_retired (soak_folds (stFolds st)))"
proof -
  have "''fold_layers_retired'' \<in> fst ` set (folds_block (stFolds st))"
    using assms by (auto simp: folds_block_def Let_def)
  then show ?thesis
    using folds_block_retired[OF assms] by (simp add: soak_tail_def map_get_append unless_empty_def)
qed

lemma soak_finish_get:
  assumes "k \<notin> {''scenario'', ''label'', ''date'', ''config'', ''env'', ''simulated'', ''init_seconds''}"
  shows "map_get (ouDoc (soak_finish a w sc config st early)) k
    = map_get (soak_tail (swEnd w - swStart w) early (ouState (soak_finish a w sc config st early))) k"
proof -
  have "k \<notin> fst ` set (soak_head a w sc config)" using assms soak_head_keys[of a w sc config] by blast
  then show ?thesis by (simp add: soak_finish_def Let_def split_beta map_get_skip)
qed

lemma soak_finish_state:
  "stDrills (ouState (soak_finish a w sc config st early)) = stDrills st"
  "stSegments (ouState (soak_finish a w sc config st early)) = stSegments st"
  "stViolations (ouState (soak_finish a w sc config st early)) = stViolations st"
  "stFolds (ouState (soak_finish a w sc config st early)) = stFolds st @ fold_samples sc (swLateFolds w)"
  "stSweeps (ouState (soak_finish a w sc config st early)) = stSweeps st @ sweep_samples sc (swLateSweeps w)"
  by (simp_all add: soak_finish_def Let_def split_beta record_loops_def)

lemma drill_violations_sum:
  "drill_violations ds = (\<Sum>k<length ds. check_violations (LedgerOK (ds ! k)) (BalanceOK (ds ! k)))"
  by (simp add: drill_violations_def sum_list_sum_nth atLeast0LessThan)

lemma count_if: "(\<Sum>k<n. if P k then 0 else 1 :: int) = int (card {k. k < (n::nat) \<and> \<not> P k})"
proof (induction n)
  case (Suc n)
  have "{k. k < Suc n \<and> \<not> P k} = (if P n then {} else {n}) \<union> {k. k < n \<and> \<not> P k}" by (auto simp: less_Suc_eq)
  then show ?case using Suc by simp
qed simp

lemma writer_upto_run: "writer_run (writer_upto world m)"
proof -
  have "writer_run (foldl (\<lambda>w t. ledger_tick t w) w ts)" if "writer_run w" for w ts
    using that by (induction ts arbitrary: w) (auto intro: writer_run.intros)
  then show ?thesis unfolding writer_upto_def by (blast intro: writer_run.intros)
qed

lemma verifyBalance_answers:
  assumes "\<forall>i. query balance_sql i = Inr (if ok then ''t'' else ''f'')"
  shows "verifyBalance query = (ok, None)"
proof -
  have "soakQuery (query balance_sql) = Inr (if ok then ''t'' else ''f'')" using assms by (intro soakQuery_const) simp
  then show ?thesis by (simp add: verifyBalance_def)
qed

text \<open>The world's database at the drill of a segment: a table of ids, and whether the sums agree.\<close>

definition seg_answers :: "seg_world \<Rightarrow> int list \<Rightarrow> bool \<Rightarrow> bool" where
  "seg_answers g table balanced \<longleftrightarrow> counts_from (gwQuery g) table \<and> distinct table \<and> length table < 2 ^ 63
     \<and> (\<forall>i. gwBalance g balance_sql i = Inr (if balanced then ''t'' else ''f''))"

lemma seg_checks_exact:
  assumes "seg_answers g table balanced" and "is_tpcb sc" and "writer_run wr" and "next_id (led wr) < 2 ^ 63"
  shows "seg_checks sc g (led wr) = Some (set (acked (led wr)) \<subseteq> set table, Some balanced, None)"
proof -
  have "verifyLedger (gwQuery g) (led wr) = Some (set (acked (led wr)) \<subseteq> set table, None)"
    using assms by (intro verifyLedger_exact) (auto simp: seg_answers_def)
  moreover have "verifyBalance (gwBalance g) = (balanced, None)"
    using assms(1) by (intro verifyBalance_answers) (simp add: seg_answers_def)
  ultimately show ?thesis using assms(2) by (simp add: seg_checks_def)
qed

text \<open>
  C1: the verdict of a soak is exact. Against a database that answers the checks from its tables, the
  violations a soak publishes are the drills after which an acknowledged write was missing and the
  drills after which the balances disagreed, each once, over the segments it ran; every drill was
  checked, and none of the checks is reported as one that could not run.
\<close>

theorem soak_verdict_exact:
  assumes "cmdSustain a w = Some (Inr out)" and "soak_open a w = Inr (sc, config)" and "is_tpcb sc"
    and "\<forall>k < nSeg sc. seg_answers (swSegs w k) (table k) (balanced k)"
    and "\<forall>k < nSeg sc. next_id (led (writer_upto (swSegs w) (k + 1))) < 2 ^ 63"
  shows "let n = length (stSegments (ouState out)) in
    map_get (ouDoc out) ''violations'' = AInt
      (int (card {k. k < n \<and> \<not> set (acked (led (writer_upto (swSegs w) (k + 1)))) \<subseteq> set (table k)})
       + int (card {k. k < n \<and> \<not> balanced k}))
    \<and> length (stDrills (ouState out)) = n \<and> (\<forall>d \<in> set (stDrills (ouState out)). CheckError d = [])"
  using assms(1,2)
proof (cases rule: cmdSustain_log)
  case (1 m st early)
  note log = 1(3)[unfolded soak_log_def]
  let ?ok = "\<lambda>k. set (acked (led (writer_upto (swSegs w) (k + 1)))) \<subseteq> set (table k)"
  have drill: "LedgerOK (stDrills st ! k) = ?ok k \<and> BalanceOK (stDrills st ! k) = Some (balanced k)
      \<and> CheckError (stDrills st ! k) = []" if "k < m" for k
  proof -
    have "drill_of sc (swSegs w) k (stDrills st ! k)" using log that by blast
    moreover have "seg_checks sc (swSegs w k) (led (writer_upto (swSegs w) (k + 1))) = Some (?ok k, Some (balanced k), None)"
      using assms(3,4,5) writer_upto_run that 1(2) by (intro seg_checks_exact) auto
    ultimately show ?thesis by (auto simp: drill_of_def error_text_def)
  qed
  have len: "length (stDrills st) = m" "length (stSegments st) = m" using log by simp_all
  have "stViolations st = (\<Sum>k<m. (if ?ok k then 0 else 1) + (if balanced k then 0 else 1))"
    using log drill by (auto simp: drill_violations_sum check_violations_def intro!: sum.cong)
  also have "\<dots> = int (card {k. k < m \<and> \<not> ?ok k}) + int (card {k. k < m \<and> \<not> balanced k})"
    by (simp only: sum.distrib count_if)
  finally have "map_get (ouDoc out) ''violations'' = AInt (int (card {k. k < m \<and> \<not> ?ok k}) + int (card {k. k < m \<and> \<not> balanced k}))"
    unfolding 1(4) by (subst soak_finish_get) (simp_all add: soak_tail_violations soak_finish_state)
  moreover have "\<forall>d \<in> set (stDrills st). CheckError d = []"
    using drill len by (metis in_set_conv_nth)
  ultimately show ?thesis using len unfolding 1(4) Let_def soak_finish_state by simp
qed

text \<open>
  C3: the books of a soak balance. It runs one segment after another until its last or until the
  node is gone outside a drill, and each has its block and its one drill, of the mode the scenario
  cycles to, with what the checks said of the ledger as it then stood; a drill that killed nothing
  has no recovery time. The violations published are those of the drills listed, the folds kept are
  all that were attempted from the load on, in order, and the layers said to be retired are the sum
  over those that ran.
\<close>

theorem soak_accounts:
  assumes "cmdSustain a w = Some (Inr out)" and "soak_open a w = Inr (sc, config)"
  shows "\<exists>n. 0 < n \<and> n \<le> nSeg sc \<and> (\<forall>k. k + 1 < n \<longrightarrow> gwAlive (swSegs w k))
    \<and> (map_get (ouDoc out) ''stopped_early'' = ANil \<longrightarrow> n = nSeg sc)
    \<and> (map_get (ouDoc out) ''stopped_early'' \<noteq> ANil \<longrightarrow> \<not> gwAlive (swSegs w (n - 1)))
    \<and> stSegments (ouState out) = map (\<lambda>k. seg_doc a sc k (swSegs w k)) [0..<n]
    \<and> length (stDrills (ouState out)) = n
    \<and> (\<forall>k < n. drill_of sc (swSegs w) k (stDrills (ouState out) ! k))
    \<and> map_get (ouDoc out) ''violations'' = AInt (drill_violations (stDrills (ouState out)))
    \<and> stFolds (ouState out) = fold_samples sc (swLoadFolds w)
        @ concat (map (fold_samples sc \<circ> gwFolds \<circ> swSegs w) [0..<n]) @ fold_samples sc (swLateFolds w)
    \<and> (stFolds (ouState out) \<noteq> [] \<longrightarrow> map_get (ouDoc out) ''fold_layers_retired'' =
        AInt (sum_list (map fs_retired (filter (\<lambda>f. fs_error f = None) (stFolds (ouState out))))))"
  using assms
proof (cases rule: cmdSustain_log)
  case (1 m st early)
  note log = 1(3)[unfolded soak_log_def]
  have early: "map_get (ouDoc out) ''stopped_early'' = (if early then AStr ''the zou dev supervisor exited outside a drill'' else ANil)"
    unfolding 1(4) by (subst soak_finish_get) (simp_all add: soak_tail_early)
  have viol: "map_get (ouDoc out) ''violations'' = AInt (drill_violations (stDrills (ouState out)))"
    unfolding 1(4) using log by (subst soak_finish_get) (simp_all add: soak_tail_violations soak_finish_state)
  have folds: "map_get (ouDoc out) ''fold_layers_retired'' =
      AInt (sum_list (map fs_retired (filter (\<lambda>f. fs_error f = None) (stFolds (ouState out)))))"
    if "stFolds (ouState out) \<noteq> []"
    using that soak_folds_accounting[of "stFolds (ouState out)"] unfolding 1(4)
    by (subst soak_finish_get) (simp_all add: soak_tail_retired Let_def)
  have "stFolds (ouState out) = fold_samples sc (swLoadFolds w)
        @ concat (map (fold_samples sc \<circ> gwFolds \<circ> swSegs w) [0..<m]) @ fold_samples sc (swLateFolds w)"
    "stSegments (ouState out) = map (\<lambda>k. seg_doc a sc k (swSegs w k)) [0..<m]"
    "length (stDrills (ouState out)) = m" "\<forall>k < m. drill_of sc (swSegs w) k (stDrills (ouState out) ! k)"
    unfolding 1(4) soak_finish_state using log by simp_all
  moreover have "early \<longrightarrow> \<not> gwAlive (swSegs w (m - 1))" "\<not> early \<longrightarrow> m = nSeg sc" using 1(6) by (auto split: if_splits)
  ultimately show ?thesis
    using 1(1,2,5) viol folds unfolding early by (intro exI[of _ m]) auto
qed

section \<open>A soak returns\<close>

definition clock_runs :: "(nat \<Rightarrow> int) \<Rightarrow> bool" where
  "clock_runs clock \<longleftrightarrow> (\<forall>t. \<exists>i. t < clock i)"

lemma waitWrite_returns:
  assumes "clock_runs clock"
  shows "waitWrite clock attempt fin start deadline \<noteq> None"
proof -
  let ?stop = "\<lambda>i. \<not> clock i < deadline \<or> \<not> isl (attempt i)"
  obtain n where "deadline < clock n" using assms by (auto simp: clock_runs_def)
  then have "\<exists>i. ?stop i" by (intro exI[of _ n]) simp
  then have stop: "?stop (LEAST i. ?stop i)" "\<forall>j < (LEAST i. ?stop i). \<not> ?stop j"
    using LeastI_ex[of ?stop] not_less_Least[of _ ?stop] by blast+
  obtain k where k: "?stop k" "\<forall>j < k. \<not> ?stop j" using stop by blast
  have "waitWrite clock attempt fin start deadline = waitWrite_from clock attempt fin start deadline k"
    unfolding waitWrite_def using k(2) by (intro waitWrite_from_first) auto
  then show ?thesis using k(1) by (subst (asm) waitWrite_from.simps) (auto simp: isl_def split: sum.splits)
qed

lemma waitPusherPid_returns:
  assumes "clock_runs clock"
  shows "waitPusherPid look clock now patience \<noteq> None"
proof -
  let ?d = "now + patience"
  obtain n where n: "?d < clock n" using assms by (auto simp: clock_runs_def)
  have "waitPusherPid_from look clock ?d (n - k) \<noteq> None" for k
  proof (induction k)
    case 0
    then show ?case using n by (subst waitPusherPid_from.simps) simp
  next
    case (Suc k)
    then have "waitPusherPid_from look clock ?d (n - Suc k + 1) \<noteq> None \<or> n - Suc k = n - k"
      by (cases "k < n") (simp_all add: Suc_diff_Suc)
    then show ?case using Suc by (cases "n - Suc k = n - k") (simp, subst waitPusherPid_from.simps, simp)
  qed
  from this[of n] show ?thesis by (simp add: waitPusherPid_def)
qed

lemma verifyLedger_returns: "verifyLedger query l \<noteq> None"
  using chunks_from_spec[of 10000 0 "acked l"] by (auto simp: verifyLedger_def Ledger_Chunks_def)

definition seg_runs :: "seg_world \<Rightarrow> bool" where
  "seg_runs g \<longleftrightarrow> clock_runs (wpClock (gwProbe g)) \<and> clock_runs (gwPusherClock g)"

lemma seg_step_returns:
  assumes "seg_runs g"
  shows "seg_step a sc t0 k g st \<noteq> None"
proof -
  have "seg_kill a sc k g st \<noteq> None"
    using assms waitPusherPid_returns by (auto simp: seg_kill_def Let_def seg_runs_def)
  then obtain q where q: "seg_kill a sc k g st = Some q" by blast
  have rto: "\<exists>t. seg_rto g e = Some t" for e
    using assms waitWrite_returns unfolding seg_rto_def probe_write_def seg_runs_def by fastforce
  have checks: "\<exists>c. seg_checks sc g l = Some c" for l
  proof -
    have "seg_checks sc g l \<noteq> None" using verifyLedger_returns[of "gwQuery g" l] by (simp add: seg_checks_def)
    then show ?thesis by blast
  qed
  show ?thesis
  proof (cases q)
    case (Inl e)
    then show ?thesis using q by (simp add: seg_step_def seg_drill_def)
  next
    case (Inr p)
    obtain e st1 where p: "p = (e, st1)" by (cases p)
    obtain t where "seg_rto g e = Some t" using rto by blast
    moreover obtain x y z where
      "seg_checks sc g (led (foldl (\<lambda>w t. ledger_tick t w) (stWriter st1) (gwTicks g))) = Some (x, y, z)"
      using checks by (metis prod_cases3)
    ultimately show ?thesis using q Inr p by (simp add: seg_step_def seg_drill_def Let_def)
  qed
qed

lemma soak_loop_returns:
  assumes "\<forall>k. seg_runs (world k)"
  shows "soak_loop a sc t0 world ks st \<noteq> None"
proof (induction ks arbitrary: st)
  case (Cons k ks)
  then show ?case
    using seg_step_returns[of "world k" a sc t0 k st] assms
    by (cases "seg_step a sc t0 k (world k) st") (auto simp: run_then_def split: sum.splits)
qed simp

text \<open>Without a death drill nothing that fails in a segment is fatal.\<close>

lemma soak_loop_survives:
  assumes "''death'' \<notin> set (sc_Drills sc)" and "sc_Drills sc \<noteq> []"
    and "soak_loop a sc t0 world ks st = Some r"
  shows "\<exists>p. r = Inr p"
  using assms(3)
proof (induction ks arbitrary: st)
  case Nil
  then show ?case by auto
next
  case (Cons k ks)
  have "drill_mode sc k \<noteq> ''death''"
    using assms(1,2) unfolding drill_mode_def by (metis length_greater_0_conv mod_less_divisor nth_mem)
  then have "seg_kill a sc k (world k) st \<noteq> Some (Inl e)" for e
    by (auto simp: seg_kill_def Let_def)
  then have "seg_step a sc t0 k (world k) st \<noteq> Some (Inl e)" for e
    by (auto simp: seg_step_def seg_drill_def run_then_Inl Let_def)
  then show ?case using Cons by (auto simp: run_then_def split: option.splits sum.splits if_splits)
qed

lemma cmdSustain_returns:
  assumes "clock_runs (wpClock (swReady w))" and "\<forall>k. seg_runs (swSegs w k)"
  shows "cmdSustain a w \<noteq> None"
proof (cases "soak_open a w")
  case (Inl e)
  then show ?thesis by (simp add: cmdSustain_def or_die_def)
next
  case (Inr p)
  obtain sc config where p: "p = (sc, config)" by (cases p)
  obtain ready where ready: "probe_write (swReady w) (swStart w) (swReadyNow w + 15 * Minute) = Some ready"
    using waitWrite_returns[OF assms(1)] unfolding probe_write_def by blast
  have loop: "soak_loop a sc (swStart w) (swSegs w) ks st \<noteq> None" for ks st
    using soak_loop_returns[OF assms(2)] .
  show ?thesis
  proof (cases "startDev (swNode w) a (sc_Port sc) 0 False")
    case (Inl e)
    then show ?thesis using Inr p by (simp add: cmdSustain_def or_die_def)
  next
    case start: (Inr q)
    obtain r ev where q: "q = (r, ev)" by (cases q)
    show ?thesis
      using Inr p start q ready loop[of "[0..<nSeg sc]" "soak_start sc w r ev"]
      by (cases "soak_setup a w sc ready") (auto simp: cmdSustain_def or_die_def run_then_def split: sum.splits)
  qed
qed

lemma cmdSustain_survives:
  assumes "soak_open a w = Inr (sc, config)" and "startDev (swNode w) a (sc_Port sc) 0 False = Inr q"
    and "probe_write (swReady w) (swStart w) (swReadyNow w + 15 * Minute) = Some ready"
    and "soak_setup a w sc ready = Inr u" and "''death'' \<notin> set (sc_Drills sc)" and "sc_Drills sc \<noteq> []"
    and "cmdSustain a w = Some r"
  shows "\<exists>out. r = Inr out"
proof -
  obtain r0 ev where q: "q = (r0, ev)" by (cases q)
  let ?l = "soak_loop a sc (swStart w) (swSegs w) [0..<nSeg sc] (soak_start sc w r0 ev)"
  have r: "run_then ?l (\<lambda>(st, early). Some (Inr (soak_finish a w sc config st early))) = Some r"
    using assms(1-4,7) by (simp add: cmdSustain_def or_die_def q)
  then obtain l where "?l = Some l" by (cases ?l) auto
  moreover obtain st early where "l = Inr (st, early)"
    using soak_loop_survives[OF assms(5,6) calculation] by fastforce
  ultimately show ?thesis using r by auto
qed


section \<open>A soak as an example\<close>

text \<open>Two segments with a crash each, of which the second finds one of two acknowledged writes gone.\<close>

definition small_soak :: json where
  "small_soak = JObj [(''name'', JStr ''s''), (''kind'', JStr ''sustain''), (''drills'', JArr [JStr ''crash'']),
     (''duration'', JNum ''2''), (''segment'', JNum ''1'')]"

definition small_args :: sustain_args where
  "small_args = \<lparr>suScenario = ''s.json'', suPgbin = ''pg'', suZoubin = ''zou'', suStore = ''/s'', suWorkdir = ''/w'',
     suLabel = ''l'', suOutdir = ''results'', suSimulated = []\<rparr>"

definition small_shm :: shm_world where
  "small_shm = \<lparr>shDarwin = False, shMe = ''me'', shIpcs = Inl ''no ipcs''\<rparr>"

definition small_start :: node_start where
  "small_start = \<lparr>nsLog = None, nsCmd = (\<lambda>_. None)\<rparr>"

definition small_probe :: write_probe where
  "small_probe = \<lparr>wpClock = int, wpAttempt = (\<lambda>_. Inr []), wpDone = int\<rparr>"

definition small_table :: "nat \<Rightarrow> int list" where
  "small_table k = (if k = 0 then [1] else [2])"

definition small_seg :: "nat \<Rightarrow> seg_world" where
  "small_seg k = \<lparr>gwOpsBefore = Inl ''none'', gwOpsAfter = Inl ''none'', gwTreePid = Inl ''none'', gwTree = [], gwAmp = [],
     gwSweeps = [], gwFolds = [], gwBenchStart = (\<lambda>_. None), gwBenchWait = None, gwBenchOut = [], gwKillAt = 0,
     gwPidfile = Inr ''77'', gwPusher = (\<lambda>_. Inl ''none''), gwPusherNow = 0, gwPusherClock = int, gwSignal = (\<lambda>_. None),
     gwShmKill = small_shm, gwStart = small_start, gwShm = small_shm, gwProbe = small_probe, gwTicks = [InsertReturned],
     gwQuery = table_db (small_table k), gwBalance = (\<lambda>_ _. Inr ''t''), gwIsDir = True, gwStore = [], gwAlive = True\<rparr>"

definition small_world :: soak_world where
  "small_world = \<lparr>swFile = Inr (MarshalIndent small_soak), swWindows = False, swMkdir = None,
     swLock = \<lparr>lkOpen = None, lkFlock = None, lkHeld = [], lkTruncate = None, lkSeek = None\<rparr>,
     swDate = ''2026-01-02T03:04:05Z'', swEnv = [], swSim = [], swDelay = [], swStart = 0, swNode = small_start,
     swShmSetup = small_shm, swReady = small_probe, swReadyNow = 0, swCheckpoint = (\<lambda>_. Inr []), swInit = (\<lambda>_. (None, 0)),
     swLoadSweeps = [], swLoadFolds = [], swTable = (\<lambda>_. Inr []), swSegs = small_seg, swShmEnd = small_shm, swEnd = 0,
     swLateAmp = [], swLateSweeps = [], swLateFolds = [], swTempDir = ''/tmp'',
     swIo = \<lparr>mkdir_err = None, write_err = None, rename_err = None, remove_ok = True\<rparr>,
     swIoTemp = \<lparr>mkdir_err = None, write_err = None, rename_err = None, remove_ok = True\<rparr>, swFiles = Map.empty\<rparr>"

lemma small_parse: "json_parse (MarshalIndent small_soak) = Some small_soak"
  unfolding small_soak_def
  by (rule json_parse_Marshal; simp add: ascii_def scan_number_def scan_whole_def scan_digits_def scan_frac_def
      scan_exp_def is_digit_def)

lemma small_open: "\<exists>sc config. soak_open small_args small_world = Inr (sc, config)
    \<and> sc_Drills sc = [''crash''] \<and> is_tpcb sc \<and> nSeg sc = 2"
proof -
  have "json_Unmarshal (dec_struct False scenario_fields) (MarshalIndent small_soak) scenario_zero
      = Some (scenario_zero\<lparr>sc_Name := ''s'', sc_Kind := ''sustain'', sc_Drills := [''crash''], sc_Duration := 2, sc_Segment := 1\<rparr>)"
    unfolding json_Unmarshal_def small_parse unfolding small_soak_def
    by code_simp
  moreover obtain sc where "run_sections (scenario_sections (suScenario small_args))
      (scenario_zero\<lparr>sc_Name := ''s'', sc_Kind := ''sustain'', sc_Drills := [''crash''], sc_Duration := 2, sc_Segment := 1\<rparr>) = Inr sc"
      "sc_Drills sc = [''crash'']" "sc_Builtin sc = []" "IsSustain sc" "sc_Duration sc = 2" "sc_Segment sc = 1"
    by (simp add: scenario_sections_def named_section_def attach_section_def fleet_section_def sockets_section_def
        sustain_section_def driver_section_def load_section_def kinds_of scenario_zero_def drill_names_def)
  ultimately have "scenario_Load (suScenario small_args) (swFile small_world) = Inr (sc, any_of_json small_soak)"
    using small_parse by (simp add: scenario_Load_def small_world_def) (simp add: small_soak_def)
  moreover have "swLock small_world = \<lparr>lkOpen = None, lkFlock = None, lkHeld = [], lkTruncate = None, lkSeek = None\<rparr>"
    "\<not> swWindows small_world" "swMkdir small_world = None" by (simp_all add: small_world_def)
  ultimately show ?thesis
    using \<open>sc_Drills sc = _\<close> \<open>sc_Builtin sc = []\<close> \<open>IsSustain sc\<close> \<open>sc_Duration sc = 2\<close> \<open>sc_Segment sc = 1\<close>
    by (simp add: soak_open_def and_then_def dies_def lockWorkdir_def is_tpcb_def nSeg_def quot_def)
qed

lemma small_clocks: "clock_runs (wpClock (swReady small_world))" "\<forall>k. seg_runs (swSegs small_world k)"
proof -
  have "clock_runs int" unfolding clock_runs_def
  proof
    fix t :: int
    show "\<exists>i. t < int i" by (rule exI[of _ "nat (t + 1)"]) simp
  qed
  then show "clock_runs (wpClock (swReady small_world))" "\<forall>k. seg_runs (swSegs small_world k)"
    by (simp_all add: seg_runs_def small_world_def small_seg_def small_probe_def)
qed

lemma small_setup:
  "\<exists>q. startDev (swNode small_world) small_args (sc_Port sc) 0 False = Inr q"
  "\<exists>ready. probe_write (swReady small_world) (swStart small_world) (swReadyNow small_world + 15 * Minute) = Some ready
     \<and> soak_setup small_args small_world sc ready = Inr ()"
proof -
  show "\<exists>q. startDev (swNode small_world) small_args (sc_Port sc) 0 False = Inr q"
    by (simp add: startDev_def small_world_def small_start_def and_then_def dies_def Let_def)
  have "probe_write (swReady small_world) (swStart small_world) (swReadyNow small_world + 15 * Minute) = Some (Some (ms 0))"
    unfolding probe_write_def waitWrite_def
    by (subst waitWrite_from.simps) (simp add: small_world_def small_probe_def Minute_def GoTime.Second_def)
  moreover have "soakQuery (\<lambda>_. Inr []) = Inr []" by (rule soakQuery_const) simp
  ultimately show "\<exists>ready. probe_write (swReady small_world) (swStart small_world) (swReadyNow small_world + 15 * Minute) = Some ready
     \<and> soak_setup small_args small_world sc ready = Inr ()"
    by (intro exI[of _ "Some (ms 0)"]) (simp add: soak_setup_def small_world_def and_then_def dies_def)
qed

lemma small_returns: "\<exists>out. cmdSustain small_args small_world = Some (Inr out)"
proof -
  obtain sc config where open1: "soak_open small_args small_world = Inr (sc, config)" "sc_Drills sc = [''crash'']"
    using small_open by blast
  obtain r where r: "cmdSustain small_args small_world = Some r"
    using cmdSustain_returns[OF small_clocks] by blast
  obtain q where q: "startDev (swNode small_world) small_args (sc_Port sc) 0 False = Inr q" using small_setup(1) by blast
  obtain ready where "probe_write (swReady small_world) (swStart small_world) (swReadyNow small_world + 15 * Minute) = Some ready"
    "soak_setup small_args small_world sc ready = Inr ()" using small_setup(2) by blast
  from cmdSustain_survives[OF open1(1) q this _ _ r] open1(2) r show ?thesis by auto
qed

lemma small_segments:
  assumes "cmdSustain small_args small_world = Some (Inr out)"
  shows "length (stSegments (ouState out)) = 2"
proof -
  obtain sc config where sc: "soak_open small_args small_world = Inr (sc, config)" "nSeg sc = 2"
    using small_open by blast
  have alive: "gwAlive (swSegs small_world k)" for k by (simp add: small_world_def small_seg_def)
  from assms sc(1) show ?thesis
  proof (cases rule: cmdSustain_log)
    case (1 m st early)
    then have "m = 2" using alive sc(2) by (auto split: if_splits)
    then show ?thesis using 1(3,4) by (simp add: soak_finish_state soak_log_def)
  qed
qed


theorem soak_verdict_exact_witness:
  "\<exists>out. cmdSustain small_args small_world = Some (Inr out) \<and> map_get (ouDoc out) ''violations'' = AInt 1"
proof -
  obtain out where out: "cmdSustain small_args small_world = Some (Inr out)" using small_returns by blast
  obtain sc config where sc: "soak_open small_args small_world = Inr (sc, config)" "is_tpcb sc" "nSeg sc = 2"
    using small_open by blast
  have two: "{0..<2::nat} = {0, 1}" "k < 2 \<longleftrightarrow> k = 0 \<or> k = 1" for k :: nat by auto
  have answers: "\<forall>k < nSeg sc. seg_answers (swSegs small_world k) (small_table k) True"
    by (simp add: seg_answers_def small_world_def small_seg_def table_db_counts small_table_def)
  have writer: "led (writer_upto (swSegs small_world) 1) = \<lparr>next_id = 2, acked = [1]\<rparr>"
    "led (writer_upto (swSegs small_world) 2) = \<lparr>next_id = 3, acked = [1, 2]\<rparr>"
    by (simp_all add: writer_upto_def small_world_def small_seg_def numeral_2_eq_2 ledger_tick_def writer_start_def
        NewLedger_def Ledger_Next_def Ledger_Ack_def)
  have ids: "\<forall>k < nSeg sc. next_id (led (writer_upto (swSegs small_world) (k + 1))) < 2 ^ 63"
    using writer by (auto simp: sc(3) two(2) numeral_2_eq_2[symmetric])
  have lost: "{k. k < 2 \<and> \<not> set (acked (led (writer_upto (swSegs small_world) (k + 1)))) \<subseteq> set (small_table k)} = {1}"
    using writer by (auto simp: two(2) small_table_def numeral_2_eq_2[symmetric])
  show ?thesis
    using soak_verdict_exact[OF out sc(1,2) answers ids] out lost small_segments[OF out] by (simp add: Let_def)
qed

theorem soak_accounts_witness:
  "\<exists>out. cmdSustain small_args small_world = Some (Inr out) \<and> length (stSegments (ouState out)) = 2"
proof -
  obtain out where out: "cmdSustain small_args small_world = Some (Inr out)" using small_returns by blast
  obtain sc config where sc: "soak_open small_args small_world = Inr (sc, config)" "nSeg sc = 2"
    using small_open by blast
  have "gwAlive (swSegs small_world k)" for k by (simp add: small_world_def small_seg_def)
  then show ?thesis using soak_accounts[OF out sc(1)] out sc(2) by force
qed

end
