(* ===== verification/Tpcb.thy ===== *)
theory Tpcb
  imports Latency GoStrings
begin

text \<open>
  Package \<open>tpcb\<close> (src/tpcb/tpcb.go): the tpcb-like transaction driven over the wire, every
  statement timed on its own. What the server answers, the clocks and the numbers drawn are
  arguments, one record for each round of a client. The theorems are the discipline of what goes
  over the wire, the accounts of a run, and that a statement's line can be read against the line of
  the transaction it is part of.
\<close>

section \<open>The transaction\<close>

definition Statements :: "string list" where
  "Statements = [''begin'', ''accounts update'', ''accounts select'', ''tellers update'',
     ''branches update'', ''history insert'', ''end'']"

record tpcb_txn =
  tx_LatencyMS :: f64
  tx_Epoch :: int
  tx_StmtMS :: "f64 list"

text \<open>\<open>rng.Intn(n)\<close>: the number drawn, nothing for the panic of an empty range.\<close>

definition Intn :: "int \<Rightarrow> nat \<Rightarrow> int option" where
  "Intn n r = (if n \<le> 0 then None else Some (int r mod n))"

record tpcb_vars =
  vAid :: int
  vBid :: int
  vTid :: int
  vDelta :: int

definition tpcb_draw :: "int \<Rightarrow> nat \<times> nat \<times> nat \<times> nat \<Rightarrow> tpcb_vars option" where
  "tpcb_draw scale r =
     (case r of (ra, rb, rt, rd) \<Rightarrow>
      case (Intn (100000 * scale) ra, Intn scale rb, Intn (10 * scale) rt, Intn 10001 rd) of
        (Some a, Some b, Some t, Some d) \<Rightarrow>
          Some \<lparr>vAid = a + 1, vBid = b + 1, vTid = t + 1, vDelta = d - 5000\<rparr>
      | _ \<Rightarrow> None)"

definition tpcb_sql :: "tpcb_vars \<Rightarrow> string list" where
  "tpcb_sql v =
     [''BEGIN'',
      ''UPDATE pgbench_accounts SET abalance = abalance + '' @ itoa (vDelta v) @ '' WHERE aid = '' @ itoa (vAid v),
      ''SELECT abalance FROM pgbench_accounts WHERE aid = '' @ itoa (vAid v),
      ''UPDATE pgbench_tellers SET tbalance = tbalance + '' @ itoa (vDelta v) @ '' WHERE tid = '' @ itoa (vTid v),
      ''UPDATE pgbench_branches SET bbalance = bbalance + '' @ itoa (vDelta v) @ '' WHERE bid = '' @ itoa (vBid v),
      ''INSERT INTO pgbench_history (tid, bid, aid, delta, mtime) VALUES ('' @ itoa (vTid v) @ '', ''
        @ itoa (vBid v) @ '', '' @ itoa (vAid v) @ '', '' @ itoa (vDelta v) @ '', CURRENT_TIMESTAMP)'',
      ''END'']"

section \<open>One client\<close>

text \<open>
  One round of a client: the clock when the loop looks at the deadline and at the start, for each
  statement the clock around it and its error, the clock and the second at the end, and the error
  of the rollback when there is one. Clocks are in nanoseconds.
\<close>

record tpcb_answer =
  saAt :: int
  saAfter :: int
  saErr :: "go_error option"

record tpcb_round =
  rdNow :: int
  rdDraws :: "nat \<times> nat \<times> nat \<times> nat"
  rdStart :: int
  rdAnswer :: "nat \<Rightarrow> tpcb_answer"
  rdDone :: int
  rdUnix :: int
  rdRollback :: "go_error option"

definition nanos_ms :: "int \<Rightarrow> f64" where
  "nanos_ms d = fdiv (f64_of_int d) 1000000"

text \<open>What went over the wire, each statement with the error it was answered with.\<close>

type_synonym wire_log = "(string \<times> go_error option) list"

fun tpcb_stmts :: "(nat \<Rightarrow> tpcb_answer) \<Rightarrow> nat \<Rightarrow> string list \<Rightarrow> f64 list option \<times> wire_log" where
  "tpcb_stmts ans k [] = (Some [], [])"
| "tpcb_stmts ans k (s # ss) =
     (case saErr (ans k) of
        Some e \<Rightarrow> (None, [(s, Some e)])
      | None \<Rightarrow>
          let (took, said) = tpcb_stmts ans (k + 1) ss
          in (map_option (Cons (nanos_ms (saAfter (ans k) - saAt (ans k)))) took, (s, None) # said))"

text \<open>A round: the transaction if it went through, what was sent, and whether the client goes on.\<close>

definition tpcb_round_of :: "int \<Rightarrow> tpcb_round \<Rightarrow> (tpcb_txn option \<times> wire_log \<times> bool) option" where
  "tpcb_round_of scale r =
     (case tpcb_draw scale (rdDraws r) of None \<Rightarrow> None
      | Some v \<Rightarrow> Some
         (case tpcb_stmts (rdAnswer r) 0 (tpcb_sql v) of
            (None, said) \<Rightarrow> (None, said @ [(''ROLLBACK'', rdRollback r)], rdRollback r = None)
          | (Some took, said) \<Rightarrow>
              (Some \<lparr>tx_LatencyMS = nanos_ms (rdDone r - rdStart r), tx_Epoch = rdUnix r, tx_StmtMS = took\<rparr>,
               said, True)))"

text \<open>
  The loop of a client: its transactions, its failures and what it sent. Nothing stands for a
  client that does not return, because its clock never reaches the deadline or a draw panics.
\<close>

partial_function (option) tpcb_loop_from ::
    "int \<Rightarrow> int \<Rightarrow> (nat \<Rightarrow> tpcb_round) \<Rightarrow> nat \<Rightarrow> tpcb_txn list \<Rightarrow> nat \<Rightarrow> wire_log \<Rightarrow> (tpcb_txn list \<times> nat \<times> wire_log) option" where
  "tpcb_loop_from scale deadline rounds i txns failed sent =
     (if rdNow (rounds i) < deadline then
        (case tpcb_round_of scale (rounds i) of
           None \<Rightarrow> None
         | Some (Some t, said, _) \<Rightarrow> tpcb_loop_from scale deadline rounds (i + 1) (txns @ [t]) failed (sent @ said)
         | Some (None, said, go) \<Rightarrow>
             if go then tpcb_loop_from scale deadline rounds (i + 1) txns (failed + 1) (sent @ said)
             else Some (txns, failed + 1, sent @ said))
      else Some (txns, failed, sent))"

definition tpcb_loop :: "int \<Rightarrow> int \<Rightarrow> (nat \<Rightarrow> tpcb_round) \<Rightarrow> (tpcb_txn list \<times> nat \<times> wire_log) option" where
  "tpcb_loop scale deadline rounds = tpcb_loop_from scale deadline rounds 0 [] 0 []"

section \<open>All clients\<close>

text \<open>Dialing: the connections open when one fails are closed again.\<close>

fun tpcb_dial :: "(nat \<Rightarrow> go_error option) \<Rightarrow> nat list \<Rightarrow> nat list \<Rightarrow> (go_error \<times> nat list) + nat list" where
  "tpcb_dial dial opened [] = Inr opened"
| "tpcb_dial dial opened (i # is) =
     (case dial i of
        Some e \<Rightarrow> Inl (''tpcb: client '' @ itoa (int i) @ '': '' @ e, opened)
      | None \<Rightarrow> tpcb_dial dial (opened @ [i]) is)"

fun join_clients :: "(tpcb_txn list \<times> nat \<times> wire_log) option list \<Rightarrow> (tpcb_txn list \<times> nat) option" where
  "join_clients [] = Some ([], 0)"
| "join_clients (c # cs) =
     (case c of None \<Rightarrow> None
      | Some (txns, failed, _) \<Rightarrow>
          map_option (\<lambda>(ts, n). (txns @ ts, failed + n)) (join_clients cs))"

text \<open>A run: what it returns, and the connections closed when it does.\<close>

definition tpcb_Run :: "(nat \<Rightarrow> go_error option) \<Rightarrow> int \<Rightarrow> int \<Rightarrow> int \<Rightarrow> (nat \<Rightarrow> nat \<Rightarrow> tpcb_round) \<Rightarrow>
    ((tpcb_txn list \<times> nat) go_result \<times> nat list) option" where
  "tpcb_Run dial scale clients deadline rounds =
     (if clients < 1 then Some (Inl (''tpcb: '' @ itoa clients @ '' clients''), [])
      else case tpcb_dial dial [] [0..<nat clients] of
        Inl (e, shut) \<Rightarrow> Some (Inl e, shut)
      | Inr conns \<Rightarrow>
          map_option (\<lambda>r. (Inr r, conns)) (join_clients (map (\<lambda>i. tpcb_loop scale deadline (rounds i)) conns)))"

section \<open>Percentiles\<close>

definition tpcb_Percentiles :: "tpcb_txn list \<Rightarrow> (string \<rightharpoonup> (string \<rightharpoonup> f64))" where
  "tpcb_Percentiles txns =
     (if txns = [] then Map.empty
      else foldl (\<lambda>out (k, name).
          out(name \<mapsto> latency_Percentiles (map (\<lambda>t. \<lparr>MS = tx_StmtMS t ! k, Epoch = tx_Epoch t\<rparr>) txns)))
        [''transaction'' \<mapsto> latency_Percentiles (map (\<lambda>t. \<lparr>MS = tx_LatencyMS t, Epoch = tx_Epoch t\<rparr>) txns)]
        (enumerate 0 Statements))"

section \<open>What goes over the wire\<close>

text \<open>
  The transaction a server has open for a client, statement by statement: none, one that is going
  well, or one that has to be rolled back. Nothing stands for a statement that has no place there.
\<close>

datatype tx_state = Outside | Inside | Spoilt

definition tx_say :: "tx_state \<Rightarrow> string \<times> go_error option \<Rightarrow> tx_state option" where
  "tx_say st said =
     (case said of (s, e) \<Rightarrow>
      if s = ''BEGIN'' then (if st = Outside then Some (if e = None then Inside else Spoilt) else None)
      else if s = ''ROLLBACK'' then (if st = Spoilt then Some (if e = None then Outside else Spoilt) else None)
      else if s = ''END'' then (if st = Inside then Some (if e = None then Outside else Spoilt) else None)
      else (if st = Inside then Some (if e = None then Inside else Spoilt) else None))"

fun tx_run :: "tx_state \<Rightarrow> wire_log \<Rightarrow> tx_state option" where
  "tx_run st [] = Some st"
| "tx_run st (x # xs) = (case tx_say st x of None \<Rightarrow> None | Some st' \<Rightarrow> tx_run st' xs)"

abbreviation commits :: "wire_log \<Rightarrow> nat" where
  "commits sent \<equiv> length (filter (\<lambda>s. s = (''END'', None)) sent)"

abbreviation rollbacks :: "wire_log \<Rightarrow> nat" where
  "rollbacks sent \<equiv> length (filter (\<lambda>s. fst s = ''ROLLBACK'') sent)"

lemma tx_run_append:
  "tx_run st (xs @ ys) = (case tx_run st xs of None \<Rightarrow> None | Some st' \<Rightarrow> tx_run st' ys)"
  by (induction xs arbitrary: st) (auto split: option.splits)

text \<open>The statements in the middle of the transaction, and the two ends of it.\<close>

definition middle :: "string \<Rightarrow> bool" where
  "middle s \<longleftrightarrow> s \<noteq> ''BEGIN'' \<and> s \<noteq> ''ROLLBACK'' \<and> s \<noteq> ''END''"

lemma tpcb_sql_shape: "\<exists>mid. tpcb_sql v = ''BEGIN'' # mid @ [''END''] \<and> length mid = 5 \<and> list_all middle mid"
  by (simp add: tpcb_sql_def middle_def)

lemma tpcb_stmts_middle:
  assumes "list_all middle mid" and "tpcb_stmts ans k (mid @ [''END'']) = (took, said)"
  shows "tx_run Inside said = Some (if took = None then Spoilt else Outside)
    \<and> commits said = (if took = None then 0 else 1) \<and> rollbacks said = 0"
  using assms
proof (induction mid arbitrary: k took said)
  case Nil
  then show ?case by (auto simp: tx_say_def split: option.splits)
next
  case (Cons s mid)
  obtain took' rest where r: "tpcb_stmts ans (Suc k) (mid @ [''END'']) = (took', rest)" by fastforce
  have m: "tx_say Inside (s, e) = Some (if e = None then Inside else Spoilt)"
      "s \<noteq> ''END''" "s \<noteq> ''ROLLBACK''" for e
    using Cons.prems(1) by (auto simp: tx_say_def middle_def)
  have ih: "tx_run Inside rest = Some (if took' = None then Spoilt else Outside)
      \<and> commits rest = (if took' = None then 0 else 1) \<and> rollbacks rest = 0"
    using Cons.IH[OF _ r] Cons.prems(1) by simp
  show ?case
  proof (cases "saErr (ans k)")
    case None
    then have "took = map_option (Cons (nanos_ms (saAfter (ans k) - saAt (ans k)))) took'" "said = (s, None) # rest"
      using Cons.prems(2) r by auto
    then show ?thesis using ih m by auto
  next
    case (Some e)
    then show ?thesis using Cons.prems(2) m by auto
  qed
qed

lemma tpcb_round_wire:
  assumes "tpcb_round_of scale r = Some (t, said, go)"
  shows "tx_run Outside said = Some (if go then Outside else Spoilt)
    \<and> commits said = (if t = None then 0 else 1) \<and> rollbacks said = (if t = None then 1 else 0)
    \<and> (t \<noteq> None \<longrightarrow> go) \<and> (\<not> go \<longrightarrow> rdRollback r \<noteq> None)"
proof -
  obtain v where v: "tpcb_draw scale (rdDraws r) = Some v"
    using assms by (auto simp: tpcb_round_of_def split: option.splits)
  obtain mid where mid: "tpcb_sql v = ''BEGIN'' # mid @ [''END'']" "list_all middle mid"
    using tpcb_sql_shape by blast
  obtain took rest where st: "tpcb_stmts (rdAnswer r) 1 (mid @ [''END'']) = (took, rest)" by fastforce
  note facts = tpcb_stmts_middle[OF mid(2) st] st
  show ?thesis
  proof (cases "saErr (rdAnswer r 0)")
    case None
    then show ?thesis using assms v facts
      by (cases took; auto simp: tpcb_round_of_def mid(1) tx_say_def tx_run_append)
  next
    case (Some e)
    then show ?thesis using assms v
      by (auto simp: tpcb_round_of_def mid(1) tx_say_def)
  qed
qed

lemma tpcb_draw_total: "0 < scale \<Longrightarrow> \<exists>v. tpcb_draw scale r = Some v"
  by (cases r) (auto simp: tpcb_draw_def Intn_def)

lemma tpcb_round_total: "0 < scale \<Longrightarrow> \<exists>t said go. tpcb_round_of scale r = Some (t, said, go)"
  using tpcb_draw_total[of scale "rdDraws r"] by (auto simp: tpcb_round_of_def split: option.splits prod.splits)

text \<open>The rows a transaction names are rows the scale has.\<close>

lemma tpcb_draw_range:
  assumes "tpcb_draw scale r = Some v"
  shows "1 \<le> vAid v \<and> vAid v \<le> 100000 * scale \<and> 1 \<le> vBid v \<and> vBid v \<le> scale
    \<and> 1 \<le> vTid v \<and> vTid v \<le> 10 * scale \<and> - 5000 \<le> vDelta v \<and> vDelta v \<le> 5000"
  using assms
  by (auto simp: tpcb_draw_def Intn_def split: prod.splits option.splits if_splits)
    (smt (verit) pos_mod_bound pos_mod_sign)+

section \<open>The rounds of a client\<close>

text \<open>What a round came to, for a scale whose draws have something to draw from.\<close>

definition round_txn :: "int \<Rightarrow> tpcb_round \<Rightarrow> tpcb_txn option" where
  "round_txn scale r = fst (the (tpcb_round_of scale r))"

definition round_said :: "int \<Rightarrow> tpcb_round \<Rightarrow> wire_log" where
  "round_said scale r = fst (snd (the (tpcb_round_of scale r)))"

definition round_goes :: "int \<Rightarrow> tpcb_round \<Rightarrow> bool" where
  "round_goes scale r = snd (snd (the (tpcb_round_of scale r)))"

lemma tpcb_round_parts:
  "0 < scale \<Longrightarrow> tpcb_round_of scale r = Some (round_txn scale r, round_said scale r, round_goes scale r)"
  using tpcb_round_total[of scale r] by (auto simp: round_txn_def round_said_def round_goes_def)

lemmas round_wire = tpcb_round_wire[OF tpcb_round_parts]

text \<open>A client runs the rounds up to the deadline or to a rollback that was not answered.\<close>

definition client_rounds :: "int \<Rightarrow> int \<Rightarrow> (nat \<Rightarrow> tpcb_round) \<Rightarrow> nat \<Rightarrow> nat \<Rightarrow> bool" where
  "client_rounds scale deadline rounds i n \<longleftrightarrow> i \<le> n
     \<and> (\<forall>j. i \<le> j \<and> j < n \<longrightarrow> rdNow (rounds j) < deadline)
     \<and> (\<forall>j. i \<le> j \<and> Suc j < n \<longrightarrow> round_goes scale (rounds j))
     \<and> (deadline \<le> rdNow (rounds n) \<and> (\<forall>j. i \<le> j \<and> Suc j = n \<longrightarrow> round_goes scale (rounds j))
        \<or> (i < n \<and> \<not> round_goes scale (rounds (n - 1))))"

lemma tpcb_loop_from_rounds:
  assumes "0 < scale" and "deadline \<le> rdNow (rounds k)" and "i \<le> k"
  shows "\<exists>n \<le> k. client_rounds scale deadline rounds i n
    \<and> tpcb_loop_from scale deadline rounds i txns failed sent = Some
        (txns @ List.map_filter (round_txn scale \<circ> rounds) [i..<n],
         failed + length (filter (\<lambda>j. round_txn scale (rounds j) = None) [i..<n]),
         sent @ concat (map (round_said scale \<circ> rounds) [i..<n]))"
  using assms(3)
proof (induction "k - i" arbitrary: i txns failed sent rule: less_induct)
  case less
  note step = tpcb_loop_from.simps[of scale deadline rounds i txns failed sent]
  note parts = tpcb_round_parts[OF assms(1), of "rounds i"]
  consider (Over) "deadline \<le> rdNow (rounds i)"
    | (Broken) "rdNow (rounds i) < deadline" "\<not> round_goes scale (rounds i)"
    | (Goes) "rdNow (rounds i) < deadline" "round_goes scale (rounds i)" by linarith
  then show ?case
  proof cases
    case Over
    then have "client_rounds scale deadline rounds i i" by (auto simp: client_rounds_def)
    with Over less.prems show ?thesis
      by (intro exI[of _ i]) (simp add: step map_filter_simps)
  next
    case Broken
    then have t: "round_txn scale (rounds i) = None" using round_wire[OF assms(1), of "rounds i"] by auto
    have "i < k" using Broken assms(2) less.prems by (cases "i = k") auto
    moreover have "client_rounds scale deadline rounds i (Suc i)"
      using Broken by (auto simp: client_rounds_def le_less_Suc_eq)
    ultimately show ?thesis using Broken t parts
      by (intro exI[of _ "Suc i"]) (simp add: step map_filter_simps)
  next
    case Goes
    have "i < k" using Goes assms(2) less.prems by (cases "i = k") auto
    let ?t = "round_txn scale (rounds i)"
    let ?txns = "txns @ (case ?t of None \<Rightarrow> [] | Some t \<Rightarrow> [t])"
    let ?failed = "failed + (if ?t = None then 1 else 0)"
    let ?sent = "sent @ round_said scale (rounds i)"
    have next1: "tpcb_loop_from scale deadline rounds i txns failed sent
        = tpcb_loop_from scale deadline rounds (i + 1) ?txns ?failed ?sent"
      using Goes parts by (subst step) (auto split: option.splits)
    have lt: "k - (i + 1) < k - i" and le: "i + 1 \<le> k" using \<open>i < k\<close> by auto
    obtain n where n: "n \<le> k" "client_rounds scale deadline rounds (i + 1) n"
      "tpcb_loop_from scale deadline rounds (i + 1) ?txns ?failed ?sent = Some
        (?txns @ List.map_filter (round_txn scale \<circ> rounds) [i + 1..<n],
         ?failed + length (filter (\<lambda>j. round_txn scale (rounds j) = None) [i + 1..<n]),
         ?sent @ concat (map (round_said scale \<circ> rounds) [i + 1..<n]))"
      using less.hyps[OF lt le, of ?txns ?failed ?sent] by blast
    have "i < n" and c: "client_rounds scale deadline rounds i n"
      using n(2) Goes by (auto simp: client_rounds_def le_Suc_eq) (metis Suc_leI le_eq_less_or_eq)+
    have up: "[i..<n] = i # [i + 1..<n]" using \<open>i < n\<close> by (simp add: upt_conv_Cons)
    show ?thesis
      using n c by (intro exI[of _ n]) (auto simp: next1 up map_filter_simps split: option.splits)
  qed
qed

lemma wire_of_rounds:
  assumes "0 < scale" and "\<forall>j. i \<le> j \<and> Suc j < n \<longrightarrow> round_goes scale (rounds j)"
  shows "tx_run Outside (concat (map (round_said scale \<circ> rounds) [i..<n]))
      = Some (if i < n \<and> \<not> round_goes scale (rounds (n - 1)) then Spoilt else Outside)
    \<and> commits (concat (map (round_said scale \<circ> rounds) [i..<n]))
      = length (List.map_filter (round_txn scale \<circ> rounds) [i..<n])
    \<and> rollbacks (concat (map (round_said scale \<circ> rounds) [i..<n]))
      = length (filter (\<lambda>j. round_txn scale (rounds j) = None) [i..<n])"
  using assms(2)
proof (induction "n - i" arbitrary: n)
  case 0
  then show ?case by (simp add: map_filter_simps)
next
  case (Suc m)
  then obtain n' where n: "n = Suc n'" "i \<le> n'" "m = n' - i" by (cases n) auto
  note ih = Suc.hyps(1)[OF n(3)]
  have "i < n' \<longrightarrow> round_goes scale (rounds (n' - 1))" using Suc.prems n by auto
  then show ?case
    using ih Suc.prems n round_wire[OF assms(1), of "rounds n'"]
    by (auto simp: tx_run_append map_filter_def)
qed

text \<open>
  C11: a client of a wire run returns as soon as its clock reaches the deadline, with every round it
  began counted once as a transaction or as a failure. On the wire it speaks in whole transactions:
  \<open>BEGIN\<close> only where none is open, a statement only inside one that is going well, and after an
  error nothing before a rollback. Commits answered are exactly the transactions reported, rollbacks
  exactly the failures, and only a rollback that was not answered ends a client early.
\<close>

theorem tpcb_loop_whole_transactions:
  assumes "0 < scale" and "deadline \<le> rdNow (rounds k)"
  shows "\<exists>n \<le> k. \<exists>txns failed sent st. tpcb_loop scale deadline rounds = Some (txns, failed, sent)
    \<and> length txns + failed = n \<and> (\<forall>j < n. rdNow (rounds j) < deadline)
    \<and> tx_run Outside sent = Some st
    \<and> (deadline \<le> rdNow (rounds n) \<and> st = Outside
       \<or> 0 < n \<and> rdRollback (rounds (n - 1)) \<noteq> None \<and> st = Spoilt)
    \<and> length (filter (\<lambda>s. s = (''END'', None)) sent) = length txns
    \<and> length (filter (\<lambda>s. fst s = ''ROLLBACK'') sent) = failed"
proof -
  let ?none = "\<lambda>j. round_txn scale (rounds j) = None"
  obtain n where n: "n \<le> k" and c: "client_rounds scale deadline rounds 0 n"
    and run: "tpcb_loop scale deadline rounds = Some
        (List.map_filter (round_txn scale \<circ> rounds) [0..<n], length (filter ?none [0..<n]),
         concat (map (round_said scale \<circ> rounds) [0..<n]))"
    using tpcb_loop_from_rounds[where rounds = rounds and k = k and i = 0 and txns = "[]" and failed = 0 and sent = "[]"] assms
    by (auto simp: tpcb_loop_def)
  have w: "tx_run Outside (concat (map (round_said scale \<circ> rounds) [0..<n]))
      = Some (if 0 < n \<and> \<not> round_goes scale (rounds (n - 1)) then Spoilt else Outside)
    \<and> commits (concat (map (round_said scale \<circ> rounds) [0..<n])) = length (List.map_filter (round_txn scale \<circ> rounds) [0..<n])
    \<and> rollbacks (concat (map (round_said scale \<circ> rounds) [0..<n])) = length (filter ?none [0..<n])"
    using wire_of_rounds[OF assms(1), of 0 n rounds] c by (simp add: client_rounds_def)
  have sum: "length (List.map_filter (round_txn scale \<circ> rounds) [0..<n]) + length (filter ?none [0..<n]) = n"
    using sum_length_filter_compl[of ?none "[0..<n]"] by (simp add: map_filter_def comp_def)
  have "(deadline \<le> rdNow (rounds n) \<and> (0 < n \<longrightarrow> round_goes scale (rounds (n - 1))))
      \<or> (0 < n \<and> \<not> round_goes scale (rounds (n - 1)) \<and> rdRollback (rounds (n - 1)) \<noteq> None)"
    using c round_wire[OF assms(1), of "rounds (n - 1)"] by (auto simp: client_rounds_def)
  then show ?thesis
    using n c w sum by (intro exI[of _ n]) (auto simp: run client_rounds_def)
qed

text \<open>One good round, one whose third statement fails, and the deadline.\<close>

definition demo_round :: "nat \<Rightarrow> tpcb_round" where
  "demo_round i =
     \<lparr>rdNow = 5 * int i, rdDraws = (7, 8, 9, 10), rdStart = 5 * int i,
      rdAnswer = (\<lambda>k. \<lparr>saAt = 5 * int i, saAfter = 5 * int i + 1,
        saErr = (if i = 1 \<and> k = 2 then Some ''deadlock detected'' else None)\<rparr>),
      rdDone = 5 * int i + 4, rdUnix = 1700000000, rdRollback = None\<rparr>"

theorem tpcb_loop_whole_transactions_witness:
  "\<exists>txns failed sent. tpcb_loop 1 10 demo_round = Some (txns, failed, sent) \<and> length txns + failed = 2
    \<and> tx_run Outside sent = Some Outside"
proof -
  obtain n txns failed sent st where r: "n \<le> 2" "tpcb_loop 1 10 demo_round = Some (txns, failed, sent)"
      "length txns + failed = n" "tx_run Outside sent = Some st"
      "10 \<le> rdNow (demo_round n) \<and> st = Outside
       \<or> 0 < n \<and> rdRollback (demo_round (n - 1)) \<noteq> None \<and> st = Spoilt"
    using tpcb_loop_whole_transactions[of 1 10 demo_round 2] by (auto simp: demo_round_def)
  then show ?thesis by (auto simp: demo_round_def)
qed

section \<open>Statement lines beside the transaction line\<close>

text \<open>The clock of a round never goes back.\<close>

definition clock_ok :: "tpcb_round \<Rightarrow> bool" where
  "clock_ok r \<longleftrightarrow> list_all (\<lambda>k. rdStart r \<le> saAt (rdAnswer r k) \<and> saAt (rdAnswer r k) \<le> saAfter (rdAnswer r k)
     \<and> saAfter (rdAnswer r k) \<le> rdDone r) [0..<7]"

definition txn_ok :: "tpcb_txn \<Rightarrow> bool" where
  "txn_ok t \<longleftrightarrow> length (tx_StmtMS t) = 7 \<and> list_all (\<lambda>v. v \<le> tx_LatencyMS t) (tx_StmtMS t)"

lemma nanos_ms_mono: "a \<le> b \<Longrightarrow> nanos_ms a \<le> nanos_ms b"
  unfolding nanos_ms_def by (intro fdiv_mono f64_of_int_mono) auto

lemma tpcb_stmts_times:
  assumes "tpcb_stmts ans k ss = (Some took, said)"
    and "\<forall>j. k \<le> j \<and> j < k + length ss \<longrightarrow> saAfter (ans j) - saAt (ans j) \<le> d"
  shows "length took = length ss \<and> list_all (\<lambda>v. v \<le> nanos_ms d) took"
  using assms
proof (induction ss arbitrary: k took said)
  case (Cons s ss)
  obtain took' said' where r: "tpcb_stmts ans (Suc k) ss = (took', said')" by fastforce
  have none: "saErr (ans k) = None" using Cons.prems(1) by (auto split: option.splits)
  then obtain ts where ts: "took' = Some ts" "took = nanos_ms (saAfter (ans k) - saAt (ans k)) # ts"
    using Cons.prems(1) r by auto
  have "length ts = length ss \<and> list_all (\<lambda>v. v \<le> nanos_ms d) ts"
    using Cons.prems(2) by (intro Cons.IH[OF r[unfolded ts(1)]]) auto
  moreover have "nanos_ms (saAfter (ans k) - saAt (ans k)) \<le> nanos_ms d"
    using Cons.prems(2) by (intro nanos_ms_mono) auto
  ultimately show ?case using ts by simp
qed simp

lemma tpcb_round_txn_ok:
  assumes "tpcb_round_of scale r = Some (Some t, said, go)" and "clock_ok r"
  shows "txn_ok t"
proof -
  obtain v where v: "tpcb_draw scale (rdDraws r) = Some v"
    using assms by (auto simp: tpcb_round_of_def split: option.splits)
  then obtain took where took: "tpcb_stmts (rdAnswer r) 0 (tpcb_sql v) = (Some took, said)"
      "t = \<lparr>tx_LatencyMS = nanos_ms (rdDone r - rdStart r), tx_Epoch = rdUnix r, tx_StmtMS = took\<rparr>"
    using assms(1) by (auto simp: tpcb_round_of_def split: prod.splits option.splits)
  have seven: "length (tpcb_sql v) = 7" by (simp add: tpcb_sql_def)
  have "\<forall>j. 0 \<le> j \<and> j < 0 + length (tpcb_sql v) \<longrightarrow>
      saAfter (rdAnswer r j) - saAt (rdAnswer r j) \<le> rdDone r - rdStart r"
  proof (intro allI impI)
    fix j assume "0 \<le> j \<and> j < 0 + length (tpcb_sql v)"
    then have "j \<in> set [0..<7]" using seven by simp
    then have "rdStart r \<le> saAt (rdAnswer r j) \<and> saAfter (rdAnswer r j) \<le> rdDone r"
      using assms(2) unfolding clock_ok_def list_all_iff by blast
    then show "saAfter (rdAnswer r j) - saAt (rdAnswer r j) \<le> rdDone r - rdStart r" by simp
  qed
  from tpcb_stmts_times[OF took(1) this] show ?thesis
    using took(2) seven by (simp add: txn_ok_def)
qed

lemma tpcb_loop_from_txns:
  assumes "tpcb_loop_from scale deadline rounds i txns failed sent = Some r"
  shows "(\<forall>j. clock_ok (rounds j)) \<longrightarrow> list_all txn_ok txns \<longrightarrow> list_all txn_ok (fst r)"
proof (rule tpcb_loop_from.raw_induct[where P = "\<lambda>scale deadline rounds i txns failed sent r.
    (\<forall>j. clock_ok (rounds j)) \<longrightarrow> list_all txn_ok txns \<longrightarrow> list_all txn_ok (fst r)", OF _ assms])
  fix loop scale deadline rounds i txns failed sent r
  assume ih: "\<And>scale deadline rounds i txns failed sent r.
      loop scale deadline rounds i txns failed sent = Some r \<Longrightarrow>
      (\<forall>j. clock_ok (rounds j)) \<longrightarrow> list_all txn_ok txns \<longrightarrow> list_all txn_ok (fst r)"
    and body: "(if rdNow (rounds i) < deadline then
        (case tpcb_round_of scale (rounds i) of
           None \<Rightarrow> None
         | Some (Some t, said, uu_) \<Rightarrow> loop scale deadline rounds (i + 1) (txns @ [t]) failed (sent @ said)
         | Some (None, said, go) \<Rightarrow>
             if go then loop scale deadline rounds (i + 1) txns (failed + 1) (sent @ said)
             else Some (txns, failed + 1, sent @ said))
      else Some (txns, failed, sent)) = Some r"
  show "(\<forall>j. clock_ok (rounds j)) \<longrightarrow> list_all txn_ok txns \<longrightarrow> list_all txn_ok (fst r)"
  proof (intro impI)
    assume ok: "\<forall>j. clock_ok (rounds j)" "list_all txn_ok txns"
    have more: "list_all txn_ok (fst r)"
      if "loop scale deadline rounds i' t f s = Some r" "list_all txn_ok t" for i' t f s
      using ih[OF that(1)] ok(1) that(2) by blast
    have each: "txn_ok t" if "tpcb_round_of scale (rounds i) = Some (Some t, said, go)" for t said go
      using tpcb_round_txn_ok[OF that] ok(1) by blast
    consider (Over) "Some (txns, failed, sent) = Some r"
      | (Went) t said go where "tpcb_round_of scale (rounds i) = Some (Some t, said, go)"
          "loop scale deadline rounds (i + 1) (txns @ [t]) failed (sent @ said) = Some r"
      | (Retried) said where "loop scale deadline rounds (i + 1) txns (failed + 1) (sent @ said) = Some r"
      | (Left) said where "Some (txns, failed + 1, sent @ said) = Some r"
      using body by (auto split: if_splits option.splits)
    then show "list_all txn_ok (fst r)"
    proof cases
      case Went
      then show ?thesis using more[OF Went(2)] each[OF Went(1)] ok(2) by simp
    next
      case Retried
      then show ?thesis using more ok(2) by simp
    qed (use ok(2) in auto)
  qed
qed

lemma join_clients_txns:
  assumes "join_clients cs = Some (txns, failed)" and "\<forall>r. Some r \<in> set cs \<longrightarrow> list_all txn_ok (fst r)"
  shows "list_all txn_ok txns"
  using assms
proof (induction cs arbitrary: txns failed)
  case (Cons c cs)
  then obtain ts n l ts' n' where "c = Some (ts, n, l)" "join_clients cs = Some (ts', n')" "txns = ts @ ts'"
    by (auto split: option.splits)
  then show ?case using Cons.IH[of ts' n'] Cons.prems(2) by force
qed simp

lemma tpcb_Run_txns:
  assumes "tpcb_Run dial scale clients deadline rounds = Some (Inr (txns, failed), conns)"
    and "\<forall>i j. clock_ok (rounds i j)"
  shows "list_all txn_ok txns"
proof -
  obtain ids where "join_clients (map (\<lambda>i. tpcb_loop scale deadline (rounds i)) ids) = Some (txns, failed)"
    using assms(1) by (auto simp: tpcb_Run_def split: if_splits sum.splits)
  moreover have "list_all txn_ok (fst r)" if "tpcb_loop scale deadline (rounds i) = Some r" for i r
    using tpcb_loop_from_txns[OF that[unfolded tpcb_loop_def]] assms(2) by simp
  ultimately show ?thesis
    by (elim join_clients_txns) (auto dest: sym)
qed

lemma float_sum_mono: "list_all2 (\<le>) xs ys \<Longrightarrow> float_sum xs \<le> float_sum ys"
proof -
  have "foldl fadd a xs \<le> foldl fadd b ys" if "list_all2 (\<le>) xs ys" "a \<le> b" for a b
    using that by (induction xs ys arbitrary: a b rule: list_all2_induct) (auto intro: fadd_mono)
  then show "list_all2 (\<le>) xs ys \<Longrightarrow> float_sum xs \<le> float_sum ys" by (simp add: float_sum_def)
qed

text \<open>A list that is below another one element by element is below it rank by rank.\<close>

lemma latency_percentiles_below:
  assumes "list_all2 (\<lambda>x y. MS x \<le> MS y) xs ys" and "xs \<noteq> []"
    and "key \<in> {''p50'', ''p90'', ''p95'', ''p99'', ''p999'', ''max'', ''mean''}"
  shows "\<exists>a b. latency_Percentiles xs key = Some a \<and> latency_Percentiles ys key = Some b \<and> a \<le> b"
proof -
  let ?xs = "sort (map MS xs)" and ?ys = "sort (map MS ys)"
  have below: "list_all2 (\<le>) ?xs ?ys" using assms(1) by (intro sort_below) (simp add: list_all2_map1 list_all2_map2)
  have len: "length ?xs = length ?ys" using below by (rule list_all2_lengthD)
  have ne: "0 < length ?xs" "ys \<noteq> []" using assms(1,2) by auto
  have at: "?xs ! k \<le> ?ys ! k" if "k < length ?xs" for k using below that by (rule list_all2_nthD)
  have pick: "latency_pick ?xs p \<le> latency_pick ?ys p" for p
    using at[OF latency_index_less[OF ne(1)]] len by (simp add: latency_pick_def)
  have last1: "?xs ! (length ?xs - 1) \<le> ?ys ! (length ?ys - 1)"
    using at[of "length ?xs - 1"] ne(1) unfolding len[symmetric] by simp
  have pos: "0 < f64_of_int (int (length ?xs))"
    using ne(1) f64_of_int_mono[of 1 "int (length ?xs)"] fl_of_int[of 1] by (simp add: f64_of_int_def Suc_le_eq)
  have mean: "fdiv (float_sum ?xs) (f64_of_int (int (length ?xs))) \<le> fdiv (float_sum ?ys) (f64_of_int (int (length ?ys)))"
    using fdiv_mono[OF float_sum_mono[OF below] pos] len by simp
  show ?thesis
    using assms(2,3) ne(2) pick last1 mean
    by (auto simp: latency_Percentiles_def Let_def intro!: round3_rounding.rnd_mono)
qed

lemma Statements_seven: "length Statements = 7"
  by (simp add: Statements_def)

text \<open>Every statement's line is its own: the names are distinct and none is the transaction's.\<close>

lemma foldl_map_upds:
  "distinct (map snd ps) \<Longrightarrow>
     foldl (\<lambda>out (k, name). out(name \<mapsto> f k)) m ps x =
     (case map_of (map (\<lambda>(k, name). (name, k)) ps) x of None \<Rightarrow> m x | Some k \<Rightarrow> Some (f k))"
proof (induction ps arbitrary: m)
  case (Cons p ps)
  then show ?case
    by (cases p) (auto split: option.splits dest!: map_of_SomeD simp: map_of_eq_None_iff rev_image_eqI)
qed simp

lemma map_of_enumerate:
  assumes "k < length xs" and "distinct xs"
  shows "map_of (map (\<lambda>(k, name). (name, k)) (enumerate 0 xs)) (xs ! k) = Some k"
proof (rule map_of_is_SomeI)
  have "map fst (map (\<lambda>(k, name). (name, k)) (enumerate 0 xs)) = map snd (enumerate 0 xs)"
    by (simp add: comp_def case_prod_beta')
  then show "distinct (map fst (map (\<lambda>(k, name). (name, k)) (enumerate 0 xs)))" using assms(2) by simp
  have "(k, xs ! k) \<in> set (enumerate 0 xs)" using assms(1) by (simp add: in_set_enumerate_eq)
  then show "(xs ! k, k) \<in> set (map (\<lambda>(k, name). (name, k)) (enumerate 0 xs))" by force
qed

lemma distinct_Statements: "distinct Statements"
  by (simp add: Statements_def)

lemma tpcb_Percentiles_line:
  assumes "txns \<noteq> []" and "k < length Statements"
  shows "tpcb_Percentiles txns (Statements ! k) =
    Some (latency_Percentiles (map (\<lambda>t. \<lparr>MS = tx_StmtMS t ! k, Epoch = tx_Epoch t\<rparr>) txns))"
proof -
  have "map_of (map (\<lambda>(k, name). (name, k)) (enumerate 0 Statements)) (Statements ! k) = Some k"
    using assms(2) distinct_Statements by (rule map_of_enumerate)
  then show ?thesis using assms(1) distinct_Statements
    by (simp add: tpcb_Percentiles_def foldl_map_upds)
qed

lemma tpcb_Percentiles_whole:
  assumes "txns \<noteq> []"
  shows "tpcb_Percentiles txns ''transaction'' =
    Some (latency_Percentiles (map (\<lambda>t. \<lparr>MS = tx_LatencyMS t, Epoch = tx_Epoch t\<rparr>) txns))"
proof -
  have "map_of (map (\<lambda>(k, name). (name, k)) (enumerate 0 Statements)) ''transaction'' = None"
    by (simp add: Statements_def)
  then show ?thesis using assms distinct_Statements by (simp add: tpcb_Percentiles_def foldl_map_upds)
qed

text \<open>
  In the table of a wire run, whose clocks do not go back, no percentile and no mean of a
  statement is above the one of the transaction it is part of, so the two lines can be read against
  each other; every statement has its line.
\<close>

theorem tpcb_statement_below_transaction:
  assumes "tpcb_Run dial scale clients deadline rounds = Some (Inr (txns, failed), conns)"
    and "\<forall>i j. clock_ok (rounds i j)" and "txns \<noteq> []" and "name \<in> set Statements"
    and "key \<in> {''p50'', ''p90'', ''p95'', ''p99'', ''p999'', ''max'', ''mean''}"
  shows "\<exists>line whole a b. tpcb_Percentiles txns name = Some line
    \<and> tpcb_Percentiles txns ''transaction'' = Some whole
    \<and> line key = Some a \<and> whole key = Some b \<and> a \<le> b"
proof -
  let ?stmt = "\<lambda>k. map (\<lambda>t. \<lparr>MS = tx_StmtMS t ! k, Epoch = tx_Epoch t\<rparr>) txns"
  let ?whole = "map (\<lambda>t. \<lparr>MS = tx_LatencyMS t, Epoch = tx_Epoch t\<rparr>) txns"
  have "k < 7 \<Longrightarrow> list_all2 (\<lambda>x y. MS x \<le> MS y) (?stmt k) ?whole" for k
    using tpcb_Run_txns[OF assms(1,2)]
    by (auto simp: list_all2_map1 list_all2_map2 list.rel_refl_strong txn_ok_def list_all_iff list_all2_same)
  then have below: "k < 7 \<Longrightarrow> \<exists>a b. latency_Percentiles (?stmt k) key = Some a
      \<and> latency_Percentiles ?whole key = Some b \<and> a \<le> b" for k
    using latency_percentiles_below[OF _ _ assms(5), of "?stmt k" ?whole] assms(3) by simp
  have whole: "tpcb_Percentiles txns ''transaction'' = Some (latency_Percentiles ?whole)"
    by (rule tpcb_Percentiles_whole[OF assms(3)])
  have "\<exists>k < 7. tpcb_Percentiles txns name = Some (latency_Percentiles (?stmt k))"
    using tpcb_Percentiles_line[OF assms(3)] assms(4)
    by (metis in_set_conv_nth Statements_seven)
  then show ?thesis using below whole by fastforce
qed

definition demo_txn :: tpcb_txn where
  "demo_txn = \<lparr>tx_LatencyMS = nanos_ms 4, tx_Epoch = 1700000000, tx_StmtMS = replicate 7 (nanos_ms 1)\<rparr>"

lemma tpcb_stmts_good:
  assumes "\<forall>k. saErr (ans k) = None \<and> saAfter (ans k) - saAt (ans k) = d"
  shows "tpcb_stmts ans k ss = (Some (replicate (length ss) (nanos_ms d)), map (\<lambda>s. (s, None)) ss)"
  using assms by (induction ss arbitrary: k) auto

lemma tpcb_stmts_third:
  assumes "saErr (ans 0) = None" "saErr (ans 1) = None" "saErr (ans 2) = Some e"
  shows "\<exists>said. tpcb_stmts ans 0 (a # b # c # rest) = (None, said)"
  using assms by (simp add: numeral_2_eq_2)

lemma demo_draw: "tpcb_draw 1 (7, 8, 9, 10) = Some \<lparr>vAid = 8, vBid = 1, vTid = 10, vDelta = - 4990\<rparr>"
  by (simp add: tpcb_draw_def Intn_def)

lemma demo_rounds_of:
  "\<exists>said. tpcb_round_of 1 (demo_round 0) = Some (Some demo_txn, said, True)"
  "\<exists>said. tpcb_round_of 1 (demo_round (Suc 0)) = Some (None, said, True)"
proof -
  let ?v = "\<lparr>vAid = 8, vBid = 1, vTid = 10, vDelta = - 4990\<rparr>"
  have seven: "length (tpcb_sql ?v) = 7" by (simp add: tpcb_sql_def)
  have "tpcb_stmts (rdAnswer (demo_round 0)) 0 (tpcb_sql ?v)
      = (Some (replicate 7 (nanos_ms 1)), map (\<lambda>s. (s, None)) (tpcb_sql ?v))"
    unfolding seven[symmetric] by (rule tpcb_stmts_good) (simp add: demo_round_def)
  then show "\<exists>said. tpcb_round_of 1 (demo_round 0) = Some (Some demo_txn, said, True)"
    using demo_draw by (simp add: tpcb_round_of_def demo_round_def demo_txn_def)
  obtain a b c rest where "tpcb_sql ?v = a # b # c # rest" by (simp add: tpcb_sql_def)
  then obtain said where "tpcb_stmts (rdAnswer (demo_round 1)) 0 (tpcb_sql ?v) = (None, said)"
    using tpcb_stmts_third[of "rdAnswer (demo_round 1)" "''deadlock detected''" a b c rest]
    by (auto simp: demo_round_def)
  then show "\<exists>said. tpcb_round_of 1 (demo_round (Suc 0)) = Some (None, said, True)"
    using demo_draw by (simp add: tpcb_round_of_def demo_round_def)
qed

lemma demo_run: "tpcb_Run (\<lambda>_. None) 1 1 10 (\<lambda>_. demo_round) = Some (Inr ([demo_txn], 1), [0])"
proof -
  obtain said0 said where said: "tpcb_round_of 1 (demo_round 0) = Some (Some demo_txn, said0, True)"
      "tpcb_round_of 1 (demo_round (Suc 0)) = Some (None, said, True)"
    using demo_rounds_of by blast
  have now: "rdNow (demo_round i) = 5 * int i" for i by (simp add: demo_round_def)
  have "\<exists>sent. tpcb_loop 1 10 demo_round = Some ([demo_txn], 1, sent)"
    unfolding tpcb_loop_def
    by (subst tpcb_loop_from.simps, simp add: now said(1),
        subst tpcb_loop_from.simps, simp add: now said(2), subst tpcb_loop_from.simps, simp add: now)
  then show ?thesis by (auto simp: tpcb_Run_def)
qed

theorem tpcb_statement_below_transaction_witness:
  "\<exists>line whole a b. tpcb_Percentiles [demo_txn] ''end'' = Some line
    \<and> tpcb_Percentiles [demo_txn] ''transaction'' = Some whole
    \<and> line ''p99'' = Some a \<and> whole ''p99'' = Some b \<and> a \<le> b"
proof (rule tpcb_statement_below_transaction[OF demo_run])
  show "\<forall>(i :: nat) j. clock_ok (demo_round j)" by (simp add: clock_ok_def demo_round_def list_all_iff)
  show "''end'' \<in> set Statements" by (simp add: Statements_def)
qed simp_all

end
