(* ===== verification/Envinfo.thy ===== *)
theory Envinfo
  imports GoAny
begin

text \<open>
  Package \<open>envinfo\<close> (src/envinfo/envinfo.go): the block that says which machine and which switches a
  number was measured with. What the files of the kernel hold and what a program prints are
  arguments, nothing where reading one fails; a value the platform cannot answer is left out.
\<close>

section \<open>The switches of the node\<close>

definition ZouEnv :: "string list \<Rightarrow> (string \<times> any) list" where
  "ZouEnv environ =
     foldl (\<lambda>out kv.
       if \<not> HasPrefix kv ''ZOU_'' then out
       else case strings_Cut kv ''='' of None \<Rightarrow> out | Some (k, v) \<Rightarrow> map_upd k (\<lambda>_. AStr v) out) [] environ"

section \<open>Linux\<close>

text \<open>The first line that has a model name; the loop stops there.\<close>

fun cpu_model :: "string list \<Rightarrow> string option" where
  "cpu_model [] = None"
| "cpu_model (line # lines) =
     (case strings_Cut line ''model name'' of
        Some (_, v) \<Rightarrow> Some (TrimSpace (TrimPrefix (TrimSpace v) '':''))
      | None \<Rightarrow> cpu_model lines)"

text \<open>
  The memory in megabytes, the last line that says so; the outer nothing is the panic of a
  \<open>MemTotal:\<close> with nothing behind it.
\<close>

fun mem_total :: "int option \<Rightarrow> string list \<Rightarrow> int option option" where
  "mem_total mb [] = Some mb"
| "mem_total mb (line # lines) =
     (case CutPrefix line ''MemTotal:'' of None \<Rightarrow> mem_total mb lines
      | Some v \<Rightarrow>
        (case strings_Fields v of [] \<Rightarrow> None
         | n # _ \<Rightarrow> mem_total (case Atoi n of None \<Rightarrow> mb | Some kb \<Rightarrow> Some (quot kb 1024)) lines))"

definition trim_quotes :: "string \<Rightarrow> string" where
  "trim_quotes s = (let q = (\<lambda>c. c = CHR 0x22) in rev (dropWhile q (rev (dropWhile q s))))"

definition os_release :: "string list \<Rightarrow> string option" where
  "os_release lines =
     foldl (\<lambda>out line. case CutPrefix line ''PRETTY_NAME='' of None \<Rightarrow> out | Some v \<Rightarrow> Some (trim_quotes v)) None lines"

record linux_box =
  bxCpuinfo :: "string option"
  bxMeminfo :: "string option"
  bxUname :: "string option"
  bxRelease :: "string option"

definition lines_of :: "string option \<Rightarrow> string list" where
  "lines_of raw = (case raw of None \<Rightarrow> [] | Some s \<Rightarrow> split_lines s)"

definition linux_fields :: "linux_box \<Rightarrow> (string \<times> any) list option" where
  "linux_fields b =
     (case mem_total None (lines_of (bxMeminfo b)) of None \<Rightarrow> None
      | Some mb \<Rightarrow> Some
         (when_some ''cpu_model'' (map_option AStr (cpu_model (lines_of (bxCpuinfo b))))
          @ when_some ''mem_total_mb'' (map_option AInt mb)
          @ when_some ''kernel'' (map_option (\<lambda>s. AStr (TrimSpace s)) (bxUname b))
          @ when_some ''os_release'' (map_option AStr (os_release (lines_of (bxRelease b))))))"

section \<open>The other platforms\<close>

definition darwin_fields :: "string option \<Rightarrow> string option \<Rightarrow> string option \<Rightarrow> (string \<times> any) list" where
  "darwin_fields brand memsize uname =
     when_some ''cpu_model'' (map_option (\<lambda>s. AStr (TrimSpace s)) brand)
     @ when_some ''mem_total_mb''
         (case memsize of None \<Rightarrow> None | Some s \<Rightarrow> map_option (\<lambda>b. AInt (quot b (1024 * 1024))) (Atoi (TrimSpace s)))
     @ when_some ''kernel'' (map_option (\<lambda>s. AStr (TrimSpace s)) uname)"

definition windows_fields :: "string \<Rightarrow> (string \<times> any) list" where
  "windows_fields v = (if v \<noteq> [] then [(''cpu_model'', AStr v)] else [])"

datatype platform = Linux linux_box | Darwin "string option" "string option" "string option" | Windows string | Other_OS

definition platform_fields :: "platform \<Rightarrow> (string \<times> any) list option" where
  "platform_fields p =
     (case p of Linux b \<Rightarrow> linux_fields b
      | Darwin brand memsize uname \<Rightarrow> Some (darwin_fields brand memsize uname)
      | Windows v \<Rightarrow> Some (windows_fields v) | Other_OS \<Rightarrow> Some [])"

definition env_Capture :: "string \<Rightarrow> string \<Rightarrow> string \<Rightarrow> int \<Rightarrow> platform \<Rightarrow> string list \<Rightarrow> (string \<times> any) list option" where
  "env_Capture host goos goarch cpus p environ =
     map_option (\<lambda>fs.
       [(''hostname'', AStr host), (''os'', AStr goos), (''arch'', AStr goarch), (''cpus'', AInt cpus)]
       @ fs @ unless_empty ''zou_env'' (ZouEnv environ)) (platform_fields p)"

section \<open>Mounts\<close>

definition absEval :: "string go_result \<Rightarrow> string \<Rightarrow> string go_result" where
  "absEval getwd path =
     (case getwd of Inl e \<Rightarrow> Inl e
      | Inr wd \<Rightarrow> Inr (if HasPrefix path ''/'' then path else wd @ ''/'' @ path))"

definition mount_line :: "string \<Rightarrow> string \<times> (string \<times> any) list option \<Rightarrow> string \<Rightarrow> string \<times> (string \<times> any) list option" where
  "mount_line full acc line =
     (let f = strings_Fields line in
      if length f < 4 then acc
      else if HasPrefix full (f ! 1) \<and> length (fst acc) < length (f ! 1)
        then (f ! 1, Some [(''mount'', AStr (f ! 1)), (''fstype'', AStr (f ! 2)), (''options'', AStr (f ! 3))])
      else acc)"

definition Filesystem :: "string option \<Rightarrow> string go_result \<Rightarrow> string \<Rightarrow> (string \<times> any) list option" where
  "Filesystem mounts getwd path =
     (case mounts of None \<Rightarrow> None
      | Some raw \<Rightarrow>
        (case absEval getwd path of Inl _ \<Rightarrow> None
         | Inr full \<Rightarrow> snd (foldl (mount_line full) ([], None) (split_lines raw))))"

text \<open>
  The mount reported is a prefix of the path and none of the others listed is a longer one. The
  prefix is one of characters, so \<open>/data\<close> is reported for a path on \<open>/database\<close>.
\<close>

definition mount_of :: "string \<Rightarrow> string option" where
  "mount_of line = (let f = strings_Fields line in if length f < 4 then None else Some (f ! 1))"

definition mounts_of :: "string \<Rightarrow> string list" where
  "mounts_of raw = List.map_filter mount_of (split_lines raw)"

lemma mount_line_cases:
  "mount_line full acc line =
     (case mount_of line of None \<Rightarrow> acc
      | Some m \<Rightarrow> if HasPrefix full m \<and> length (fst acc) < length m
          then (m, Some [(''mount'', AStr m), (''fstype'', AStr (strings_Fields line ! 2)),
                  (''options'', AStr (strings_Fields line ! 3))])
          else acc)"
  by (simp add: mount_line_def mount_of_def Let_def)

lemma mount_lines_longest:
  assumes "foldl (mount_line full) ([], None) lines = (best, out)"
    and "ms = List.map_filter mount_of lines"
  shows "(out = None \<longrightarrow> best = []) \<and> (\<forall>m \<in> set ms. HasPrefix full m \<longrightarrow> length m \<le> length best)
    \<and> (\<forall>o1. out = Some o1 \<longrightarrow> best \<in> set ms \<and> HasPrefix full best \<and> map_get o1 ''mount'' = AStr best)"
  using assms
proof (induction lines arbitrary: best out ms rule: rev_induct)
  case Nil
  then show ?case by (simp add: map_filter_simps)
next
  case (snoc l ls)
  obtain b o1 where bo: "foldl (mount_line full) ([], None) ls = (b, o1)" by fastforce
  have ms: "ms = List.map_filter mount_of ls @ (case mount_of l of None \<Rightarrow> [] | Some m \<Rightarrow> [m])"
    using snoc.prems(2) by (auto simp: map_filter_def split: option.splits)
  have step: "mount_line full (b, o1) l = (best, out)" using snoc.prems(1) bo by simp
  note ih = snoc.IH[OF bo refl]
  show ?case
  proof (cases "mount_of l")
    case None
    then show ?thesis using ih step ms by (simp add: mount_line_cases)
  next
    case (Some m)
    then show ?thesis using ih step ms by (auto simp: mount_line_cases split: if_splits)
  qed
qed

lemma Filesystem_longest:
  assumes "Filesystem (Some raw) getwd path = Some out" and "absEval getwd path = Inr full"
  shows "\<exists>m \<in> set (mounts_of raw). map_get out ''mount'' = AStr m \<and> HasPrefix full m
    \<and> (\<forall>m' \<in> set (mounts_of raw). HasPrefix full m' \<longrightarrow> length m' \<le> length m)"
proof -
  obtain best o1 where b: "foldl (mount_line full) ([], None) (split_lines raw) = (best, o1)" by fastforce
  then have "o1 = Some out" using assms by (simp add: Filesystem_def)
  then show ?thesis using mount_lines_longest[OF b refl] unfolding mounts_of_def by blast
qed

lemma Filesystem_not_a_directory_prefix:
  "Filesystem (Some ''/dev/sda1 / ext4 rw 0 0'') (Inr ''/'') ''/database/store''
     = Some [(''mount'', AStr ''/''), (''fstype'', AStr ''ext4''), (''options'', AStr ''rw'')]
   \<and> Filesystem (Some (''/dev/sda1 / ext4 rw 0 0'' @ newline @ ''tmpfs /data tmpfs rw 0 0'')) (Inr ''/'') ''/database/store''
     = Some [(''mount'', AStr ''/data''), (''fstype'', AStr ''tmpfs''), (''options'', AStr ''rw'')]"
  by code_simp

text \<open>The switches are told as they stand, and only those of the node.\<close>

lemma ZouEnv_keys: "k \<in> fst ` set (ZouEnv environ) \<Longrightarrow> HasPrefix k ''ZOU_'' \<or> HasPrefix ''ZOU_'' k"
proof (induction environ arbitrary: k rule: rev_induct)
  case Nil
  then show ?case by (simp add: ZouEnv_def)
next
  case (snoc kv environ)
  show ?case
  proof (cases "HasPrefix kv ''ZOU_'' \<and> k \<notin> fst ` set (ZouEnv environ)")
    case True
    then obtain v i where i: "k = take i kv" "HasPrefix kv ''ZOU_''"
      using snoc.prems by (auto simp: ZouEnv_def strings_Cut_def keys_map_upd split: option.splits)
    then obtain t where "kv = ''ZOU_'' @ t" unfolding HasPrefix_iff by blast
    then have k: "k = take i ''ZOU_'' @ take (i - length ''ZOU_'') t" using i(1) by (simp only: take_append)
    show ?thesis
    proof (cases "4 \<le> i")
      case True
      then have "k = ''ZOU_'' @ take (i - length ''ZOU_'') t" using k by simp
      then show ?thesis by (metis HasPrefix_append)
    next
      case False
      then have "k = take i ''ZOU_''" using k by simp
      then show ?thesis by (metis HasPrefix_append append_take_drop_id)
    qed
  next
    case False
    then show ?thesis using snoc by (auto simp: ZouEnv_def split: if_splits option.splits)
  qed
qed

end
