(* ===== verification/CmdRun.thy ===== *)
theory CmdRun
  imports Command CmdCost Pgbench Tpcb Snapshots Envinfo Scenario
begin

text \<open>
  \<open>zoubench run\<close> (src/cmd/zoubench/run.go): one scenario driven by pgbench or over the wire, the store
  and its counters read at three marks, and the result document put together and saved. Every
  program started, file read and clock looked at is a field of \<open>run_world\<close>; an error that the source
  dies of is the left of the result. The theorem follows the price of a run from the run to the
  cost command that reads its document back.
\<close>

section \<open>Arguments\<close>

definition run_scenarios :: "string list \<Rightarrow> string list" where
  "run_scenarios argv = filter (\<lambda>a. \<not> HasPrefix a ''-'' \<and> HasSuffix a ''.json''
     \<and> \<not> strings_Contains a ''/pricecards/'') argv"

definition simCard :: "string \<Rightarrow> string" where
  "simCard spec =
     (let head1 = (case strings_Cut spec '','' of None \<Rightarrow> spec | Some (h, _) \<Rightarrow> h)
      in case map_of [(''s3-standard'', ''aws-s3-standard''), (''s3-express'', ''aws-s3-express''),
          (''r2'', ''cloudflare-r2''), (''gcs'', ''gcs-standard''), (''b2'', ''backblaze-b2''),
          (''wasabi'', ''wasabi'')] head1 of None \<Rightarrow> [] | Some name \<Rightarrow> name)"

definition benchArgs :: "scenario \<Rightarrow> int \<Rightarrow> string \<Rightarrow> string \<Rightarrow> string list" where
  "benchArgs sc seconds logdir scenarioPath =
     [''-c'', itoa (sc_Clients sc), ''-j'', itoa (sc_Threads sc), ''-T'', itoa seconds, ''-r'']
     @ (if logdir \<noteq> [] then [''-l'', ''--log-prefix'', path_Join logdir ''pgbench_log''] else [])
     @ (if 0 < sc_Rate sc then [''-R'', itoa (sc_Rate sc)] else [])
     @ (if sc_Script sc \<noteq> [] then [''-f'', path_Join (path_Dir scenarioPath) (sc_Script sc)]
        else if sc_Builtin sc \<noteq> [] \<and> sc_Builtin sc \<noteq> ''tpcb-like'' then [''-b'', sc_Builtin sc] else [])"

record run_args =
  raScenario :: string
  raDsn :: string
  raLabel :: string
  raDatadir :: string
  raStoredir :: string
  raStats :: string
  raPricecard :: string
  raCardsdir :: string
  raSimulated :: string
  raOutdir :: string

section \<open>The logs kept\<close>

record log_entry =
  lgName :: string
  lgSkip :: bool
  lgBody :: "string go_result"

text \<open>
  What the archive holds, or the error it fails with: of the listing, of creating the file, of a log
  that cannot be read, of a write, or of the two closes.
\<close>

fun archive_logs :: "(string \<Rightarrow> go_error option) \<Rightarrow> log_entry list \<Rightarrow> (string \<times> string) list go_result" where
  "archive_logs wr [] = Inr []"
| "archive_logs wr (e # es) =
     (if lgSkip e then archive_logs wr es
      else case lgBody e of Inl err \<Rightarrow> Inl err
      | Inr body \<Rightarrow>
        (case wr (lgName e) of Some err \<Rightarrow> Inl err
         | None \<Rightarrow> map_sum id (Cons (lgName e, body)) (archive_logs wr es)))"

definition keepLogs :: "string \<Rightarrow> log_entry list go_result \<Rightarrow> go_error option \<Rightarrow> (string \<Rightarrow> go_error option) \<Rightarrow> go_error option \<Rightarrow>
    (string \<times> string) list go_result" where
  "keepLogs dir entries create wr shut =
     (case entries of Inl e \<Rightarrow> Inl e
      | Inr [] \<Rightarrow> Inl (dir @ '': no per transaction logs'')
      | Inr es \<Rightarrow>
        (case create of Some e \<Rightarrow> Inl e
         | None \<Rightarrow>
           (case archive_logs wr es of Inl e \<Rightarrow> Inl e
            | Inr out \<Rightarrow> (case shut of Some e \<Rightarrow> Inl e | None \<Rightarrow> Inr out))))"

section \<open>The world of a run\<close>

record run_world =
  rwFile :: "string go_result"
  rwDate :: string
  rwEnv :: doc
  rwSim :: string
  rwDelay :: string
  rwPsql :: "string list \<Rightarrow> string go_result"
  rwPsqlBefore :: "string list \<Rightarrow> string go_result"
  rwPsqlAfter :: "string list \<Rightarrow> string go_result"
  rwMounts :: "string option"
  rwGetwd :: "string go_result"
  rwPidfile :: "string go_result"
  rwStoreStart :: "walk_entry list"
  rwStoreBefore :: "walk_entry list"
  rwStoreAfter :: "walk_entry list"
  rwOpsStart :: "bytes go_result"
  rwOpsBefore :: "bytes go_result"
  rwOpsAfter :: "bytes go_result"
  rwInit :: "go_error option \<times> string \<times> int"
  rwWarmup :: "go_error option"
  rwLogdir :: "string go_result"
  rwWire :: "(tpcb_txn list \<times> nat) go_result \<times> int"
  rwBench :: "go_error option \<times> string"
  rwLogs :: "log_entry list go_result"
  rwTree :: doc
  rwSystem :: doc
  rwCards :: "string \<Rightarrow> string go_result"
  rwMkdir :: "go_error option"
  rwArchive :: "go_error option \<times> (string \<Rightarrow> go_error option) \<times> go_error option"
  rwWrite :: "go_error option"

section \<open>The blocks of a result\<close>

definition psql_conn :: "run_args \<Rightarrow> string list" where
  "psql_conn a = DSNArgs (raDsn a)"

definition run_head :: "run_args \<Rightarrow> run_world \<Rightarrow> scenario \<Rightarrow> any \<Rightarrow> string \<Rightarrow> doc" where
  "run_head a w sc config spec =
     (let version = Version (rwPsql w) (psql_conn a);
          fs = (\<lambda>dir key. if dir = [] then []
            else when_some key (map_option AMap (Filesystem (rwMounts w) (rwGetwd w) dir)))
      in [(''scenario'', AStr (sc_Name sc)), (''label'', AStr (raLabel a)), (''date'', AStr (rwDate w)),
          (''config'', config), (''env'', AMap (rwEnv w))]
         @ (if spec \<noteq> [] then [(''simulated'', AStr spec)] else [])
         @ (if version \<noteq> [] then [(''server_version'', AStr version)] else [])
         @ when_some ''server_settings'' (map_option AMap (Settings (rwPsql w) (psql_conn a)))
         @ fs (raDatadir a) ''datadir_fs'' @ fs (raStoredir a) ''store_fs'')"

definition run_init :: "run_world \<Rightarrow> scenario \<Rightarrow> doc go_result" where
  "run_init w sc =
     (if \<not> sc_Init sc then Inr []
      else case rwInit w of
        (Some e, _, _) \<Rightarrow> Inl e
      | (None, out, took) \<Rightarrow>
          let (total1, phases) = ParseInitPhases out in
          Inr ((''init_seconds'', AFloat (round1 (Seconds took)))
            # (if 0 < total1 then when_some ''init_phases_s'' (map_option (\<lambda>ps. AMap (map (apsnd AFloat) ps)) phases)
               else [])))"

definition bucket_any :: "txn_bucket \<Rightarrow> any" where
  "bucket_any b = AMap [(''t'', AInt (tbSecond b)), (''txns'', AInt (int (tbTxns b))), (''tps'', AFloat (tbTPS b)),
     (''p50_ms'', AFloat (tbP50 b)), (''p99_ms'', AFloat (tbP99 b))]"

definition wire_block :: "tpcb_txn list \<Rightarrow> nat \<Rightarrow> f64 \<Rightarrow> doc \<times> txn list" where
  "wire_block wire failed elapsed =
     (let n = f64_of_int (int (length wire));
          sum1 = foldl (\<lambda>s t. fadd s (tx_LatencyMS t)) 0 wire
      in ([(''transactions'', AInt (int (length wire))), (''failed'', AInt (int failed))]
          @ (if 0 < elapsed then [(''tps'', AFloat (cmd_round3 (fdiv n elapsed)))] else [])
          @ (if wire \<noteq> [] then [(''latency_avg_ms'', AFloat (cmd_round3 (fdiv sum1 n)))] else [])
          @ [(''statement_ms'', AMap (List.map_filter (\<lambda>k. map_option (\<lambda>m. (k, pct_any m)) (tpcb_Percentiles wire k))
               (''transaction'' # Statements))),
             (''driver'', AStr ''wire'')],
          map (\<lambda>t. \<lparr>txLatencyMS = tx_LatencyMS t, txEpoch = tx_Epoch t\<rparr>) wire))"

definition bench_block :: "string \<Rightarrow> log_entry list go_result \<Rightarrow> doc \<times> txn list" where
  "bench_block out logs =
     (ParseSummary out [] @ [(''raw_summary'', AStr out)],
      case logs of Inl _ \<Rightarrow> [] | Inr es \<Rightarrow> ParseTxnLogs (map (\<lambda>e. (lgName e, lgBody e)) es))"

definition run_drive :: "run_world \<Rightarrow> scenario \<Rightarrow> (doc \<times> txn list) go_result" where
  "run_drive w sc =
     (if sc_Driver sc = ''wire'' then
        (case rwWire w of
           (Inl e, _) \<Rightarrow> Inl e
         | (Inr (wire, failed), took) \<Rightarrow> Inr (wire_block wire failed (Seconds took)))
      else case rwBench w of
           (Some e, _) \<Rightarrow> Inl e
         | (None, out) \<Rightarrow> Inr (bench_block out (rwLogs w)))"

text \<open>A counter out of the differences.\<close>

definition delta_at :: "(string \<times> (string \<times> f64) list) list \<Rightarrow> string \<Rightarrow> string \<Rightarrow> f64 option" where
  "delta_at d view key = (case map_of d view of None \<Rightarrow> None | Some m \<Rightarrow> map_of m key)"

definition store_block :: "string \<Rightarrow> bool \<Rightarrow> footprint \<Rightarrow> footprint \<Rightarrow> footprint \<Rightarrow> f64 option \<Rightarrow> doc" where
  "store_block dir inited start before after wal =
     [(''path'', AStr dir), (''bytes_before'', AInt (fpBytes before)), (''bytes_after'', AInt (fpBytes after)),
      (''bytes_delta'', AInt (fpBytes after - fpBytes before)), (''objects_after'', AInt (int (fpObjects after)))]
     @ (if inited then [(''bytes_at_start'', AInt (fpBytes start))] else [])
     @ (case wal of None \<Rightarrow> []
        | Some b \<Rightarrow>
          if 0 < b then [(''wal_bytes'', AInt (trunc b)),
            (''write_amplification'', AFloat (cmd_round3 (fdiv (f64_of_int (fpBytes after - fpBytes before)) b)))]
          else [])"

definition usage_store :: "int \<Rightarrow> int \<Rightarrow> Usage \<Rightarrow> Usage" where
  "usage_store bytes grew u = (let u = u\<lparr>uStorageBytes := bytes\<rparr> in if 0 < grew then u\<lparr>uIngestedBytes := grew\<rparr> else u)"

text \<open>The \<open>int64\<close> totals of the counters.\<close>

definition usage_ops :: "Totals \<Rightarrow> Usage \<Rightarrow> Usage" where
  "usage_ops t u =
     (if AnyTraffic t then
        u\<lparr>uPuts := sint (Puts t), uGets := sint (Gets t), uLists := sint (Lists t), uDeletes := sint (Deletes t),
          uUploadBytes := sint (PutBytes t), uDownloadBytes := sint (GetBytes t), uMeasured := True\<rparr>
      else u)"

text \<open>The counters at the three marks, none when no file was named.\<close>

definition read_mark :: "run_args \<Rightarrow> bytes go_result \<Rightarrow> counters option go_result" where
  "read_mark a raw = stats_mark (raStats a) raw"

text \<open>What loading the data cost: its block, and the use it is priced by.\<close>

definition load_block :: "run_args \<Rightarrow> footprint \<Rightarrow> footprint \<Rightarrow> counters option \<Rightarrow> any \<Rightarrow> doc \<times> Usage" where
  "load_block a start before ops seconds =
     (let grew = fpBytes before - fpBytes start;
          u = usage_zero False;
          u = (if raStoredir a \<noteq> [] then usage_store (fpBytes before) grew u else u);
          u = (case ops of None \<Rightarrow> u | Some d \<Rightarrow> usage_ops (zoustats_Sum d) u)
      in ([(''seconds'', seconds)]
          @ (if raStoredir a \<noteq> [] then [(''store_bytes'', AInt grew),
               (''store_objects'', AInt (int (fpObjects before) - int (fpObjects start)))] else [])
          @ (case ops of None \<Rightarrow> [] | Some d \<Rightarrow> [(''store_ops'', AMap (zoustats_Report d))]), u))"

definition usage_txns :: "doc \<Rightarrow> f64 option \<Rightarrow> Usage \<Rightarrow> Usage" where
  "usage_txns r committed u =
     (let u = (case map_get r ''transactions'' of AInt n \<Rightarrow> u\<lparr>uTxns := n\<rparr> | _ \<Rightarrow> u)
      in case committed of None \<Rightarrow> u | Some c \<Rightarrow> if 0 < c then u\<lparr>uCommits := trunc c\<rparr> else u)"

section \<open>The command\<close>

text \<open>The whole document but for the archive's name, and the use it is priced by.\<close>

record run_marks =
  mkStart :: footprint
  mkBefore :: footprint
  mkAfter :: footprint
  mkLoad :: "counters option"
  mkWindow :: "counters option"

definition run_commits :: "(string \<times> (string \<times> f64) list) list \<Rightarrow> f64 option" where
  "run_commits delta = delta_at delta ''database'' ''xact_commit''"

definition run_usage :: "run_args \<Rightarrow> run_marks \<Rightarrow> doc \<Rightarrow> (string \<times> (string \<times> f64) list) list \<Rightarrow> Usage" where
  "run_usage a mk r delta =
     (let u = usage_zero False;
          u = (if raStoredir a \<noteq> [] then usage_store (fpBytes (mkAfter mk)) (fpBytes (mkAfter mk) - fpBytes (mkBefore mk)) u else u);
          u = (case mkWindow mk of None \<Rightarrow> u | Some d \<Rightarrow> usage_ops (zoustats_Sum d) u)
      in usage_txns r (run_commits delta) u)"

definition run_tail :: "run_args \<Rightarrow> run_world \<Rightarrow> scenario \<Rightarrow> run_marks \<Rightarrow> Card option \<Rightarrow> doc \<Rightarrow> doc \<Rightarrow> txn list \<Rightarrow> doc" where
  "run_tail a w sc mk card1 inits driven txns =
     (let delta = Delta (Snapshot (rwPsqlBefore w) (psql_conn a)) (Snapshot (rwPsqlAfter w) (psql_conn a));
          usage = run_usage a mk driven delta;
          (load, loadUsage) = load_block a (mkStart mk) (mkBefore mk) (mkLoad mk) (map_get inits ''init_seconds'');
          load = load @ (case card1 of None \<Rightarrow> [] | Some c \<Rightarrow> [(''cost'', AMap (Compute c loadUsage))])
      in [(''latency_ms'', pct_any (pgbench_Percentiles txns)),
          (''buckets_30s'', AList (map bucket_any (pgbench_Buckets txns 30)))]
         @ unless_empty ''pg_delta'' (map (\<lambda>(k, m). (k, AMap (map (apsnd AFloat) m))) delta)
         @ (if raDatadir a \<noteq> [] then [(''server'', AMap (rwTree w))] else [])
         @ [(''system'', AMap (rwSystem w))]
         @ (if raStoredir a \<noteq> [] then [(''store'', AMap (store_block (raStoredir a) (sc_Init sc) (mkStart mk) (mkBefore mk) (mkAfter mk)
               (delta_at delta ''wal'' ''wal_bytes'')))] else [])
         @ (case mkWindow mk of None \<Rightarrow> [] | Some d \<Rightarrow> [(''store_ops'', AMap (zoustats_Report d))])
         @ (if sc_Init sc then [(''load'', AMap load)] else [])
         @ (case card1 of None \<Rightarrow> [] | Some c \<Rightarrow> [(''cost'', AMap (Compute c usage))]))"

definition run_card :: "run_args \<Rightarrow> run_world \<Rightarrow> string \<Rightarrow> Card option go_result" where
  "run_card a w spec =
     (let name = (if raPricecard a \<noteq> [] then raPricecard a else if spec \<noteq> [] then simCard spec else [])
      in if name = [] then Inr None else map_sum id Some (cost_Find (rwCards w) (raCardsdir a) name))"

text \<open>A load's counters are left out where they cannot be subtracted; those of the window are not.\<close>

definition load_ops :: "counters option \<Rightarrow> counters option \<Rightarrow> counters option" where
  "load_ops start before = (case ops_delta start before of Inl _ \<Rightarrow> None | Inr d \<Rightarrow> d)"

definition run_stem :: "run_args \<Rightarrow> run_world \<Rightarrow> scenario \<Rightarrow> string" where
  "run_stem a w sc = sc_Name sc @ ''-'' @ raLabel a @ ''-'' @ run_stamp (rwDate w)"

text \<open>What a run comes to: its result's path, the document, and the archive of its logs.\<close>

record run_out =
  roPath :: string
  roDoc :: doc
  roLogs :: "(string \<times> string) list option"

definition cmdRun :: "run_args \<Rightarrow> run_world \<Rightarrow> run_out go_result" where
  "cmdRun a w =
     and_then (scenario_Load (raScenario a) (rwFile w)) (\<lambda>(sc, config).
     let spec = sim_spec (raSimulated a) (rwSim w) (rwDelay w) in
     and_then (if raDatadir a = [] then Inr 0 else serverPid (rwPidfile w)) (\<lambda>_.
     and_then (read_mark a (rwOpsStart w)) (\<lambda>opsStart.
     and_then (run_init w sc) (\<lambda>inits.
     and_then (if 0 < sc_Warmup sc then dies (rwWarmup w) else Inr ()) (\<lambda>_.
     and_then (read_mark a (rwOpsBefore w)) (\<lambda>opsBefore.
     and_then (rwLogdir w) (\<lambda>logdir.
     and_then (run_drive w sc) (\<lambda>(driven, txns).
     and_then (read_mark a (rwOpsAfter w)) (\<lambda>opsAfter.
     and_then (ops_delta opsBefore opsAfter) (\<lambda>window.
     and_then (run_card a w spec) (\<lambda>card1.
     and_then (dies (rwMkdir w)) (\<lambda>_.
     let mk = \<lparr>mkStart = Measure (rwStoreStart w), mkBefore = Measure (rwStoreBefore w),
               mkAfter = Measure (rwStoreAfter w), mkLoad = load_ops opsStart opsBefore, mkWindow = window\<rparr>;
         logs = path_Join (raOutdir a) (run_stem a w sc @ ''.txnlog.tar.gz'');
         kept = (case rwArchive w of (create, wr, shut) \<Rightarrow> keepLogs logdir (rwLogs w) create wr shut);
         r = run_head a w sc config spec @ inits @ driven @ run_tail a w sc mk card1 inits driven txns
             @ (case kept of Inl _ \<Rightarrow> [] | Inr _ \<Rightarrow> [(''txn_log'', AStr (path_Base logs))])
     in and_then (dies (rwWrite w)) (\<lambda>_.
        Inr \<lparr>roPath = path_Join (raOutdir a) (run_stem a w sc @ ''.json''), roDoc = r,
             roLogs = (case kept of Inl _ \<Rightarrow> None | Inr out \<Rightarrow> Some out)\<rparr>)))))))))))))"

text \<open>What is printed of it besides the path.\<close>

definition run_brief :: "doc \<Rightarrow> doc" where
  "run_brief r = filter (\<lambda>(k, v). k \<notin> {''raw_summary'', ''config'', ''server_settings'', ''env'', ''buckets_30s''}) r"

section \<open>Looking things up in a document\<close>

lemma map_get_reread: "map_get (map (\<lambda>(k, v). (k, reread v)) m) k = reread (map_get m k)"
  by (induction m) auto

lemma mapOf_reread: "mapOf (reread_all m) k = map_option reread_all (mapOf m k)"
  by (cases "map_get m k") (simp_all add: mapOf_def map_get_reread as_map_def)

lemma mapAt_reread: "mapAt (reread_all m) k = reread_all (mapAt m k)"
  by (simp add: mapAt_def mapOf_reread split: option.splits)

lemma map_of_map_value: "map_of (map (\<lambda>(k, m). (k, f m)) xs) k = map_option f (map_of xs k)"
  by (induction xs) auto

definition head_keys :: "string set" where
  "head_keys = {''scenario'', ''label'', ''date'', ''config'', ''env'', ''simulated'', ''server_version'',
     ''server_settings'', ''datadir_fs'', ''store_fs''}"

lemma run_head_keys: "fst ` set (run_head a w sc config spec) \<subseteq> head_keys"
  by (auto simp: run_head_def head_keys_def Let_def when_some_def split: option.splits if_splits)

lemma run_init_keys: "run_init w sc = Inr inits \<Longrightarrow> fst ` set inits \<subseteq> {''init_seconds'', ''init_phases_s''}"
  by (auto simp: run_init_def Let_def when_some_def split: option.splits if_splits prod.splits)

definition driven_keys :: "string set" where
  "driven_keys = {''tps'', ''latency_avg_ms'', ''latency_stddev_ms'', ''connect_ms'', ''transactions'', ''failed'',
     ''statement_latency_ms'', ''raw_summary'', ''statement_ms'', ''driver''}"

lemma ParseSummary_keys: "fst ` set (ParseSummary out []) \<subseteq> driven_keys"
proof -
  have step: "fst ` set (foldl (\<lambda>r (find, key, whole). case find out of None \<Rightarrow> r
      | Some v \<Rightarrow> map_upd key (\<lambda>_. if whole then AInt (Atoi_or_max v) else AFloat (float_or_0 v)) r) r ps)
    \<subseteq> fst ` set r \<union> (fst \<circ> snd) ` set ps" for r ps
  proof (induction ps arbitrary: r)
    case (Cons p ps)
    obtain find key whole where p: "p = (find, key, whole)" by (cases p) auto
    show ?case
    proof (cases "find out")
      case None
      then show ?thesis using Cons.IH[of r] by (auto simp: p)
    next
      case (Some v)
      then show ?thesis
        using Cons.IH[of "map_upd key (\<lambda>_. if whole then AInt (Atoi_or_max v) else AFloat (float_or_0 v)) r"]
        by (auto simp: p keys_map_upd)
    qed
  qed simp
  have "(fst \<circ> snd) ` set summaryPatterns \<subseteq> driven_keys" by (simp add: summaryPatterns_def driven_keys_def)
  then have base: "fst ` set (foldl (\<lambda>r (find, key, whole). case find out of None \<Rightarrow> r
      | Some v \<Rightarrow> map_upd key (\<lambda>_. if whole then AInt (Atoi_or_max v) else AFloat (float_or_0 v)) r) [] summaryPatterns)
    \<subseteq> driven_keys" using step[of "[]" summaryPatterns] by simp
  have "''statement_latency_ms'' \<in> driven_keys" by (simp add: driven_keys_def)
  then show ?thesis using base by (simp add: ParseSummary_def Let_def keys_map_upd)
qed

lemma bench_block_keys: "fst ` set (fst (bench_block out logs)) \<subseteq> driven_keys"
proof -
  have "''raw_summary'' \<in> driven_keys" by (simp add: driven_keys_def)
  then show ?thesis using ParseSummary_keys[of out] by (simp add: bench_block_def)
qed

lemma wire_block_keys: "fst ` set (fst (wire_block wire failed elapsed)) \<subseteq> driven_keys"
  by (auto simp: wire_block_def Let_def driven_keys_def split: if_splits)

lemma run_drive_keys: "run_drive w sc = Inr (driven, txns) \<Longrightarrow> fst ` set driven \<subseteq> driven_keys"
  using bench_block_keys wire_block_keys
  by (auto simp: run_drive_def split: if_splits prod.splits sum.splits option.splits) (metis fst_conv subsetD image_eqI)+

section \<open>What the document holds\<close>

abbreviation run_delta :: "run_args \<Rightarrow> run_world \<Rightarrow> (string \<times> (string \<times> f64) list) list" where
  "run_delta a w \<equiv> Delta (Snapshot (rwPsqlBefore w) (psql_conn a)) (Snapshot (rwPsqlAfter w) (psql_conn a))"

lemma unless_empty_keys: "fst ` set (unless_empty k m) = (if m = [] then {} else {k})"
  by (simp add: unless_empty_def)

lemmas run_tail_simps = run_tail_def Let_def map_get_append unless_empty_keys unless_empty_def

lemma run_tail_store:
  "map_get (run_tail a w sc mk card1 inits driven txns) ''store'' =
     (if raStoredir a \<noteq> [] then AMap (store_block (raStoredir a) (sc_Init sc) (mkStart mk) (mkBefore mk) (mkAfter mk)
        (delta_at (run_delta a w) ''wal'' ''wal_bytes'')) else ANil)"
  by (cases card1; cases "mkWindow mk") (simp_all add: run_tail_simps split: prod.splits)

lemma run_tail_ops:
  "map_get (run_tail a w sc mk card1 inits driven txns) ''store_ops'' =
     (case mkWindow mk of None \<Rightarrow> ANil | Some d \<Rightarrow> AMap (zoustats_Report d))"
  by (cases card1; cases "mkWindow mk") (simp_all add: run_tail_simps split: prod.splits)

lemma run_tail_delta:
  "map_get (run_tail a w sc mk card1 inits driven txns) ''pg_delta'' =
     (if run_delta a w = [] then ANil else AMap (map (\<lambda>(k, m). (k, AMap (map (apsnd AFloat) m))) (run_delta a w)))"
  by (cases card1; cases "mkWindow mk") (simp_all add: run_tail_simps split: prod.splits)

lemma run_tail_cost:
  "map_get (run_tail a w sc mk card1 inits driven txns) ''cost'' =
     (case card1 of None \<Rightarrow> ANil | Some c \<Rightarrow> AMap (Compute c (run_usage a mk driven (run_delta a w))))"
  by (cases card1; cases "mkWindow mk") (simp_all add: run_tail_simps split: prod.splits)

lemma run_tail_txns: "''transactions'' \<notin> fst ` set (run_tail a w sc mk card1 inits driven txns)"
  by (cases card1; cases "mkWindow mk"; cases "load_block a (mkStart mk) (mkBefore mk) (mkLoad mk) (map_get inits ''init_seconds'')")
    (auto simp: run_tail_simps)

text \<open>The document of a run that came through, block by block.\<close>

definition run_mk :: "run_world \<Rightarrow> counters option \<Rightarrow> counters option \<Rightarrow> run_marks" where
  "run_mk w load window = \<lparr>mkStart = Measure (rwStoreStart w), mkBefore = Measure (rwStoreBefore w),
     mkAfter = Measure (rwStoreAfter w), mkLoad = load, mkWindow = window\<rparr>"

lemma cmdRun_parts:
  assumes "cmdRun a w = Inr out"
  shows "\<exists>sc config load inits opsBefore driven txns opsAfter window card1 log1.
    scenario_Load (raScenario a) (rwFile w) = Inr (sc, config) \<and> run_init w sc = Inr inits
    \<and> read_mark a (rwOpsBefore w) = Inr opsBefore \<and> run_drive w sc = Inr (driven, txns)
    \<and> read_mark a (rwOpsAfter w) = Inr opsAfter \<and> ops_delta opsBefore opsAfter = Inr window
    \<and> run_card a w (sim_spec (raSimulated a) (rwSim w) (rwDelay w)) = Inr card1
    \<and> fst ` set log1 \<subseteq> {''txn_log''}
    \<and> roDoc out = run_head a w sc config (sim_spec (raSimulated a) (rwSim w) (rwDelay w)) @ inits @ driven
       @ run_tail a w sc (run_mk w load window) card1 inits driven txns @ log1"
proof -
  obtain sc config where 1: "scenario_Load (raScenario a) (rwFile w) = Inr (sc, config)"
    using assms by (auto simp: cmdRun_def and_then_def split: sum.splits)
  obtain inits opsStart opsBefore logdir driven txns opsAfter window card1 where
    2: "read_mark a (rwOpsStart w) = Inr opsStart" "run_init w sc = Inr inits"
      "read_mark a (rwOpsBefore w) = Inr opsBefore" "rwLogdir w = Inr logdir"
      "run_drive w sc = Inr (driven, txns)" "read_mark a (rwOpsAfter w) = Inr opsAfter"
      "ops_delta opsBefore opsAfter = Inr window"
      "run_card a w (sim_spec (raSimulated a) (rwSim w) (rwDelay w)) = Inr card1"
    using assms by (auto simp: 1 cmdRun_def and_then_def Let_def split: sum.splits)
  define kept where "kept = (case rwArchive w of (create, wr, shut) \<Rightarrow> keepLogs logdir (rwLogs w) create wr shut)"
  let ?log = "case kept of Inl _ \<Rightarrow> []
    | Inr _ \<Rightarrow> [(''txn_log'', AStr (path_Base (path_Join (raOutdir a) (run_stem a w sc @ ''.txnlog.tar.gz''))))]"
  have d: "roDoc out = run_head a w sc config (sim_spec (raSimulated a) (rwSim w) (rwDelay w)) @ inits @ driven
     @ run_tail a w sc (run_mk w (load_ops opsStart opsBefore) window) card1 inits driven txns @ ?log"
    using assms unfolding cmdRun_def and_then_def Let_def 1 2 sum.case prod.case kept_def[symmetric] run_mk_def[symmetric]
    by (auto simp: 2 split: sum.splits if_splits)
  have "fst ` set ?log \<subseteq> {''txn_log''}" by (cases kept) auto
  then show ?thesis using 1 2 d by blast
qed

lemma cmdRun_transactions:
  assumes "cmdRun a w = Inr out" and "scenario_Load (raScenario a) (rwFile w) = Inr (sc, config)"
    and "run_drive w sc = Inr (driven, txns)"
  shows "map_get (roDoc out) ''transactions'' = map_get driven ''transactions''"
proof -
  let ?spec = "sim_spec (raSimulated a) (rwSim w) (rwDelay w)"
  obtain load inits window card1 log1 where
    d: "run_init w sc = Inr inits" "fst ` set log1 \<subseteq> {''txn_log''}"
      "roDoc out = run_head a w sc config ?spec @ inits @ driven
       @ run_tail a w sc (run_mk w load window) card1 inits driven txns @ log1"
    using cmdRun_parts[OF assms(1)] assms(2,3) by auto
  let ?tail = "run_tail a w sc (run_mk w load window) card1 inits driven txns"
  have n: "''transactions'' \<notin> fst ` set (run_head a w sc config ?spec)"
    "''transactions'' \<notin> fst ` set inits" "''transactions'' \<notin> fst ` set (?tail @ log1)"
    using run_head_keys[of a w sc config ?spec, unfolded head_keys_def] run_init_keys[OF d(1)] d(2)
      run_tail_txns[of a w sc "run_mk w load window" card1 inits driven txns] by auto
  show ?thesis
    unfolding d(3) map_get_skip[OF n(1)] map_get_skip[OF n(2)]
    using map_get_none[OF n(3)] map_get_none[of _ driven] map_get_append[of driven "?tail @ log1"] by metis
qed

lemma cmdRun_lookup:
  assumes "cmdRun a w = Inr out"
  obtains sc load window card1 inits driven txns opsBefore opsAfter where
    "\<And>k. k \<in> {''store'', ''store_ops'', ''pg_delta'', ''cost''} \<Longrightarrow>
       map_get (roDoc out) k = map_get (run_tail a w sc (run_mk w load window) card1 inits driven txns) k"
    "map_get (roDoc out) ''transactions'' = map_get driven ''transactions''"
    "read_mark a (rwOpsBefore w) = Inr opsBefore" "read_mark a (rwOpsAfter w) = Inr opsAfter"
    "ops_delta opsBefore opsAfter = Inr window"
    "run_card a w (sim_spec (raSimulated a) (rwSim w) (rwDelay w)) = Inr card1"
proof -
  let ?spec = "sim_spec (raSimulated a) (rwSim w) (rwDelay w)"
  obtain sc config load inits opsBefore driven txns opsAfter window card1 log1 where
    all: "scenario_Load (raScenario a) (rwFile w) = Inr (sc, config) \<and> run_init w sc = Inr inits
    \<and> read_mark a (rwOpsBefore w) = Inr opsBefore \<and> run_drive w sc = Inr (driven, txns)
    \<and> read_mark a (rwOpsAfter w) = Inr opsAfter \<and> ops_delta opsBefore opsAfter = Inr window
    \<and> run_card a w ?spec = Inr card1 \<and> fst ` set log1 \<subseteq> {''txn_log''}
    \<and> roDoc out = run_head a w sc config ?spec @ inits @ driven
       @ run_tail a w sc (run_mk w load window) card1 inits driven txns @ log1"
    using cmdRun_parts[OF assms] by (elim exE) rule
  then have p: "run_init w sc = Inr inits" "run_drive w sc = Inr (driven, txns)" "fst ` set log1 \<subseteq> {''txn_log''}"
    and rest: "read_mark a (rwOpsBefore w) = Inr opsBefore" "read_mark a (rwOpsAfter w) = Inr opsAfter"
      "ops_delta opsBefore opsAfter = Inr window" "run_card a w ?spec = Inr card1"
    and d: "roDoc out = run_head a w sc config ?spec @ inits @ driven
       @ run_tail a w sc (run_mk w load window) card1 inits driven txns @ log1"
    by simp_all
  let ?tail = "run_tail a w sc (run_mk w load window) card1 inits driven txns"
  note keys = run_head_keys[of a w sc config ?spec, unfolded head_keys_def]
    run_init_keys[OF p(1)] run_drive_keys[OF p(2), unfolded driven_keys_def] p(3)
  have look: "map_get (roDoc out) k = map_get ?tail k" if "k \<in> {''store'', ''store_ops'', ''pg_delta'', ''cost''}" for k
  proof -
    have n: "k \<notin> fst ` set (run_head a w sc config ?spec)" "k \<notin> fst ` set inits" "k \<notin> fst ` set driven"
      "k \<notin> fst ` set log1"
      using keys that by auto
    have "map_get (roDoc out) k = map_get (?tail @ log1) k"
      unfolding d map_get_skip[OF n(1)] map_get_skip[OF n(2)] map_get_skip[OF n(3)] ..
    then show ?thesis
      using map_get_none[OF n(4)] map_get_none[of k ?tail] by (simp add: map_get_append)
  qed
  have txn: "map_get (roDoc out) ''transactions'' = map_get driven ''transactions''"
    by (rule cmdRun_transactions[OF assms]) (use all in auto)
  show thesis
  proof (rule that)
    show "map_get (roDoc out) k = map_get ?tail k" if "k \<in> {''store'', ''store_ops'', ''pg_delta'', ''cost''}" for k
      using that by (rule look)
  qed (fact txn rest)+
qed

section \<open>The run's own use and the one read back\<close>

lemma uint_add_bound: "uint (a + b :: u64) \<le> uint a + uint b"
  by (simp add: uint_add_le)

lemma totals_small:
  assumes "counters_ok c"
  shows "\<forall>f \<in> {Puts, Gets, Lists, Deletes, GetBytes, PutBytes}. sint (f (zoustats_Sum c)) = uint (f (zoustats_Sum c))"
proof -
  have b: "uint (fst (kindCount c k)) \<le> 2 ^ 53" "uint (snd (kindCount c k)) \<le> 2 ^ 53" if "k < 6" for k
    using kindCount_unat[OF assms, of k] that
      uint_le_of_unat[of "fst (kindCount c k)" "2 ^ 53"] uint_le_of_unat[of "snd (kindCount c k)" "2 ^ 53"]
    by (simp_all add: kinds_def)
  have s2: "uint (x + y :: u64) < 2 ^ 63" if "uint x \<le> 2 ^ 53" "uint y \<le> 2 ^ 53" for x y
    using uint_add_bound[of x y] that by simp
  have s1: "uint (x :: u64) < 2 ^ 63" if "uint x \<le> 2 ^ 53" for x using that by simp
  show ?thesis
    by (simp add: zoustats_Sum_def Let_def split_beta)
      (intro conjI; rule sint_small; (rule s2; rule b; simp | rule s1; rule b; simp))
qed

lemma runUsage_rest:
  assumes "mapOf (mapAt r ''store_ops'') ''ops'' = Some ops"
  shows "uStorageBytes (fst (runUsage r e)) = (case mapOf r ''store'' of None \<Rightarrow> 0 | Some s \<Rightarrow> intOf (map_get s ''bytes_after''))
    \<and> uIngestedBytes (fst (runUsage r e)) = (case mapOf r ''store'' of None \<Rightarrow> 0
        | Some s \<Rightarrow> if 0 < intOf (map_get s ''bytes_delta'') then intOf (map_get s ''bytes_delta'') else 0)
    \<and> uTxns (fst (runUsage r e)) = intOf (map_get r ''transactions'')
    \<and> uCommits (fst (runUsage r e)) = (case mapOf (mapAt r ''pg_delta'') ''database'' of None \<Rightarrow> 0
        | Some db \<Rightarrow> intOf (map_get db ''xact_commit''))
    \<and> uMeasured (fst (runUsage r e)) = snd (runUsage r e) \<and> uEgress (fst (runUsage r e)) = e"
  by (simp add: runUsage_def assms Let_def usage_zero_def split_beta split: option.split)

lemma Compute_commits:
  "(0 < m \<or> 0 < n \<Longrightarrow> m = n) \<Longrightarrow> Compute c (u\<lparr>uCommits := m\<rparr>) = Compute c (u\<lparr>uCommits := n\<rparr>)"
  by (auto simp: Compute_def cost_work_def cost_ops_def cost_transfer_def cost_egress_def requests_def storageGB_def Let_def)

text \<open>The differences as the document holds them, read back.\<close>

lemma delta_at_read:
  assumes "map_get r ''pg_delta'' = (if delta = [] then ANil else AMap (map (\<lambda>(k, m). (k, AMap (map (apsnd AFloat) m))) delta))"
  shows "(case mapOf (mapAt (reread_all r) ''pg_delta'') view of None \<Rightarrow> 0 | Some db \<Rightarrow> intOf (map_get db key))
    = (case delta_at delta view key of None \<Rightarrow> 0 | Some v \<Rightarrow> trunc v)"
proof -
  have at1: "mapAt r ''pg_delta'' = map (\<lambda>(k, m). (k, AMap (map (apsnd AFloat) m))) delta"
    using assms by (simp add: mapAt_def mapOf_def split: if_splits)
  have at2: "mapOf (map (\<lambda>(k, m). (k, AMap (map (apsnd AFloat) m))) delta) view
      = map_option (map (apsnd AFloat)) (map_of delta view)"
    by (simp add: mapOf_def map_get_def map_of_map_value as_map_def split: option.split)
  have at3: "map_get (map (apsnd AFloat) m) key = (case map_of m key of None \<Rightarrow> ANil | Some v \<Rightarrow> AFloat v)" for m
    using map_of_map_value[of AFloat m key]
    by (simp add: map_get_def apsnd_def map_prod_def split: option.splits)
  show ?thesis unfolding mapAt_reread mapOf_reread at1 at2
    by (auto simp: map_get_reread at3 delta_at_def intOf_def simp del: map_map split: option.splits)
qed

lemma usage_ops_fields:
  "uStorageBytes (usage_ops t u) = uStorageBytes u" "uIngestedBytes (usage_ops t u) = uIngestedBytes u"
  "uEgress (usage_ops t u) = uEgress u" "uTxns (usage_ops t u) = uTxns u" "uCommits (usage_ops t u) = uCommits u"
  by (simp_all add: usage_ops_def)

lemma usage_store_fields:
  "uStorageBytes (usage_store b g u) = b" "uIngestedBytes (usage_store b g u) = (if 0 < g then g else uIngestedBytes u)"
  "uEgress (usage_store b g u) = uEgress u" "uTxns (usage_store b g u) = uTxns u" "uCommits (usage_store b g u) = uCommits u"
  by (simp_all add: usage_store_def Let_def)

lemma usage_txns_fields:
  "uStorageBytes (usage_txns r k u) = uStorageBytes u" "uIngestedBytes (usage_txns r k u) = uIngestedBytes u"
  "uEgress (usage_txns r k u) = uEgress u" "uMeasured (usage_txns r k u) = uMeasured u"
  "uPuts (usage_txns r k u) = uPuts u" "uGets (usage_txns r k u) = uGets u" "uLists (usage_txns r k u) = uLists u"
  "uDeletes (usage_txns r k u) = uDeletes u" "uUploadBytes (usage_txns r k u) = uUploadBytes u"
  "uDownloadBytes (usage_txns r k u) = uDownloadBytes u"
  "uTxns (usage_txns r k u) = (case map_get r ''transactions'' of AInt n \<Rightarrow> n | _ \<Rightarrow> uTxns u)"
  "uCommits (usage_txns r k u) = (case k of None \<Rightarrow> uCommits u | Some v \<Rightarrow> if 0 < v then trunc v else uCommits u)"
  by (simp_all add: usage_txns_def Let_def split: any.split option.split)

lemma intOf_reread_int: "\<bar>n\<bar> \<le> 2 ^ 53 \<Longrightarrow> intOf (reread (AInt n)) = n"
  by (simp add: intOf_def f64_of_int_exact trunc_def)

text \<open>The document of a run with counters, as the cost command reads it.\<close>

lemma run_doc_usage:
  assumes "counters_ok d" and "AnyTraffic (zoustats_Sum d)"
    and ops: "map_get r ''store_ops'' = AMap (zoustats_Report d)"
    and store: "map_get r ''store'' = (if dir \<noteq> [] then AMap (store_block dir inited (mkStart mk) (mkBefore mk) (mkAfter mk) wal) else ANil)"
    and delta: "map_get r ''pg_delta'' = (if delta = [] then ANil else AMap (map (\<lambda>(k, m). (k, AMap (map (apsnd AFloat) m))) delta))"
    and txns: "map_get r ''transactions'' = AInt n" "map_get driven ''transactions'' = AInt n" "\<bar>n\<bar> \<le> 2 ^ 53"
    and sizes: "\<bar>fpBytes (mkAfter mk)\<bar> \<le> 2 ^ 53" "\<bar>fpBytes (mkAfter mk) - fpBytes (mkBefore mk)\<bar> \<le> 2 ^ 53"
    and args: "dir = raStoredir a" "mkWindow mk = Some d"
  shows "snd (runUsage (reread_all r) False) \<and>
    Compute c (fst (runUsage (reread_all r) False)) = Compute c (run_usage a mk driven delta)"
proof -
  let ?u = "fst (runUsage (reread_all r) False)" and ?v = "run_usage a mk driven delta" and ?t = "zoustats_Sum d"
  have o: "map_get (reread_all r) ''store_ops'' = reread (AMap (zoustats_Report d))"
    unfolding map_get_reread ops ..
  have bill: "uGets ?u = uint (Gets ?t) \<and> uPuts ?u = uint (Puts ?t) \<and> uLists ?u = uint (Lists ?t)
      \<and> uDeletes ?u = uint (Deletes ?t) \<and> uDownloadBytes ?u = uint (GetBytes ?t)
      \<and> uUploadBytes ?u = uint (PutBytes ?t) \<and> snd (runUsage (reread_all r) False) = AnyTraffic ?t"
    using runUsage_bills_counters[OF assms(1) o, of False] by (simp add: Let_def split_beta)
  have "mapOf (mapAt (reread_all r) ''store_ops'') ''ops''
      = Some (reread_all (concat (map (Report_op d) (indexed opNames))))"
    using o by (simp add: mapAt_def mapOf_def zoustats_Report_def)
  note rest = runUsage_rest[OF this, of False]
  have block: "mapOf (reread_all r) ''store'' = (if dir \<noteq> []
      then Some (reread_all (store_block dir inited (mkStart mk) (mkBefore mk) (mkAfter mk) wal)) else None)"
    unfolding mapOf_reread using store by (simp add: mapOf_def)
  have sb: "intOf (map_get (reread_all (store_block dir inited (mkStart mk) (mkBefore mk) (mkAfter mk) wal)) ''bytes_after'')
        = fpBytes (mkAfter mk)"
    "intOf (map_get (reread_all (store_block dir inited (mkStart mk) (mkBefore mk) (mkAfter mk) wal)) ''bytes_delta'')
        = fpBytes (mkAfter mk) - fpBytes (mkBefore mk)"
    using sizes unfolding map_get_reread store_block_def by (simp_all add: intOf_reread_int del: reread.simps)
  have tx: "intOf (map_get (reread_all r) ''transactions'') = n"
    unfolding map_get_reread txns(1) by (rule intOf_reread_int[OF txns(3)])
  have committed: "uCommits ?u = (case run_commits delta of None \<Rightarrow> 0 | Some v \<Rightarrow> trunc v)"
    using rest delta_at_read[OF delta] by (simp add: run_commits_def)
  have same: "?u = ?v\<lparr>uCommits := uCommits ?u\<rparr>"
    using bill rest block sb tx totals_small[OF assms(1)] assms(2) args txns(2)
    by (intro Usage.equality)
      (simp_all add: run_usage_def Let_def usage_txns_fields usage_ops_fields usage_store_fields usage_ops_def usage_zero_def)
  have trunc_pos: "trunc v \<le> 0" if "v \<le> 0" for v :: f64 using that by (simp add: trunc_def)
  have "0 < uCommits ?u \<or> 0 < uCommits ?v \<Longrightarrow> uCommits ?u = uCommits ?v"
    unfolding committed using args trunc_pos
    by (auto simp: run_usage_def Let_def usage_txns_fields usage_ops_fields usage_store_fields usage_zero_def
        not_less split: option.splits if_splits) (meson not_le)+
  then have "Compute c (?v\<lparr>uCommits := uCommits ?u\<rparr>) = Compute c (?v\<lparr>uCommits := uCommits ?v\<rparr>)"
    by (rule Compute_commits)
  then show ?thesis using same bill assms(2) by simp
qed

text \<open>
  C6: the price a run publishes is the price the cost command finds in its document. When the run
  had counters of the store and a card, the use read out of the saved document, every number a float
  again, is measured, and priced on the same card it gives the very cost block the run saved.
\<close>

theorem run_priced_as_read:
  assumes "cmdRun a w = Inr out" and "raStats a \<noteq> []"
    and "raPricecard a \<noteq> []" and "cost_Find (rwCards w) (raCardsdir a) (raPricecard a) = Inr c"
    and "zoustats_Read (raStats a) (rwOpsBefore w) = Inr before"
    and "zoustats_Read (raStats a) (rwOpsAfter w) = Inr after"
    and "zoustats_Diff before after = Inr d" and "counters_ok d" and "AnyTraffic (zoustats_Sum d)"
    and "map_get (roDoc out) ''transactions'' = AInt n" and "\<bar>n\<bar> \<le> 2 ^ 53"
    and "\<bar>fpBytes (Measure (rwStoreAfter w))\<bar> \<le> 2 ^ 53"
    and "\<bar>fpBytes (Measure (rwStoreAfter w)) - fpBytes (Measure (rwStoreBefore w))\<bar> \<le> 2 ^ 53"
  shows "\<exists>u. runUsage (reread_all (roDoc out)) False = (u, True)
    \<and> map_get (roDoc out) ''cost'' = AMap (Compute c u)"
proof (rule cmdRun_lookup[OF assms(1)])
  fix sc load window card1 inits driven txns opsBefore opsAfter
  let ?mk = "run_mk w load window"
  let ?tail = "run_tail a w sc ?mk card1 inits driven txns"
  assume look: "\<And>k. k \<in> {''store'', ''store_ops'', ''pg_delta'', ''cost''} \<Longrightarrow> map_get (roDoc out) k = map_get ?tail k"
    and tx: "map_get (roDoc out) ''transactions'' = map_get driven ''transactions''"
    and marks: "read_mark a (rwOpsBefore w) = Inr opsBefore" "read_mark a (rwOpsAfter w) = Inr opsAfter"
      "ops_delta opsBefore opsAfter = Inr window"
    and card1: "run_card a w (sim_spec (raSimulated a) (rwSim w) (rwDelay w)) = Inr card1"
  have window: "window = Some d" using marks assms(2,5,6,7) by (auto simp: read_mark_def stats_mark_def ops_delta_def)
  have c: "card1 = Some c" using card1 assms(3,4) by (simp add: run_card_def)
  have ops: "map_get (roDoc out) ''store_ops'' = AMap (zoustats_Report d)"
    using look[of "''store_ops''"] by (simp add: run_tail_ops run_mk_def window)
  have store: "map_get (roDoc out) ''store'' = (if raStoredir a \<noteq> []
      then AMap (store_block (raStoredir a) (sc_Init sc) (mkStart ?mk) (mkBefore ?mk) (mkAfter ?mk)
        (delta_at (run_delta a w) ''wal'' ''wal_bytes'')) else ANil)"
    using look[of "''store''"] by (simp add: run_tail_store)
  have delta: "map_get (roDoc out) ''pg_delta'' = (if run_delta a w = [] then ANil
      else AMap (map (\<lambda>(k, m). (k, AMap (map (apsnd AFloat) m))) (run_delta a w)))"
    using look[of "''pg_delta''"] by (simp add: run_tail_delta)
  have cost: "map_get (roDoc out) ''cost'' = AMap (Compute c (run_usage a ?mk driven (run_delta a w)))"
    using look[of "''cost''"] by (simp add: run_tail_cost c)
  have sizes: "\<bar>fpBytes (mkAfter ?mk)\<bar> \<le> 2 ^ 53" "\<bar>fpBytes (mkAfter ?mk) - fpBytes (mkBefore ?mk)\<bar> \<le> 2 ^ 53"
    using assms(12,13) by (simp_all add: run_mk_def)
  have win: "mkWindow ?mk = Some d" by (simp add: run_mk_def window)
  have "snd (runUsage (reread_all (roDoc out)) False) \<and>
      Compute c (fst (runUsage (reread_all (roDoc out)) False)) = Compute c (run_usage a ?mk driven (run_delta a w))"
    using tx assms(10) by (intro run_doc_usage[OF assms(8,9) ops store delta assms(10) _ assms(11) sizes refl win]) simp
  then show ?thesis using cost
    by (intro exI[of _ "fst (runUsage (reread_all (roDoc out)) False)"]) (auto simp: prod_eq_iff)
qed

text \<open>A run as an example: counters that went from nothing to one each, a card, no store directory.\<close>

definition demo_counters :: "u64 \<Rightarrow> counters" where
  "demo_counters n = zmagic # zformat # replicate (slots - 2) n"

definition demo_args :: run_args where
  "demo_args = \<lparr>raScenario = ''mini.json'', raDsn = [], raLabel = ''pg'', raDatadir = [], raStoredir = [], raStats = ''ops'',
     raPricecard = ''c'', raCardsdir = ''cards'', raSimulated = [], raOutdir = ''results''\<rparr>"

definition demo_scenario :: json where
  "demo_scenario = JObj [(''name'', JStr ''mini'')]"

definition demo_card :: json where
  "demo_card = JObj [(''name'', JStr ''c''), (''gb_bytes'', JNum ''1'')]"

definition demo_world :: run_world where
  "demo_world = \<lparr>rwFile = Inr (MarshalIndent demo_scenario), rwDate = ''2026-01-02T03:04:05Z'', rwEnv = [], rwSim = [], rwDelay = [],
     rwPsql = (\<lambda>_. Inl ''down''), rwPsqlBefore = (\<lambda>_. Inl ''down''), rwPsqlAfter = (\<lambda>_. Inl ''down''),
     rwMounts = None, rwGetwd = Inr ''/'', rwPidfile = Inl ''none'', rwStoreStart = [], rwStoreBefore = [], rwStoreAfter = [],
     rwOpsStart = Inr (zoustats_file (demo_counters 0) @ []), rwOpsBefore = Inr (zoustats_file (demo_counters 0) @ []),
     rwOpsAfter = Inr (zoustats_file (demo_counters 1) @ []), rwInit = (None, [], 0), rwWarmup = None, rwLogdir = Inr ''/tmp/z'',
     rwWire = (Inr ([], 0), 0), rwBench = (None, ''number of transactions actually processed: 12''), rwLogs = Inr [],
     rwTree = [], rwSystem = [], rwCards = (\<lambda>_. Inr (MarshalIndent demo_card)), rwMkdir = None,
     rwArchive = (None, (\<lambda>_. None), None), rwWrite = None\<rparr>"

lemma demo_parse: "json_parse (MarshalIndent demo_scenario) = Some demo_scenario"
    "json_parse (MarshalIndent demo_card) = Some demo_card"
  unfolding demo_scenario_def demo_card_def
  by (rule json_parse_Marshal; simp add: ascii_def scan_number_def scan_whole_def scan_digits_def scan_frac_def
      scan_exp_def is_digit_def)+

lemma demo_loads:
  "\<exists>sc config. scenario_Load (raScenario demo_args) (rwFile demo_world) = Inr (sc, config)
     \<and> sc_Driver sc = [] \<and> \<not> sc_Init sc \<and> sc_Warmup sc = 0"
proof -
  have src: "rwFile demo_world = Inr (MarshalIndent demo_scenario)" by (simp add: demo_world_def)
  have "json_Unmarshal (dec_struct False scenario_fields) (MarshalIndent demo_scenario) scenario_zero
      = Some (scenario_zero\<lparr>sc_Name := ''mini''\<rparr>)"
    unfolding json_Unmarshal_def demo_parse unfolding demo_scenario_def
    by (simp add: dec_struct_def scenario_fields_def find_field_def on_field_def dec_string_def)
  moreover obtain sc where "run_sections (scenario_sections (raScenario demo_args)) (scenario_zero\<lparr>sc_Name := ''mini''\<rparr>) = Inr sc"
      "sc_Driver sc = []" "\<not> sc_Init sc" "sc_Warmup sc = 0"
    by (simp add: scenario_sections_def named_section_def attach_section_def fleet_section_def sockets_section_def
        sustain_section_def driver_section_def load_section_def kinds_of scenario_zero_def)
  ultimately show ?thesis
    unfolding src using demo_parse(1)
    by (intro exI[of _ sc] exI[of _ "any_of_json demo_scenario"]) (simp add: scenario_Load_def, simp add: demo_scenario_def)
qed

lemma demo_prices: "\<exists>c. cost_Find (rwCards demo_world) (raCardsdir demo_args) (raPricecard demo_args) = Inr c"
proof -
  have "json_Unmarshal (dec_struct False Card_fields) (MarshalIndent demo_card) Card_zero
      = Some (Card_zero\<lparr>Name := ''c'', GBBytes := fl 1\<rparr>)"
    unfolding json_Unmarshal_def demo_parse unfolding demo_card_def
    by (simp add: dec_struct_def Card_fields_def find_field_def on_field_def dec_string_def dec_float_def
        ParseFloat_def cut_sign_def is_digit_def digits_val_def digit_val_def ten_pow_def)
  moreover have "fl 1 = 1" using fl_of_int[of 1] by simp
  ultimately show ?thesis
    by (simp add: cost_Find_def demo_world_def cost_Load_def Card_zero_def)
qed

lemma demo_reads:
  "zoustats_Read (raStats demo_args) (rwOpsStart demo_world) = Inr (demo_counters 0)"
  "zoustats_Read (raStats demo_args) (rwOpsBefore demo_world) = Inr (demo_counters 0)"
  "zoustats_Read (raStats demo_args) (rwOpsAfter demo_world) = Inr (demo_counters 1)"
proof -
  have "length (demo_counters n) = slots" for n by (simp add: demo_counters_def layout)
  note rd = zoustats_Read_file[OF this, where rest = "[]"]
  show "zoustats_Read (raStats demo_args) (rwOpsStart demo_world) = Inr (demo_counters 0)"
    "zoustats_Read (raStats demo_args) (rwOpsBefore demo_world) = Inr (demo_counters 0)"
    "zoustats_Read (raStats demo_args) (rwOpsAfter demo_world) = Inr (demo_counters 1)"
    using rd by (simp_all add: demo_world_def demo_counters_def)
qed

lemma demo_delta: "\<exists>d. zoustats_Diff (demo_counters 0) (demo_counters 1) = Inr d \<and> counters_ok d \<and> AnyTraffic (zoustats_Sum d)"
proof -
  have len: "length (demo_counters n) = slots" for n by (simp add: demo_counters_def layout)
  let ?d = "zmagic # zformat # replicate (slots - 2) (1 :: u64)"
  have "zoustats_Diff (demo_counters 0) (demo_counters 1) = Inr ?d"
    unfolding zoustats_Diff_iff[OF len len]
    by (auto simp: demo_counters_def header_def nth_Cons' map2_map_map numeral_2_eq_2 zip_replicate)
  moreover have "\<forall>i. header \<le> i \<and> i < slots \<longrightarrow> ?d ! i = 1" by (auto simp: header_def nth_Cons')
  ultimately show ?thesis using counters_ok_ones[of ?d] by blast
qed

lemma demo_runs:
  "\<exists>out. cmdRun demo_args demo_world = Inr out \<and> map_get (roDoc out) ''transactions'' = AInt 12"
proof -
  obtain sc config where sc: "scenario_Load (raScenario demo_args) (rwFile demo_world) = Inr (sc, config)"
      "sc_Driver sc = []" "\<not> sc_Init sc" "sc_Warmup sc = 0" using demo_loads by blast
  obtain c where c: "cost_Find (rwCards demo_world) (raCardsdir demo_args) (raPricecard demo_args) = Inr c"
    using demo_prices by blast
  obtain d where d: "zoustats_Diff (demo_counters 0) (demo_counters 1) = Inr d" using demo_delta by blast
  have marks: "read_mark demo_args (rwOpsStart demo_world) = Inr (Some (demo_counters 0))"
    "read_mark demo_args (rwOpsBefore demo_world) = Inr (Some (demo_counters 0))"
    "read_mark demo_args (rwOpsAfter demo_world) = Inr (Some (demo_counters 1))"
    using demo_reads by (simp_all add: read_mark_def stats_mark_def demo_args_def)
  have card1: "run_card demo_args demo_world spec = Inr (Some c)" for spec
    using c by (simp add: run_card_def demo_args_def)
  have window: "ops_delta (Some (demo_counters 0)) (Some (demo_counters 1)) = Inr (Some d)"
    using d by (simp add: ops_delta_def)
  have inits: "run_init demo_world sc = Inr []" using sc(3) by (simp add: run_init_def)
  have twelve: "ParseSummary ''number of transactions actually processed: 12'' [] = [(''transactions'', AInt 12)]" by code_simp
  have driven: "run_drive demo_world sc = Inr ([(''transactions'', AInt 12),
      (''raw_summary'', AStr ''number of transactions actually processed: 12'')], [])"
    using sc(2) twelve by (simp add: run_drive_def demo_world_def bench_block_def ParseTxnLogs_def)
  have "\<exists>out. cmdRun demo_args demo_world = Inr out"
    using sc card1 marks window inits driven
    by (simp add: cmdRun_def and_then_def dies_def Let_def) (simp add: demo_args_def demo_world_def dies_def)
  then obtain out where out: "cmdRun demo_args demo_world = Inr out" by blast
  have "map_get (roDoc out) ''transactions'' = AInt 12"
    using cmdRun_transactions[OF out sc(1) driven] by simp
  then show ?thesis using out by blast
qed

theorem run_priced_as_read_witness:
  "\<exists>out u c. cmdRun demo_args demo_world = Inr out
    \<and> runUsage (reread_all (roDoc out)) False = (u, True)
    \<and> map_get (roDoc out) ''cost'' = AMap (Compute c u)"
proof -
  obtain out c d where "cmdRun demo_args demo_world = Inr out" "map_get (roDoc out) ''transactions'' = AInt 12"
    "cost_Find (rwCards demo_world) (raCardsdir demo_args) (raPricecard demo_args) = Inr c"
    "zoustats_Diff (demo_counters 0) (demo_counters 1) = Inr d" "counters_ok d" "AnyTraffic (zoustats_Sum d)"
    using demo_runs demo_prices demo_delta by blast
  then show ?thesis
    using run_priced_as_read[of demo_args demo_world out c "demo_counters 0" "demo_counters 1" d 12] demo_reads
    by (auto simp: demo_args_def demo_world_def Measure_def)
qed

end
