(* ===== verification/SamplerTree.thy ===== *)
theory SamplerTree
  imports GoStrings GoTime GoAny
begin

text \<open>
  Package \<open>sampler\<close>, the process tree (src/sampler/tree.go): the walk that finds the descendants of a
  process in the output of \<open>ps\<close>, one sample of the tree, and the reduction of a run's samples. The
  outputs of \<open>ps\<close>, the files of \<open>/proc\<close> and the clock are arguments; a number that does not parse
  counts as zero, as in the source.
\<close>

section \<open>The walk\<close>

definition ps_pair :: "string \<Rightarrow> (int \<times> int) option" where
  "ps_pair line =
     (case strings_Fields line of
        [a, b] \<Rightarrow> (case (Atoi a, Atoi b) of (Some pid, Some ppid) \<Rightarrow> Some (pid, ppid) | _ \<Rightarrow> None)
      | _ \<Rightarrow> None)"

definition ps_rows :: "string \<Rightarrow> (int \<times> int) list" where
  "ps_rows out = List.map_filter ps_pair (split_lines out)"

definition kids :: "(int \<times> int list) list \<Rightarrow> int \<Rightarrow> int list" where
  "kids children pid = (case map_of children pid of None \<Rightarrow> [] | Some l \<Rightarrow> l)"

text \<open>
  The queue is kept top first, so what the source appends at the end comes in reverse in front.
\<close>

function tree_walk :: "(int \<times> int list) list \<Rightarrow> int list \<Rightarrow> int list \<Rightarrow> int list" where
  "tree_walk children [] pids = pids"
| "tree_walk children (pid # queue) pids =
     (if pid \<in> set pids then tree_walk children queue pids
      else tree_walk children (rev (kids children pid) @ queue) (pids @ [pid]))"
  by pat_completeness auto

definition all_kids :: "(int \<times> int list) list \<Rightarrow> int set" where
  "all_kids children = (\<Union>(p, l) \<in> set children. set l)"

lemma kids_all: "set (kids children p) \<subseteq> all_kids children"
  by (cases "map_of children p") (force simp: kids_def all_kids_def dest: map_of_SomeD)+

lemma finite_all_kids [simp]: "finite (all_kids children)"
  by (auto simp: all_kids_def)

definition walk_left :: "(int \<times> int list) list \<Rightarrow> int list \<Rightarrow> int list \<Rightarrow> nat" where
  "walk_left children queue pids = card ((set queue \<union> all_kids children) - set pids)"

lemma walk_left_skip:
  "pid \<in> set pids \<Longrightarrow> walk_left children queue pids \<le> walk_left children (pid # queue) pids"
  unfolding walk_left_def by (intro card_mono) auto

lemma walk_left_step:
  assumes "pid \<notin> set pids"
  shows "walk_left children (rev (kids children pid) @ queue) (pids @ [pid]) < walk_left children (pid # queue) pids"
  unfolding walk_left_def
proof (rule psubset_card_mono)
  show "(set (rev (kids children pid) @ queue) \<union> all_kids children) - set (pids @ [pid])
      \<subset> (set (pid # queue) \<union> all_kids children) - set pids"
    using assms kids_all[of children pid] by auto
qed simp

termination tree_walk
  by (relation "measures [\<lambda>(children, queue, pids). walk_left children queue pids,
      \<lambda>(children, queue, pids). length queue]")
    (use walk_left_skip walk_left_step in \<open>auto simp: le_less\<close>)

definition treePids :: "string \<Rightarrow> int \<Rightarrow> int list" where
  "treePids out base_pid = tree_walk (group_by snd fst (ps_rows out)) [base_pid] []"

section \<open>One sample\<close>

record tree_sample =
  ts_at :: int
  ts_procs :: nat
  ts_rssKB :: int
  ts_cpuS :: f64
  ts_majflt :: "int option"
  ts_diskRead :: "int option"
  ts_diskWrite :: "int option"

definition int_or_0 :: "string \<Rightarrow> int" where
  "int_or_0 s = (case Atoi s of None \<Rightarrow> 0 | Some n \<Rightarrow> n)"

fun three_parts :: "f64 list \<Rightarrow> f64 \<times> f64 \<times> f64" where
  "three_parts (a # b # c # _) = (a, b, c)"
| "three_parts [b, c] = (0, b, c)"
| "three_parts [c] = (0, 0, c)"
| "three_parts [] = (0, 0, 0)"

definition parsePsTime :: "string \<Rightarrow> f64" where
  "parsePsTime text1 =
     (let (days, text1) = (case strings_Cut text1 ''-'' of
            Some (d, rest) \<Rightarrow> (case Atoi d of Some n \<Rightarrow> (f64_of_int n, rest) | None \<Rightarrow> (0, text1))
          | None \<Rightarrow> (0, text1));
          (h, mi, s) = three_parts (map float_or_0 (strings_Split text1 (CHR '':'')))
      in fadd (fadd (fadd (fmul days 86400) (fmul h 3600)) (fmul mi 60)) s)"

definition ps_usage :: "string \<Rightarrow> int \<times> f64 \<Rightarrow> int \<times> f64" where
  "ps_usage line acc =
     (case strings_Fields line of
        [a, b] \<Rightarrow> (fst acc + int_or_0 a, fadd (snd acc) (parsePsTime b))
      | _ \<Rightarrow> acc)"

definition io_line :: "string \<Rightarrow> int \<times> int \<Rightarrow> int \<times> int" where
  "io_line line acc =
     (case strings_Cut line '': '' of None \<Rightarrow> acc
      | Some (k, v) \<Rightarrow>
        let n = int_or_0 (TrimSpace v) in
        if k = ''read_bytes'' then (fst acc + n, snd acc)
        else if k = ''write_bytes'' then (fst acc, snd acc + n) else acc)"

definition stat_faults :: "string option \<Rightarrow> int" where
  "stat_faults stat =
     (case stat of None \<Rightarrow> 0
      | Some s \<Rightarrow>
        (case strings_Cut s '') '' of None \<Rightarrow> 0
         | Some (_, rest) \<Rightarrow>
           let fields = strings_Fields rest in if 9 < length fields then int_or_0 (fields ! 9) else 0))"

text \<open>The io of the tree, nothing as soon as one process has no io file.\<close>

fun tree_io :: "(int \<Rightarrow> string option) \<Rightarrow> (int \<Rightarrow> string option) \<Rightarrow> int list \<Rightarrow> (int \<times> int) \<times> int \<Rightarrow> ((int \<times> int) \<times> int) option" where
  "tree_io io stat [] acc = Some acc"
| "tree_io io stat (pid # pids) (rw, faults) =
     (case io pid of None \<Rightarrow> None
      | Some raw \<Rightarrow>
        tree_io io stat pids (foldl (\<lambda>acc l. io_line l acc) rw (split_lines raw), faults + stat_faults (stat pid)))"

definition tree_sampleOnce :: "string option \<Rightarrow> int \<Rightarrow> (int list \<Rightarrow> string option) \<Rightarrow> (int \<Rightarrow> string option) \<Rightarrow>
    (int \<Rightarrow> string option) \<Rightarrow> int \<Rightarrow> tree_sample option" where
  "tree_sampleOnce ps base_pid usage io stat now =
     (let pids = (case ps of None \<Rightarrow> [] | Some out \<Rightarrow> treePids out base_pid) in
      if pids = [] then None
      else case usage pids of None \<Rightarrow> None
      | Some out \<Rightarrow>
        let (rss, cpu) = foldl (\<lambda>acc l. ps_usage l acc) (0, 0) (split_lines out);
            ios = tree_io io stat pids ((0, 0), 0)
        in Some \<lparr>ts_at = now, ts_procs = length pids, ts_rssKB = rss, ts_cpuS = cpu,
             ts_majflt = map_option snd ios, ts_diskRead = map_option (fst \<circ> fst) ios,
             ts_diskWrite = map_option (snd \<circ> fst) ios\<rparr>)"

section \<open>The reduction\<close>

definition tree_median :: "int list \<Rightarrow> int" where
  "tree_median vals = sort vals ! (length vals div 2)"

text \<open>One value per window, the last sample of it.\<close>

fun tree_timeline_from :: "int \<Rightarrow> int \<Rightarrow> int \<Rightarrow> tree_sample list \<Rightarrow> int list \<Rightarrow> int list" where
  "tree_timeline_from start width current [] out = out"
| "tree_timeline_from start width current (s # ss) out =
     (let w = quot (ts_at s - start) width in
      if w \<noteq> current then tree_timeline_from start width w ss (out @ [ts_rssKB s])
      else tree_timeline_from start width current ss (out[length out - 1 := ts_rssKB s]))"

definition tree_timeline :: "tree_sample list \<Rightarrow> int \<Rightarrow> int list" where
  "tree_timeline ss width =
     (case ss of [] \<Rightarrow> [] | s # _ \<Rightarrow> tree_timeline_from (ts_at s) width (- 1) ss [])"

definition sampler_round1 :: "f64 \<Rightarrow> f64" where "sampler_round1 v = round_int 10 v"

definition tree_slope :: "tree_sample list \<Rightarrow> f64" where
  "tree_slope ss =
     (if length ss < 8 then 0
      else let quarter = length ss div 4;
               head = tree_median (map ts_rssKB (take quarter ss));
               tail = tree_median (map ts_rssKB (drop (length ss - quarter) ss));
               minutes = fdiv (fmul (Minutes (ts_at (last ss) - ts_at (hd ss))) 3) 4
           in if minutes \<le> 0 then 0 else sampler_round1 (fdiv (f64_of_int (tail - head)) minutes))"

definition opt_delta :: "int option \<Rightarrow> int option \<Rightarrow> any" where
  "opt_delta a b = (case (a, b) of (Some x, Some y) \<Rightarrow> AInt (y - x) | _ \<Rightarrow> ANil)"

definition tree_Finish :: "tree_sample list \<Rightarrow> (string \<times> any) list" where
  "tree_Finish ss =
     (if ss = [] then []
      else let f = hd ss; l = last ss; on = (ts_diskRead f \<noteq> None \<and> ts_diskRead l \<noteq> None) in
        [(''samples'', AInt (int (length ss))),
         (''procs_max'', AInt (int (foldl max 0 (map ts_procs ss)))),
         (''rss_peak_kb'', AInt (foldl max 0 (map ts_rssKB ss))),
         (''rss_median_kb'', AInt (tree_median (map ts_rssKB ss))),
         (''cpu_s_total'', AFloat (sampler_round1 (fsub (ts_cpuS l) (ts_cpuS f)))),
         (''disk_read_bytes'', if on then opt_delta (ts_diskRead f) (ts_diskRead l) else ANil),
         (''disk_write_bytes'', if on then opt_delta (ts_diskWrite f) (ts_diskWrite l) else ANil),
         (''major_faults'', if on then opt_delta (ts_majflt f) (ts_majflt l) else ANil),
         (''rss_timeline_kb'', AList (map AInt (tree_timeline ss (10 * Second)))),
         (''rss_slope_kb_per_min'', AFloat (tree_slope ss))])"

section \<open>The walk finds the descendants\<close>

definition ps_edges :: "string \<Rightarrow> (int \<times> int) set" where
  "ps_edges out = {(ppid, pid). (pid, ppid) \<in> set (ps_rows out)}"

lemma kids_rows: "set (kids (group_by snd fst rows) p) = {pid. (pid, p) \<in> set rows}"
  by (force simp: kids_def map_of_group_by)

text \<open>
  What the walk keeps true: the processes listed have their children listed or queued, and
  everything listed or queued descends from the root.
\<close>

lemma tree_walk_closed:
  assumes "\<forall>p \<in> set pids. set (kids children p) \<subseteq> set pids \<union> set queue" and "distinct pids"
    and "set pids \<union> set queue \<subseteq> R" and "\<forall>p \<in> R. set (kids children p) \<subseteq> R"
  shows "set pids \<union> set queue \<subseteq> set (tree_walk children queue pids)
    \<and> set (tree_walk children queue pids) \<subseteq> R
    \<and> distinct (tree_walk children queue pids)
    \<and> (\<forall>p \<in> set (tree_walk children queue pids). set (kids children p) \<subseteq> set (tree_walk children queue pids))"
  using assms
proof (induction children queue pids rule: tree_walk.induct)
  case (2 children pid queue pids)
  show ?case
  proof (cases "pid \<in> set pids")
    case True
    then show ?thesis using 2 by (simp add: insert_absorb)
  next
    case False
    have "\<forall>p \<in> set (pids @ [pid]). set (kids children p) \<subseteq> set (pids @ [pid]) \<union> set (rev (kids children pid) @ queue)"
      using "2.prems"(1) by auto
    moreover have "set (pids @ [pid]) \<union> set (rev (kids children pid) @ queue) \<subseteq> R"
      using "2.prems"(3,4) by auto
    ultimately show ?thesis using "2.IH"(2)[OF False] "2.prems"(2,4) False by simp
  qed
qed simp

text \<open>
  C37: the pids sampled are the process and its descendants in the listing of \<open>ps\<close>, each once,
  whatever the listing holds: unreadable lines, orphans, repeated rows and cycles of parents.
\<close>

theorem treePids_descendants:
  "distinct (treePids out base_pid) \<and> set (treePids out base_pid) = {pid. (base_pid, pid) \<in> (ps_edges out)\<^sup>*}"
proof -
  define ch where "ch = group_by snd fst (ps_rows out)"
  define R where "R = {pid. (base_pid, pid) \<in> (ps_edges out)\<^sup>*}"
  have ch: "set (kids ch p) = {pid. (p, pid) \<in> ps_edges out}" for p
    by (simp add: ch_def kids_rows ps_edges_def)
  have "\<forall>p \<in> R. set (kids ch p) \<subseteq> R" by (auto simp: ch R_def intro: rtrancl_into_rtrancl)
  then have walk: "base_pid \<in> set (treePids out base_pid)" "set (treePids out base_pid) \<subseteq> R" "distinct (treePids out base_pid)"
      "\<forall>p \<in> set (treePids out base_pid). set (kids ch p) \<subseteq> set (treePids out base_pid)"
    using tree_walk_closed[of "[]" ch "[base_pid]" R] by (auto simp: treePids_def ch_def R_def)
  have "pid \<in> set (treePids out base_pid)" if "(base_pid, pid) \<in> (ps_edges out)\<^sup>*" for pid
    using that
  proof (induction rule: rtrancl_induct)
    case (step p q)
    then show ?case using walk(4) ch by blast
  qed (rule walk(1))
  then show ?thesis using walk(2,3) by (auto simp: R_def)
qed

end
