(* ===== verification/SamplerSystem.thy ===== *)
theory SamplerSystem
  imports SamplerTree
begin

text \<open>
  Package \<open>sampler\<close>, the whole box (src/sampler/system.go): one reading of the counters the kernel
  keeps in text files, and the differences published at the end. The texts are arguments, nothing
  where the file could not be read, and \<open>whole\<close> says which device names have an entry of their own.
\<close>

record sys_sample =
  sy_at :: int
  sy_readBytes :: int
  sy_writeBytes :: int
  sy_reads :: int
  sy_writes :: int
  sy_ioTicksMS :: int
  sy_netRx :: int
  sy_netTx :: int
  sy_cachedKB :: int
  sy_swapIn :: int
  sy_swapOut :: int

definition skipped_disk :: "string \<Rightarrow> bool" where
  "skipped_disk name \<longleftrightarrow>
     HasPrefix name ''loop'' \<or> HasPrefix name ''ram'' \<or> HasPrefix name ''sr'' \<or> HasPrefix name ''zram''"

definition disk_line :: "(string \<Rightarrow> bool) \<Rightarrow> string \<Rightarrow> sys_sample \<Rightarrow> sys_sample" where
  "disk_line whole line s =
     (let f = strings_Fields line in
      if length f < 14 \<or> skipped_disk (f ! 2) \<or> \<not> whole (f ! 2) then s
      else s\<lparr>sy_reads := sy_reads s + int_or_0 (f ! 3), sy_writes := sy_writes s + int_or_0 (f ! 7),
             sy_readBytes := sy_readBytes s + int_or_0 (f ! 5) * 512,
             sy_writeBytes := sy_writeBytes s + int_or_0 (f ! 9) * 512,
             sy_ioTicksMS := sy_ioTicksMS s + int_or_0 (f ! 12)\<rparr>)"

definition net_line :: "string \<Rightarrow> sys_sample \<Rightarrow> sys_sample" where
  "net_line line s =
     (case strings_Cut line '':'' of None \<Rightarrow> s
      | Some (name, rest) \<Rightarrow>
        let f = strings_Fields rest in
        if TrimSpace name = ''lo'' \<or> length f < 9 then s
        else s\<lparr>sy_netRx := sy_netRx s + int_or_0 (f ! 0), sy_netTx := sy_netTx s + int_or_0 (f ! 8)\<rparr>)"

text \<open>A line with the key and no value panics: its first field does not exist.\<close>

definition cached_line :: "string \<Rightarrow> sys_sample \<Rightarrow> sys_sample option" where
  "cached_line line s =
     (case CutPrefix line ''Cached:'' of None \<Rightarrow> Some s
      | Some v \<Rightarrow>
        (case strings_Fields v of [] \<Rightarrow> None | n # _ \<Rightarrow> Some (s\<lparr>sy_cachedKB := int_or_0 n\<rparr>)))"

definition swap_line :: "string \<Rightarrow> sys_sample \<Rightarrow> sys_sample" where
  "swap_line line s =
     (let s = (case CutPrefix line ''pswpin '' of None \<Rightarrow> s | Some v \<Rightarrow> s\<lparr>sy_swapIn := int_or_0 (TrimSpace v)\<rparr>)
      in case CutPrefix line ''pswpout '' of None \<Rightarrow> s | Some v \<Rightarrow> s\<lparr>sy_swapOut := int_or_0 (TrimSpace v)\<rparr>)"

definition over_lines :: "(string \<Rightarrow> sys_sample \<Rightarrow> sys_sample) \<Rightarrow> string option \<Rightarrow> sys_sample \<Rightarrow> sys_sample" where
  "over_lines f raw s = (case raw of None \<Rightarrow> s | Some text1 \<Rightarrow> foldl (\<lambda>s l. f l s) s (split_lines text1))"

fun cached_lines :: "string list \<Rightarrow> sys_sample \<Rightarrow> sys_sample option" where
  "cached_lines [] s = Some s"
| "cached_lines (l # ls) s = (case cached_line l s of None \<Rightarrow> None | Some s' \<Rightarrow> cached_lines ls s')"

definition sys_zero :: "int \<Rightarrow> sys_sample" where
  "sys_zero now = \<lparr>sy_at = now, sy_readBytes = 0, sy_writeBytes = 0, sy_reads = 0, sy_writes = 0, sy_ioTicksMS = 0,
     sy_netRx = 0, sy_netTx = 0, sy_cachedKB = 0, sy_swapIn = 0, sy_swapOut = 0\<rparr>"

text \<open>Outer nothing is the panic, inner nothing a box without disk counters.\<close>

definition sampleSystem :: "int \<Rightarrow> (string \<Rightarrow> bool) \<Rightarrow> string option \<Rightarrow> string option \<Rightarrow> string option \<Rightarrow> string option \<Rightarrow>
    sys_sample option option" where
  "sampleSystem now whole disks net mem vm =
     (case disks of None \<Rightarrow> Some None
      | Some _ \<Rightarrow>
        let s = over_lines net_line net (over_lines (disk_line whole) disks (sys_zero now)) in
        (case (case mem of None \<Rightarrow> Some s | Some raw \<Rightarrow> cached_lines (split_lines raw) s) of
           None \<Rightarrow> None
         | Some s \<Rightarrow> Some (Some (over_lines swap_line vm s))))"

text \<open>Bytes written in each window that another one follows.\<close>

fun write_timeline :: "int \<Rightarrow> int \<Rightarrow> int \<Rightarrow> int \<Rightarrow> sys_sample list \<Rightarrow> int list" where
  "write_timeline start width current base [] = []"
| "write_timeline start width current base (s # ss) =
     (let w = quot (sy_at s - start) width in
      if w \<noteq> current
      then (if 0 \<le> current then [sy_writeBytes s - base] else [])
             @ write_timeline start width w (sy_writeBytes s) ss
      else write_timeline start width current base ss)"

definition sys_delta :: "sys_sample \<Rightarrow> sys_sample \<Rightarrow> (sys_sample \<Rightarrow> int) \<Rightarrow> any" where
  "sys_delta f l get = AInt (get l - get f)"

definition sys_Finish :: "sys_sample list \<Rightarrow> (string \<times> any) list" where
  "sys_Finish ss =
     (if length ss < 2 then [(''supported'', ABool False)]
      else let f = hd ss; l = last ss; seconds = Seconds (sy_at l - sy_at f); d = sys_delta f l in
        if seconds \<le> 0 then [(''supported'', ABool False)]
        else [(''supported'', ABool True), (''seconds'', AFloat (sampler_round1 seconds)),
          (''disk_read_bytes'', d sy_readBytes), (''disk_write_bytes'', d sy_writeBytes),
          (''disk_reads'', d sy_reads), (''disk_writes'', d sy_writes),
          (''disk_util_pct'', AFloat (sampler_round1 (fdiv (f64_of_int (sy_ioTicksMS l - sy_ioTicksMS f)) (fmul seconds 10)))),
          (''net_rx_bytes'', d sy_netRx), (''net_tx_bytes'', d sy_netTx),
          (''page_cache_delta_kb'', d sy_cachedKB),
          (''swap_in_pages'', d sy_swapIn), (''swap_out_pages'', d sy_swapOut),
          (''disk_write_timeline_bytes'',
             AList (map AInt (write_timeline (sy_at f) (10 * Second) (- 1) 0 ss)))])"

end
