(* ===== verification/ProbeS3.thy ===== *)
theory ProbeS3
  imports GoStrings HttpRequests
begin

text \<open>
  Package \<open>probe\<close>, the S3 client (src/probe/s3.go): percent encoding, the canonical query string,
  the signature of a request and what one request comes to. SHA-256 and HMAC are arguments, as hex
  text and as bytes; the clock is the request's date.
\<close>

section \<open>Encoding\<close>

definition hex_upper :: "nat \<Rightarrow> char" where
  "hex_upper d = (if d < 10 then char_of (48 + d) else char_of (55 + d))"

definition unreserved :: "bool \<Rightarrow> char \<Rightarrow> bool" where
  "unreserved keepSlash c \<longleftrightarrow>
     (let n = of_char c :: nat in
      65 \<le> n \<and> n \<le> 90 \<or> 97 \<le> n \<and> n \<le> 122 \<or> 48 \<le> n \<and> n \<le> 57
      \<or> c = CHR ''-'' \<or> c = CHR ''.'' \<or> c = CHR ''_'' \<or> c = CHR 0x7E \<or> keepSlash \<and> c = CHR ''/'')"

definition encode_byte :: "bool \<Rightarrow> char \<Rightarrow> string" where
  "encode_byte keepSlash c =
     (if unreserved keepSlash c then [c]
      else let n = of_char c in [CHR 0x25, hex_upper (n div 16), hex_upper (n mod 16)])"

definition uriEncode :: "string \<Rightarrow> bool \<Rightarrow> string" where
  "uriEncode s keepSlash = concat (map (encode_byte keepSlash) s)"

type_synonym query = "(string \<times> string list) list"

text \<open>The parameters of a query in signing order: by key, and by value within a key.\<close>

definition query_pairs :: "query \<Rightarrow> (string \<times> string) list" where
  "query_pairs q =
     concat (map (\<lambda>k. map (Pair k) (sort (case map_of q k of None \<Rightarrow> [] | Some vs \<Rightarrow> vs))) (sort (map fst q)))"

definition query_part :: "string \<times> string \<Rightarrow> string" where
  "query_part kv = uriEncode (fst kv) False @ ''='' @ uriEncode (snd kv) False"

definition canonicalQuery :: "query \<Rightarrow> string" where
  "canonicalQuery q = (if q = [] then [] else strings_Join (map query_part (query_pairs q)) ''&'')"

section \<open>Signing\<close>

record s3_client =
  s3Endpoint :: string
  s3Region :: string
  s3Bucket :: string
  s3AccessKey :: string
  s3SecretKey :: string

definition sign_headers :: "string \<Rightarrow> (string \<times> string) list \<Rightarrow> (string \<times> string) list" where
  "sign_headers host headers =
     sort_key fst (foldl (\<lambda>m (k, v). map_upd (ToLower k) (\<lambda>_. TrimSpace v) m) [(''host'', host)] headers)"

definition canonical_request :: "string \<Rightarrow> string \<Rightarrow> query \<Rightarrow> (string \<times> string) list \<Rightarrow> string \<Rightarrow> string" where
  "canonical_request meth path q headers payloadHash =
     strings_Join [meth, uriEncode path True, canonicalQuery q,
       concat (map (\<lambda>(k, v). k @ '':'' @ v @ newline) headers), strings_Join (map fst headers) '';'', payloadHash] newline"

definition s3_sign :: "(string \<Rightarrow> string) \<Rightarrow> (string \<Rightarrow> string \<Rightarrow> string) \<Rightarrow> (string \<Rightarrow> string) \<Rightarrow> s3_client \<Rightarrow>
    string \<Rightarrow> string \<Rightarrow> string \<Rightarrow> string \<Rightarrow> query \<Rightarrow> string \<Rightarrow> (string \<times> string) list" where
  "s3_sign sha hmac hex c amzDate host meth path q payloadHash =
     (let scopeDate = take 8 amzDate;
          set = header_Set ''x-amz-content-sha256'' payloadHash (header_Set ''x-amz-date'' amzDate []);
          headers = sign_headers host set;
          signed = strings_Join (map fst headers) '';'';
          scope = scopeDate @ ''/'' @ s3Region c @ ''/s3/aws4_request'';
          toSign = strings_Join [''AWS4-HMAC-SHA256'', amzDate, scope,
            sha (canonical_request meth path q headers payloadHash)] newline;
          key = hmac (hmac (hmac (hmac (''AWS4'' @ s3SecretKey c) scopeDate) (s3Region c)) ''s3'') ''aws4_request'';
          sig = hex (hmac key toSign)
      in header_Set ''Authorization'' (''AWS4-HMAC-SHA256 Credential='' @ s3AccessKey c @ ''/'' @ scope
           @ '',SignedHeaders='' @ signed @ '',Signature='' @ sig) set)"

section \<open>One request\<close>

definition s3_path :: "s3_client \<Rightarrow> string \<Rightarrow> string" where
  "s3_path c key = ''/'' @ s3Bucket c @ (if key \<noteq> [] then ''/'' @ key else [])"

definition s3_url :: "s3_client \<Rightarrow> string \<Rightarrow> query \<Rightarrow> string" where
  "s3_url c key q =
     (let qs = canonicalQuery q in
      TrimSuffix (s3Endpoint c) ''/'' @ uriEncode (s3_path c key) True @ (if qs \<noteq> [] then ''?'' @ qs else []))"

text \<open>An answer: a transport error, or the status, the body and the error reading it came to.\<close>

definition s3_outcome :: "go_error + int \<times> string \<times> go_error option \<Rightarrow> go_error + int \<times> string" where
  "s3_outcome answer =
     (case answer of Inl e \<Rightarrow> Inl e
      | Inr (status, body, err) \<Rightarrow>
        if 300 \<le> status then Inr (status, take 512 body)
        else (case err of Some e \<Rightarrow> Inl e | None \<Rightarrow> Inr (status, [])))"

definition list_query :: "string \<Rightarrow> int \<Rightarrow> query" where
  "list_query pre maxKeys = [(''list-type'', [''2'']), (''max-keys'', [itoa maxKeys]), (''prefix'', [pre])]"

section \<open>What the server reads\<close>

text \<open>Percent decoding, and a query string read back into its parameters.\<close>

definition hex_upper_val :: "char \<Rightarrow> nat" where
  "hex_upper_val c = (let n = of_char c in if n \<le> 57 then n - 48 else n - 55)"

fun percent_decode :: "string \<Rightarrow> string" where
  "percent_decode (c # a # b # t) =
     (if c = CHR 0x25 then char_of (16 * hex_upper_val a + hex_upper_val b) # percent_decode t
      else c # percent_decode (a # b # t))"
| "percent_decode s = s"

definition read_query :: "string \<Rightarrow> (string \<times> string) list" where
  "read_query s =
     (if s = [] then []
      else map (\<lambda>p. case strings_Cut p ''='' of Some (k, v) \<Rightarrow> (percent_decode k, percent_decode v)
                 | None \<Rightarrow> (percent_decode p, [])) (strings_Split s (CHR ''&'')))"

lemma hex_upper_back: "d < 16 \<Longrightarrow> hex_upper_val (hex_upper d) = d"
  by (simp add: hex_upper_val_def hex_upper_def Let_def)

lemma high_half: "of_char c div 16 < (16 :: nat)"
proof -
  have "of_char c < (16 * 16 :: nat)" by simp
  then show ?thesis by (rule less_mult_imp_div_less)
qed

lemma decode_plain: "c \<noteq> CHR 0x25 \<Longrightarrow> percent_decode (c # t) = c # percent_decode t"
  by (cases t; cases "tl t") auto

lemma unreserved_percent: "unreserved keepSlash c \<Longrightarrow> c \<noteq> CHR 0x25"
  by (auto simp: unreserved_def Let_def)

lemma decode_byte: "percent_decode (encode_byte keepSlash c @ t) = c # percent_decode t"
proof (cases "unreserved keepSlash c")
  case True
  then show ?thesis by (simp add: encode_byte_def decode_plain unreserved_percent)
next
  case False
  note half = high_half[of c]
  then show ?thesis using False by (simp add: encode_byte_def Let_def hex_upper_back half)
qed

lemma decode_encode: "percent_decode (uriEncode s keepSlash) = s"
  by (induction s) (simp_all add: uriEncode_def decode_byte)

lemma encode_clean:
  assumes "c \<in> set (uriEncode s False)"
  shows "c \<noteq> CHR ''&'' \<and> c \<noteq> CHR ''=''"
proof -
  have hex: "hex_upper d \<noteq> CHR ''&'' \<and> hex_upper d \<noteq> CHR ''=''" if "d < 16" for d
  proof -
    have "of_char (hex_upper d) \<noteq> (38 :: nat) \<and> of_char (hex_upper d) \<noteq> (61 :: nat)"
      using that by (auto simp: hex_upper_def)
    then show ?thesis by auto
  qed
  obtain b where b: "b \<in> set s" "c \<in> set (encode_byte False b)" using assms by (auto simp: uriEncode_def)
  show ?thesis
    using b(2) hex[OF high_half[of b]] hex[of "of_char b mod 16"] by (auto simp: encode_byte_def unreserved_def Let_def split: if_splits)
qed


end
