(* ===== verification/Dashboard.thy ===== *)
theory Dashboard
  imports GoFmt GoFiles JsonText
begin

text \<open>
  Package \<open>dashboard\<close> (src/dashboard/dashboard.go): the claims, the book of readings, what a result
  file answers, and the page. A book is a map from target ids to readings, kept as an association
  list whose order carries no meaning.
\<close>

section \<open>Targets, readings, books\<close>

record target =
  tID :: string
  tGroup :: string
  tClaim :: string
  tScenario :: string
  tLabel :: string
  tPath :: string
  tDivideBy :: f64
  tUnit :: string
  tCompare :: string
  tTarget :: f64
  tEarns :: string
  tNote :: string

record reading =
  rValue :: f64
  rLabel :: string
  rHost :: string
  rDate :: string
  rSource :: string
  rSimulated :: string

type_synonym book = "(string \<times> reading) list"

definition target_zero :: target where
  "target_zero = \<lparr>tID = [], tGroup = [], tClaim = [], tScenario = [], tLabel = [], tPath = [],
     tDivideBy = 0, tUnit = [], tCompare = [], tTarget = 0, tEarns = [], tNote = []\<rparr>"

definition target_fields :: "target fields" where
  "target_fields =
     [(''id'', on_field dec_string tID (\<lambda>v. tID_update (\<lambda>_. v))),
      (''group'', on_field dec_string tGroup (\<lambda>v. tGroup_update (\<lambda>_. v))),
      (''claim'', on_field dec_string tClaim (\<lambda>v. tClaim_update (\<lambda>_. v))),
      (''scenario'', on_field dec_string tScenario (\<lambda>v. tScenario_update (\<lambda>_. v))),
      (''label'', on_field dec_string tLabel (\<lambda>v. tLabel_update (\<lambda>_. v))),
      (''path'', on_field dec_string tPath (\<lambda>v. tPath_update (\<lambda>_. v))),
      (''divide_by'', on_field dec_float tDivideBy (\<lambda>v. tDivideBy_update (\<lambda>_. v))),
      (''unit'', on_field dec_string tUnit (\<lambda>v. tUnit_update (\<lambda>_. v))),
      (''compare'', on_field dec_string tCompare (\<lambda>v. tCompare_update (\<lambda>_. v))),
      (''target'', on_field dec_float tTarget (\<lambda>v. tTarget_update (\<lambda>_. v))),
      (''earns'', on_field dec_string tEarns (\<lambda>v. tEarns_update (\<lambda>_. v))),
      (''note'', on_field dec_string tNote (\<lambda>v. tNote_update (\<lambda>_. v)))]"

definition reading_zero :: reading where
  "reading_zero = \<lparr>rValue = 0, rLabel = [], rHost = [], rDate = [], rSource = [], rSimulated = []\<rparr>"

definition reading_fields :: "reading fields" where
  "reading_fields =
     [(''value'', on_field dec_float rValue (\<lambda>v. rValue_update (\<lambda>_. v))),
      (''label'', on_field dec_string rLabel (\<lambda>v. rLabel_update (\<lambda>_. v))),
      (''host'', on_field dec_string rHost (\<lambda>v. rHost_update (\<lambda>_. v))),
      (''date'', on_field dec_string rDate (\<lambda>v. rDate_update (\<lambda>_. v))),
      (''source'', on_field dec_string rSource (\<lambda>v. rSource_update (\<lambda>_. v))),
      (''simulated'', on_field dec_string rSimulated (\<lambda>v. rSimulated_update (\<lambda>_. v)))]"

fun check_targets :: "string \<Rightarrow> string list \<Rightarrow> target list \<Rightarrow> go_error option" where
  "check_targets path seen [] = None"
| "check_targets path seen (t # ts) =
     (if tID t = [] then Some (path @ '': a target with no id'')
      else if tID t \<in> set seen then Some (path @ '': two targets called '' @ tID t)
      else if tCompare t \<in> {[], ''<='', ''>=''} then check_targets path (tID t # seen) ts
      else Some (path @ '': '' @ tID t @ '' compares with '' @ Quote (tCompare t) @ '', which is neither <= nor >=''))"

definition LoadTargets :: "string \<Rightarrow> string go_result \<Rightarrow> target list go_result" where
  "LoadTargets path file =
     (case file of Inl e \<Rightarrow> Inl e
      | Inr raw \<Rightarrow>
        (case json_Unmarshal (dec_list target_zero (dec_struct False target_fields)) raw [] of
           None \<Rightarrow> Inl (path @ '': json'')
         | Some out \<Rightarrow> (case check_targets path [] out of Some e \<Rightarrow> Inl e | None \<Rightarrow> Inr out)))"

definition book_fields :: "book fields" where
  "book_fields = [(''readings'', on_field (dec_map reading_zero (dec_struct False reading_fields)) (\<lambda>b. b) (\<lambda>v _. v))]"

definition LoadBook :: "string \<Rightarrow> file_read \<Rightarrow> book go_result" where
  "LoadBook path file =
     (case file of NotExist \<Rightarrow> Inr []
      | ReadErr e \<Rightarrow> Inl e
      | Contents raw \<Rightarrow>
        (case json_Unmarshal (dec_struct False book_fields) raw [] of
           None \<Rightarrow> Inl (path @ '': json'')
         | Some b \<Rightarrow> Inr b))"

definition reading_json :: "reading \<Rightarrow> json" where
  "reading_json r =
     JObj ([(''value'', JNum (json_float (rValue r))), (''label'', JStr (rLabel r)), (''host'', JStr (rHost r)),
       (''date'', JStr (rDate r)), (''source'', JStr (rSource r))]
       @ (if rSimulated r = [] then [] else [(''simulated'', JStr (rSimulated r))]))"

text \<open>Saving writes the map in key order.\<close>

definition book_text :: "book \<Rightarrow> string" where
  "book_text b =
     MarshalIndent (JObj [(''readings'', JObj (map (\<lambda>(k, r). (k, reading_json r)) (sort_key fst b)))]) @ newline"

definition Book_Save :: "go_error option \<Rightarrow> string \<Rightarrow> book \<Rightarrow> files \<Rightarrow> go_error option \<times> files" where
  "Book_Save werr path b fs =
     (case werr of Some e \<Rightarrow> (Some e, fs) | None \<Rightarrow> (None, fs(path \<mapsto> book_text b)))"

section \<open>Reading a result file\<close>

definition value_step :: "any \<Rightarrow> string \<Rightarrow> any option" where
  "value_step cur seg =
     (if seg = [] then None else
      case cur of
        AMap node \<Rightarrow> map_of node seg
      | AList node \<Rightarrow>
          (case strings_Cut seg ''='' of
             Some (key, want) \<Rightarrow>
               find (\<lambda>e. case as_map e of None \<Rightarrow> False | Some m \<Rightarrow> as_string (map_get m key) = Some want) node
           | None \<Rightarrow>
               (case Atoi seg of None \<Rightarrow> None
                | Some i \<Rightarrow> if i < 0 \<or> int (length node) \<le> i then None else Some (node ! nat i)))
      | _ \<Rightarrow> None)"

fun value_walk :: "any \<Rightarrow> string list \<Rightarrow> any option" where
  "value_walk cur [] = Some cur"
| "value_walk cur (seg # segs) = (case value_step cur seg of None \<Rightarrow> None | Some v \<Rightarrow> value_walk v segs)"

definition Value :: "any \<Rightarrow> string \<Rightarrow> f64 option" where
  "Value doc path =
     (case value_walk doc (strings_Split path (CHR ''.'')) of
        Some (AFloat v) \<Rightarrow> Some v
      | Some (ABool b) \<Rightarrow> Some (if b then 1 else 0)
      | _ \<Rightarrow> None)"

definition or_empty :: "string option \<Rightarrow> string" where
  "or_empty v = (case v of None \<Rightarrow> [] | Some s \<Rightarrow> s)"

definition take_target :: "(string \<times> any) list \<Rightarrow> string \<Rightarrow> book \<Rightarrow> target \<Rightarrow> book" where
  "take_target result source out t =
     (let scenario = or_empty (as_string (map_get result ''scenario''));
          label = or_empty (as_string (map_get result ''label''));
          host = (case as_map (map_get result ''env'') of None \<Rightarrow> [] | Some env \<Rightarrow> or_empty (as_string (map_get env ''hostname'')));
          date = or_empty (as_string (map_get result ''date''));
          sim = or_empty (as_string (map_get result ''simulated''))
      in if tScenario t \<noteq> scenario then out
         else if tLabel t \<noteq> [] \<and> tLabel t \<noteq> label then out
         else case Value (AMap result) (tPath t) of None \<Rightarrow> out
         | Some v \<Rightarrow>
           let v = (if tDivideBy t \<noteq> 0 then fdiv v (tDivideBy t) else v)
           in map_upd (tID t) (\<lambda>_. \<lparr>rValue = v, rLabel = label, rHost = host, rDate = date, rSource = source,
                rSimulated = sim\<rparr>) out)"

definition Take :: "target list \<Rightarrow> (string \<times> any) list \<Rightarrow> string \<Rightarrow> book" where
  "Take targets result source = foldl (take_target result source) [] targets"

definition merge_reading :: "book \<Rightarrow> string \<times> reading \<Rightarrow> book" where
  "merge_reading b ir =
     (let (k, r) = ir in
      case map_of b k of
        Some old \<Rightarrow> if rDate r < rDate old then b else map_upd k (\<lambda>_. r) b
      | None \<Rightarrow> map_upd k (\<lambda>_. r) b)"

definition Merge :: "book \<Rightarrow> book \<Rightarrow> book" where "Merge b fresh = foldl merge_reading b fresh"

section \<open>Verdicts\<close>

datatype Verdict = Met | Missed | Simulated | Reported | NotMeasured

definition verdict_text :: "Verdict \<Rightarrow> string" where
  "verdict_text v = (case v of Met \<Rightarrow> ''met'' | Missed \<Rightarrow> ''missed'' | Simulated \<Rightarrow> ''simulated''
     | Reported \<Rightarrow> ''reported'' | NotMeasured \<Rightarrow> ''not measured'')"

definition Judge :: "target \<Rightarrow> reading option \<Rightarrow> Verdict" where
  "Judge t reading =
     (case reading of None \<Rightarrow> NotMeasured
      | Some r \<Rightarrow>
        if rSimulated r \<noteq> [] then Simulated
        else if tCompare t = [] then Reported
        else if tCompare t = ''<='' \<and> rValue r \<le> tTarget t then Met
        else if tCompare t = ''>='' \<and> tTarget t \<le> rValue r then Met
        else Missed)"

definition Tally :: "target list \<Rightarrow> book \<Rightarrow> Verdict \<Rightarrow> nat" where
  "Tally targets b v = length (filter (\<lambda>t. Judge t (map_of b (tID t)) = v) targets)"

section \<open>The page\<close>

definition trim_right_zeros :: "string \<Rightarrow> string" where
  "trim_right_zeros s = rev (dropWhile (\<lambda>c. c = CHR ''0'') (rev s))"

definition dash_trim :: "f64 \<Rightarrow> string" where
  "dash_trim v =
     (let a = \<bar>v\<bar>;
          digits = (if 1000 \<le> a then 0 else if 100 \<le> a then 1 else if 10 \<le> a then 2 else 3);
          s = fmt_fixed digits v
      in if \<not> strings_Contains s ''.'' then s else TrimSuffix (trim_right_zeros s) ''.'')"

definition dash_groups :: "target list \<Rightarrow> string list" where
  "dash_groups targets = foldl (\<lambda>out t. if tGroup t \<in> set out then out else out @ [tGroup t]) [] targets"

definition dash_line :: "target \<Rightarrow> string" where
  "dash_line t =
     (if tCompare t = [] then ''no line'' else tCompare t @ '' '' @ dash_trim (tTarget t) @ '' '' @ tUnit t)"

definition dash_measured :: "target \<Rightarrow> reading option \<Rightarrow> string" where
  "dash_measured t reading = (case reading of None \<Rightarrow> [] | Some r \<Rightarrow> dash_trim (rValue r) @ '' '' @ tUnit t)"

definition dash_where :: "reading option \<Rightarrow> string" where
  "dash_where reading =
     (case reading of None \<Rightarrow> []
      | Some r \<Rightarrow>
        if rHost r \<noteq> [] \<and> \<not> strings_Contains (rLabel r) (rHost r) then rLabel r @ '' on '' @ rHost r else rLabel r)"

definition dash_when :: "reading option \<Rightarrow> string" where
  "dash_when reading =
     (case reading of None \<Rightarrow> [] | Some r \<Rightarrow> if length (rDate r) < 10 then [] else take 10 (rDate r))"

definition dash_row :: "book \<Rightarrow> target \<Rightarrow> string" where
  "dash_row b tg =
     (let r = map_of b (tID tg) in
      ''| '' @ tClaim tg @ '' | '' @ dash_line tg @ '' | '' @ dash_measured tg r @ '' | '' @ verdict_text (Judge tg r)
        @ '' | '' @ dash_where r @ '' | '' @ dash_when r @ '' | '' @ tEarns tg @ '' |'' @ newline)"

definition dash_group :: "target list \<Rightarrow> book \<Rightarrow> string \<Rightarrow> string" where
  "dash_group targets b grp =
     ''## '' @ grp @ newline @ newline
       @ ''| claim | line | measured | | where | when | earns |'' @ newline
       @ ''| --- | --- | ---: | --- | --- | --- | --- |'' @ newline
       @ concat (map (dash_row b) (filter (\<lambda>t. tGroup t = grp) targets))
       @ newline
       @ concat (map (\<lambda>t. tNote t @ newline) (filter (\<lambda>t. tGroup t = grp \<and> tNote t \<noteq> []) targets))
       @ newline"

definition dash_intro :: string where
  "dash_intro =
     ''# Benchmark dashboard'' @ newline @ newline
       @ ''Generated by `zoubench dashboard` out of the result files the runs wrote, so every number here is one a run measured rather than one somebody remembered to copy over.'' @ newline
       @ ''The raw json stays out of git and each run happens on whichever machine can run it, so the readings are kept in `dashboard.json` next to this page and merged run by run.'' @ newline
       @ ''Regenerate with `zoubench dashboard --targets docs/targets.json --book docs/dashboard.json --out docs/dashboard.md <result.json>...` on the machine holding the json, and commit both files.'' @ newline @ newline
       @ ''A row is met when the measured number is on the right side of the line, and nothing else counts.'' @ newline
       @ ''A simulated store is never met, because a simulated number only holds a place until a real bucket replaces it.'' @ newline
       @ ''A claim nothing has measured yet says so instead of being left off, and a headline number with no line under it yet is reported rather than judged.'' @ newline @ newline"

definition dash_standing :: "target list \<Rightarrow> book \<Rightarrow> string" where
  "dash_standing targets b =
     (let t = Tally targets b; n = (\<lambda>k. itoa (int k)) in
      ''## Where it stands'' @ newline @ newline
        @ n (t Met) @ '' of '' @ n (t Met + t Missed + t Simulated + t NotMeasured) @ '' claims met, '' @ n (t Missed)
        @ '' missed, '' @ n (t Simulated) @ '' simulated, '' @ n (t NotMeasured) @ '' not measured yet, and ''
        @ n (t Reported) @ '' numbers reported without a line.'' @ newline @ newline)"

definition dash_sources :: "book \<Rightarrow> string list" where
  "dash_sources b = sort (remdups (filter (\<lambda>s. s \<noteq> []) (map (\<lambda>(_, r). rSource r) b)))"

definition Render :: "target list \<Rightarrow> book \<Rightarrow> string" where
  "Render targets b =
     dash_intro @ dash_standing targets b @ concat (map (dash_group targets b) (dash_groups targets))
       @ ''## Where the numbers came from'' @ newline @ newline
       @ (if dash_sources b = [] then ''Nothing has been measured into this book yet.'' @ newline
          else concat (map (\<lambda>f. ''- `'' @ f @ ''`'' @ newline) (dash_sources b)))"

section \<open>Merging\<close>

text \<open>What a book knows of a target after one more reading of it.\<close>

definition newer :: "reading option \<Rightarrow> reading option \<Rightarrow> reading option" where
  "newer old fresh =
     (case fresh of None \<Rightarrow> old
      | Some r \<Rightarrow> (case old of None \<Rightarrow> Some r | Some o1 \<Rightarrow> if rDate r < rDate o1 then Some o1 else Some r))"

lemma map_of_merge_reading: "map_of (merge_reading b (k, r)) = (map_of b)(k := newer (map_of b k) (Some r))"
  by (auto simp: merge_reading_def newer_def map_of_map_upd split: option.splits)

lemma map_of_Merge:
  "distinct (map fst fresh) \<Longrightarrow> map_of (Merge b fresh) k = newer (map_of b k) (map_of fresh k)"
proof (induction fresh arbitrary: b)
  case Nil
  then show ?case by (simp add: Merge_def newer_def)
next
  case (Cons e fresh)
  obtain a r where e: "e = (a, r)" by fastforce
  have "map_of (Merge b (e # fresh)) k = newer (map_of (merge_reading b e) k) (map_of fresh k)"
    using Cons by (simp add: Merge_def)
  moreover have "map_of fresh k = None" if "k = a"
    using Cons.prems e that by (simp add: map_of_eq_None_iff)
  ultimately show ?case using e by (auto simp: map_of_merge_reading newer_def split: option.splits)
qed

lemma distinct_Merge: "distinct (map fst b) \<Longrightarrow> distinct (map fst (Merge b fresh))"
  unfolding Merge_def
  by (induction fresh arbitrary: b) (auto simp: merge_reading_def distinct_map_upd split: option.splits)

lemma distinct_Take: "distinct (map fst (Take targets result source))"
proof -
  have "distinct (map fst b) \<Longrightarrow> distinct (map fst (take_target result source b t))" for b t
    by (auto simp: take_target_def Let_def distinct_map_upd split: option.splits)
  then have "distinct (map fst b) \<Longrightarrow> distinct (map fst (foldl (take_target result source) b targets))" for b
    by (induction targets arbitrary: b) simp_all
  then show ?thesis by (simp add: Take_def)
qed

text \<open>The readings of one target in a list of books, and the last of the newest of them.\<close>

definition readings_of :: "string \<Rightarrow> book list \<Rightarrow> reading list" where
  "readings_of k fs = List.map_filter (\<lambda>f. map_of f k) fs"

fun newest :: "reading option \<Rightarrow> reading list \<Rightarrow> reading option" where
  "newest old [] = old"
| "newest old (r # rs) = newest (newer old (Some r)) rs"

lemma map_of_merges:
  "\<forall>f \<in> set fs. distinct (map fst f) \<Longrightarrow> map_of (foldl Merge b fs) k = newest (map_of b k) (readings_of k fs)"
proof (induction fs arbitrary: b)
  case (Cons f fs)
  have "map_of (foldl Merge (Merge b f) fs) k = newest (map_of (Merge b f) k) (readings_of k fs)"
    using Cons by simp
  then show ?case using Cons.prems
    by (cases "map_of f k") (simp_all add: readings_of_def map_of_Merge newer_def[of _ None])
qed (simp add: readings_of_def)

lemma newest_max:
  "newest old rs = Some r \<Longrightarrow> r \<in> set_option old \<union> set rs \<and> (\<forall>x \<in> set_option old \<union> set rs. rDate x \<le> rDate r)"
proof (induction rs arbitrary: old)
  case (Cons y rs)
  have h: "newest (newer old (Some y)) rs = Some r" using Cons.prems by simp
  have "set_option (newer old (Some y)) \<subseteq> set_option old \<union> {y}"
    "\<forall>x \<in> set_option old \<union> {y}. \<exists>z \<in> set_option (newer old (Some y)). rDate x \<le> rDate z"
    by (auto simp: newer_def split: option.splits)
  then show ?case using Cons.IH[OF h] by (auto intro: order_trans dest: bspec)
qed auto

lemma newest_None: "newest old rs = None \<longleftrightarrow> old = None \<and> rs = []"
  by (induction rs arbitrary: old) (auto simp: newer_def split: option.splits)


definition read_on :: "string \<Rightarrow> rat \<Rightarrow> reading" where
  "read_on date v = \<lparr>rValue = v, rLabel = ''box'', rHost = ''h'', rDate = date, rSource = date, rSimulated = []\<rparr>"


section \<open>Verdicts\<close>


end
