(* ===== verification/CmdDashboard.thy ===== *)
theory CmdDashboard
  imports Dashboard CmdReport
begin

text \<open>
  \<open>zoubench dashboard\<close> (src/cmd/zoubench/dashboard.go): result files merged into the book, the page
  rendered from it and both written.
\<close>

definition trim_dashes :: "string \<Rightarrow> string" where
  "trim_dashes a = dropWhile (\<lambda>c. c = CHR ''-'') a"

fun splitDashboardArgs :: "string list \<Rightarrow> string list \<times> string list" where
  "splitDashboardArgs [] = ([], [])"
| "splitDashboardArgs (a # rest) =
     (if \<not> HasPrefix a ''-'' then apsnd (\<lambda>r. a # r) (splitDashboardArgs rest)
      else if \<not> strings_Contains a ''='' \<and> trim_dashes a \<in> {''targets'', ''book'', ''out''}
        then (case rest of v # rest' \<Rightarrow> apfst (\<lambda>f. a # v # f) (splitDashboardArgs rest') | [] \<Rightarrow> ([a], []))
      else apfst (\<lambda>f. a # f) (splitDashboardArgs rest))"

definition dashboard_file :: "target list \<Rightarrow> string \<Rightarrow> doc \<Rightarrow> book \<Rightarrow> string \<times> book" where
  "dashboard_file targets path r b =
     (let fresh = Take targets r (path_Base path) in
      if fresh = [] then (path_Base path @ '': no target reads anything out of this'' @ newline, b)
      else (concat (map (\<lambda>(k, _). path_Base path @ '': '' @ k @ newline) fresh), Merge b fresh))"

fun dashboard_files :: "target list \<Rightarrow> (string \<Rightarrow> string go_result) \<Rightarrow> string list \<Rightarrow> book \<Rightarrow> printed \<times> book" where
  "dashboard_files targets read [] b = (([], None), b)"
| "dashboard_files targets read (p # ps) b =
     (case read p of Inl e \<Rightarrow> (([], Some e), b)
      | Inr raw \<Rightarrow>
        (case read_doc (Inr raw) of
           Inl e \<Rightarrow> (([], Some (p @ '': '' @ e)), b)
         | Inr r \<Rightarrow>
           let (said, b) = dashboard_file targets p r b;
               ((more, err), b) = dashboard_files targets read ps b
           in ((said @ more, err), b)))"

definition dashboard_summary :: "string \<Rightarrow> target list \<Rightarrow> book \<Rightarrow> string" where
  "dashboard_summary out targets b =
     (let t = Tally targets b; n = (\<lambda>k. itoa (int k)) in
      out @ '': '' @ n (t Met) @ '' met, '' @ n (t Missed) @ '' missed, '' @ n (t Simulated) @ '' simulated, ''
        @ n (t NotMeasured) @ '' not measured, '' @ n (t Reported) @ '' reported'' @ newline)"

text \<open>The writes as they come out: the page's directory, the page, the book.\<close>

record dashboard_io =
  page_dir_err :: "go_error option"
  page_err :: "go_error option"
  book_err :: "go_error option"

definition cmdDashboard :: "(string \<Rightarrow> string go_result) \<Rightarrow> file_read \<Rightarrow> dashboard_io \<Rightarrow> string \<Rightarrow> string \<Rightarrow> string \<Rightarrow>
    string list \<Rightarrow> files \<Rightarrow> printed \<times> files" where
  "cmdDashboard read old io targetsPath bookPath out results fs =
     (case LoadTargets targetsPath (read targetsPath) of Inl e \<Rightarrow> (([], Some e), fs)
      | Inr targets \<Rightarrow>
        (case LoadBook bookPath old of Inl e \<Rightarrow> (([], Some e), fs)
         | Inr b \<Rightarrow>
           (case dashboard_files targets read results b of
              ((said, Some e), _) \<Rightarrow> ((said, Some e), fs)
            | ((said, None), b) \<Rightarrow>
              (case page_dir_err io of Some e \<Rightarrow> ((said, Some e), fs)
               | None \<Rightarrow>
                 (case page_err io of Some e \<Rightarrow> ((said, Some e), fs)
                  | None \<Rightarrow>
                    let fs = fs(out \<mapsto> Render targets b) in
                    (case Book_Save (book_err io) bookPath b fs of
                       (Some e, fs) \<Rightarrow> ((said, Some e), fs)
                     | (None, fs) \<Rightarrow> ((said @ dashboard_summary out targets b, None), fs)))))))"

end
